(* ===== verification/Prelude.thy ===== *)
theory Prelude
  imports
    Main
    "HOL-Library.Word"
    "HOL-Library.Finite_Map"
    "HOL-Library.Multiset"
    "HOL-Library.Char_ord"
    "HOL-Library.List_Lexorder"
    "HOL-Library.Product_Lexorder"
begin

text \<open>
  The prelude of the development: the names of the Go machine types, the combinators the
  models of validation and of state-changing methods are written with, and the lemmas on
  finite maps, words and options that every component uses.

  A Go \<^verbatim>\<open>string\<close> and a \<^verbatim>\<open>[]byte\<close> are both sequences of bytes, so both are HOL
  strings: a HOL character is exactly one byte, and the lexicographic order of
  \<^verbatim>\<open>List_Lexorder\<close> over \<^verbatim>\<open>Char_ord\<close> is Go's byte-wise string order. A Go map is a finite
  map; a loop over one in the source visits the keys in an unspecified order, and its
  model visits them in ascending order.
\<close>

type_synonym u8 = "8 word"
type_synonym u32 = "32 word"
type_synonym u64 = "64 word"

text \<open>\<open>time.Duration\<close> and \<open>int64\<close> values are integers; Go durations count nanoseconds.\<close>

type_synonym duration = int

abbreviation millisecond :: duration where "millisecond \<equiv> 1000000"
abbreviation second :: duration where "second \<equiv> 1000000000"
abbreviation minute :: duration where "minute \<equiv> 60000000000"

text \<open>
  The collection \<open>checks\<close> holds what turns a validation that returned nil into the facts
  it has checked; \<open>store_simps\<close> what the state-changing operations unfold to.
\<close>

named_theorems checks
named_theorems store_simps

subsection \<open>Early returns\<close>

text \<open>
  A Go validation is a sequence of statements \<^verbatim>\<open>if cond { return err }\<close> and
  \<^verbatim>\<open>if err := sub(); err != nil { return err }\<close>. Its model is the list of these
  statements: each is \<open>None\<close> when it falls through and \<open>Some e\<close> when it returns, and
  the first that returns decides.
\<close>

fun first_error :: "'e option list \<Rightarrow> 'e option" where
  "first_error [] = None"
| "first_error (None # rest) = first_error rest"
| "first_error (Some e # rest) = Some e"

definition fail_if :: "bool \<Rightarrow> 'e \<Rightarrow> 'e option" where
  "fail_if condition e = (if condition then Some e else None)"

lemma fail_if_simps [simp]: "fail_if True e = Some e" "fail_if False e = None"
  by (simp_all add: fail_if_def)

lemma fail_if_None [simp, checks]: "fail_if c e = None \<longleftrightarrow> \<not> c"
  by (simp add: fail_if_def)

lemma fail_if_Some [simp]: "fail_if c e = Some e' \<longleftrightarrow> c \<and> e' = e"
  by (auto simp: fail_if_def)

lemma first_error_Cons_None [simp, checks]:
  "first_error (x # xs) = None \<longleftrightarrow> x = None \<and> first_error xs = None"
  by (cases x) auto

lemma first_error_None_iff: "first_error xs = None \<longleftrightarrow> (\<forall>x \<in> set xs. x = None)"
  by (induction xs) auto

lemma first_error_append: 
  "first_error (xs @ ys) = (case first_error xs of None \<Rightarrow> first_error ys | Some e \<Rightarrow> Some e)"
  by (induction xs rule: first_error.induct) auto

text \<open>
  The error a validation returns is one of the errors its statements name.
\<close>

lemma first_error_Some_in: "first_error xs = Some e \<Longrightarrow> Some e \<in> set xs"
  by (induction xs rule: first_error.induct) auto

text \<open>
  An operation that may change its receiver takes the state and returns what the Go code
  returns together with the state it leaves behind, also where it returns an error.
\<close>

type_synonym ('e, 's, 'a) operation = "'s \<Rightarrow> ('e + 'a) \<times> 's"

text \<open>\<open>check v s k\<close>: return the error of the validation \<open>v\<close>, or go on with \<open>k\<close>.\<close>

definition check :: "'e option \<Rightarrow> 's \<Rightarrow> ('e + 'a) \<times> 's \<Rightarrow> ('e + 'a) \<times> 's" where
  "check v s k = (case v of Some e \<Rightarrow> (Inl e, s) | None \<Rightarrow> k)"

lemma check_simps [simp]: "check None s k = k" "check (Some e) s k = (Inl e, s)"
  by (simp_all add: check_def)

lemma check_eq_Inr [checks]: 
  "check v s k = (Inr a, s') \<longleftrightarrow> v = None \<and> k = (Inr a, s')"
  by (auto simp: check_def split: option.splits)

lemma check_eq_cases:
  "check v s k = r \<Longrightarrow> (\<And>e. v = Some e \<Longrightarrow> r = (Inl e, s) \<Longrightarrow> P) \<Longrightarrow> (v = None \<Longrightarrow> k = r \<Longrightarrow> P) \<Longrightarrow> P"
  by (auto simp: check_def split: option.splits)

subsection \<open>Finite maps as Go maps\<close>

definition map_len :: "('k, 'v) fmap \<Rightarrow> nat" where
  "map_len m = fcard (fmdom m)"

text \<open>\<open>m[k]\<close> of an absent key is the zero value of the element type.\<close>

definition map_get :: "'v \<Rightarrow> ('k, 'v) fmap \<Rightarrow> 'k \<Rightarrow> 'v" where
  "map_get zero m k = (case fmlookup m k of None \<Rightarrow> zero | Some v \<Rightarrow> v)"

definition map_has :: "('k, 'v) fmap \<Rightarrow> 'k \<Rightarrow> bool" where
  "map_has m k \<longleftrightarrow> fmlookup m k \<noteq> None"

text \<open>The values of a map in ascending order of their keys: one order a loop may take.\<close>

definition map_values :: "('k :: linorder, 'v) fmap \<Rightarrow> 'v list" where
  "map_values m = map snd (sorted_list_of_fmap m)"

definition map_keys :: "('k :: linorder, 'v) fmap \<Rightarrow> 'k list" where
  "map_keys m = map fst (sorted_list_of_fmap m)"

lemma map_len_empty [simp]: "map_len fmempty = 0"
  by (simp add: map_len_def)

lemma map_len_upd: 
  "map_len (fmupd k v m) = (if fmlookup m k = None then Suc (map_len m) else map_len m)"
  by (auto simp: map_len_def fcard_finsert_if fmlookup_dom_iff)

lemma map_len_upd_new [simp]: "fmlookup m k = None \<Longrightarrow> map_len (fmupd k v m) = Suc (map_len m)"
  by (simp add: map_len_upd)

lemma map_len_upd_old [simp]: "fmlookup m k = Some u \<Longrightarrow> map_len (fmupd k v m) = map_len m"
  by (simp add: map_len_upd)

lemma map_len_drop_le: "map_len (fmdrop k m) \<le> map_len m"
  unfolding map_len_def fmdom_drop
  by (rule fcard_mono) auto

lemma map_len_drop: "fmlookup m k = Some v \<Longrightarrow> Suc (map_len (fmdrop k m)) = map_len m"
proof -
  assume "fmlookup m k = Some v"
  then have "k |\<in>| fmdom m" by (rule fmdomI)
  then have "finsert k (fmdom m |-| {|k|}) = fmdom m" by auto
  then have "fcard (fmdom m) = Suc (fcard (fmdom m |-| {|k|}))"
    by (metis fcard_finsert_if finsert_fminus_single fminus_finsert_absorb fempty_iff
        finsert_iff fminus_iff)
  then show ?thesis by (simp add: map_len_def)
qed

lemma map_get_upd [simp]: "map_get z (fmupd k v m) k' = (if k = k' then v else map_get z m k')"
  by (simp add: map_get_def)

lemma map_get_empty [simp]: "map_get z fmempty k = z"
  by (simp add: map_get_def)

lemma map_has_simps [simp]:
  "map_has fmempty k = False"
  "map_has (fmupd k v m) k' = (k = k' \<or> map_has m k')"
  "map_has (fmdrop k m) k' = (k \<noteq> k' \<and> map_has m k')"
  by (auto simp: map_has_def)

lemma map_has_iff: "map_has m k \<longleftrightarrow> (\<exists>v. fmlookup m k = Some v)"
  by (simp add: map_has_def)

lemma set_sorted_list_of_fmap [simp]:
  "set (sorted_list_of_fmap m) = {(k, v). fmlookup m k = Some v}"
  by (auto simp: sorted_list_of_fmap_def sorted_list_of_fset_simps fmlookup_dom_iff image_iff)

lemma set_map_values [simp]: "set (map_values m) = {v. \<exists>k. fmlookup m k = Some v}"
  by (force simp: map_values_def)

lemma set_map_keys [simp]: "set (map_keys m) = {k. \<exists>v. fmlookup m k = Some v}"
  by (force simp: map_keys_def)

lemma distinct_map_keys [simp]: "distinct (map_keys m)"
  by (simp add: map_keys_def sorted_list_of_fmap_def sorted_list_of_fset.rep_eq comp_def)

lemma length_map_values [simp]: "length (map_values m) = map_len m"
  by (simp add: map_values_def map_len_def sorted_list_of_fmap_def sorted_list_of_fset.rep_eq
      fcard.rep_eq)

text \<open>A loop that deletes the entries whose value lacks a property.\<close>

definition map_select :: "('v \<Rightarrow> bool) \<Rightarrow> ('k, 'v) fmap \<Rightarrow> ('k, 'v) fmap" where
  "map_select P m = fmfilter (\<lambda>k. case fmlookup m k of None \<Rightarrow> False | Some v \<Rightarrow> P v) m"

lemma fmlookup_map_select [simp]:
  "fmlookup (map_select P m) k =
    (case fmlookup m k of None \<Rightarrow> None | Some v \<Rightarrow> if P v then Some v else None)"
  by (simp add: map_select_def split: option.splits)

lemma map_len_card: "map_len m = card {k. fmlookup m k \<noteq> None}"
  by (simp add: map_len_def fcard.rep_eq fmdom.rep_eq dom_def)

lemma finite_map_dom: "finite {k. fmlookup m k \<noteq> None}"
  using finite_fset [of "fmdom m"] by (simp add: fmdom.rep_eq dom_def)

lemma map_len_fmmap [simp]: "map_len (fmmap f m) = map_len m"
  by (simp add: map_len_card)

lemma map_len_add_le: "map_len (m ++\<^sub>f n) \<le> map_len m + map_len n"
proof -
  have "{k. fmlookup (m ++\<^sub>f n) k \<noteq> None} = {k. fmlookup m k \<noteq> None} \<union> {k. fmlookup n k \<noteq> None}"
    by (auto simp: fmlookup_dom_iff)
  then show ?thesis unfolding map_len_card by (simp add: card_Un_le)
qed

lemma map_len_select:
  "map_len (map_select P m) + map_len (map_select (\<lambda>v. \<not> P v) m) = map_len m"
proof -
  let ?A = "{k. fmlookup (map_select P m) k \<noteq> None}"
  let ?B = "{k. fmlookup (map_select (\<lambda>v. \<not> P v) m) k \<noteq> None}"
  have "{k. fmlookup m k \<noteq> None} = ?A \<union> ?B" by (auto split: option.splits if_splits)
  moreover have "?A \<inter> ?B = {}" by (auto split: option.splits if_splits)
  ultimately show ?thesis
    unfolding map_len_card using card_Un_disjoint [OF finite_map_dom finite_map_dom, of "map_select P m"]
    by metis
qed

lemma map_len_select_le: "map_len (map_select P m) \<le> map_len m"
  using map_len_select [of P m] by simp

text \<open>The number of entries whose value has a property.\<close>

definition map_count :: "('v \<Rightarrow> bool) \<Rightarrow> ('k, 'v) fmap \<Rightarrow> nat" where
  "map_count P m = card {k. \<exists>v. fmlookup m k = Some v \<and> P v}"

lemma finite_map_count: "finite {k. \<exists>v. fmlookup m k = Some v \<and> P v}"
  by (rule finite_subset [OF _ finite_fset [of "fmdom m"]]) (auto intro: fmdomI)

lemma map_count_empty [simp]: "map_count P fmempty = 0"
  by (simp add: map_count_def)

lemma map_count_upd_new:
  assumes "fmlookup m k = None"
  shows "map_count P (fmupd k v m) = (if P v then Suc (map_count P m) else map_count P m)"
proof -
  have "{j. \<exists>u. fmlookup (fmupd k v m) j = Some u \<and> P u} =
      (if P v then insert k {j. \<exists>u. fmlookup m j = Some u \<and> P u} else {j. \<exists>u. fmlookup m j = Some u \<and> P u})"
    using assms by auto
  moreover have "k \<notin> {j. \<exists>u. fmlookup m j = Some u \<and> P u}" using assms by simp
  ultimately show ?thesis
    unfolding map_count_def using card_insert_disjoint [OF finite_map_count [of m P]] by auto
qed

lemma map_count_upd_old:
  assumes "fmlookup m k = Some u"
  shows "map_count P (fmupd k v m) + (if P u then 1 else 0) = map_count P m + (if P v then 1 else 0)"
proof -
  have "m = fmupd k u (fmdrop k m)" "fmupd k v m = fmupd k v (fmdrop k m)"
    using assms by (auto intro: fmap_ext)
  moreover have "fmlookup (fmdrop k m) k = None" by simp
  ultimately show ?thesis
    using map_count_upd_new [of "fmdrop k m" k P u] map_count_upd_new [of "fmdrop k m" k P v] by simp
qed

lemma map_count_pos: "fmlookup m k = Some v \<Longrightarrow> P v \<Longrightarrow> 0 < map_count P m"
  using finite_map_count [of m P] by (auto simp: map_count_def card_gt_0_iff)

lemma find_SomeD: "find P xs = Some x \<Longrightarrow> x \<in> set xs \<and> P x"
  by (induction xs) (auto split: if_splits)

subsection \<open>Words\<close>

lemma word_inc_zero_iff: "(w :: 'a :: len word) + 1 = 0 \<longleftrightarrow> w = - 1"
  by (simp add: eq_neg_iff_add_eq_0)

lemma unat_inc: "(w :: 'a :: len word) \<noteq> - 1 \<Longrightarrow> unat (w + 1) = Suc (unat w)"
  using unatSuc [of w] word_inc_zero_iff [of w] by (simp add: add.commute)

lemma word_less_inc: "(w :: 'a :: len word) \<noteq> - 1 \<Longrightarrow> w < w + 1"
  by (simp add: word_less_nat_alt unat_inc)

lemma unat_dec: "(w :: 'a :: len word) \<noteq> 0 \<Longrightarrow> unat (w - 1) = unat w - 1"
  by (simp add: unat_minus_one)

end
