(* ===== verification/GoText.thy ===== *)
theory GoText
  imports Prelude
begin

text \<open>
  The parts of Go's text packages that the program uses: the character classes of its
  regular expressions (\<^verbatim>\<open>regexp\<close>), UTF-8 validity (\<^verbatim>\<open>unicode/utf8\<close>), decimal and hexadecimal
  formatting (\<^verbatim>\<open>strconv\<close>, \<^verbatim>\<open>encoding/hex\<close>), and the wall-clock values of package \<^verbatim>\<open>time\<close>.
\<close>

subsection \<open>Character classes\<close>

definition byte_val :: "char \<Rightarrow> int" where
  "byte_val c = of_char c"

definition is_lower :: "char \<Rightarrow> bool" where
  "is_lower c \<longleftrightarrow> 97 \<le> byte_val c \<and> byte_val c \<le> 122"

definition is_upper :: "char \<Rightarrow> bool" where
  "is_upper c \<longleftrightarrow> 65 \<le> byte_val c \<and> byte_val c \<le> 90"

definition is_digit :: "char \<Rightarrow> bool" where
  "is_digit c \<longleftrightarrow> 48 \<le> byte_val c \<and> byte_val c \<le> 57"

definition is_hex_lower :: "char \<Rightarrow> bool" where
  "is_hex_lower c \<longleftrightarrow> is_digit c \<or> 97 \<le> byte_val c \<and> byte_val c \<le> 102"

text \<open>\<open>[A-Za-z0-9._:-]\<close>\<close>

definition is_id_char :: "char \<Rightarrow> bool" where
  "is_id_char c \<longleftrightarrow> is_upper c \<or> is_lower c \<or> is_digit c \<or> c \<in> set ''._:-''"

text \<open>The HTTP token class of \<open>httpTokenPattern\<close>; 39 and 96 are the two quote characters.\<close>

definition is_token_char :: "char \<Rightarrow> bool" where
  "is_token_char c \<longleftrightarrow> is_digit c \<or> is_upper c \<or> is_lower c \<or>
     byte_val c \<in> {33, 35, 36, 37, 38, 39, 42, 43, 45, 46, 94, 95, 96, 124, 126}"

text \<open>A pattern \<open>^[class]{lo,hi}$\<close>; all classes are ASCII, so bytes and runes agree.\<close>

definition matches_class :: "(char \<Rightarrow> bool) \<Rightarrow> nat \<Rightarrow> nat \<Rightarrow> string \<Rightarrow> bool" where
  "matches_class P lo hi s \<longleftrightarrow> lo \<le> length s \<and> length s \<le> hi \<and> list_all P s"

text \<open>A pattern \<open>^[first][class]{0,hi}$\<close>.\<close>

definition matches_head :: "(char \<Rightarrow> bool) \<Rightarrow> (char \<Rightarrow> bool) \<Rightarrow> nat \<Rightarrow> string \<Rightarrow> bool" where
  "matches_head P Q hi s \<longleftrightarrow> (case s of [] \<Rightarrow> False | c # cs \<Rightarrow> P c \<and> matches_class Q 0 hi cs)"

lemma matches_class_nonempty: "matches_class P (Suc n) hi s \<Longrightarrow> s \<noteq> []"
  by (auto simp: matches_class_def)

lemma matches_class_set: "matches_class P lo hi s \<Longrightarrow> c \<in> set s \<Longrightarrow> P c"
  by (auto simp: matches_class_def list_all_iff)

lemma matches_head_set: "matches_head P Q hi s \<Longrightarrow> c \<in> set s \<Longrightarrow> P c \<or> Q c"
  by (cases s) (auto simp: matches_head_def matches_class_def list_all_iff)

subsection \<open>The separator byte\<close>

text \<open>
  Composite map keys are built as \<open>a + "\x00" + b\<close>. Where \<open>a\<close> cannot contain the zero
  byte the composition is injective, so two keys are equal only for equal components.
\<close>

definition nul_join :: "string \<Rightarrow> string \<Rightarrow> string" where
  "nul_join a b = a @ [CHR 0x00] @ b"

lemma sep_inject:
  assumes "c \<notin> set a" "c \<notin> set b"
  shows "a @ c # x = b @ c # y \<longleftrightarrow> a = b \<and> x = y"
proof
  assume eq: "a @ c # x = b @ c # y"
  have *: "takeWhile (\<lambda>d. d \<noteq> c) (u @ c # v) = u" if "c \<notin> set u" for u v
    using that by (subst takeWhile_append2) auto
  from eq have "a = b" using *[OF assms(1), of x] *[OF assms(2), of y] by simp
  with eq show "a = b \<and> x = y" by simp
qed auto

lemma nul_join_inject:
  "CHR 0x00 \<notin> set a \<Longrightarrow> CHR 0x00 \<notin> set a' \<Longrightarrow> nul_join a b = nul_join a' b' \<longleftrightarrow> a = a' \<and> b = b'"
  by (simp add: nul_join_def sep_inject)

lemma nul_not_id_char: "\<not> is_id_char (CHR 0x00)"
  by (simp add: is_id_char_def is_upper_def is_lower_def is_digit_def byte_val_def)

subsection \<open>UTF-8\<close>

text \<open>
  The table of \<^verbatim>\<open>unicode/utf8\<close>: the number of bytes of the well-formed encoding at the
  front of a string, or \<open>None\<close> where \<open>DecodeRune\<close> returns \<open>RuneError\<close> with width one.
\<close>

definition is_cont :: "int \<Rightarrow> int \<Rightarrow> char \<Rightarrow> bool" where
  "is_cont lo hi c \<longleftrightarrow> lo \<le> byte_val c \<and> byte_val c \<le> hi"

fun tail2 :: "string \<Rightarrow> bool" where
  "tail2 (b # _) = is_cont 0x80 0xBF b"
| "tail2 _ = False"

fun tail3 :: "int \<Rightarrow> string \<Rightarrow> bool" where
  "tail3 x (b # c # _) =
     (is_cont (if x = 0xE0 then 0xA0 else 0x80) (if x = 0xED then 0x9F else 0xBF) b
      \<and> is_cont 0x80 0xBF c)"
| "tail3 _ _ = False"

fun tail4 :: "int \<Rightarrow> string \<Rightarrow> bool" where
  "tail4 x (b # c # d # _) =
     (is_cont (if x = 0xF0 then 0x90 else 0x80) (if x = 0xF4 then 0x8F else 0xBF) b
      \<and> is_cont 0x80 0xBF c \<and> is_cont 0x80 0xBF d)"
| "tail4 _ _ = False"

fun rune_size :: "string \<Rightarrow> nat option" where
  "rune_size [] = None"
| "rune_size (a # rest) =
     (if byte_val a < 0x80 then Some 1
      else if 0xC2 \<le> byte_val a \<and> byte_val a \<le> 0xDF \<and> tail2 rest then Some 2
      else if 0xE0 \<le> byte_val a \<and> byte_val a \<le> 0xEF \<and> tail3 (byte_val a) rest then Some 3
      else if 0xF0 \<le> byte_val a \<and> byte_val a \<le> 0xF4 \<and> tail4 (byte_val a) rest then Some 4
      else None)"

declare rune_size.simps(2) [simp del]

fun utf8_valid :: "string \<Rightarrow> bool" where
  "utf8_valid [] = True"
| "utf8_valid (c # cs) = (case rune_size (c # cs) of
      None \<Rightarrow> False
    | Some n \<Rightarrow> utf8_valid (drop (n - 1) cs))"

lemma rune_size_pos: "rune_size s = Some n \<Longrightarrow> 0 < n"
  by (cases s) (auto simp: rune_size.simps split: if_splits)

lemma utf8_valid_ascii: "list_all (\<lambda>c. byte_val c < 0x80) s \<Longrightarrow> utf8_valid s"
  by (induction s) (auto simp: rune_size.simps)

subsection \<open>Numbers as text\<close>

fun dec_digits :: "nat \<Rightarrow> int \<Rightarrow> string \<Rightarrow> string" where
  "dec_digits 0 n acc = acc"
| "dec_digits (Suc fuel) n acc =
     (let acc' = char_of (48 + n mod 10) # acc in
      if n < 10 then acc' else dec_digits fuel (n div 10) acc')"

text \<open>
  \<open>strconv.FormatInt(n, 10)\<close> and \<open>FormatUint\<close>: twenty digits hold every 64-bit value.
\<close>

definition format_int :: "int \<Rightarrow> string" where
  "format_int n = (if n < 0 then ''-'' @ dec_digits 20 (- n) [] else dec_digits 20 n [])"

definition format_uint :: "'a :: len word \<Rightarrow> string" where
  "format_uint w = format_int (uint w)"

definition hex_digit :: "int \<Rightarrow> char" where
  "hex_digit n = char_of (if n < 10 then 48 + n else 87 + n)"

text \<open>\<open>hex.EncodeToString\<close>\<close>

definition hex_encode :: "string \<Rightarrow> string" where
  "hex_encode s = concat (map (\<lambda>c. [hex_digit (byte_val c div 16), hex_digit (byte_val c mod 16)]) s)"

lemma byte_val_bounds: "0 \<le> byte_val c" "byte_val c < 256"
proof -
  have "byte_val c = byte_val c mod 256" by (simp add: byte_val_def)
  then show "0 \<le> byte_val c" "byte_val c < 256"
    by (metis pos_mod_sign zero_less_numeral, metis pos_mod_bound zero_less_numeral)
qed

lemma length_hex_encode [simp]: "length (hex_encode s) = 2 * length s"
  by (induction s) (simp_all add: hex_encode_def)

subsection \<open>Decimal formatting is injective\<close>

definition dec_value :: "string \<Rightarrow> int" where
  "dec_value s = foldl (\<lambda>acc c. 10 * acc + (byte_val c - 48)) 0 s"

lemma dec_value_Cons: "dec_value (c # cs) = (byte_val c - 48) * 10 ^ length cs + dec_value cs"
proof -
  have "foldl (\<lambda>acc c. 10 * acc + (byte_val c - 48)) a cs = a * 10 ^ length cs + dec_value cs" for a
    unfolding dec_value_def
  proof (induction cs arbitrary: a rule: rev_induct)
    case (snoc x xs)
    show ?case using snoc.IH [of a] by (simp add: algebra_simps)
  qed simp
  from this [of "byte_val c - 48"] show ?thesis by (simp add: dec_value_def)
qed

lemma byte_val_digit: "0 \<le> d \<Longrightarrow> d < 10 \<Longrightarrow> byte_val (char_of (48 + d)) = 48 + d"
  by (simp add: byte_val_def)

lemma dec_digits_value:
  "0 \<le> n \<Longrightarrow> n < 10 ^ fuel \<Longrightarrow>
     dec_value (dec_digits fuel n acc) = n * 10 ^ length acc + dec_value acc"
proof (induction fuel arbitrary: n acc)
  case (Suc fuel)
  have digit: "byte_val (char_of (48 + n mod 10)) = 48 + n mod 10"
    by (rule byte_val_digit) auto
  show ?case
  proof (cases "n < 10")
    case True
    with Suc.prems digit show ?thesis by (simp add: Let_def dec_value_Cons)
  next
    case False
    with Suc.prems have "0 \<le> n div 10" "n div 10 < 10 ^ fuel"
      by (auto simp: div_less_iff_less_mult mult.commute)
    let ?d = "char_of (48 + n mod 10)"
    have shift: "q * 10 ^ Suc k + (r * 10 ^ k + v) = (10 * q + r) * 10 ^ k + v" for q r v :: int and k
      by (simp add: algebra_simps)
    have "dec_value (dec_digits fuel (n div 10) (?d # acc)) =
        n div 10 * 10 ^ Suc (length acc) + (n mod 10 * 10 ^ length acc + dec_value acc)"
      using Suc.IH [of "n div 10" "?d # acc"] \<open>0 \<le> n div 10\<close> \<open>n div 10 < 10 ^ fuel\<close> digit
      by (simp add: dec_value_Cons)
    then show ?thesis using False by (simp only: shift mult_div_mod_eq) (simp add: Let_def)
  qed
qed (simp add: dec_value_def)

lemma dec_value_format_uint: "dec_value (format_uint (w :: u64)) = uint w"
proof -
  have "uint w < 2 ^ 64" using uint_lt2p [of w] by simp
  then have "uint w < 10 ^ 20" by simp
  then show ?thesis
    using dec_digits_value [of "uint w" 20 "[]"]
    by (simp add: format_uint_def format_int_def dec_value_def)
qed

lemma format_uint_inject [simp]: "format_uint (v :: u64) = format_uint w \<longleftrightarrow> v = w"
  by (metis dec_value_format_uint word_uint_eqI)

subsection \<open>Wall-clock time\<close>

text \<open>
  A \<^verbatim>\<open>time.Time\<close> is an instant (nanoseconds since the zero time, January 1, year 1, UTC) shown
  in a zone of a given offset. The monotonic reading that \<^verbatim>\<open>time.Now\<close> adds is not part of
  it: every stored value has been through \<open>Round(0)\<close>, which drops that reading and is the
  identity on what remains.
\<close>

record Time =
  t_nanos :: int
  t_offset :: int

definition Time_IsZero :: "Time \<Rightarrow> bool" where
  "Time_IsZero t \<longleftrightarrow> t_nanos t = 0"

definition Time_Before :: "Time \<Rightarrow> Time \<Rightarrow> bool" where
  "Time_Before t u \<longleftrightarrow> t_nanos t < t_nanos u"

definition Time_After :: "Time \<Rightarrow> Time \<Rightarrow> bool" where
  "Time_After t u \<longleftrightarrow> t_nanos t > t_nanos u"

definition Time_Equal :: "Time \<Rightarrow> Time \<Rightarrow> bool" where
  "Time_Equal t u \<longleftrightarrow> t_nanos t = t_nanos u"

definition Time_Add :: "Time \<Rightarrow> duration \<Rightarrow> Time" where
  "Time_Add t d = t\<lparr>t_nanos := t_nanos t + d\<rparr>"

definition Time_Round0 :: "Time \<Rightarrow> Time" where
  "Time_Round0 t = t"

lemmas time_simps = Time_IsZero_def Time_Before_def Time_After_def Time_Equal_def Time_Add_def
  Time_Round0_def

lemma Time_Round0_id [simp]: "Time_Round0 t = t"
  by (simp add: Time_Round0_def)

end
