(* ===== verification/GoJson.thy ===== *)
theory GoJson
  imports GoText
begin

text \<open>
  \<^verbatim>\<open>json.Marshal\<close> of \<^verbatim>\<open>encoding/json\<close> on the values the program marshals: booleans, integers,
  strings, slices, maps with string keys and structs. A struct is an object whose members
  keep the field order; a map is an object whose members are sorted by key; a nil pointer,
  slice or map is \<open>null\<close>.
\<close>

datatype json =
    JNull
  | JBool bool
  | JNum int
  | JStr string
  | JArr "json list"
  | JObj "(string \<times> json) list"

subsection \<open>String literals\<close>

abbreviation backslash :: char where "backslash \<equiv> CHR 0x5C"

definition json_unicode :: "string \<Rightarrow> string" where
  "json_unicode digits = [backslash, CHR ''u''] @ digits"

text \<open>
  The ASCII part of \<open>appendString\<close> with HTML escaping on, as \<open>Marshal\<close> has it: 34 is the
  double quote; 60, 62 and 38 are the characters escaped for HTML.
\<close>

definition json_escape_ascii :: "char \<Rightarrow> string" where
  "json_escape_ascii c =
    (if c = backslash \<or> byte_val c = 34 then [backslash, c]
     else if byte_val c = 8 then [backslash, CHR ''b'']
     else if byte_val c = 12 then [backslash, CHR ''f'']
     else if byte_val c = 10 then [backslash, CHR ''n'']
     else if byte_val c = 13 then [backslash, CHR ''r'']
     else if byte_val c = 9 then [backslash, CHR ''t'']
     else if byte_val c < 32 \<or> byte_val c \<in> {60, 62, 38}
       then json_unicode (''00'' @ hex_encode [c])
     else [c])"

fun json_escape :: "string \<Rightarrow> string" where
  "json_escape [] = []"
| "json_escape (c # cs) =
    (if byte_val c < 0x80 then json_escape_ascii c @ json_escape cs
     else case rune_size (c # cs) of
         None \<Rightarrow> json_unicode ''fffd'' @ json_escape cs
       | Some n \<Rightarrow>
           (let r = c # take (n - 1) cs in
            if r = [CHR 0xE2, CHR 0x80, CHR 0xA8] then json_unicode ''2028''
            else if r = [CHR 0xE2, CHR 0x80, CHR 0xA9] then json_unicode ''2029''
            else r)
           @ json_escape (drop (n - 1) cs))"

definition json_quote :: "string \<Rightarrow> string" where
  "json_quote s = [CHR 0x22] @ json_escape s @ [CHR 0x22]"

subsection \<open>Values\<close>

fun join_comma :: "string list \<Rightarrow> string" where
  "join_comma [] = []"
| "join_comma [s] = s"
| "join_comma (s # rest) = s @ '','' @ join_comma rest"

fun json_marshal :: "json \<Rightarrow> string" where
  "json_marshal JNull = ''null''"
| "json_marshal (JBool b) = (if b then ''true'' else ''false'')"
| "json_marshal (JNum n) = format_int n"
| "json_marshal (JStr s) = json_quote s"
| "json_marshal (JArr vs) = ''['' @ join_comma (map json_marshal vs) @ '']''"
| "json_marshal (JObj ms) =
     ''{'' @ join_comma (map (\<lambda>(k, v). json_quote k @ '':'' @ json_marshal v) ms) @ ''}''"

text \<open>A Go integer of either signedness, a pointer that may be nil, a map with string keys.\<close>

definition json_uint :: "'a :: len word \<Rightarrow> json" where
  "json_uint w = JNum (uint w)"

definition json_ptr :: "('a \<Rightarrow> json) \<Rightarrow> 'a option \<Rightarrow> json" where
  "json_ptr f p = (case p of None \<Rightarrow> JNull | Some x \<Rightarrow> f x)"

definition json_map :: "('v \<Rightarrow> json) \<Rightarrow> (string, 'v) fmap \<Rightarrow> json" where
  "json_map f m = JObj (map (\<lambda>(k, v). (k, f v)) (sorted_list_of_fmap m))"

lemma json_escape_plain:
  assumes "list_all (\<lambda>c. 32 \<le> byte_val c \<and> byte_val c < 0x80 \<and> byte_val c \<notin> {34, 38, 60, 62, 92}) s"
  shows "json_escape s = s"
  using assms
  by (induction s) (auto simp: json_escape_ascii_def byte_val_def)

end
