(* ===== verification/GoSort.thy ===== *)
theory GoSort
  imports Prelude
begin

text \<open>
  Go's \<^verbatim>\<open>slices.SortFunc\<close> and \<^verbatim>\<open>slices.SortStableFunc\<close>. The contract of both is on the
  comparison function: it must be a strict weak ordering, and the result is then an
  ascending permutation of the input. The model is a stable insertion sort; where
  elements that compare equal are equal, every algorithm that meets the contract
  returns the same list (\<open>sort_by_unique\<close>), so nothing depends on that choice.

  The locale \<open>go_compare\<close> states the contract; each comparison function of the program
  is an interpretation of it, in the theory of its component.
\<close>

fun insert_by :: "('a \<Rightarrow> 'a \<Rightarrow> int) \<Rightarrow> 'a \<Rightarrow> 'a list \<Rightarrow> 'a list" where
  "insert_by cmp x [] = [x]"
| "insert_by cmp x (y # ys) = (if cmp x y \<le> 0 then x # y # ys else y # insert_by cmp x ys)"

definition sort_by :: "('a \<Rightarrow> 'a \<Rightarrow> int) \<Rightarrow> 'a list \<Rightarrow> 'a list" where
  "sort_by cmp xs = foldr (insert_by cmp) xs []"

lemma sort_by_simps [simp]:
  "sort_by cmp [] = []"
  "sort_by cmp (x # xs) = insert_by cmp x (sort_by cmp xs)"
  by (simp_all add: sort_by_def)

lemma mset_insert_by [simp]: "mset (insert_by cmp x xs) = add_mset x (mset xs)"
  by (induction xs) auto

lemma mset_sort_by [simp]: "mset (sort_by cmp xs) = mset xs"
  by (induction xs) auto

lemma set_sort_by [simp]: "set (sort_by cmp xs) = set xs"
  by (rule mset_eq_setD) simp

lemma length_sort_by [simp]: "length (sort_by cmp xs) = length xs"
  by (metis mset_sort_by size_mset)

lemma sort_by_eq_Nil [simp]: "sort_by cmp xs = [] \<longleftrightarrow> xs = []"
  by (metis length_0_conv length_sort_by)

lemma distinct_map_sort_by [simp]: "distinct (map f (sort_by cmp xs)) = distinct (map f xs)"
  by (rule mset_eq_imp_distinct_iff) (simp only: mset_map mset_sort_by)

lemma map_insert_by: "map f (insert_by (\<lambda>x y. cmp (f x) (f y)) x xs) = insert_by cmp (f x) (map f xs)"
  by (induction xs) auto

lemma map_sort_by: "map f (sort_by (\<lambda>x y. cmp (f x) (f y)) xs) = sort_by cmp (map f xs)"
  by (induction xs) (auto simp: map_insert_by)

lemma insert_by_least: "\<forall>y \<in> set ys. cmp x y \<le> 0 \<Longrightarrow> insert_by cmp x ys = x # ys"
  by (cases ys) auto

lemma sort_by_sorted: "sorted_wrt (\<lambda>x y. cmp x y \<le> 0) xs \<Longrightarrow> sort_by cmp xs = xs"
  by (induction xs) (auto simp: insert_by_least)

text \<open>\<open>strings.Compare\<close> and \<open>cmp.Compare\<close>.\<close>

definition compare_lin :: "'a :: linorder \<Rightarrow> 'a \<Rightarrow> int" where
  "compare_lin x y = (if x < y then - 1 else if x > y then 1 else 0)"

lemma compare_lin_iff [simp]:
  "compare_lin x y < 0 \<longleftrightarrow> x < y"
  "compare_lin x y = 0 \<longleftrightarrow> x = y"
  "compare_lin x y > 0 \<longleftrightarrow> x > y"
  "compare_lin x y \<le> 0 \<longleftrightarrow> x \<le> y"
  by (auto simp: compare_lin_def)

abbreviation ascending :: "('a \<Rightarrow> 'a \<Rightarrow> int) \<Rightarrow> 'a list \<Rightarrow> bool" where
  "ascending cmp \<equiv> sorted_wrt (\<lambda>x y. cmp x y \<le> 0)"

locale go_compare =
  fixes cmp :: "'a \<Rightarrow> 'a \<Rightarrow> int"
    and valid :: "'a \<Rightarrow> bool"
  assumes cmp_flip: "valid x \<Longrightarrow> valid y \<Longrightarrow> cmp x y < 0 \<longleftrightarrow> cmp y x > 0"
    and cmp_trans: "valid x \<Longrightarrow> valid y \<Longrightarrow> valid z \<Longrightarrow> cmp x y \<le> 0 \<Longrightarrow> cmp y z \<le> 0 \<Longrightarrow> cmp x z \<le> 0"
begin

lemma cmp_refl: "valid x \<Longrightarrow> cmp x x = 0"
  using cmp_flip [of x x] by linarith

lemma cmp_total: "valid x \<Longrightarrow> valid y \<Longrightarrow> \<not> cmp x y \<le> 0 \<Longrightarrow> cmp y x \<le> 0"
  using cmp_flip [of y x] by linarith

lemma cmp_zero_flip: "valid x \<Longrightarrow> valid y \<Longrightarrow> cmp x y = 0 \<longleftrightarrow> cmp y x = 0"
  using cmp_flip [of x y] cmp_flip [of y x] by linarith

lemma insert_by_ascending:
  "valid x \<Longrightarrow> \<forall>y \<in> set ys. valid y \<Longrightarrow> ascending cmp ys \<Longrightarrow> ascending cmp (insert_by cmp x ys)"
proof (induction ys)
  case (Cons y ys)
  have set_ins: "set (insert_by cmp x ys) = insert x (set ys)"
    by (metis mset_insert_by set_mset_add_mset_insert set_mset_mset)
  show ?case
  proof (cases "cmp x y \<le> 0")
    case True
    with Cons.prems show ?thesis by (auto intro: cmp_trans)
  next
    case False
    with Cons set_ins show ?thesis by (auto dest: cmp_total)
  qed
qed simp

lemma sort_by_ascending: "\<forall>x \<in> set xs. valid x \<Longrightarrow> ascending cmp (sort_by cmp xs)"
  by (induction xs) (auto intro: insert_by_ascending)

lemma sort_by_head_least:
  assumes "\<forall>x \<in> set xs. valid x" and "sort_by cmp xs = y # ys" and "x \<in> set xs"
  shows "cmp y x \<le> 0"
proof -
  have "ascending cmp (y # ys)" using sort_by_ascending [OF assms(1)] assms(2) by simp
  moreover have "x \<in> set (y # ys)" using assms(2,3) by (metis set_sort_by)
  moreover have "valid y" using assms(1,2) by (metis list.set_intros(1) set_sort_by)
  ultimately show ?thesis using cmp_refl by auto
qed

lemma ascending_unique:
  assumes "mset xs = mset ys" and "ascending cmp xs" and "ascending cmp ys"
    and "\<forall>x \<in> set xs. valid x"
    and "\<forall>x \<in> set xs. \<forall>y \<in> set xs. cmp x y = 0 \<longrightarrow> x = y"
  shows "xs = ys"
  using assms
proof (induction xs arbitrary: ys)
  case Nil
  then show ?case by simp
next
  case (Cons x xs)
  from Cons.prems(1) obtain y ys' where ys: "ys = y # ys'"
    by (cases ys) auto
  have in_x: "y \<in> set (x # xs)" and in_y: "x \<in> set (y # ys')"
    using Cons.prems(1) ys by (metis list.set_intros(1) set_mset_mset)+
  have vy: "valid y" and vx: "valid x" using Cons.prems(4) in_x by auto
  have "cmp x y \<le> 0" using Cons.prems(2) in_x cmp_refl [OF vx] by auto
  moreover have "cmp y x \<le> 0" using Cons.prems(3) ys in_y cmp_refl [OF vy] by auto
  ultimately have "cmp x y = 0"
    using cmp_flip [OF vx vy] cmp_flip [OF vy vx] by linarith
  with Cons.prems(5) in_x have xy: "x = y" by auto
  with Cons.prems(1) ys have "mset xs = mset ys'" by simp
  then have "xs = ys'"
    using Cons.IH Cons.prems(2-5) ys by simp
  with xy ys show ?case by simp
qed

lemma sort_by_unique:
  assumes "mset ys = mset xs" and "ascending cmp ys" and "\<forall>x \<in> set xs. valid x"
    and "\<forall>x \<in> set xs. \<forall>y \<in> set xs. cmp x y = 0 \<longrightarrow> x = y"
  shows "ys = sort_by cmp xs"
  by (rule ascending_unique)
     (use assms sort_by_ascending [OF assms(3)] mset_eq_setD [OF assms(1)] in auto)

lemma sort_by_perm:
  assumes "mset ys = mset xs" and "\<forall>x \<in> set xs. valid x"
    and "\<forall>x \<in> set xs. \<forall>y \<in> set xs. cmp x y = 0 \<longrightarrow> x = y"
  shows "sort_by cmp ys = sort_by cmp xs"
proof (rule sort_by_unique)
  show "ascending cmp (sort_by cmp ys)"
    using sort_by_ascending [of ys] assms(2) mset_eq_setD [OF assms(1)] by simp
qed (use assms in auto)

end

text \<open>
  Most comparison functions of the program order by a key: the sign of the comparison is
  that of the keys in a linear order. The contract then holds for all values.
\<close>

locale key_compare =
  fixes cmp :: "'a \<Rightarrow> 'a \<Rightarrow> int"
    and key :: "'a \<Rightarrow> 'k :: linorder"
  assumes cmp_less: "cmp x y < 0 \<longleftrightarrow> key x < key y"
    and cmp_eq: "cmp x y = 0 \<longleftrightarrow> key x = key y"
begin

lemma cmp_le: "cmp x y \<le> 0 \<longleftrightarrow> key x \<le> key y"
  using cmp_less [of x y] cmp_eq [of x y] by (simp add: le_less)

lemma cmp_greater: "cmp x y > 0 \<longleftrightarrow> key x > key y"
  using cmp_le [of x y] by (auto simp: not_le)

lemma distinct_keys_inj:
  "distinct (map key xs) \<Longrightarrow> \<forall>x \<in> set xs. \<forall>y \<in> set xs. cmp x y = 0 \<longrightarrow> x = y"
  by (auto simp: cmp_eq distinct_map inj_on_def)

end

sublocale key_compare \<subseteq> go_compare cmp "\<lambda>_. True"
  by unfold_locales (auto simp: cmp_less cmp_greater cmp_le)

context key_compare
begin

lemma sort_by_key_perm:
  "mset ys = mset xs \<Longrightarrow> distinct (map key xs) \<Longrightarrow> sort_by cmp ys = sort_by cmp xs"
  by (rule sort_by_perm) (use distinct_keys_inj in auto)

lemma sorted_keys: "sorted (map key (sort_by cmp xs))"
  using sort_by_ascending [of xs] by (simp add: sorted_map cmp_le)

end

end
