(* ===== verification/GoHash.thy ===== *)
theory GoHash
  imports GoText
begin

text \<open>
  \<^verbatim>\<open>crypto/sha256\<close>, the big-endian byte order of \<^verbatim>\<open>encoding/binary\<close> and the full-width
  multiplication of \<^verbatim>\<open>math/bits\<close>. Messages and digests are byte strings.
\<close>

unbundle bit_operations_syntax

subsection \<open>Big-endian bytes\<close>

definition byte_at :: "nat \<Rightarrow> 'a :: len word \<Rightarrow> char" where
  "byte_at k w = char_of (uint w div 256 ^ k)"

text \<open>\<open>binary.BigEndian.PutUint32\<close> and \<open>PutUint64\<close>\<close>

definition put_u32 :: "u32 \<Rightarrow> string" where
  "put_u32 w = [byte_at 3 w, byte_at 2 w, byte_at 1 w, byte_at 0 w]"

definition put_u64 :: "u64 \<Rightarrow> string" where
  "put_u64 w = [byte_at 7 w, byte_at 6 w, byte_at 5 w, byte_at 4 w,
                byte_at 3 w, byte_at 2 w, byte_at 1 w, byte_at 0 w]"

text \<open>\<open>binary.BigEndian.Uint64\<close> and \<open>Uint32\<close> of the bytes given, most significant first.\<close>

definition be_int :: "string \<Rightarrow> int" where
  "be_int s = foldl (\<lambda>acc c. 256 * acc + byte_val c) 0 s"

definition get_u32 :: "string \<Rightarrow> u32" where
  "get_u32 s = word_of_int (be_int (take 4 s))"

definition get_u64 :: "string \<Rightarrow> u64" where
  "get_u64 s = word_of_int (be_int (take 8 s))"

lemma length_put [simp]: "length (put_u32 w) = 4" "length (put_u64 v) = 8"
  by (simp_all add: put_u32_def put_u64_def)

lemma byte_val_char_of [simp]: "byte_val (char_of n) = n mod 256"
  by (simp add: byte_val_def)

lemma be_int_Cons: "be_int (c # cs) = byte_val c * 256 ^ length cs + be_int cs"
proof -
  have "foldl (\<lambda>acc c. 256 * acc + byte_val c) a cs = a * 256 ^ length cs + be_int cs" for a
    unfolding be_int_def
  proof (induction cs arbitrary: a rule: rev_induct)
    case (snoc x xs)
    show ?case using snoc.IH [of a] by (simp add: algebra_simps)
  qed simp
  from this [of "byte_val c"] show ?thesis by (simp add: be_int_def)
qed

lemma be_int_bytes: "be_int (map (\<lambda>k. char_of (x div 256 ^ k)) (rev [0..<n])) = x mod 256 ^ n"
proof (induction n)
  case 0
  then show ?case by (simp add: be_int_def)
next
  case (Suc n)
  have "x mod 256 ^ Suc n = 256 ^ n * (x div 256 ^ n mod 256) + x mod 256 ^ n"
    using zmod_zmult2_eq [of 256 x "256 ^ n"] by (simp add: mult.commute)
  with Suc show ?case by (simp add: be_int_Cons)
qed

lemma get_put_u32 [simp]: "get_u32 (put_u32 w) = w"
proof -
  have "put_u32 w = map (\<lambda>k. char_of (uint w div 256 ^ k)) (rev [0..<4])"
    by (simp add: put_u32_def byte_at_def upt_rec)
  then have "be_int (put_u32 w) = uint w"
    using be_int_bytes [of "uint w" 4] uint_lt2p [of w] by (simp add: mod_pos_pos_trivial)
  then show ?thesis by (simp add: get_u32_def)
qed

lemma get_put_u64 [simp]: "get_u64 (put_u64 w) = w"
proof -
  have "put_u64 w = map (\<lambda>k. char_of (uint w div 256 ^ k)) (rev [0..<8])"
    by (simp add: put_u64_def byte_at_def upt_rec)
  then have "be_int (put_u64 w) = uint w"
    using be_int_bytes [of "uint w" 8] uint_lt2p [of w] by (simp add: mod_pos_pos_trivial)
  then show ?thesis by (simp add: get_u64_def)
qed

subsection \<open>Full-width multiplication\<close>

text \<open>\<open>bits.Mul64\<close>: the high and the low word of the 128-bit product.\<close>

definition mul64 :: "u64 \<Rightarrow> u64 \<Rightarrow> u64 \<times> u64" where
  "mul64 x y = (let p = uint x * uint y in (word_of_int (p div 2 ^ 64), word_of_int p))"

lemma mul64_high_bound:
  fixes x y :: u64
  shows "uint x * uint y div 2 ^ 64 < 2 ^ 64"
proof -
  have "uint x * uint y \<le> uint x * 2 ^ 64"
    using uint_lt2p [of y] by (intro mult_left_mono) auto
  also have "\<dots> < 2 ^ 64 * 2 ^ 64"
    using uint_lt2p [of x] by simp
  finally show ?thesis by (simp add: div_less_iff_less_mult)
qed

lemma mul64_product:
  "uint (fst (mul64 x y)) * 2 ^ 64 + uint (snd (mul64 x y)) = uint x * uint y"
proof -
  have "uint (fst (mul64 x y)) = uint x * uint y div 2 ^ 64"
    using mul64_high_bound [of x y]
    by (simp add: mul64_def Let_def uint_word_of_int pos_imp_zdiv_nonneg_iff)
  moreover have "uint (snd (mul64 x y)) = (uint x * uint y) mod 2 ^ 64"
    by (simp add: mul64_def Let_def uint_word_ariths)
  ultimately show ?thesis by simp
qed

subsection \<open>SHA-256\<close>

definition rotr32 :: "nat \<Rightarrow> u32 \<Rightarrow> u32" where
  "rotr32 n x = drop_bit n x OR push_bit (32 - n) x"

text \<open>
  The constants are derived the way the standard defines them: the first 32 bits of the
  fractional parts of the cube roots (for the rounds) and of the square roots (for the
  initial state) of the first primes. \<open>root_bits d k acc n\<close> fills in the low \<open>k\<close> bits of the
  integer \<open>d\<close>-th root of \<open>n\<close>, the highest first.
\<close>

fun root_bits :: "nat \<Rightarrow> nat \<Rightarrow> int \<Rightarrow> int \<Rightarrow> int" where
  "root_bits d 0 acc n = acc"
| "root_bits d (Suc k) acc n = root_bits d k (if (acc + 2 ^ k) ^ d \<le> n then acc + 2 ^ k else acc) n"

definition root_fraction :: "nat \<Rightarrow> int \<Rightarrow> u32" where
  "root_fraction d p = word_of_int (root_bits d 40 0 (p * 2 ^ (32 * d)))"

definition sha_primes :: "int list" where
  "sha_primes =
    [2, 3, 5, 7, 11, 13, 17, 19, 23, 29, 31, 37, 41, 43, 47, 53,
     59, 61, 67, 71, 73, 79, 83, 89, 97, 101, 103, 107, 109, 113, 127, 131,
     137, 139, 149, 151, 157, 163, 167, 173, 179, 181, 191, 193, 197, 199, 211, 223,
     227, 229, 233, 239, 241, 251, 257, 263, 269, 271, 277, 281, 283, 293, 307, 311]"

definition sha_K :: "u32 list" where
  "sha_K = map (root_fraction 3) sha_primes"

record sha_state =
  sa :: u32
  sb :: u32
  sc :: u32
  sd :: u32
  se :: u32
  sf :: u32
  sg :: u32
  sh :: u32

definition sha_init :: sha_state where
  "sha_init = \<lparr>sa = root_fraction 2 2, sb = root_fraction 2 3, sc = root_fraction 2 5,
     sd = root_fraction 2 7, se = root_fraction 2 11, sf = root_fraction 2 13,
     sg = root_fraction 2 17, sh = root_fraction 2 19\<rparr>"

definition sha_round :: "u32 \<Rightarrow> u32 \<Rightarrow> sha_state \<Rightarrow> sha_state" where
  "sha_round k w s =
    (let s1 = rotr32 6 (se s) XOR rotr32 11 (se s) XOR rotr32 25 (se s);
         ch = (se s AND sf s) XOR (NOT (se s) AND sg s);
         t1 = sh s + s1 + ch + k + w;
         s0 = rotr32 2 (sa s) XOR rotr32 13 (sa s) XOR rotr32 22 (sa s);
         maj = (sa s AND sb s) XOR (sa s AND sc s) XOR (sb s AND sc s)
     in \<lparr>sa = t1 + (s0 + maj), sb = sa s, sc = sb s, sd = sc s,
         se = sd s + t1, sf = se s, sg = sf s, sh = sg s\<rparr>)"

text \<open>
  The message schedule, kept as a window of the last sixteen words: a round consumes its
  head and appends the next word.
\<close>

definition sha_next_word :: "u32 list \<Rightarrow> u32" where
  "sha_next_word ws =
    (let w15 = ws ! 1; w2 = ws ! 14;
         s0 = rotr32 7 w15 XOR rotr32 18 w15 XOR drop_bit 3 w15;
         s1 = rotr32 17 w2 XOR rotr32 19 w2 XOR drop_bit 10 w2
     in ws ! 0 + s0 + ws ! 9 + s1)"

fun sha_rounds :: "u32 list \<Rightarrow> u32 list \<Rightarrow> sha_state \<Rightarrow> sha_state" where
  "sha_rounds [] ws s = s"
| "sha_rounds (k # ks) ws s = sha_rounds ks (tl ws @ [sha_next_word ws]) (sha_round k (hd ws) s)"

fun sha_words :: "string \<Rightarrow> u32 list" where
  "sha_words (a # b # c # d # rest) = get_u32 [a, b, c, d] # sha_words rest"
| "sha_words _ = []"

definition sha_block :: "sha_state \<Rightarrow> string \<Rightarrow> sha_state" where
  "sha_block h block =
    (let r = sha_rounds sha_K (sha_words block) h
     in \<lparr>sa = sa h + sa r, sb = sb h + sb r, sc = sc h + sc r, sd = sd h + sd r,
         se = se h + se r, sf = sf h + sf r, sg = sg h + sg r, sh = sh h + sh r\<rparr>)"

definition sha_pad :: "string \<Rightarrow> string" where
  "sha_pad m =
    (let n = int (length m); zeros = nat ((55 - n) mod 64)
     in m @ [CHR 0x80] @ replicate zeros (CHR 0x00) @ put_u64 (word_of_int (8 * n)))"

fun sha_blocks :: "nat \<Rightarrow> sha_state \<Rightarrow> string \<Rightarrow> sha_state" where
  "sha_blocks 0 h m = h"
| "sha_blocks (Suc n) h m = (if m = [] then h else sha_blocks n (sha_block h (take 64 m)) (drop 64 m))"

text \<open>
  \<open>sha256.Sum256\<close>: each block is 64 bytes, so the padded length bounds the block count.
\<close>

definition sha256 :: "string \<Rightarrow> string" where
  "sha256 m =
    (let p = sha_pad m; h = sha_blocks (length p) sha_init p
     in concat (map put_u32 [sa h, sb h, sc h, sd h, se h, sf h, sg h, sh h]))"

lemma length_sha256 [simp]: "length (sha256 m) = 32"
  by (simp add: sha256_def Let_def)

lemma length_sha_pad: "length (sha_pad m) mod 64 = 0"
proof -
  let ?n = "int (length m)"
  have "int (length (sha_pad m)) = ?n + 9 + (55 - ?n) mod 64"
    by (simp add: sha_pad_def Let_def)
  moreover have "(?n + 9 + (55 - ?n) mod 64) mod 64 = 0"
    using mod_add_right_eq [of "?n + 9" "55 - ?n" 64] by simp
  ultimately have "int (length (sha_pad m) mod 64) = 0"
    by (simp add: zmod_int)
  then show ?thesis by simp
qed

end
