(* ===== verification/Problem.thy ===== *)
theory Problem
  imports Prelude
begin

text \<open>
  Package \<^verbatim>\<open>internal/problem\<close>: the stable error catalog, and the error values of the whole
  program. A \<^verbatim>\<open>*problem.Error\<close> is \<open>Problem code message field\<close>; the typed optimistic
  concurrency error of \<^verbatim>\<open>internal/controlplane/catalog.go\<close> is \<open>RevisionConflict\<close>;
  \<^verbatim>\<open>errors.New\<close> is \<open>Opaque\<close>, \<^verbatim>\<open>fmt.Errorf("...: %w", err)\<close> is \<open>Wrapped\<close> and \<^verbatim>\<open>errors.Join\<close> is \<open>Joined\<close>.
\<close>

type_synonym Code = string

abbreviation CodeInvalidArgument :: Code where "CodeInvalidArgument \<equiv> ''invalid_argument''"
abbreviation CodeUnauthenticated :: Code where "CodeUnauthenticated \<equiv> ''unauthenticated''"
abbreviation CodeForbidden :: Code where "CodeForbidden \<equiv> ''forbidden''"
abbreviation CodeNotFound :: Code where "CodeNotFound \<equiv> ''not_found''"
abbreviation CodeConflict :: Code where "CodeConflict \<equiv> ''conflict''"
abbreviation CodeRevisionConflict :: Code where "CodeRevisionConflict \<equiv> ''revision_conflict''"
abbreviation CodeRollbackUnavailable :: Code where "CodeRollbackUnavailable \<equiv> ''rollback_unavailable''"
abbreviation CodeOperationUnknown :: Code where "CodeOperationUnknown \<equiv> ''operation_unknown''"
abbreviation CodeOperationExpired :: Code where "CodeOperationExpired \<equiv> ''operation_expired''"
abbreviation CodeCredentialNotReplayable :: Code where
  "CodeCredentialNotReplayable \<equiv> ''credential_not_replayable''"
abbreviation CodeNoQuorum :: Code where "CodeNoQuorum \<equiv> ''no_quorum''"
abbreviation CodeControlPlaneStale :: Code where "CodeControlPlaneStale \<equiv> ''control_plane_stale''"
abbreviation CodeFunctionDisabled :: Code where "CodeFunctionDisabled \<equiv> ''function_disabled''"
abbreviation CodeNoReadyReplica :: Code where "CodeNoReadyReplica \<equiv> ''no_ready_replica''"
abbreviation CodeOverloaded :: Code where "CodeOverloaded \<equiv> ''overloaded''"
abbreviation CodeColdStartTimeout :: Code where "CodeColdStartTimeout \<equiv> ''cold_start_timeout''"
abbreviation CodeFunctionTimeout :: Code where "CodeFunctionTimeout \<equiv> ''function_timeout''"
abbreviation CodeInvalidModule :: Code where "CodeInvalidModule \<equiv> ''invalid_module''"
abbreviation CodeCapabilityDenied :: Code where "CodeCapabilityDenied \<equiv> ''capability_denied''"
abbreviation CodeFunctionTrap :: Code where "CodeFunctionTrap \<equiv> ''function_trap''"
abbreviation CodeInvalidFunctionResponse :: Code where
  "CodeInvalidFunctionResponse \<equiv> ''invalid_function_response''"
abbreviation CodeOutputLimit :: Code where "CodeOutputLimit \<equiv> ''output_limit''"
abbreviation CodeWorkerLost :: Code where "CodeWorkerLost \<equiv> ''worker_lost''"
abbreviation CodeStaleAssignment :: Code where "CodeStaleAssignment \<equiv> ''stale_assignment''"
abbreviation CodeStaleGeneration :: Code where "CodeStaleGeneration \<equiv> ''stale_generation''"
abbreviation CodeArtifactUnavailable :: Code where "CodeArtifactUnavailable \<equiv> ''artifact_unavailable''"
abbreviation CodeAsyncUnavailable :: Code where "CodeAsyncUnavailable \<equiv> ''async_unavailable''"
abbreviation CodeResultExpired :: Code where "CodeResultExpired \<equiv> ''result_expired''"

definition allCodes :: "Code list" where
  "allCodes =
    [CodeInvalidArgument, CodeUnauthenticated, CodeForbidden, CodeNotFound, CodeConflict,
     CodeRevisionConflict, CodeRollbackUnavailable, CodeOperationUnknown, CodeOperationExpired,
     CodeCredentialNotReplayable, CodeNoQuorum, CodeControlPlaneStale, CodeFunctionDisabled,
     CodeNoReadyReplica, CodeOverloaded, CodeColdStartTimeout, CodeFunctionTimeout,
     CodeInvalidModule, CodeCapabilityDenied, CodeFunctionTrap, CodeInvalidFunctionResponse,
     CodeOutputLimit, CodeWorkerLost, CodeStaleAssignment, CodeStaleGeneration,
     CodeArtifactUnavailable, CodeAsyncUnavailable, CodeResultExpired]"

definition Known :: "Code \<Rightarrow> bool" where
  "Known code \<longleftrightarrow> code \<in> set allCodes"

datatype error =
    Problem (err_code: Code) (err_message: string) (err_field: string)
  | RevisionConflict (rc_kind: string) (rc_expected: u64) (rc_actual: u64)
  | Opaque string
  | Wrapped string error
  | Joined "error list"

text \<open>\<open>problem.Invalid\<close>, and the helper \<open>classified\<close> that several packages define.\<close>

definition Invalid :: "string \<Rightarrow> string \<Rightarrow> error" where
  "Invalid field message = Problem CodeInvalidArgument message field"

definition classified :: "Code \<Rightarrow> string \<Rightarrow> error" where
  "classified code message = Problem code message ''''"

text \<open>
  \<open>errors.As(err, &problemError)\<close> followed by reading the code: the chain of \<open>Unwrap\<close> is
  searched for the first \<open>*problem.Error\<close>; a revision conflict unwraps to one, and a joined
  error to all its parts in order.
\<close>

fun error_code :: "error \<Rightarrow> Code option" where
  "error_code (Problem c m f) = Some c"
| "error_code (RevisionConflict k e a) = Some CodeRevisionConflict"
| "error_code (Opaque m) = None"
| "error_code (Wrapped m e) = error_code e"
| "error_code (Joined es) = first_error (map error_code es)"

lemma error_code_Invalid [simp]: "error_code (Invalid f m) = Some CodeInvalidArgument"
  by (simp add: Invalid_def)

lemma error_code_classified [simp]: "error_code (classified c m) = Some c"
  by (simp add: classified_def)

text \<open>\<^verbatim>\<open>errors.Join\<close> drops the nil errors, and is nil if there is no other.\<close>

definition errors_Join :: "error option list \<Rightarrow> error option" where
  "errors_Join es =
    (case concat (map (case_option [] (\<lambda>e. [e])) es) of [] \<Rightarrow> None | failures \<Rightarrow> Some (Joined failures))"

lemma errors_Join_None [simp]: "errors_Join es = None \<longleftrightarrow> (\<forall>e \<in> set es. e = None)"
  by (induction es) (auto simp: errors_Join_def split: option.splits list.splits)

definition HTTPStatus :: "Code \<Rightarrow> nat" where
  "HTTPStatus code =
    (if code = CodeInvalidArgument then 400
     else if code = CodeUnauthenticated then 401
     else if code \<in> set [CodeForbidden, CodeCapabilityDenied] then 403
     else if code = CodeNotFound then 404
     else if code \<in> set [CodeConflict, CodeRevisionConflict, CodeRollbackUnavailable,
          CodeOperationUnknown, CodeCredentialNotReplayable, CodeStaleAssignment] then 409
     else if code \<in> set [CodeOperationExpired, CodeResultExpired] then 410
     else if code = CodeOverloaded then 429
     else if code = CodeInvalidModule then 422
     else if code \<in> set [CodeFunctionTrap, CodeInvalidFunctionResponse, CodeOutputLimit,
          CodeWorkerLost] then 502
     else if code \<in> set [CodeColdStartTimeout, CodeFunctionTimeout] then 504
     else if code \<in> set [CodeNoQuorum, CodeControlPlaneStale, CodeFunctionDisabled,
          CodeNoReadyReplica, CodeStaleGeneration, CodeArtifactUnavailable,
          CodeAsyncUnavailable] then 503
     else 500)"

text \<open>\<open>Envelope\<close>; the details map holds its values as text.\<close>

record ResponseError =
  re_Code :: Code
  re_Message :: string
  re_RequestID :: string
  re_Details :: "(string, string) fmap"

definition NewEnvelope :: "Code \<times> string \<times> string \<Rightarrow> string \<Rightarrow> (string, string) fmap \<Rightarrow> ResponseError" where
  "NewEnvelope err requestID details =
    (case err of (code, message, field) \<Rightarrow>
      \<lparr>re_Code = code, re_Message = message, re_RequestID = requestID,
       re_Details = (if field \<noteq> '''' then fmupd ''field'' field details else details)\<rparr>)"

text \<open>Every code of the catalog has a status of its own class; only unknown codes fall to 500.\<close>

lemma status_500_iff: "HTTPStatus code = 500 \<longleftrightarrow> \<not> Known code"
  by (auto simp: Known_def allCodes_def HTTPStatus_def)

end
