(* ===== verification/Digest.thy ===== *)
theory Digest
  imports GoHash Problem
begin

text \<open>
  Package \<^verbatim>\<open>internal/digest\<close>. RFC 8785 canonicalization is done by the third-party module
  \<^verbatim>\<open>gowebpki/jcs\<close>, which is a parameter \<open>jcs\<close> of the definitions that use it: it maps a JSON
  text to its canonical form, or fails.
\<close>

type_synonym SHA256 = string
type_synonym canonicalizer = "string \<Rightarrow> error + string"

definition digest_prefix :: string where
  "digest_prefix = ''minicloud'' @ [CHR 0x00]"

text \<open>\<open>^sha256:[0-9a-f]{64}$\<close>\<close>

definition encodedPattern :: "string \<Rightarrow> bool" where
  "encodedPattern value \<longleftrightarrow> take 7 value = ''sha256:'' \<and> matches_class is_hex_lower 64 64 (drop 7 value)"

definition ParseSHA256 :: "string \<Rightarrow> error + SHA256" where
  "ParseSHA256 value =
    (if \<not> encodedPattern value then Inl (Opaque ''invalid sha256 digest'') else Inr value)"

text \<open>\<open>if _, err := digest.ParseSHA256(...); err != nil\<close>\<close>

definition bad_digest :: "SHA256 \<Rightarrow> bool" where
  "bad_digest d \<longleftrightarrow> (case ParseSHA256 d of Inl _ \<Rightarrow> True | Inr _ \<Rightarrow> False)"

definition Sum :: "string \<Rightarrow> SHA256" where
  "Sum data = ''sha256:'' @ hex_encode (sha256 data)"

definition CanonicalJSON :: "canonicalizer \<Rightarrow> string \<Rightarrow> string \<Rightarrow> string \<Rightarrow> error + SHA256" where
  "CanonicalJSON jcs domain schemaVersion source =
    (if domain = '''' then Inl (Opaque ''digest domain is required'')
     else if schemaVersion = '''' then Inl (Opaque ''digest schema version is required'')
     else case jcs source of
         Inl err \<Rightarrow> Inl (Wrapped ''canonicalizing json'' err)
       | Inr canonical \<Rightarrow>
           Inr (Sum (digest_prefix @ domain @ [CHR 0x00] @ schemaVersion @ [CHR 0x00] @ canonical)))"

lemma bad_digest_iff: "bad_digest d \<longleftrightarrow> \<not> encodedPattern d"
  by (simp add: bad_digest_def ParseSHA256_def)

lemma is_hex_lower_hex_digit: "0 \<le> n \<Longrightarrow> n < 16 \<Longrightarrow> is_hex_lower (hex_digit n)"
  by (auto simp: is_hex_lower_def is_digit_def hex_digit_def)

lemma hex_encode_lower: "list_all is_hex_lower (hex_encode s)"
proof -
  have "is_hex_lower (hex_digit (byte_val c div 16))" "is_hex_lower (hex_digit (byte_val c mod 16))" for c
    using byte_val_bounds [of c] by (auto intro!: is_hex_lower_hex_digit)
  then show ?thesis by (induction s) (auto simp: hex_encode_def)
qed

lemma encodedPattern_hex: "length h = 32 \<Longrightarrow> encodedPattern (''sha256:'' @ hex_encode h)"
  by (simp add: encodedPattern_def matches_class_def hex_encode_lower)

lemma Sum_encoded [simp]: "encodedPattern (Sum data)"
  unfolding Sum_def by (rule encodedPattern_hex) simp

lemma CanonicalJSON_encoded: "CanonicalJSON jcs d v s = Inr h \<Longrightarrow> encodedPattern h"
  by (auto simp: CanonicalJSON_def split: if_splits sum.splits)

end
