(* ===== verification/WasmProfile.thy ===== *)
theory WasmProfile
  imports Problem
begin

text \<open>
  Package \<^verbatim>\<open>internal/wasmprofile\<close>, file \<^verbatim>\<open>profile.go\<close>: the locked runtime profile that
  admission, placement and execution share.
\<close>

abbreviation RuntimeName :: string where "RuntimeName \<equiv> ''wazero''"
abbreviation RuntimeVersion :: string where "RuntimeVersion \<equiv> ''v1.12.0''"
abbreviation FeatureProfile :: string where "FeatureProfile \<equiv> ''wazero-core-v2-v1''"
abbreviation EngineCompiler :: string where "EngineCompiler \<equiv> ''compiler''"
abbreviation EngineInterpreter :: string where "EngineInterpreter \<equiv> ''interpreter''"

definition WasmPageBytes :: u32 where
  "WasmPageBytes = 65536"

definition memoryTiersMiB :: "u32 list" where
  "memoryTiersMiB = [64, 128, 256, 512]"

record WasmProfile =
  wp_Engine :: string
  wp_MemoryLimitMiB :: u32

definition ValidMemoryTier :: "u32 \<Rightarrow> bool" where
  "ValidMemoryTier memoryMiB \<longleftrightarrow> memoryMiB \<in> set memoryTiersMiB"

definition NewWasmProfile :: "string \<Rightarrow> u32 \<Rightarrow> error + WasmProfile" where
  "NewWasmProfile engine memoryLimitMiB =
    (if engine \<noteq> EngineCompiler \<and> engine \<noteq> EngineInterpreter
       then Inl (Opaque ''unsupported wasm runtime engine'')
     else if \<not> ValidMemoryTier memoryLimitMiB then Inl (Opaque ''unsupported wasm memory tier'')
     else Inr \<lparr>wp_Engine = engine, wp_MemoryLimitMiB = memoryLimitMiB\<rparr>)"

text \<open>\<open>if _, err := wasmprofile.New(...); err != nil\<close>\<close>

definition bad_profile :: "string \<Rightarrow> u32 \<Rightarrow> bool" where
  "bad_profile engine memoryMiB \<longleftrightarrow>
     (case NewWasmProfile engine memoryMiB of Inl _ \<Rightarrow> True | Inr _ \<Rightarrow> False)"

definition MemoryLimitPages :: "u32 \<Rightarrow> u32" where
  "MemoryLimitPages memoryMiB = memoryMiB * 1048576 div WasmPageBytes"

lemma bad_profile_iff:
  "bad_profile engine memoryMiB \<longleftrightarrow>
     \<not> (engine \<in> {EngineCompiler, EngineInterpreter} \<and> ValidMemoryTier memoryMiB)"
  by (auto simp: bad_profile_def NewWasmProfile_def)

lemma ValidMemoryTier_pos: "ValidMemoryTier m \<Longrightarrow> 0 < unat m"
  by (auto simp: ValidMemoryTier_def memoryTiersMiB_def)

text \<open>On the valid tiers the 32-bit product does not wrap: the page count is exact.\<close>

lemma MemoryLimitPages_exact:
  "ValidMemoryTier m \<Longrightarrow> unat (MemoryLimitPages m) * 65536 = unat m * 1048576"
  by (auto simp: ValidMemoryTier_def memoryTiersMiB_def MemoryLimitPages_def WasmPageBytes_def)

end
