(* ===== verification/Model.thy ===== *)
theory Model
  imports GoJson GoSort Digest WasmProfile
begin

text \<open>
  Package \<^verbatim>\<open>internal/model\<close>: the persistent control-plane objects and their deterministic
  validation. Embedding of \<^verbatim>\<open>Metadata\<close> in a Go struct is record extension, so the common
  checks apply to every object. A string enumeration of the source is a datatype whose
  last constructor stands for every other string.
\<close>

subsection \<open>Metadata (metadata.go)\<close>

abbreviation DefaultNamespace :: string where "DefaultNamespace \<equiv> ''default''"

text \<open>
  \<open>^[A-Za-z0-9._:-]{1,128}$\<close>. The packages model, scheduler, servingauth, controlplane
  and workerregistry each compile this same pattern (\<open>idPattern\<close>, \<open>identifierPattern\<close>).
\<close>

definition idPattern :: "string \<Rightarrow> bool" where
  "idPattern = matches_class is_id_char 1 128"

record Metadata =
  m_ID :: string
  m_Namespace :: string
  m_CreatedAt :: Time
  m_UpdatedAt :: Time
  m_CreatedRaftIndex :: u64
  m_ResourceRevision :: u64

definition isUTC :: "Time \<Rightarrow> bool" where
  "isUTC t \<longleftrightarrow> t_offset t = 0"

definition Metadata_Validate :: "'a Metadata_scheme \<Rightarrow> error option" where
  "Metadata_Validate m = first_error
    [fail_if (\<not> idPattern (m_ID m)) (Invalid ''id'' ''must contain 1 to 128 allowed characters''),
     fail_if (m_Namespace m \<noteq> DefaultNamespace)
       (Invalid ''namespace'' ''only default is supported in v1''),
     fail_if (Time_IsZero (m_CreatedAt m)) (Invalid ''created_at'' ''is required''),
     fail_if (\<not> isUTC (m_CreatedAt m)) (Invalid ''created_at'' ''must use UTC''),
     fail_if (Time_IsZero (m_UpdatedAt m)) (Invalid ''updated_at'' ''is required''),
     fail_if (\<not> isUTC (m_UpdatedAt m)) (Invalid ''updated_at'' ''must use UTC''),
     fail_if (Time_Before (m_UpdatedAt m) (m_CreatedAt m))
       (Invalid ''updated_at'' ''must not precede created_at''),
     fail_if (m_CreatedRaftIndex m = 0)
       (Invalid ''created_raft_index'' ''must be greater than zero''),
     fail_if (m_ResourceRevision m = 0)
       (Invalid ''resource_revision'' ''must be greater than zero'')]"

subsection \<open>Function (function.go)\<close>

text \<open>\<open>^[a-z][a-z0-9-]{0,62}$\<close> and \<open>^[a-z][a-z0-9_.-]{0,62}$\<close>\<close>

definition functionNamePattern :: "string \<Rightarrow> bool" where
  "functionNamePattern =
     matches_head is_lower (\<lambda>c. is_lower c \<or> is_digit c \<or> c = CHR ''-'') 62"

definition labelKeyPattern :: "string \<Rightarrow> bool" where
  "labelKeyPattern =
     matches_head is_lower (\<lambda>c. is_lower c \<or> is_digit c \<or> c \<in> set ''_.-'') 62"

datatype FunctionLifecycle =
    FunctionActive
  | FunctionDisabled
  | FunctionDeleting
  | FunctionTombstoned
  | FunctionLifecycleOther string

definition FunctionLifecycle_valid :: "FunctionLifecycle \<Rightarrow> bool" where
  "FunctionLifecycle_valid l \<longleftrightarrow>
     l \<in> {FunctionActive, FunctionDisabled, FunctionDeleting, FunctionTombstoned}"

record Function = Metadata +
  f_Name :: string
  f_Description :: string
  f_ActiveRouteRevision :: u64
  f_Labels :: "(string, string) fmap"
  f_Lifecycle :: FunctionLifecycle

text \<open>One pass of the loop over the labels.\<close>

definition Label_check :: "string \<times> string \<Rightarrow> error option" where
  "Label_check kv = first_error
    [fail_if (\<not> labelKeyPattern (fst kv)) (Invalid ''labels'' ''contains an invalid key''),
     fail_if (\<not> utf8_valid (snd kv)) (Invalid ''labels'' ''contains a value that is not valid UTF-8''),
     fail_if (length (snd kv) > 256) (Invalid ''labels'' ''contains a value longer than 256 bytes'')]"

definition Function_Validate :: "Function \<Rightarrow> error option" where
  "Function_Validate f = first_error
    [Metadata_Validate f,
     fail_if (\<not> functionNamePattern (f_Name f))
       (Invalid ''name'' ''must match the function name syntax''),
     fail_if (\<not> utf8_valid (f_Description f)) (Invalid ''description'' ''must be valid UTF-8''),
     fail_if (length (f_Description f) > 512)
       (Invalid ''description'' ''must not exceed 512 bytes''),
     fail_if (map_len (f_Labels f) > 32)
       (Invalid ''labels'' ''must not contain more than 32 entries''),
     first_error (map Label_check (sorted_list_of_fmap (f_Labels f))),
     fail_if (\<not> FunctionLifecycle_valid (f_Lifecycle f))
       (Invalid ''lifecycle'' ''is not a supported function lifecycle'')]"

subsection \<open>Version (version.go)\<close>

abbreviation ABIWASICommandV1 :: string where "ABIWASICommandV1 \<equiv> ''wasi-command-v1''"
abbreviation HostAPIProfileNone :: string where "HostAPIProfileNone \<equiv> ''none''"

definition MaxArtifactBytes :: int where
  "MaxArtifactBytes = 268435456"

definition supportedMemoryMiB :: "u32 list" where
  "supportedMemoryMiB = [64, 128, 256, 512]"

datatype VersionState =
    VersionUploaded
  | VersionValidating
  | VersionReady
  | VersionFailed
  | VersionDeprecated
  | VersionDeleting
  | VersionTombstoned
  | VersionStateOther string

definition VersionState_valid :: "VersionState \<Rightarrow> bool" where
  "VersionState_valid s \<longleftrightarrow>
     s \<in> {VersionUploaded, VersionValidating, VersionReady, VersionFailed,
          VersionDeprecated, VersionDeleting, VersionTombstoned}"

record ToolchainMetadata =
  tc_Name :: string
  tc_Version :: string
  tc_Provenance :: string

record ResourceRequest =
  rq_Timeout :: duration
  rq_MemoryMiB :: u32
  rq_MaxConcurrency :: u32
  rq_MaxInputBytes :: int
  rq_MaxOutputBytes :: int

record CapabilityRequest =
  cap_Name :: string
  cap_Version :: string

record SafeError =
  se_Code :: Code
  se_Message :: string

record Version = Metadata +
  v_FunctionID :: string
  v_VersionID :: string
  v_ArtifactDigest :: SHA256
  v_ManifestDigest :: SHA256
  v_ArtifactSize :: int
  v_ABI :: string
  v_HostAPIProfile :: string
  v_RuntimeFeatureProfile :: string
  v_Toolchain :: ToolchainMetadata
  v_AdmissionEpoch :: u64
  v_ResourceRequest :: ResourceRequest
  v_RequestedCapabilities :: "CapabilityRequest list"
  v_State :: VersionState
  v_ValidationError :: "SafeError option"

definition ResourceRequest_Validate :: "ResourceRequest \<Rightarrow> error option" where
  "ResourceRequest_Validate r = first_error
    [fail_if (rq_Timeout r \<le> 0 \<or> rq_Timeout r > 30 * second)
       (Invalid ''resource_request.timeout'' ''must be between zero and 30 seconds''),
     fail_if (rq_MemoryMiB r \<notin> set supportedMemoryMiB)
       (Invalid ''resource_request.memory_mib'' ''must be one of 64, 128, 256, or 512''),
     fail_if (rq_MaxConcurrency r = 0)
       (Invalid ''resource_request.max_concurrency'' ''must be greater than zero''),
     fail_if (rq_MaxInputBytes r \<le> 0 \<or> rq_MaxInputBytes r > 1048576)
       (Invalid ''resource_request.max_input_bytes'' ''must be within 1 MiB''),
     fail_if (rq_MaxOutputBytes r \<le> 0 \<or> rq_MaxOutputBytes r > 1048576)
       (Invalid ''resource_request.max_output_bytes'' ''must be within 1 MiB'')]"

definition capability_key :: "CapabilityRequest \<Rightarrow> string" where
  "capability_key c = nul_join (cap_Name c) (cap_Version c)"

text \<open>The loop of \<open>validateCapabilities\<close>; \<open>seen\<close> holds the keys met so far.\<close>

fun validateCapabilities_loop :: "string fset \<Rightarrow> CapabilityRequest list \<Rightarrow> error option" where
  "validateCapabilities_loop seen [] = None"
| "validateCapabilities_loop seen (c # cs) =
    (if \<not> labelKeyPattern (cap_Name c) \<or> cap_Version c = ''''
       then Some (Invalid ''requested_capabilities'' ''contains an invalid capability'')
     else if capability_key c |\<in>| seen
       then Some (Invalid ''requested_capabilities'' ''contains a duplicate capability'')
     else validateCapabilities_loop (finsert (capability_key c) seen) cs)"

definition validateCapabilities :: "CapabilityRequest list \<Rightarrow> error option" where
  "validateCapabilities = validateCapabilities_loop {||}"

definition Version_Validate :: "Version \<Rightarrow> error option" where
  "Version_Validate v = first_error
    [Metadata_Validate v,
     fail_if (\<not> idPattern (v_FunctionID v)) (Invalid ''function_id'' ''must be a valid identifier''),
     fail_if (\<not> idPattern (v_VersionID v)) (Invalid ''version_id'' ''must be a valid identifier''),
     fail_if (bad_digest (v_ArtifactDigest v))
       (Invalid ''artifact_digest'' ''must be a lowercase SHA-256 digest''),
     fail_if (bad_digest (v_ManifestDigest v))
       (Invalid ''manifest_digest'' ''must be a lowercase SHA-256 digest''),
     fail_if (v_ArtifactSize v \<le> 0 \<or> v_ArtifactSize v > MaxArtifactBytes)
       (Invalid ''artifact_size'' ''must be within the v1 artifact size limit''),
     fail_if (v_ABI v \<noteq> ABIWASICommandV1)
       (Invalid ''abi'' ''only wasi-command-v1 is supported in v1''),
     fail_if (v_HostAPIProfile v \<noteq> HostAPIProfileNone)
       (Invalid ''host_api_profile'' ''only none is supported in v1''),
     fail_if (v_RuntimeFeatureProfile v = '''')
       (Invalid ''runtime_feature_profile'' ''is required''),
     fail_if (tc_Name (v_Toolchain v) = '''' \<or> tc_Version (v_Toolchain v) = '''')
       (Invalid ''toolchain_metadata'' ''name and version are required''),
     fail_if (tc_Provenance (v_Toolchain v) = '''')
       (Invalid ''toolchain_metadata'' ''provenance is required''),
     fail_if (v_AdmissionEpoch v = 0) (Invalid ''admission_epoch'' ''must be greater than zero''),
     ResourceRequest_Validate (v_ResourceRequest v),
     validateCapabilities (v_RequestedCapabilities v),
     fail_if (\<not> VersionState_valid (v_State v))
       (Invalid ''state'' ''is not a supported version state''),
     fail_if (v_State v = VersionFailed \<and> v_ValidationError v = None)
       (Invalid ''validation_error'' ''is required for a failed version''),
     (case v_ValidationError v of None \<Rightarrow> None | Some e \<Rightarrow> first_error
       [fail_if (se_Code e = '''' \<or> se_Message e = '''')
          (Invalid ''validation_error'' ''code and message are required''),
        fail_if (\<not> Known (se_Code e))
          (Invalid ''validation_error'' ''code is not a stable v1 error'')]),
     fail_if (v_State v \<noteq> VersionFailed \<and> v_ValidationError v \<noteq> None)
       (Invalid ''validation_error'' ''is only allowed for a failed version'')]"

subsection \<open>Deployment (deployment.go)\<close>

definition MaxReplicasV1 :: u32 where
  "MaxReplicasV1 = 100"

datatype ScalingMode = ScalingManual | ScalingAuto | ScalingModeOther string

datatype DeploymentPhase =
    DeploymentActive
  | DeploymentDraining
  | DeploymentStopped
  | DeploymentDeleting
  | DeploymentPhaseOther string

definition ScalingMode_valid :: "ScalingMode \<Rightarrow> bool" where
  "ScalingMode_valid m \<longleftrightarrow> m = ScalingManual \<or> m = ScalingAuto"

definition DeploymentPhase_valid :: "DeploymentPhase \<Rightarrow> bool" where
  "DeploymentPhase_valid p \<longleftrightarrow>
     p \<in> {DeploymentActive, DeploymentDraining, DeploymentStopped, DeploymentDeleting}"

record ResourceLimits =
  rl_Timeout :: duration
  rl_MemoryMiB :: u32
  rl_MaxInputBytes :: int
  rl_MaxOutputBytes :: int
  rl_MaxLogBytes :: int

record Deployment = Metadata +
  d_VersionID :: string
  d_Generation :: u64
  d_ScalingRevision :: u64
  d_ResourceLimits :: ResourceLimits
  d_GrantedCapabilities :: "CapabilityRequest list"
  d_EffectivePolicyDigest :: SHA256
  d_MinReplicas :: u32
  d_MaxReplicas :: u32
  d_DesiredReplicas :: u32
  d_ReadyReplicas :: u32
  d_TargetConcurrency :: u32
  d_ScalingMode :: ScalingMode
  d_IdleTimeout :: duration
  d_DesiredPhase :: DeploymentPhase

definition ResourceLimits_Validate :: "ResourceLimits \<Rightarrow> error option" where
  "ResourceLimits_Validate l = first_error
    [ResourceRequest_Validate
       \<lparr>rq_Timeout = rl_Timeout l, rq_MemoryMiB = rl_MemoryMiB l, rq_MaxConcurrency = 1,
        rq_MaxInputBytes = rl_MaxInputBytes l, rq_MaxOutputBytes = rl_MaxOutputBytes l\<rparr>,
     fail_if (rl_MaxLogBytes l \<le> 0 \<or> rl_MaxLogBytes l > 262144)
       (Invalid ''resource_limits.max_log_bytes'' ''must be within 256 KiB'')]"

definition Deployment_Validate :: "Deployment \<Rightarrow> error option" where
  "Deployment_Validate d = first_error
    [Metadata_Validate d,
     fail_if (\<not> idPattern (d_VersionID d)) (Invalid ''version_id'' ''must be a valid identifier''),
     fail_if (d_Generation d = 0) (Invalid ''generation'' ''must be greater than zero''),
     fail_if (d_ScalingRevision d = 0) (Invalid ''scaling_revision'' ''must be greater than zero''),
     ResourceLimits_Validate (d_ResourceLimits d),
     validateCapabilities (d_GrantedCapabilities d),
     fail_if (bad_digest (d_EffectivePolicyDigest d))
       (Invalid ''effective_policy_digest'' ''must be a lowercase SHA-256 digest''),
     fail_if (d_MaxReplicas d = 0 \<or> d_MaxReplicas d > MaxReplicasV1)
       (Invalid ''max_replicas'' ''must be between 1 and 100''),
     fail_if (d_MinReplicas d > d_MaxReplicas d)
       (Invalid ''min_replicas'' ''must not exceed max_replicas''),
     fail_if (d_DesiredReplicas d < d_MinReplicas d \<or> d_DesiredReplicas d > d_MaxReplicas d)
       (Invalid ''desired_replicas'' ''must be within the replica bounds''),
     fail_if (d_ReadyReplicas d > d_MaxReplicas d)
       (Invalid ''ready_replicas'' ''must not exceed max_replicas''),
     fail_if (d_TargetConcurrency d = 0)
       (Invalid ''target_concurrency'' ''must be greater than zero''),
     fail_if (\<not> ScalingMode_valid (d_ScalingMode d)) (Invalid ''scaling_mode'' ''is not supported''),
     fail_if (d_IdleTimeout d < 0) (Invalid ''idle_timeout'' ''must not be negative''),
     fail_if (\<not> DeploymentPhase_valid (d_DesiredPhase d))
       (Invalid ''desired_phase'' ''is not supported'')]"

subsection \<open>Route (route.go)\<close>

definition TotalRouteWeightBasisPoints :: u32 where
  "TotalRouteWeightBasisPoints = 10000"

abbreviation MaxRouteTargets :: nat where "MaxRouteTargets \<equiv> 32"
abbreviation HashVersionSHA256BPSV1 :: string where "HashVersionSHA256BPSV1 \<equiv> ''sha256-bps-v1''"

text \<open>\<open>httpTokenPattern\<close>: one or more token characters, of any length.\<close>

definition httpTokenPattern :: "string \<Rightarrow> bool" where
  "httpTokenPattern s \<longleftrightarrow> s \<noteq> [] \<and> list_all is_token_char s"

datatype AffinitySource =
    AffinityRequestID
  | AffinityIdempotencyKey
  | AffinityHeader
  | AffinitySourceOther string

record RouteTarget =
  rt_VersionID :: string
  rt_AdmissionEpoch :: u64
  rt_DeploymentGeneration :: u64
  rt_EffectivePolicyDigest :: SHA256
  rt_WeightBasisPoints :: u32

record Route = Metadata +
  r_FunctionID :: string
  r_RouteRevision :: u64
  r_Targets :: "RouteTarget list"
  r_Affinity :: AffinitySource
  r_AffinityHeader :: string
  r_HashVersion :: string
  r_SaltID :: string
  r_Salt :: string
  r_Enabled :: bool

record ServingRoute =
  sr_FunctionID :: string
  sr_RouteRevision :: u64
  sr_Targets :: "RouteTarget list"
  sr_HashVersion :: string
  sr_Salt :: string
  sr_Enabled :: bool

definition target_key :: "RouteTarget \<Rightarrow> string" where
  "target_key t = nul_join (rt_VersionID t) (format_uint (rt_DeploymentGeneration t))"

text \<open>
  The loop of \<open>validateRouteTargets\<close>: it carries the running 32-bit total and the keys
  seen, and yields the total where no target is rejected.
\<close>

fun validateRouteTargets_loop :: "u32 \<Rightarrow> string fset \<Rightarrow> RouteTarget list \<Rightarrow> error + u32" where
  "validateRouteTargets_loop tot seen [] = Inr tot"
| "validateRouteTargets_loop tot seen (t # ts) =
    (case first_error
       [fail_if (\<not> idPattern (rt_VersionID t))
          (Invalid ''targets'' ''contains an invalid version_id''),
        fail_if (rt_AdmissionEpoch t = 0 \<or> rt_DeploymentGeneration t = 0)
          (Invalid ''targets'' ''contains a zero epoch or generation''),
        fail_if (bad_digest (rt_EffectivePolicyDigest t))
          (Invalid ''targets'' ''contains an invalid policy digest''),
        fail_if (rt_WeightBasisPoints t = 0 \<or> rt_WeightBasisPoints t > TotalRouteWeightBasisPoints)
          (Invalid ''targets'' ''contains an invalid weight''),
        fail_if (target_key t |\<in>| seen) (Invalid ''targets'' ''contains a duplicate target'')]
     of Some e \<Rightarrow> Inl e
      | None \<Rightarrow> validateRouteTargets_loop (tot + rt_WeightBasisPoints t)
                  (finsert (target_key t) seen) ts)"

definition validateRouteTargets :: "RouteTarget list \<Rightarrow> error option" where
  "validateRouteTargets targets =
    (case validateRouteTargets_loop 0 {||} targets of
       Inl e \<Rightarrow> Some e
     | Inr tot \<Rightarrow>
         fail_if (length targets > 0 \<and> tot \<noteq> TotalRouteWeightBasisPoints)
           (Invalid ''targets'' ''weights must total 10000 basis points''))"

definition validateAffinity :: "Route \<Rightarrow> error option" where
  "validateAffinity r =
    (case r_Affinity r of
       AffinityRequestID \<Rightarrow> fail_if (r_AffinityHeader r \<noteq> '''')
         (Invalid ''affinity_header'' ''is only valid for header affinity'')
     | AffinityIdempotencyKey \<Rightarrow> fail_if (r_AffinityHeader r \<noteq> '''')
         (Invalid ''affinity_header'' ''is only valid for header affinity'')
     | AffinityHeader \<Rightarrow> fail_if (\<not> httpTokenPattern (r_AffinityHeader r))
         (Invalid ''affinity_header'' ''must be a valid HTTP field name'')
     | AffinitySourceOther _ \<Rightarrow> Some (Invalid ''affinity_source'' ''is not supported''))"

definition Route_Validate :: "Route \<Rightarrow> error option" where
  "Route_Validate r = first_error
    [Metadata_Validate r,
     fail_if (\<not> idPattern (r_FunctionID r)) (Invalid ''function_id'' ''must be a valid identifier''),
     fail_if (r_RouteRevision r = 0) (Invalid ''route_revision'' ''must be greater than zero''),
     fail_if (length (r_Targets r) > MaxRouteTargets)
       (Invalid ''targets'' ''must not contain more than 32 entries''),
     fail_if (\<not> r_Enabled r \<and> length (r_Targets r) \<noteq> 0)
       (Invalid ''targets'' ''must be empty when the route is disabled''),
     fail_if (r_Enabled r \<and> length (r_Targets r) = 0)
       (Invalid ''targets'' ''must not be empty when the route is enabled''),
     validateRouteTargets (r_Targets r),
     validateAffinity r,
     fail_if (r_HashVersion r \<noteq> HashVersionSHA256BPSV1) (Invalid ''hash_version'' ''is not supported''),
     fail_if (\<not> idPattern (r_SaltID r)) (Invalid ''salt_id'' ''must be a valid identifier''),
     fail_if (length (r_Salt r) \<noteq> 16) (Invalid ''salt'' ''must contain exactly 128 bits'')]"

definition Route_ServingRoute :: "Route \<Rightarrow> ServingRoute" where
  "Route_ServingRoute r =
    \<lparr>sr_FunctionID = r_FunctionID r, sr_RouteRevision = r_RouteRevision r,
     sr_Targets = r_Targets r, sr_HashVersion = r_HashVersion r,
     sr_Salt = r_Salt r, sr_Enabled = r_Enabled r\<rparr>"

definition ServingRoute_Validate :: "ServingRoute \<Rightarrow> error option" where
  "ServingRoute_Validate r = first_error
    [fail_if (\<not> idPattern (sr_FunctionID r)) (Invalid ''function_id'' ''must be a valid identifier''),
     fail_if (sr_RouteRevision r = 0) (Invalid ''route_revision'' ''must be greater than zero''),
     fail_if (length (sr_Targets r) > MaxRouteTargets)
       (Invalid ''targets'' ''must not contain more than 32 entries''),
     fail_if (\<not> sr_Enabled r \<and> length (sr_Targets r) \<noteq> 0)
       (Invalid ''targets'' ''must be empty when the route is disabled''),
     fail_if (sr_Enabled r \<and> length (sr_Targets r) = 0)
       (Invalid ''targets'' ''must not be empty when the route is enabled''),
     validateRouteTargets (sr_Targets r),
     fail_if (sr_HashVersion r \<noteq> HashVersionSHA256BPSV1) (Invalid ''hash_version'' ''is not supported''),
     fail_if (length (sr_Salt r) \<noteq> 16) (Invalid ''salt'' ''must contain exactly 128 bits'')]"

definition Route_ValidateCore :: "Route \<Rightarrow> error option" where
  "Route_ValidateCore r = first_error
    [Route_Validate r,
     fail_if (r_Enabled r \<and> length (r_Targets r) \<noteq> 1)
       (Invalid ''targets'' ''core mode requires exactly one target'')]"

subsection \<open>Effective policy (effective\_policy.go)\<close>

abbreviation EffectivePolicyDomain :: string where "EffectivePolicyDomain \<equiv> ''effective-policy''"
abbreviation EffectivePolicySchemaVersion :: string where "EffectivePolicySchemaVersion \<equiv> ''v1''"

record EffectivePolicy =
  ep_VersionID :: string
  ep_AdmissionEpoch :: u64
  ep_DeploymentGeneration :: u64
  ep_ArtifactDigest :: SHA256
  ep_ArtifactSize :: int
  ep_ABI :: string
  ep_HostAPIProfile :: string
  ep_RuntimeFeatureProfile :: string
  ep_ResourceLimits :: ResourceLimits
  ep_MaxConcurrency :: u32
  ep_GrantedCapabilities :: "CapabilityRequest list"

definition EffectivePolicy_Validate :: "EffectivePolicy \<Rightarrow> error option" where
  "EffectivePolicy_Validate p = first_error
    [fail_if (\<not> idPattern (ep_VersionID p)) (Invalid ''version_id'' ''must be a valid identifier''),
     fail_if (ep_AdmissionEpoch p = 0) (Invalid ''admission_epoch'' ''must be greater than zero''),
     fail_if (ep_DeploymentGeneration p = 0)
       (Invalid ''deployment_generation'' ''must be greater than zero''),
     fail_if (bad_digest (ep_ArtifactDigest p))
       (Invalid ''artifact_digest'' ''must be a lowercase sha-256 digest''),
     fail_if (ep_ArtifactSize p < 1 \<or> ep_ArtifactSize p > MaxArtifactBytes)
       (Invalid ''artifact_size'' ''must be within the v1 artifact size limit''),
     fail_if (ep_ABI p \<noteq> ABIWASICommandV1)
       (Invalid ''abi'' ''only wasi-command-v1 is supported in v1''),
     fail_if (ep_HostAPIProfile p \<noteq> HostAPIProfileNone)
       (Invalid ''host_api_profile'' ''only none is supported in v1''),
     fail_if (ep_RuntimeFeatureProfile p = '''')
       (Invalid ''runtime_feature_profile'' ''is required''),
     ResourceLimits_Validate (ep_ResourceLimits p),
     fail_if (rl_Timeout (ep_ResourceLimits p) mod millisecond \<noteq> 0)
       (Invalid ''resource_limits.timeout'' ''must use whole milliseconds''),
     fail_if (ep_MaxConcurrency p = 0) (Invalid ''max_concurrency'' ''must be greater than zero''),
     (case validateCapabilities (ep_GrantedCapabilities p) of
        None \<Rightarrow> None
      | Some (Problem code message field) \<Rightarrow> Some (Invalid ''granted_capabilities'' message)
      | Some e \<Rightarrow> Some e)]"

definition compareCapabilities :: "CapabilityRequest \<Rightarrow> CapabilityRequest \<Rightarrow> int" where
  "compareCapabilities left right =
    (if cap_Name left < cap_Name right then - 1
     else if cap_Name left > cap_Name right then 1
     else if cap_Version left < cap_Version right then - 1
     else if cap_Version left > cap_Version right then 1
     else 0)"

definition json_capability :: "CapabilityRequest \<Rightarrow> json" where
  "json_capability c = JObj [(''name'', JStr (cap_Name c)), (''version'', JStr (cap_Version c))]"

text \<open>
  The value \<open>canonicalEffectivePolicyV1\<close> that \<open>Digest\<close> marshals: the timeout in
  milliseconds, the capabilities sorted.
\<close>

definition canonicalEffectivePolicyV1 :: "EffectivePolicy \<Rightarrow> json" where
  "canonicalEffectivePolicyV1 p = JObj
    [(''version_id'', JStr (ep_VersionID p)),
     (''admission_epoch'', json_uint (ep_AdmissionEpoch p)),
     (''deployment_generation'', json_uint (ep_DeploymentGeneration p)),
     (''artifact_digest'', JStr (ep_ArtifactDigest p)),
     (''artifact_size'', JNum (ep_ArtifactSize p)),
     (''abi'', JStr (ep_ABI p)),
     (''host_api_profile'', JStr (ep_HostAPIProfile p)),
     (''runtime_feature_profile'', JStr (ep_RuntimeFeatureProfile p)),
     (''resource_limits'', JObj
       [(''timeout_ms'', JNum (rl_Timeout (ep_ResourceLimits p) div millisecond)),
        (''memory_mib'', json_uint (rl_MemoryMiB (ep_ResourceLimits p))),
        (''max_input_bytes'', JNum (rl_MaxInputBytes (ep_ResourceLimits p))),
        (''max_output_bytes'', JNum (rl_MaxOutputBytes (ep_ResourceLimits p))),
        (''max_log_bytes'', JNum (rl_MaxLogBytes (ep_ResourceLimits p)))]),
     (''max_concurrency'', json_uint (ep_MaxConcurrency p)),
     (''granted_capabilities'',
        JArr (map json_capability (sort_by compareCapabilities (ep_GrantedCapabilities p))))]"

definition EffectivePolicy_Digest :: "canonicalizer \<Rightarrow> EffectivePolicy \<Rightarrow> error + SHA256" where
  "EffectivePolicy_Digest jcs p =
    (case EffectivePolicy_Validate p of
       Some e \<Rightarrow> Inl e
     | None \<Rightarrow> CanonicalJSON jcs EffectivePolicyDomain EffectivePolicySchemaVersion
                 (json_marshal (canonicalEffectivePolicyV1 p)))"

subsection \<open>What the validations establish\<close>

lemmas validate_defs = Metadata_Validate_def Label_check_def Function_Validate_def
  ResourceRequest_Validate_def Version_Validate_def ResourceLimits_Validate_def
  Deployment_Validate_def validateAffinity_def Route_Validate_def ServingRoute_Validate_def
  Route_ValidateCore_def EffectivePolicy_Validate_def

lemma Metadata_Validate_None [checks]:
  "Metadata_Validate m = None \<longleftrightarrow>
     idPattern (m_ID m) \<and> m_Namespace m = DefaultNamespace \<and>
     \<not> Time_IsZero (m_CreatedAt m) \<and> isUTC (m_CreatedAt m) \<and>
     \<not> Time_IsZero (m_UpdatedAt m) \<and> isUTC (m_UpdatedAt m) \<and>
     \<not> Time_Before (m_UpdatedAt m) (m_CreatedAt m) \<and>
     m_CreatedRaftIndex m \<noteq> 0 \<and> m_ResourceRevision m \<noteq> 0"
  by (simp add: Metadata_Validate_def)

lemma idPattern_no_nul: "idPattern s \<Longrightarrow> CHR 0x00 \<notin> set s"
  using matches_class_set nul_not_id_char unfolding idPattern_def by blast

lemma idPattern_nonempty: "idPattern s \<Longrightarrow> s \<noteq> []"
  by (auto simp: idPattern_def matches_class_def)

lemma labelKeyPattern_no_nul: "labelKeyPattern s \<Longrightarrow> CHR 0x00 \<notin> set s"
  unfolding labelKeyPattern_def
  by (auto dest!: matches_head_set simp: is_lower_def is_digit_def byte_val_def)

text \<open>Capabilities: the checks of the loop, and its set of keys.\<close>

definition capability_ok :: "CapabilityRequest \<Rightarrow> bool" where
  "capability_ok c \<longleftrightarrow> labelKeyPattern (cap_Name c) \<and> cap_Version c \<noteq> ''''"

lemma validateCapabilities_loop_None:
  "validateCapabilities_loop seen cs = None \<longleftrightarrow>
     (\<forall>c \<in> set cs. capability_ok c) \<and> distinct (map capability_key cs)
     \<and> (\<forall>c \<in> set cs. capability_key c |\<notin>| seen)"
  by (induction cs arbitrary: seen) (auto simp: capability_ok_def image_iff)

lemma capability_key_inject:
  "capability_ok c \<Longrightarrow> capability_ok c' \<Longrightarrow> capability_key c = capability_key c' \<longleftrightarrow> c = c'"
  by (auto simp: capability_key_def capability_ok_def nul_join_inject labelKeyPattern_no_nul)

lemma validateCapabilities_None [checks]:
  "validateCapabilities cs = None \<longleftrightarrow> (\<forall>c \<in> set cs. capability_ok c) \<and> distinct cs"
proof -
  have "distinct (map capability_key cs) \<longleftrightarrow> distinct cs" if "\<forall>c \<in> set cs. capability_ok c"
    using that by (auto simp: distinct_map inj_on_def capability_key_inject)
  then show ?thesis by (auto simp: validateCapabilities_def validateCapabilities_loop_None)
qed

lemma validateCapabilities_Some: "validateCapabilities cs = Some e \<Longrightarrow> \<exists>m. e = Invalid ''requested_capabilities'' m"
proof -
  have "validateCapabilities_loop seen cs = Some e \<Longrightarrow> \<exists>m. e = Invalid ''requested_capabilities'' m" for seen
    by (induction cs arbitrary: seen) (auto split: if_splits)
  then show "validateCapabilities cs = Some e \<Longrightarrow> ?thesis" by (simp add: validateCapabilities_def)
qed

text \<open>Route targets: the checks of the loop, its key set and its running total.\<close>

definition target_ok :: "RouteTarget \<Rightarrow> bool" where
  "target_ok t \<longleftrightarrow> idPattern (rt_VersionID t) \<and> rt_AdmissionEpoch t \<noteq> 0 \<and>
     rt_DeploymentGeneration t \<noteq> 0 \<and> encodedPattern (rt_EffectivePolicyDigest t) \<and>
     rt_WeightBasisPoints t \<noteq> 0 \<and> rt_WeightBasisPoints t \<le> TotalRouteWeightBasisPoints"

definition target_id :: "RouteTarget \<Rightarrow> string \<times> u64" where
  "target_id t = (rt_VersionID t, rt_DeploymentGeneration t)"

definition target_weight :: "RouteTarget \<Rightarrow> nat" where
  "target_weight t = unat (rt_WeightBasisPoints t)"

lemma target_key_inject: 
  "target_ok t \<Longrightarrow> target_ok t' \<Longrightarrow> target_key t = target_key t' \<longleftrightarrow> target_id t = target_id t'"
  by (simp add: target_key_def target_id_def target_ok_def nul_join_inject idPattern_no_nul)

lemma validateRouteTargets_loop_Inr:
  "validateRouteTargets_loop tot seen ts = Inr r \<longleftrightarrow>
     (\<forall>t \<in> set ts. target_ok t) \<and> distinct (map target_key ts)
     \<and> (\<forall>t \<in> set ts. target_key t |\<notin>| seen)
     \<and> r = tot + sum_list (map rt_WeightBasisPoints ts)"
proof (induction ts arbitrary: tot seen)
  case (Cons t ts)
  show ?case
    by (cases "target_ok t \<and> target_key t |\<notin>| seen")
       (auto simp: Cons target_ok_def bad_digest_iff fail_if_def add.assoc not_less image_iff)
qed auto

lemma target_weight_bounds: "target_ok t \<Longrightarrow> 0 < target_weight t \<and> target_weight t \<le> 10000"
  by (auto simp: target_ok_def target_weight_def TotalRouteWeightBasisPoints_def word_le_nat_alt
      unat_gt_0)

lemma sum_weights_le: 
  "\<forall>t \<in> set ts. target_ok t \<Longrightarrow> sum_list (map target_weight ts) \<le> 10000 * length ts"
  by (induction ts) (auto dest!: target_weight_bounds)

lemma unat_sum_weights:
  assumes "\<forall>t \<in> set ts. target_ok t" and "length ts \<le> MaxRouteTargets"
  shows "unat (sum_list (map rt_WeightBasisPoints ts)) = sum_list (map target_weight ts)"
  using assms
proof (induction ts)
  case (Cons t ts)
  have "target_weight t + sum_list (map target_weight ts) \<le> 10000 * length (t # ts)"
    using sum_weights_le [OF Cons.prems(1)] by simp
  also have "\<dots> < 2 ^ 32" using Cons.prems(2) by simp
  finally have "target_weight t + sum_list (map target_weight ts) < 2 ^ 32" .
  with Cons show ?case
    by (simp add: unat_word_ariths flip: target_weight_def)
qed simp

text \<open>
  Two targets of an accepted list never name the same Version and generation, and the
  accepted weights add up to exactly 10000: with at most 32 targets the 32-bit total of
  the loop cannot wrap.
\<close>

lemma validateRouteTargets_None [checks]:
  assumes "length ts \<le> MaxRouteTargets"
  shows "validateRouteTargets ts = None \<longleftrightarrow>
    (\<forall>t \<in> set ts. target_ok t) \<and> distinct (map target_id ts) \<and>
    (ts \<noteq> [] \<longrightarrow> sum_list (map target_weight ts) = 10000)"
proof -
  have loop: "validateRouteTargets ts = None \<longleftrightarrow>
      (\<exists>r. validateRouteTargets_loop 0 {||} ts = Inr r \<and> (ts \<noteq> [] \<longrightarrow> r = 10000))"
    by (auto simp: validateRouteTargets_def TotalRouteWeightBasisPoints_def split: sum.splits)
  show ?thesis
  proof (cases "\<forall>t \<in> set ts. target_ok t")
    case True
    have "distinct (map target_key ts) \<longleftrightarrow> distinct (map target_id ts)"
      using True target_key_inject by (auto simp: distinct_map inj_on_def)
    moreover have "sum_list (map rt_WeightBasisPoints ts) = 10000 \<longleftrightarrow>
        sum_list (map target_weight ts) = 10000"
      using unat_sum_weights [OF True assms] by (simp add: word_unat_eq_iff)
    ultimately show ?thesis using True by (simp add: loop validateRouteTargets_loop_Inr)
  next
    case False
    then show ?thesis by (simp only: loop validateRouteTargets_loop_Inr) blast
  qed
qed

text \<open>The comparison of capabilities orders them by name, then by version.\<close>

interpretation cap_order: key_compare compareCapabilities "\<lambda>c. (cap_Name c, cap_Version c)"
  by unfold_locales (auto simp: compareCapabilities_def less_prod_def')

lemma sort_capabilities_perm:
  fixes cs cs' :: "CapabilityRequest list"
  assumes "mset cs' = mset cs" and "distinct cs"
  shows "sort_by compareCapabilities cs' = sort_by compareCapabilities cs"
proof (rule cap_order.sort_by_key_perm [OF assms(1)])
  show "distinct (map (\<lambda>c. (cap_Name c, cap_Version c)) cs)"
    using assms(2) by (auto simp: distinct_map inj_on_def)
qed

lemma EffectivePolicy_Validate_capabilities:
  assumes "EffectivePolicy_Validate p = None" and "mset cs = mset (ep_GrantedCapabilities p)"
  shows "EffectivePolicy_Validate (p\<lparr>ep_GrantedCapabilities := cs\<rparr>) = None"
proof -
  have caps: "validateCapabilities (ep_GrantedCapabilities p) = None"
    using assms(1) by (auto simp: EffectivePolicy_Validate_def split: option.splits error.splits)
  then have "distinct cs" "set cs = set (ep_GrantedCapabilities p)"
    using assms(2) mset_eq_imp_distinct_iff [OF assms(2)] mset_eq_setD [OF assms(2)]
    by (auto simp: checks)
  then have "validateCapabilities cs = None"
    using caps by (simp add: checks)
  with assms(1) show ?thesis by (simp add: EffectivePolicy_Validate_def)
qed

lemma Route_Validate_serving: "Route_Validate r = None \<Longrightarrow> ServingRoute_Validate (Route_ServingRoute r) = None"
  by (simp add: Route_Validate_def ServingRoute_Validate_def Route_ServingRoute_def)

text \<open>What an enabled route that passed validation offers to the selector.\<close>

lemma ServingRoute_Validate_enabled:
  assumes "ServingRoute_Validate r = None" and "sr_Enabled r"
  shows "sr_Targets r \<noteq> []" "\<forall>t \<in> set (sr_Targets r). target_ok t"
    "distinct (map target_id (sr_Targets r))"
    "sum_list (map target_weight (sr_Targets r)) = 10000"
    "length (sr_Targets r) \<le> MaxRouteTargets"
  using assms by (auto simp: ServingRoute_Validate_def checks)

lemma Route_ValidateCore_target:
  "Route_ValidateCore r = None \<Longrightarrow> r_Enabled r \<Longrightarrow> \<exists>t. r_Targets r = [t] \<and> target_ok t"
  by (auto simp: Route_ValidateCore_def Route_Validate_def checks length_Suc_conv)

text \<open>
  The digest of an effective policy does not depend on the order in which the granted
  capabilities are listed: \<open>EffectivePolicy.Digest\<close> sorts a copy, and validation has made
  the capabilities distinct, so every ordering of a valid policy is hashed alike.
\<close>

theorem effective_policy_digest_order:
  assumes "EffectivePolicy_Validate p = None"
    and "mset cs = mset (ep_GrantedCapabilities p)"
  shows "EffectivePolicy_Digest jcs (p\<lparr>ep_GrantedCapabilities := cs\<rparr>) = EffectivePolicy_Digest jcs p"
proof -
  have "validateCapabilities (ep_GrantedCapabilities p) = None"
    using assms(1) by (auto simp: EffectivePolicy_Validate_def split: option.splits error.splits)
  then have "distinct (ep_GrantedCapabilities p)" by (simp add: checks)
  with assms(2) have "sort_by compareCapabilities cs =
      sort_by compareCapabilities (ep_GrantedCapabilities p)"
    by (rule sort_capabilities_perm)
  with assms(1) EffectivePolicy_Validate_capabilities [OF assms] show ?thesis
    by (simp add: EffectivePolicy_Digest_def canonicalEffectivePolicyV1_def)
qed

definition sample_digest :: SHA256 where
  "sample_digest = ''sha256:'' @ replicate 64 (CHR ''a'')"

definition sample_policy :: EffectivePolicy where
  "sample_policy =
    \<lparr>ep_VersionID = ''v1'', ep_AdmissionEpoch = 1, ep_DeploymentGeneration = 1,
     ep_ArtifactDigest = sample_digest, ep_ArtifactSize = 1024, ep_ABI = ABIWASICommandV1,
     ep_HostAPIProfile = HostAPIProfileNone, ep_RuntimeFeatureProfile = FeatureProfile,
     ep_ResourceLimits = \<lparr>rl_Timeout = second, rl_MemoryMiB = 64, rl_MaxInputBytes = 1024,
        rl_MaxOutputBytes = 1024, rl_MaxLogBytes = 1024\<rparr>,
     ep_MaxConcurrency = 4,
     ep_GrantedCapabilities = [\<lparr>cap_Name = ''kv'', cap_Version = ''v1''\<rparr>,
        \<lparr>cap_Name = ''clock'', cap_Version = ''v1''\<rparr>]\<rparr>"

lemma sample_digest_ok [simp]: "encodedPattern sample_digest" "\<not> bad_digest sample_digest"
  by code_simp+

lemma sample_policy_valid: "EffectivePolicy_Validate sample_policy = None"
  by code_simp

theorem effective_policy_digest_order_witness:
  "EffectivePolicy_Digest Inr
     (sample_policy\<lparr>ep_GrantedCapabilities := rev (ep_GrantedCapabilities sample_policy)\<rparr>)
   = EffectivePolicy_Digest Inr sample_policy
   \<and> rev (ep_GrantedCapabilities sample_policy) \<noteq> ep_GrantedCapabilities sample_policy"
  using effective_policy_digest_order [OF sample_policy_valid,
      of "rev (ep_GrantedCapabilities sample_policy)" Inr]
  by (simp add: sample_policy_def)

end
