(* ===== verification/Routing.thy ===== *)
theory Routing
  imports Model
begin

text \<open>
  Package \<^verbatim>\<open>internal/routing\<close>: the deterministic weighted selector. The key bytes and the
  route identity are framed into a preimage, hashed, mapped to one of 10000 buckets, and
  the bucket falls into the cumulative weight interval of exactly one target.
\<close>

subsection \<open>The selector (route.go)\<close>

record RouteDecision =
  dec_Digest :: SHA256
  dec_Bucket :: u32
  dec_Target :: RouteTarget

definition hash_fields :: "ServingRoute \<Rightarrow> string \<Rightarrow> string list" where
  "hash_fields route affinityKey =
    [HashVersionSHA256BPSV1, sr_FunctionID route, put_u64 (sr_RouteRevision route),
     sr_Salt route, affinityKey]"

definition frame_field :: "string \<Rightarrow> string" where
  "frame_field field = put_u32 (of_nat (length field)) @ field"

definition total_bytes :: "string list \<Rightarrow> u64" where
  "total_bytes fs = sum_list (map (\<lambda>field. 4 + of_nat (length field)) fs)"

definition hashPreimage :: "ServingRoute \<Rightarrow> string \<Rightarrow> error + string" where
  "hashPreimage route affinityKey =
    (let fs = hash_fields route affinityKey in
     if \<exists>field \<in> set fs. int (length field) > 4294967295
       then Inl (Invalid ''route_hash_input'' ''field exceeds the v1 length-prefix limit'')
     else if total_bytes fs > 9223372036854775807
       then Inl (Invalid ''route_hash_input'' ''fields exceed the platform input limit'')
     else Inr (concat (map frame_field fs)))"

definition bucketFromHash :: "string \<Rightarrow> u32" where
  "bucketFromHash hash =
    (let (hi, _) = mul64 (get_u64 hash) (ucast TotalRouteWeightBasisPoints) in ucast hi)"

fun targetForBucket_loop :: "u32 \<Rightarrow> RouteTarget list \<Rightarrow> u32 \<Rightarrow> RouteTarget option" where
  "targetForBucket_loop cumulative [] bucket = None"
| "targetForBucket_loop cumulative (t # ts) bucket =
    (let cumulative' = cumulative + rt_WeightBasisPoints t in
     if bucket < cumulative' then Some t else targetForBucket_loop cumulative' ts bucket)"

definition targetForBucket :: "RouteTarget list \<Rightarrow> u32 \<Rightarrow> RouteTarget option" where
  "targetForBucket = targetForBucket_loop 0"

definition compareTargets :: "RouteTarget \<Rightarrow> RouteTarget \<Rightarrow> int" where
  "compareTargets left right =
    (if rt_VersionID left < rt_VersionID right then - 1
     else if rt_VersionID left > rt_VersionID right then 1
     else if rt_DeploymentGeneration left < rt_DeploymentGeneration right then - 1
     else if rt_DeploymentGeneration left > rt_DeploymentGeneration right then 1
     else 0)"

definition selectServing :: "ServingRoute \<Rightarrow> string \<Rightarrow> error + RouteDecision" where
  "selectServing route affinityKey =
    (if \<not> sr_Enabled route then Inl (classified CodeFunctionDisabled ''route is disabled'')
     else case hashPreimage route affinityKey of
         Inl e \<Rightarrow> Inl e
       | Inr preimage \<Rightarrow>
           (let hash = sha256 preimage;
                digestValue = ''sha256:'' @ hex_encode hash;
                bucket = bucketFromHash hash;
                targets = sort_by compareTargets (sr_Targets route)
            in case targetForBucket targets bucket of
                 Some target \<Rightarrow> Inr \<lparr>dec_Digest = digestValue, dec_Bucket = bucket, dec_Target = target\<rparr>
               | None \<Rightarrow> Inl (Opaque ''routing: validated target intervals do not cover bucket'')))"

definition Select :: "Route \<Rightarrow> string \<Rightarrow> error + RouteDecision" where
  "Select route affinityKey =
    (case Route_Validate route of
       Some e \<Rightarrow> Inl e
     | None \<Rightarrow> selectServing (Route_ServingRoute route) affinityKey)"

definition SelectServing :: "ServingRoute \<Rightarrow> string \<Rightarrow> error + RouteDecision" where
  "SelectServing route affinityKey =
    (case ServingRoute_Validate route of
       Some e \<Rightarrow> Inl e
     | None \<Rightarrow> selectServing route affinityKey)"

subsection \<open>Buckets\<close>

lemma bucketFromHash_int: "uint (bucketFromHash hash) = uint (get_u64 hash) * 10000 div 2 ^ 64"
proof -
  let ?u = "uint (get_u64 hash)"
  have "0 \<le> ?u" "?u < 2 ^ 64" using uint_lt2p [of "get_u64 hash"] by auto
  then have bound: "0 \<le> ?u * 10000 div 2 ^ 64" "?u * 10000 div 2 ^ 64 < 10000"
    by (auto simp: div_less_iff_less_mult pos_imp_zdiv_nonneg_iff)
  then have hi: "uint (word_of_int (?u * 10000 div 2 ^ 64) :: u64) = ?u * 10000 div 2 ^ 64"
    by (simp add: uint_word_of_int mod_pos_pos_trivial)
  have "uint (ucast (word_of_int (?u * 10000 div 2 ^ 64) :: u64) :: u32) =
      uint (word_of_int (?u * 10000 div 2 ^ 64) :: u64) mod 2 ^ 32"
    by (simp add: unsigned_ucast_eq take_bit_eq_mod)
  with hi bound show ?thesis
    by (simp add: bucketFromHash_def mul64_def TotalRouteWeightBasisPoints_def Let_def
        mod_pos_pos_trivial)
qed

lemma bucketFromHash_less: "unat (bucketFromHash hash) < 10000"
proof -
  have "uint (get_u64 hash) < 2 ^ 64" using uint_lt2p [of "get_u64 hash"] by simp
  then have "uint (bucketFromHash hash) < 10000"
    by (simp add: bucketFromHash_int div_less_iff_less_mult)
  then show ?thesis by (simp flip: nat_uint_eq add: nat_less_iff)
qed

text \<open>
  The cumulative loop over nat: with at most 32 valid targets no partial sum wraps, so the
  32-bit loop finds the interval of the exact sums.
\<close>

fun interval_target :: "nat \<Rightarrow> RouteTarget list \<Rightarrow> nat \<Rightarrow> RouteTarget option" where
  "interval_target acc [] b = None"
| "interval_target acc (t # ts) b =
    (if b < acc + target_weight t then Some t else interval_target (acc + target_weight t) ts b)"

lemma targetForBucket_loop_interval:
  "unat cum + sum_list (map target_weight ts) < 2 ^ 32 \<Longrightarrow>
     targetForBucket_loop cum ts b = interval_target (unat cum) ts (unat b)"
proof (induction ts arbitrary: cum)
  case (Cons t ts)
  have "unat (cum + rt_WeightBasisPoints t) = unat cum + target_weight t"
    using Cons.prems by (simp add: unat_word_ariths target_weight_def)
  with Cons.IH [of "cum + rt_WeightBasisPoints t"] Cons.prems show ?case
    by (simp add: word_less_nat_alt Let_def)
qed simp

lemma targetForBucket_interval:
  assumes "sum_list (map target_weight ts) = 10000"
  shows "targetForBucket ts b = interval_target 0 ts (unat b)"
  using targetForBucket_loop_interval [of 0 ts b] assms by (simp add: targetForBucket_def)

lemma interval_target_covers:
  "acc \<le> b \<Longrightarrow> b < acc + sum_list (map target_weight ts) \<Longrightarrow>
     \<exists>t \<in> set ts. interval_target acc ts b = Some t"
proof (induction ts arbitrary: acc)
  case (Cons t ts)
  then show ?case by (cases "b < acc + target_weight t") (auto simp: not_less)
qed simp

lemma interval_target_in: "interval_target acc ts b = Some t \<Longrightarrow> t \<in> set ts"
  by (induction ts arbitrary: acc) (auto split: if_splits)

lemma interval_target_less:
  "interval_target acc ts b = Some t \<Longrightarrow> b < acc + sum_list (map target_weight ts)"
  by (induction ts arbitrary: acc) (fastforce simp flip: add.assoc split: if_splits)+

lemma interval_target_index_from:
  "acc \<le> b \<Longrightarrow> interval_target acc ts b = Some t \<Longrightarrow>
     \<exists>i < length ts. t = ts ! i \<and> acc + sum_list (map target_weight (take i ts)) \<le> b \<and>
       b < acc + sum_list (map target_weight (take (Suc i) ts))"
proof (induction ts arbitrary: acc)
  case (Cons x ts)
  show ?case
  proof (cases "b < acc + target_weight x")
    case True
    with Cons.prems show ?thesis by (intro exI [of _ 0]) simp
  next
    case False
    then obtain i where "i < length ts" "t = ts ! i"
      "acc + target_weight x + sum_list (map target_weight (take i ts)) \<le> b"
      "b < acc + target_weight x + sum_list (map target_weight (take (Suc i) ts))"
      using Cons.IH [of "acc + target_weight x"] Cons.prems by (auto simp: not_less)
    then show ?thesis by (intro exI [of _ "Suc i"]) (simp add: add.assoc)
  qed
qed simp

lemmas interval_target_index = interval_target_index_from [of 0, simplified]

lemma interval_target_count:
  "distinct ts \<Longrightarrow> t \<in> set ts \<Longrightarrow>
     card {b. acc \<le> b \<and> interval_target acc ts b = Some t} = target_weight t"
proof (induction ts arbitrary: acc)
  case (Cons x ts)
  show ?case
  proof (cases "t = x")
    case True
    have "x \<notin> set ts" using Cons.prems(1) by simp
    then have "{b. acc \<le> b \<and> interval_target acc (x # ts) b = Some t}
        = {acc..<acc + target_weight x}"
      using True interval_target_in by (fastforce split: if_splits)
    then show ?thesis using True by simp
  next
    case False
    have "{b. acc \<le> b \<and> interval_target acc (x # ts) b = Some t}
        = {b. acc + target_weight x \<le> b \<and> interval_target (acc + target_weight x) ts b = Some t}"
      using False by (auto split: if_splits)
    then show ?thesis using Cons False by simp
  qed
qed simp

subsection \<open>Framing\<close>

text \<open>A length-prefixed field can be read back off the front of any text.\<close>

lemma frame_field_inject:
  assumes "length a < 2 ^ 32" "length b < 2 ^ 32" "frame_field a @ xs = frame_field b @ ys"
  shows "a = b \<and> xs = ys"
proof -
  let ?pa = "put_u32 (of_nat (length a))" and ?pb = "put_u32 (of_nat (length b))"
  have "?pa @ (a @ xs) = ?pb @ (b @ ys)" using assms(3) by (simp add: frame_field_def)
  then have prefix: "?pa = ?pb" and rest: "a @ xs = b @ ys" by simp_all
  have "(of_nat (length a) :: u32) = of_nat (length b)"
    using arg_cong [OF prefix, of get_u32] by simp
  then have "unat (of_nat (length a) :: u32) = unat (of_nat (length b) :: u32)" by simp
  then have "length a = length b"
    using assms(1,2) by (simp add: unat_of_nat take_bit_nat_eq_self)
  with rest show ?thesis by simp
qed

lemma frame_fields_inject:
  "length as = length bs \<Longrightarrow> \<forall>a \<in> set as. length a < 2 ^ 32 \<Longrightarrow> \<forall>b \<in> set bs. length b < 2 ^ 32 \<Longrightarrow>
     concat (map frame_field as) = concat (map frame_field bs) \<Longrightarrow> as = bs"
proof (induction as bs rule: list_induct2)
  case (Cons a as b bs)
  then have "a = b \<and> concat (map frame_field as) = concat (map frame_field bs)"
    by (intro frame_field_inject) auto
  with Cons show ?case by simp
qed simp

lemma hashPreimage_Inr:
  "hashPreimage route key = Inr p \<Longrightarrow>
     p = concat (map frame_field (hash_fields route key)) \<and>
     (\<forall>field \<in> set (hash_fields route key). length field < 2 ^ 32)"
  by (auto simp: hashPreimage_def Let_def split: if_splits)

subsection \<open>Order of the targets\<close>

interpretation target_order: key_compare compareTargets target_id
  by unfold_locales (auto simp: compareTargets_def target_id_def less_prod_simp)

lemma sort_targets_weight:
  "sum_list (map target_weight (sort_by compareTargets ts)) = sum_list (map target_weight ts)"
  by (metis mset_map mset_sort_by sum_mset_sum_list)

lemma distinct_sort_targets:
  "distinct (map target_id ts) \<Longrightarrow> distinct (sort_by compareTargets ts)"
  by (metis distinct_map mset_eq_imp_distinct_iff mset_sort_by)

lemma total_bytes_small:
  "\<forall>f \<in> set (hash_fields route key). length f < 2 ^ 32 \<Longrightarrow>
     total_bytes (hash_fields route key) \<le> 9223372036854775807"
proof -
  assume "\<forall>f \<in> set (hash_fields route key). length f < 2 ^ 32"
  then have "length (sr_FunctionID route) < 2 ^ 32" "length (sr_Salt route) < 2 ^ 32"
    "length key < 2 ^ 32" by (auto simp: hash_fields_def)
  then show ?thesis
    by (simp add: total_bytes_def hash_fields_def word_le_nat_alt unat_word_ariths
        take_bit_nat_eq_self unat_of_nat)
qed

lemma hashPreimage_defined:
  assumes "ServingRoute_Validate route = None" and "length key < 2 ^ 32"
  shows "\<exists>p. hashPreimage route key = Inr p"
proof -
  have "length (sr_FunctionID route) \<le> 128" "length (sr_Salt route) = 16"
    using assms(1)
    by (auto simp: ServingRoute_Validate_def checks idPattern_def matches_class_def)
  then have "\<forall>f \<in> set (hash_fields route key). length f < 2 ^ 32"
    using assms(2) by (auto simp: hash_fields_def)
  with total_bytes_small [OF this] show ?thesis
    by (auto simp: hashPreimage_def Let_def not_less)
qed

lemma selectServing_covers:
  assumes "ServingRoute_Validate route = None" and "sr_Enabled route"
    and "hashPreimage route key = Inr p"
  shows "\<exists>d. selectServing route key = Inr d \<and> dec_Target d \<in> set (sr_Targets route) \<and>
     dec_Bucket d = bucketFromHash (sha256 p) \<and>
     interval_target 0 (sort_by compareTargets (sr_Targets route)) (unat (dec_Bucket d))
       = Some (dec_Target d)"
proof -
  let ?ts = "sort_by compareTargets (sr_Targets route)"
  have total: "sum_list (map target_weight ?ts) = 10000"
    using ServingRoute_Validate_enabled(4) [OF assms(1,2)] by (simp add: sort_targets_weight)
  then obtain t where "t \<in> set ?ts"
    and "interval_target 0 ?ts (unat (bucketFromHash (sha256 p))) = Some t"
    using interval_target_covers [of 0 "unat (bucketFromHash (sha256 p))" ?ts]
      bucketFromHash_less [of "sha256 p"] by auto
  then show ?thesis
    using assms(2,3) by (simp add: selectServing_def Let_def targetForBucket_interval [OF total])
qed

lemma selectServing_targets_cong:
  assumes "distinct (map target_id (sr_Targets route))" and "mset ts = mset (sr_Targets route)"
  shows "selectServing (route\<lparr>sr_Targets := ts\<rparr>) key = selectServing route key"
proof -
  have "sort_by compareTargets ts = sort_by compareTargets (sr_Targets route)"
    by (rule target_order.sort_by_key_perm) (use assms in simp_all)
  moreover have "hashPreimage (route\<lparr>sr_Targets := ts\<rparr>) key = hashPreimage route key"
    by (simp add: hashPreimage_def hash_fields_def)
  ultimately show ?thesis
    by (simp add: selectServing_def Let_def split: sum.split)
qed

lemma ServingRoute_Validate_perm:
  assumes "ServingRoute_Validate route = None" and "mset ts = mset (sr_Targets route)"
  shows "ServingRoute_Validate (route\<lparr>sr_Targets := ts\<rparr>) = None"
proof -
  have "length ts = length (sr_Targets route)" "set ts = set (sr_Targets route)"
    using assms(2) by (metis size_mset, metis set_mset_mset)
  moreover have "mset (map f ts) = mset (map f (sr_Targets route))" for f :: "RouteTarget \<Rightarrow> 'b"
    using assms(2) by simp
  then have "sum_list (map target_weight ts) = sum_list (map target_weight (sr_Targets route))"
    "distinct (map target_id ts) = distinct (map target_id (sr_Targets route))"
    by (metis sum_mset_sum_list, metis mset_eq_imp_distinct_iff)
  ultimately show ?thesis
    using assms(1) by (auto simp: ServingRoute_Validate_def checks)
qed

subsection \<open>Properties\<close>

definition sample_target :: "string \<Rightarrow> u32 \<Rightarrow> RouteTarget" where
  "sample_target version weight =
    \<lparr>rt_VersionID = version, rt_AdmissionEpoch = 1, rt_DeploymentGeneration = 1,
     rt_EffectivePolicyDigest = sample_digest, rt_WeightBasisPoints = weight\<rparr>"

definition sample_serving_route :: ServingRoute where
  "sample_serving_route =
    \<lparr>sr_FunctionID = ''fn-1'', sr_RouteRevision = 3,
     sr_Targets = [sample_target ''v2'' 2500, sample_target ''v1'' 7500],
     sr_HashVersion = HashVersionSHA256BPSV1, sr_Salt = replicate 16 (CHR ''s''), sr_Enabled = True\<rparr>"

lemma sample_serving_route_valid: "ServingRoute_Validate sample_serving_route = None"
  by code_simp

text \<open>
  C33: On every valid enabled route and every affinity key the framing can hold, selection
  returns a decision (the error for uncovered buckets is unreachable), and the decision is
  the target whose interval of cumulative weights, in (version, generation) order, holds
  the bucket of the hash; the bucket is below 10000.
\<close>

theorem select_serving_total:
  assumes "ServingRoute_Validate route = None" and "sr_Enabled route" and "length key < 2 ^ 32"
  shows "\<exists>d i. SelectServing route key = Inr d \<and>
     (let ts = sort_by compareTargets (sr_Targets route) in
        i < length ts \<and> dec_Target d = ts ! i \<and> unat (dec_Bucket d) < 10000 \<and>
        sum_list (map target_weight (take i ts)) \<le> unat (dec_Bucket d) \<and>
        unat (dec_Bucket d) < sum_list (map target_weight (take (Suc i) ts)))"
proof -
  obtain p where p: "hashPreimage route key = Inr p"
    using hashPreimage_defined [OF assms(1,3)] by blast
  obtain d where d: "selectServing route key = Inr d" "dec_Bucket d = bucketFromHash (sha256 p)"
    and int: "interval_target 0 (sort_by compareTargets (sr_Targets route)) (unat (dec_Bucket d))
      = Some (dec_Target d)"
    using selectServing_covers [OF assms(1,2) p] by blast
  from interval_target_index [OF int] d assms(1) show ?thesis
    by (auto simp: SelectServing_def Let_def bucketFromHash_less)
qed

theorem select_serving_total_witness:
  "\<exists>d i. SelectServing sample_serving_route ''key'' = Inr d \<and>
     (let ts = sort_by compareTargets (sr_Targets sample_serving_route) in
        i < length ts \<and> dec_Target d = ts ! i \<and> unat (dec_Bucket d) < 10000 \<and>
        sum_list (map target_weight (take i ts)) \<le> unat (dec_Bucket d) \<and>
        unat (dec_Bucket d) < sum_list (map target_weight (take (Suc i) ts)))"
  by (rule select_serving_total [OF sample_serving_route_valid])
     (simp_all add: sample_serving_route_def)

text \<open>
  C7: Traffic split is exact: of the 10000 buckets, a target of a valid enabled route is
  chosen for exactly as many as its weight in basis points, whatever the order in which the
  targets are listed.
\<close>

theorem bucket_share_exact:
  assumes "ServingRoute_Validate route = None" and "sr_Enabled route"
    and "t \<in> set (sr_Targets route)"
  shows "card {b. b < 10000 \<and>
       targetForBucket (sort_by compareTargets (sr_Targets route)) (word_of_nat b) = Some t}
     = target_weight t"
proof -
  let ?ts = "sort_by compareTargets (sr_Targets route)"
  have total: "sum_list (map target_weight ?ts) = 10000"
    using ServingRoute_Validate_enabled(4) [OF assms(1,2)] by (simp add: sort_targets_weight)
  have "targetForBucket ?ts (word_of_nat b) = interval_target 0 ?ts b" if "b < 10000" for b
    using that by (simp add: targetForBucket_interval [OF total] unat_of_nat take_bit_nat_eq_self)
  moreover have "b < 10000" if "interval_target 0 ?ts b = Some t" for b
    using interval_target_less [OF that] total by simp
  ultimately have "{b. b < 10000 \<and> targetForBucket ?ts (word_of_nat b) = Some t}
      = {b. 0 \<le> b \<and> interval_target 0 ?ts b = Some t}" by auto
  with interval_target_count [of ?ts t 0] assms(3)
    distinct_sort_targets [OF ServingRoute_Validate_enabled(3) [OF assms(1,2)]]
  show ?thesis by simp
qed

theorem bucket_share_exact_witness:
  "card {b. b < 10000 \<and>
       targetForBucket (sort_by compareTargets (sr_Targets sample_serving_route)) (word_of_nat b)
         = Some (sample_target ''v2'' 2500)}
     = target_weight (sample_target ''v2'' 2500)"
  by (rule bucket_share_exact [OF sample_serving_route_valid])
     (simp_all add: sample_serving_route_def)

text \<open>
  C36: The decision (hash digest, bucket and target) of a valid route depends on the set of
  its targets only: listing the same targets in another order gives the same decision.
\<close>

theorem select_serving_order:
  assumes "ServingRoute_Validate route = None" and "sr_Enabled route"
    and "mset ts = mset (sr_Targets route)"
  shows "SelectServing (route\<lparr>sr_Targets := ts\<rparr>) key = SelectServing route key"
  using assms ServingRoute_Validate_perm [OF assms(1,3)]
    selectServing_targets_cong [OF ServingRoute_Validate_enabled(3) [OF assms(1,2)] assms(3)]
  by (simp add: SelectServing_def)

theorem select_serving_order_witness:
  "SelectServing (sample_serving_route
       \<lparr>sr_Targets := [sample_target ''v1'' 7500, sample_target ''v2'' 2500]\<rparr>) ''key''
     = SelectServing sample_serving_route ''key''"
  by (rule select_serving_order [OF sample_serving_route_valid])
     (simp_all add: sample_serving_route_def)

text \<open>
  C37: The hash preimage is an injective encoding: two preimages agree only if the function,
  the route revision, the salt and the affinity key all agree, so no choice of key can
  imitate another route's input.
\<close>

theorem hash_preimage_injective:
  assumes "hashPreimage r1 k1 = Inr p" and "hashPreimage r2 k2 = Inr p"
  shows "sr_FunctionID r1 = sr_FunctionID r2 \<and> sr_RouteRevision r1 = sr_RouteRevision r2 \<and>
    sr_Salt r1 = sr_Salt r2 \<and> k1 = k2"
proof -
  have "hash_fields r1 k1 = hash_fields r2 k2"
    using hashPreimage_Inr [OF assms(1)] hashPreimage_Inr [OF assms(2)]
    by (intro frame_fields_inject) (simp_all add: hash_fields_def)
  then have fields_eq: "sr_FunctionID r1 = sr_FunctionID r2" "sr_Salt r1 = sr_Salt r2" "k1 = k2"
    and rev: "put_u64 (sr_RouteRevision r1) = put_u64 (sr_RouteRevision r2)"
    by (simp_all add: hash_fields_def)
  have "sr_RouteRevision r1 = sr_RouteRevision r2"
    using arg_cong [OF rev, of get_u64] by simp
  with fields_eq show ?thesis by simp
qed

theorem hash_preimage_injective_witness:
  "(\<exists>p. hashPreimage sample_serving_route ''k'' = Inr p) \<and>
   sr_Salt (sample_serving_route\<lparr>sr_Targets := []\<rparr>) = sr_Salt sample_serving_route \<and>
   sr_RouteRevision (sample_serving_route\<lparr>sr_Targets := []\<rparr>)
     = sr_RouteRevision sample_serving_route"
proof -
  obtain p where p: "hashPreimage sample_serving_route ''k'' = Inr p"
    using hashPreimage_defined [OF sample_serving_route_valid, of "''k''"] by auto
  then have "hashPreimage (sample_serving_route\<lparr>sr_Targets := []\<rparr>) ''k'' = Inr p"
    by (simp add: hashPreimage_def hash_fields_def)
  from hash_preimage_injective [OF this p] p show ?thesis by blast
qed

end
