(* ===== verification/Machine.thy ===== *)
theory Machine
  imports Prelude
begin

text \<open>
  Every stateful component of the program guards its state with one mutex and changes it
  only in its exported operations, so its behaviours are the sequences of these operations.
  A component gives a datatype of events (one constructor per operation, with the arguments
  and the clock readings of the call) and a function \<open>exec\<close> that runs one of them. The
  locales state what a component proves once about \<open>exec\<close>, and what then holds of every
  sequence of operations.
\<close>

definition run :: "('e \<Rightarrow> 's \<Rightarrow> 's) \<Rightarrow> 'e list \<Rightarrow> 's \<Rightarrow> 's" where
  "run exec es s = fold exec es s"

lemma run_simps [simp]:
  "run exec [] s = s"
  "run exec (e # es) s = run exec es (exec e s)"
  "run exec (es @ es') s = run exec es' (run exec es s)"
  by (simp_all add: run_def)

inductive reachable :: "('s \<Rightarrow> bool) \<Rightarrow> ('e \<Rightarrow> 's \<Rightarrow> 's) \<Rightarrow> 's \<Rightarrow> bool"
  for initial :: "'s \<Rightarrow> bool" and exec :: "'e \<Rightarrow> 's \<Rightarrow> 's" where
  reachable_initial: "initial s \<Longrightarrow> reachable initial exec s"
| reachable_exec: "reachable initial exec s \<Longrightarrow> reachable initial exec (exec e s)"

lemma reachable_run:
  "reachable initial exec s \<Longrightarrow> reachable initial exec (run exec es s)"
  by (induction es arbitrary: s) (auto intro: reachable_exec)

text \<open>A component whose operations keep an invariant that holds when it is created.\<close>

locale component =
  fixes initial :: "'s \<Rightarrow> bool"
    and exec :: "'e \<Rightarrow> 's \<Rightarrow> 's"
    and inv :: "'s \<Rightarrow> bool"
  assumes inv_initial: "initial s \<Longrightarrow> inv s"
    and inv_exec: "inv s \<Longrightarrow> inv (exec e s)"
begin

lemma inv_run: "inv s \<Longrightarrow> inv (run exec es s)"
  by (induction es arbitrary: s) (auto intro: inv_exec)

lemma inv_reachable: "reachable initial exec s \<Longrightarrow> inv s"
  by (induction rule: reachable.induct) (auto intro: inv_initial inv_exec)

end

text \<open>
  A relation between an earlier and a later state that every operation establishes, such as
  the growth of an epoch counter or that a removed worker stays removed.
\<close>

locale evolving = component initial exec inv
  for initial :: "'s \<Rightarrow> bool" and exec :: "'e \<Rightarrow> 's \<Rightarrow> 's" and inv :: "'s \<Rightarrow> bool" +
  fixes later :: "'s \<Rightarrow> 's \<Rightarrow> bool"
  assumes later_refl: "later s s"
    and later_trans: "later s t \<Longrightarrow> later t u \<Longrightarrow> later s u"
    and later_exec: "inv s \<Longrightarrow> later s (exec e s)"
begin

lemma later_run: "inv s \<Longrightarrow> later s (run exec es s)"
proof (induction es arbitrary: s)
  case (Cons e es)
  then show ?case using later_trans [OF later_exec [of s e]] inv_exec by auto
qed (simp add: later_refl)

lemma later_reachable: "reachable initial exec s \<Longrightarrow> later s (run exec es s)"
  by (rule later_run) (rule inv_reachable)

end

text \<open>
  Optimistic concurrency. A component keeps resources under keys, each with a revision that
  the operations compare with the one a client has read. The contract is that an operation
  removes no resource and moves its revision forward whenever it changes it; then a revision
  identifies the content, and a client whose expected revision is current has read exactly
  what it is about to replace.
\<close>

locale revisioned = component initial exec inv
  for initial :: "'s \<Rightarrow> bool" and exec :: "'e \<Rightarrow> 's \<Rightarrow> 's" and inv :: "'s \<Rightarrow> bool" +
  fixes get :: "'s \<Rightarrow> 'k \<Rightarrow> 'r option"
    and revision :: "'r \<Rightarrow> 'n :: linorder"
  assumes get_exec: "inv s \<Longrightarrow> get s k = Some r \<Longrightarrow>
    \<exists>r'. get (exec e s) k = Some r' \<and> (r' = r \<or> revision r < revision r')"
begin

lemma get_run:
  "inv s \<Longrightarrow> get s k = Some r \<Longrightarrow>
     \<exists>r'. get (run exec es s) k = Some r' \<and> (r' = r \<or> revision r < revision r')"
proof (induction es arbitrary: s r)
  case (Cons e es)
  then obtain r1 where r1: "get (exec e s) k = Some r1" "r1 = r \<or> revision r < revision r1"
    using get_exec by blast
  then obtain r2 where "get (run exec es (exec e s)) k = Some r2" "r2 = r1 \<or> revision r1 < revision r2"
    using Cons.IH Cons.prems inv_exec by blast
  with r1 show ?case by auto
qed simp

lemma revision_identifies:
  assumes "reachable initial exec s" "get s k = Some r" "get (run exec es s) k = Some r'"
    and "revision r' = revision r"
  shows "r' = r"
  using get_run [OF inv_reachable [OF assms(1)] assms(2), of es] assms(3,4) by auto

end

end
