(* ===== verification/ServingAuth.thy ===== *)
theory ServingAuth
  imports Machine Model
begin

text \<open>
  Package \<^verbatim>\<open>internal/servingauth\<close>: the identities that fence an invocation (identity.go) and
  the worker-side authorization gate (gate.go). The clock of the gate is read in
  \<open>elapsedLocked\<close> only; an operation that calls it takes the reading as an argument.
\<close>

subsection \<open>Identities (identity.go)\<close>

definition identifierPattern :: "string \<Rightarrow> bool" where
  "identifierPattern = matches_class is_id_char 1 128"

lemma identifierPattern_eq: "identifierPattern = idPattern"
  by (simp add: identifierPattern_def idPattern_def)

datatype Mode = ModeNormal | ModeDrainOnly | ModeOther string

datatype Lifetime = LifetimeTTL | LifetimeLiveOnly | LifetimeOther string

record WorkerSession =
  ws_WorkerID :: string
  ws_BootID :: string
  ws_SessionEpoch :: u64

record WorkerProcess =
  wp_WorkerID :: string
  wp_BootID :: string

record AssignmentIdentity =
  ai_Worker :: WorkerSession
  ai_AssignmentID :: string
  ai_VersionID :: string
  ai_AdmissionEpoch :: u64
  ai_DeploymentGeneration :: u64
  ai_PolicyDigest :: SHA256
  ai_Mode :: Mode

record InvocationFence =
  if_Assignment :: AssignmentIdentity
  if_DiscoveryEpoch :: u64

record Authorization =
  au_Fence :: InvocationFence
  au_Lifetime :: Lifetime
  au_TTL :: duration

record ControlConnection =
  cc_ConnectionID :: string
  cc_SessionEpoch :: u64
  cc_DiscoveryEpoch :: u64

definition WorkerProcess_validate :: "WorkerProcess \<Rightarrow> error option" where
  "WorkerProcess_validate p = first_error
    [fail_if (\<not> identifierPattern (wp_WorkerID p)) (Invalid ''worker_id'' ''must be a valid identifier''),
     fail_if (\<not> identifierPattern (wp_BootID p)) (Invalid ''boot_id'' ''must be a valid identifier'')]"

definition WorkerSession_validate :: "WorkerSession \<Rightarrow> error option" where
  "WorkerSession_validate s = first_error
    [fail_if (\<not> identifierPattern (ws_WorkerID s)) (Invalid ''worker_id'' ''must be a valid identifier''),
     fail_if (\<not> identifierPattern (ws_BootID s)) (Invalid ''boot_id'' ''must be a valid identifier''),
     fail_if (ws_SessionEpoch s = 0) (Invalid ''session_epoch'' ''must be greater than zero'')]"

definition AssignmentIdentity_validate :: "AssignmentIdentity \<Rightarrow> error option" where
  "AssignmentIdentity_validate a = first_error
    [WorkerSession_validate (ai_Worker a),
     fail_if (\<not> identifierPattern (ai_AssignmentID a))
       (Invalid ''assignment_id'' ''must be a valid identifier''),
     fail_if (\<not> identifierPattern (ai_VersionID a)) (Invalid ''version_id'' ''must be a valid identifier''),
     fail_if (ai_AdmissionEpoch a = 0) (Invalid ''admission_epoch'' ''must be greater than zero''),
     fail_if (ai_DeploymentGeneration a = 0)
       (Invalid ''deployment_generation'' ''must be greater than zero''),
     fail_if (bad_digest (ai_PolicyDigest a))
       (Invalid ''policy_digest'' ''must be a lowercase sha-256 digest''),
     fail_if (ai_Mode a \<noteq> ModeNormal \<and> ai_Mode a \<noteq> ModeDrainOnly)
       (Invalid ''assignment_mode'' ''must be normal or drain-only'')]"

definition InvocationFence_validate :: "InvocationFence \<Rightarrow> error option" where
  "InvocationFence_validate f = first_error
    [AssignmentIdentity_validate (if_Assignment f),
     fail_if (if_DiscoveryEpoch f = 0) (Invalid ''discovery_epoch'' ''must be greater than zero'')]"

definition Authorization_validate :: "duration \<Rightarrow> Authorization \<Rightarrow> error option" where
  "Authorization_validate maxTTL a = first_error
    [InvocationFence_validate (au_Fence a),
     (case au_Lifetime a of
        LifetimeTTL \<Rightarrow> fail_if (au_TTL a \<le> 0 \<or> au_TTL a > maxTTL)
          (Invalid ''authorization_ttl'' ''must be positive and within the worker maximum'')
      | LifetimeLiveOnly \<Rightarrow> fail_if (au_TTL a \<noteq> 0)
          (Invalid ''authorization_ttl'' ''must be zero for live-only authorization'')
      | LifetimeOther _ \<Rightarrow>
          Some (Invalid ''authorization_lifetime'' ''must be ttl or live_only''))]"

definition ControlConnection_validate :: "ControlConnection \<Rightarrow> error option" where
  "ControlConnection_validate c = first_error
    [fail_if (\<not> identifierPattern (cc_ConnectionID c))
       (Invalid ''control_connection_id'' ''must be a valid identifier''),
     fail_if (cc_SessionEpoch c = 0) (Invalid ''session_epoch'' ''must be greater than zero''),
     fail_if (cc_DiscoveryEpoch c = 0) (Invalid ''discovery_epoch'' ''must be greater than zero'')]"

subsection \<open>The gate (gate.go)\<close>

definition DefaultMaxTTL :: duration where "DefaultMaxTTL = 5 * minute"
definition HardMaxTTL :: duration where "HardMaxTTL = 10 * minute"
definition DefaultMaxAuthorizations :: int where "DefaultMaxAuthorizations = 4096"
definition HardMaxAuthorizations :: int where "HardMaxAuthorizations = 65536"

record GateConfig =
  gc_Worker :: WorkerProcess
  gc_MaxTTL :: duration
  gc_MaxAuthorizations :: int

record controlState =
  cs_connection :: ControlConnection
  cs_connected :: bool

record authorizationRecord =
  ar_authorization :: Authorization
  ar_connection :: ControlConnection
  ar_receivedAt :: duration

record Gate =
  g_worker :: WorkerProcess
  g_maxTTL :: duration
  g_maxAuthorizations :: int
  g_highestDiscoveryEpoch :: u64
  g_currentSessionEpoch :: u64
  g_control :: controlState
  g_assignments :: "(string, AssignmentIdentity) fmap"
  g_authorizations :: "(string, authorizationRecord) fmap"
  g_lastElapsed :: duration
  g_clockHealthy :: bool

record GateSnapshot =
  gs_HighestDiscoveryEpoch :: u64
  gs_CurrentSessionEpoch :: u64
  gs_ControlConnected :: bool
  gs_TrackedAssignments :: nat
  gs_StoredAuthorizations :: nat
  gs_ClockHealthy :: bool

text \<open>The zero value of \<open>controlState\<close>.\<close>

definition zero_control :: controlState where
  "zero_control =
    \<lparr>cs_connection = \<lparr>cc_ConnectionID = [], cc_SessionEpoch = 0, cc_DiscoveryEpoch = 0\<rparr>,
     cs_connected = False\<rparr>"

definition NewGate :: "GateConfig \<Rightarrow> duration \<Rightarrow> error + Gate" where
  "NewGate config elapsed =
    (case WorkerProcess_validate (gc_Worker config) of
       Some e \<Rightarrow> Inl e
     | None \<Rightarrow>
         (let maxTTL = (if gc_MaxTTL config = 0 then DefaultMaxTTL else gc_MaxTTL config);
              maxAuthorizations = (if gc_MaxAuthorizations config = 0 then DefaultMaxAuthorizations
                                   else gc_MaxAuthorizations config)
          in if maxTTL \<le> 0 \<or> maxTTL > HardMaxTTL
               then Inl (Opaque ''serving authorization ttl limit is outside v1 bounds'')
             else if maxAuthorizations < 1 \<or> maxAuthorizations > HardMaxAuthorizations
               then Inl (Opaque ''serving authorization entry limit is outside v1 bounds'')
             else if elapsed < 0
               then Inl (Opaque
                 ''serving authorization monotonic clock returned negative elapsed time'')
             else Inr \<lparr>g_worker = gc_Worker config, g_maxTTL = maxTTL,
                   g_maxAuthorizations = maxAuthorizations, g_highestDiscoveryEpoch = 0,
                   g_currentSessionEpoch = 0, g_control = zero_control,
                   g_assignments = fmempty, g_authorizations = fmempty,
                   g_lastElapsed = elapsed, g_clockHealthy = True\<rparr>))"

definition currentWorkerLocked :: "Gate \<Rightarrow> WorkerSession" where
  "currentWorkerLocked g =
    \<lparr>ws_WorkerID = wp_WorkerID (g_worker g), ws_BootID = wp_BootID (g_worker g),
     ws_SessionEpoch = g_currentSessionEpoch g\<rparr>"

definition currentControlLocked :: "Gate \<Rightarrow> ControlConnection \<Rightarrow> bool" where
  "currentControlLocked g connection \<longleftrightarrow>
    cs_connected (g_control g) \<and> cs_connection (g_control g) = connection \<and>
    cc_DiscoveryEpoch connection = g_highestDiscoveryEpoch g"

definition elapsedLocked :: "duration \<Rightarrow> (error, Gate, duration) operation" where
  "elapsedLocked now g =
    (if \<not> g_clockHealthy g \<or> now < g_lastElapsed g
     then (Inl (classified CodeStaleAssignment ''worker monotonic clock is unhealthy''),
           g\<lparr>g_clockHealthy := False\<rparr>)
     else (Inr now, g\<lparr>g_lastElapsed := now\<rparr>))"

definition validLocked :: "Gate \<Rightarrow> authorizationRecord \<Rightarrow> duration \<Rightarrow> bool" where
  "validLocked g record now =
    (let authorization = ar_authorization record in
     if if_DiscoveryEpoch (au_Fence authorization) \<noteq> g_highestDiscoveryEpoch g \<or>
        now < ar_receivedAt record then False
     else if au_Lifetime authorization = LifetimeLiveOnly
       then currentControlLocked g (ar_connection record)
     else now - ar_receivedAt record < au_TTL authorization)"

definition compatibleRefresh :: "AssignmentIdentity \<Rightarrow> AssignmentIdentity \<Rightarrow> error option" where
  "compatibleRefresh previous next = first_error
    [fail_if (ai_AssignmentID previous \<noteq> ai_AssignmentID next)
       (classified CodeStaleAssignment ''authorization assignment id changed''),
     fail_if (ai_VersionID previous \<noteq> ai_VersionID next \<or>
              ai_AdmissionEpoch previous \<noteq> ai_AdmissionEpoch next \<or>
              ai_DeploymentGeneration previous \<noteq> ai_DeploymentGeneration next \<or>
              ai_PolicyDigest previous \<noteq> ai_PolicyDigest next)
       (classified CodeStaleGeneration ''authorization generation identity changed''),
     fail_if (previous \<noteq> next)
       (classified CodeStaleAssignment ''authorization assignment identity changed'')]"

definition AcceptAuthoritativeControl :: "ControlConnection \<Rightarrow> (error, Gate, unit) operation" where
  "AcceptAuthoritativeControl connection g =
    (case ControlConnection_validate connection of
       Some e \<Rightarrow> (Inl e, g)
     | None \<Rightarrow>
         if cc_DiscoveryEpoch connection < g_highestDiscoveryEpoch g
         then (Inl (classified CodeStaleGeneration ''control discovery epoch is stale''), g)
         else
           (let g1 = (if cc_DiscoveryEpoch connection > g_highestDiscoveryEpoch g
                      then g\<lparr>g_highestDiscoveryEpoch := cc_DiscoveryEpoch connection,
                             g_authorizations := fmempty,
                             g_control := (g_control g)\<lparr>cs_connected := False\<rparr>\<rparr>
                      else g)
            in if cc_SessionEpoch connection < g_currentSessionEpoch g1
               then (Inl (classified CodeStaleAssignment ''worker session epoch is stale''), g1)
               else if cc_SessionEpoch connection = g_currentSessionEpoch g1
               then if cs_connected (g_control g1) \<and> cs_connection (g_control g1) = connection
                    then (Inr (), g1)
                    else (Inl (classified CodeStaleAssignment
                            ''worker session epoch must increase on reconnect''), g1)
               else (Inr (), g1\<lparr>g_currentSessionEpoch := cc_SessionEpoch connection,
                                 g_assignments := fmempty, g_authorizations := fmempty,
                                 g_control := \<lparr>cs_connection = connection,
                                                cs_connected = True\<rparr>\<rparr>)))"

definition CheckAssignment :: "Gate \<Rightarrow> ControlConnection \<Rightarrow> InvocationFence \<Rightarrow> error option" where
  "CheckAssignment g connection fence = first_error
    [ControlConnection_validate connection,
     InvocationFence_validate fence,
     fail_if (\<not> currentControlLocked g connection \<or>
              if_DiscoveryEpoch fence \<noteq> cc_DiscoveryEpoch connection)
       (classified CodeStaleAssignment ''authenticated control connection is unavailable''),
     fail_if (ai_Worker (if_Assignment fence) \<noteq> currentWorkerLocked g)
       (classified CodeStaleAssignment ''assignment targets another worker session'')]"

definition CheckControl :: "Gate \<Rightarrow> ControlConnection \<Rightarrow> error option" where
  "CheckControl g connection = first_error
    [ControlConnection_validate connection,
     fail_if (\<not> currentControlLocked g connection)
       (classified CodeStaleAssignment ''authenticated control connection is unavailable'')]"

definition DisconnectControl :: "ControlConnection \<Rightarrow> Gate \<Rightarrow> Gate" where
  "DisconnectControl connection g =
    (if cs_connection (g_control g) = connection
     then g\<lparr>g_control := (g_control g)\<lparr>cs_connected := False\<rparr>\<rparr> else g)"

text \<open>The checks of \<open>Install\<close> before the clock is read, and those after it.\<close>

definition Install_checks :: "Gate \<Rightarrow> ControlConnection \<Rightarrow> Authorization \<Rightarrow> error option" where
  "Install_checks g connection authorization = first_error
    [Authorization_validate (g_maxTTL g) authorization,
     ControlConnection_validate connection,
     fail_if (\<not> currentControlLocked g connection \<or>
              if_DiscoveryEpoch (au_Fence authorization) \<noteq> cc_DiscoveryEpoch connection)
       (classified CodeStaleAssignment ''authenticated control connection is unavailable''),
     fail_if (ai_Worker (if_Assignment (au_Fence authorization)) \<noteq> currentWorkerLocked g)
       (classified CodeStaleAssignment ''authorization targets another worker session'')]"

definition Install_capacity :: "Gate \<Rightarrow> AssignmentIdentity \<Rightarrow> error option" where
  "Install_capacity g identity =
    (case fmlookup (g_assignments g) (ai_AssignmentID identity) of
       Some previous \<Rightarrow> compatibleRefresh previous identity
     | None \<Rightarrow> fail_if (int (map_len (g_assignments g)) \<ge> g_maxAuthorizations g)
         (classified CodeOverloaded ''serving authorization capacity is full''))"

definition Install :: "ControlConnection \<Rightarrow> Authorization \<Rightarrow> duration \<Rightarrow> (error, Gate, unit) operation" where
  "Install connection authorization clock g =
    check (Install_checks g connection authorization) g
    (case elapsedLocked clock g of
       (Inl e, g1) \<Rightarrow> (Inl e, g1)
     | (Inr now, g1) \<Rightarrow>
         (let identity = if_Assignment (au_Fence authorization);
              assignmentID = ai_AssignmentID identity
          in check (Install_capacity g1 identity) g1
             (Inr (), g1\<lparr>g_assignments := fmupd assignmentID identity (g_assignments g1),
                         g_authorizations := fmupd assignmentID
                           \<lparr>ar_authorization = authorization, ar_connection = connection,
                            ar_receivedAt = now\<rparr> (g_authorizations g1)\<rparr>)))"

definition AuthorizeSync_checks :: "Gate \<Rightarrow> InvocationFence \<Rightarrow> error option" where
  "AuthorizeSync_checks g fence = first_error
    [InvocationFence_validate fence,
     fail_if (if_DiscoveryEpoch fence < g_highestDiscoveryEpoch g)
       (classified CodeStaleAssignment ''invocation discovery epoch is stale''),
     fail_if (ai_Mode (if_Assignment fence) \<noteq> ModeNormal)
       (classified CodeStaleAssignment ''assignment does not accept synchronous work'')]"

definition AuthorizeSync :: "InvocationFence \<Rightarrow> duration \<Rightarrow> (error, Gate, unit) operation" where
  "AuthorizeSync fence clock g =
    check (AuthorizeSync_checks g fence) g
    (let mismatch = (Inl (classified CodeStaleAssignment
                       ''invocation fence does not match serving authorization''), g);
         assignmentID = ai_AssignmentID (if_Assignment fence)
     in case fmlookup (g_authorizations g) assignmentID of
          None \<Rightarrow> mismatch
        | Some record \<Rightarrow>
            if au_Fence (ar_authorization record) \<noteq> fence then mismatch
            else (case elapsedLocked clock g of
                    (Inl e, g1) \<Rightarrow> (Inl e, g1)
                  | (Inr now, g1) \<Rightarrow>
                      if \<not> validLocked g1 record now
                      then (Inl (classified CodeStaleAssignment
                              ''serving authorization is no longer valid''),
                            g1\<lparr>g_authorizations := fmdrop assignmentID (g_authorizations g1)\<rparr>)
                      else (Inr (), g1)))"

definition Revoke :: "string \<Rightarrow> Gate \<Rightarrow> Gate" where
  "Revoke assignmentID g =
    (if assignmentID = [] then g
     else g\<lparr>g_assignments := fmdrop assignmentID (g_assignments g),
            g_authorizations := fmdrop assignmentID (g_authorizations g)\<rparr>)"

definition GateSnapshot_of :: "Gate \<Rightarrow> GateSnapshot" where
  "GateSnapshot_of g =
    \<lparr>gs_HighestDiscoveryEpoch = g_highestDiscoveryEpoch g,
     gs_CurrentSessionEpoch = g_currentSessionEpoch g,
     gs_ControlConnected = cs_connected (g_control g),
     gs_TrackedAssignments = map_len (g_assignments g),
     gs_StoredAuthorizations = map_len (g_authorizations g),
     gs_ClockHealthy = g_clockHealthy g\<rparr>"

subsection \<open>Behaviours of a gate\<close>

datatype GateEvent =
    EvAccept ControlConnection
  | EvDisconnect ControlConnection
  | EvInstall ControlConnection Authorization duration
  | EvAuthorize InvocationFence duration
  | EvRevoke string

fun gate_exec :: "GateEvent \<Rightarrow> Gate \<Rightarrow> Gate" where
  "gate_exec (EvAccept c) g = snd (AcceptAuthoritativeControl c g)"
| "gate_exec (EvDisconnect c) g = DisconnectControl c g"
| "gate_exec (EvInstall c a t) g = snd (Install c a t g)"
| "gate_exec (EvAuthorize f t) g = snd (AuthorizeSync f t g)"
| "gate_exec (EvRevoke i) g = Revoke i g"

definition gate_initial :: "Gate \<Rightarrow> bool" where
  "gate_initial g \<longleftrightarrow> (\<exists>config elapsed. NewGate config elapsed = Inr g)"

abbreviation fence_id :: "InvocationFence \<Rightarrow> string" where
  "fence_id f \<equiv> ai_AssignmentID (if_Assignment f)"

abbreviation record_fence :: "authorizationRecord \<Rightarrow> InvocationFence" where
  "record_fence r \<equiv> au_Fence (ar_authorization r)"

text \<open>
  What a stored authorization promises: it is filed under its assignment, was validated,
  belongs to the current discovery epoch and worker session, and was received in the past.
\<close>

definition auth_ok :: "Gate \<Rightarrow> string \<Rightarrow> authorizationRecord \<Rightarrow> bool" where
  "auth_ok g i r \<longleftrightarrow>
     fence_id (record_fence r) = i \<and>
     fmlookup (g_assignments g) i = Some (if_Assignment (record_fence r)) \<and>
     if_DiscoveryEpoch (record_fence r) = g_highestDiscoveryEpoch g \<and>
     cc_DiscoveryEpoch (ar_connection r) = g_highestDiscoveryEpoch g \<and>
     cc_SessionEpoch (ar_connection r) = g_currentSessionEpoch g \<and>
     Authorization_validate (g_maxTTL g) (ar_authorization r) = None \<and>
     0 \<le> ar_receivedAt r \<and> ar_receivedAt r \<le> g_lastElapsed g"

definition control_ok :: "Gate \<Rightarrow> bool" where
  "control_ok g \<longleftrightarrow> (cs_connected (g_control g) \<longrightarrow>
     cc_DiscoveryEpoch (cs_connection (g_control g)) = g_highestDiscoveryEpoch g \<and>
     cc_SessionEpoch (cs_connection (g_control g)) = g_currentSessionEpoch g)"

definition gate_inv :: "Gate \<Rightarrow> bool" where
  "gate_inv g \<longleftrightarrow>
     (\<forall>i r. fmlookup (g_authorizations g) i = Some r \<longrightarrow> auth_ok g i r) \<and>
     (\<forall>i a. fmlookup (g_assignments g) i = Some a \<longrightarrow>
        ai_AssignmentID a = i \<and> ai_Worker a = currentWorkerLocked g) \<and>
     int (map_len (g_assignments g)) \<le> g_maxAuthorizations g \<and>
     control_ok g \<and> 0 \<le> g_lastElapsed g \<and> g_maxTTL g \<le> HardMaxTTL"

text \<open>The order in which the states of one gate follow each other.\<close>

definition gate_later :: "Gate \<Rightarrow> Gate \<Rightarrow> bool" where
  "gate_later g g' \<longleftrightarrow>
     g_worker g' = g_worker g \<and> g_maxTTL g' = g_maxTTL g \<and>
     g_highestDiscoveryEpoch g \<le> g_highestDiscoveryEpoch g' \<and>
     g_currentSessionEpoch g \<le> g_currentSessionEpoch g' \<and>
     g_lastElapsed g \<le> g_lastElapsed g' \<and> (g_clockHealthy g' \<longrightarrow> g_clockHealthy g)"

lemmas gate_inv_defs = gate_inv_def auth_ok_def control_ok_def currentWorkerLocked_def

lemma gate_invD:
  assumes "gate_inv g"
  shows gate_inv_auth: "fmlookup (g_authorizations g) i = Some r \<Longrightarrow> auth_ok g i r"
    and gate_inv_assignment: "fmlookup (g_assignments g) i = Some b \<Longrightarrow>
      ai_AssignmentID b = i \<and> ai_Worker b = currentWorkerLocked g"
    and gate_inv_capacity: "int (map_len (g_assignments g)) \<le> g_maxAuthorizations g"
    and gate_inv_control: "control_ok g" and gate_inv_elapsed: "0 \<le> g_lastElapsed g"
    and gate_inv_ttl: "g_maxTTL g \<le> HardMaxTTL"
  using assms unfolding gate_inv_def by blast+

lemma gate_inv_initial: "gate_initial g \<Longrightarrow> gate_inv g"
  by (auto simp: gate_initial_def NewGate_def gate_inv_defs zero_control_def Let_def
      split: option.splits if_splits)

lemma elapsedLocked_cases:
  obtains (unhealthy) "elapsedLocked now g =
      (Inl (classified CodeStaleAssignment ''worker monotonic clock is unhealthy''),
       g\<lparr>g_clockHealthy := False\<rparr>)" "\<not> g_clockHealthy g \<or> now < g_lastElapsed g"
  | (ok) "elapsedLocked now g = (Inr now, g\<lparr>g_lastElapsed := now\<rparr>)"
      "g_clockHealthy g" "g_lastElapsed g \<le> now"
  by (cases "\<not> g_clockHealthy g \<or> now < g_lastElapsed g") (auto simp: elapsedLocked_def)

text \<open>The states in which each operation may leave the gate.\<close>

lemma Accept_cases:
  obtains (same) "snd (AcceptAuthoritativeControl c g) = g"
      "ControlConnection_validate c = None \<Longrightarrow> cc_DiscoveryEpoch c \<le> g_highestDiscoveryEpoch g"
      "fst (AcceptAuthoritativeControl c g) = Inr () \<Longrightarrow> cc_SessionEpoch c = g_currentSessionEpoch g"
      "ControlConnection_validate c = None \<Longrightarrow> cc_DiscoveryEpoch c = g_highestDiscoveryEpoch g \<Longrightarrow>
         cc_SessionEpoch c \<le> g_currentSessionEpoch g"
  | (leader) "snd (AcceptAuthoritativeControl c g) =
        g\<lparr>g_highestDiscoveryEpoch := cc_DiscoveryEpoch c, g_authorizations := fmempty,
          g_control := (g_control g)\<lparr>cs_connected := False\<rparr>\<rparr>"
      "g_highestDiscoveryEpoch g < cc_DiscoveryEpoch c" "ControlConnection_validate c = None"
      "fst (AcceptAuthoritativeControl c g) \<noteq> Inr ()"
  | (session) "AcceptAuthoritativeControl c g =
        (Inr (), g\<lparr>g_highestDiscoveryEpoch := cc_DiscoveryEpoch c,
                   g_currentSessionEpoch := cc_SessionEpoch c, g_assignments := fmempty,
                   g_authorizations := fmempty,
                   g_control := \<lparr>cs_connection = c, cs_connected = True\<rparr>\<rparr>)"
      "g_highestDiscoveryEpoch g \<le> cc_DiscoveryEpoch c" "ControlConnection_validate c = None"
      "g_currentSessionEpoch g < cc_SessionEpoch c"
proof (cases "ControlConnection_validate c")
  case (Some e)
  then show ?thesis by (intro same) (simp_all add: AcceptAuthoritativeControl_def)
next
  case valid: None
  consider "cc_DiscoveryEpoch c < g_highestDiscoveryEpoch g"
    | "cc_DiscoveryEpoch c = g_highestDiscoveryEpoch g"
    | "g_highestDiscoveryEpoch g < cc_DiscoveryEpoch c" by force
  then show ?thesis
  proof cases
    case 1
    then show ?thesis using valid by (intro same) (auto simp: AcceptAuthoritativeControl_def)
  next
    case 2
    show ?thesis
    proof (cases "g_currentSessionEpoch g < cc_SessionEpoch c")
      case True
      show ?thesis
        by (rule session) (use 2 True valid in \<open>auto simp: AcceptAuthoritativeControl_def Let_def\<close>)
    next
      case False
      then show ?thesis
        using 2 valid by (intro same) (auto simp: AcceptAuthoritativeControl_def Let_def split: if_splits)
    qed
  next
    case 3
    show ?thesis
    proof (cases "g_currentSessionEpoch g < cc_SessionEpoch c")
      case True
      show ?thesis
        by (rule session) (use 3 True valid in \<open>auto simp: AcceptAuthoritativeControl_def Let_def\<close>)
    next
      case False
      show ?thesis
        by (rule leader) (use 3 False valid in
            \<open>auto simp: AcceptAuthoritativeControl_def Let_def split: if_splits\<close>)
    qed
  qed
qed

lemma locked_cong [simp]:
  "currentControlLocked (g\<lparr>g_lastElapsed := t\<rparr>) c = currentControlLocked g c"
  "validLocked (g\<lparr>g_lastElapsed := t\<rparr>) r now = validLocked g r now"
  "currentWorkerLocked (g\<lparr>g_lastElapsed := t\<rparr>) = currentWorkerLocked g"
  "Install_capacity (g\<lparr>g_lastElapsed := t\<rparr>) i = Install_capacity g i"
  by (simp_all add: currentControlLocked_def validLocked_def currentWorkerLocked_def
      Install_capacity_def split: option.split)

lemma compatibleRefresh_None [checks]: "compatibleRefresh p n = None \<longleftrightarrow> p = n"
  by (auto simp: compatibleRefresh_def checks)

lemma Install_cases:
  obtains (same) "snd (Install c a now g) = g" "fst (Install c a now g) \<noteq> Inr ()"
  | (clock) "snd (Install c a now g) = g\<lparr>g_clockHealthy := False\<rparr>" "fst (Install c a now g) \<noteq> Inr ()"
  | (rejected) "snd (Install c a now g) = g\<lparr>g_lastElapsed := now\<rparr>" "fst (Install c a now g) \<noteq> Inr ()"
      "g_lastElapsed g \<le> now"
  | (installed) "Install c a now g =
       (Inr (), g\<lparr>g_lastElapsed := now,
          g_assignments := fmupd (fence_id (au_Fence a)) (if_Assignment (au_Fence a)) (g_assignments g),
          g_authorizations := fmupd (fence_id (au_Fence a))
            \<lparr>ar_authorization = a, ar_connection = c, ar_receivedAt = now\<rparr> (g_authorizations g)\<rparr>)"
      "Authorization_validate (g_maxTTL g) a = None" "ControlConnection_validate c = None"
      "currentControlLocked g c" "if_DiscoveryEpoch (au_Fence a) = cc_DiscoveryEpoch c"
      "ai_Worker (if_Assignment (au_Fence a)) = currentWorkerLocked g"
      "g_clockHealthy g" "g_lastElapsed g \<le> now"
      "fmlookup (g_assignments g) (fence_id (au_Fence a)) = Some (if_Assignment (au_Fence a)) \<or>
       fmlookup (g_assignments g) (fence_id (au_Fence a)) = None \<and>
       int (map_len (g_assignments g)) < g_maxAuthorizations g"
proof (cases "Install_checks g c a")
  case (Some e)
  show ?thesis by (rule same) (simp_all add: Install_def Some)
next
  case pre: None
  show ?thesis
  proof (cases rule: elapsedLocked_cases [of now g])
    case unhealthy
    show ?thesis by (rule clock) (simp_all add: Install_def pre unhealthy)
  next
    case ok
    show ?thesis
    proof (cases "Install_capacity g (if_Assignment (au_Fence a))")
      case (Some e)
      show ?thesis
        by (rule rejected) (use ok in \<open>simp_all add: Install_def pre ok(1) Some Let_def\<close>)
    next
      case None
      show ?thesis
        by (rule installed) (use pre ok None in
            \<open>auto simp: Install_def Install_checks_def Install_capacity_def Let_def checks
              split: option.splits\<close>)
    qed
  qed
qed

lemma AuthorizeSync_cases:
  obtains (same) "snd (AuthorizeSync f now g) = g" "fst (AuthorizeSync f now g) \<noteq> Inr ()"
  | (clock) "snd (AuthorizeSync f now g) = g\<lparr>g_clockHealthy := False\<rparr>"
      "fst (AuthorizeSync f now g) \<noteq> Inr ()"
  | (expired) r where "snd (AuthorizeSync f now g) = g\<lparr>g_lastElapsed := now,
        g_authorizations := fmdrop (fence_id f) (g_authorizations g)\<rparr>"
      "fst (AuthorizeSync f now g) \<noteq> Inr ()"
      "fmlookup (g_authorizations g) (fence_id f) = Some r" "record_fence r = f"
      "\<not> validLocked g r now" "g_lastElapsed g \<le> now"
  | (accepted) r where "AuthorizeSync f now g = (Inr (), g\<lparr>g_lastElapsed := now\<rparr>)"
      "fmlookup (g_authorizations g) (fence_id f) = Some r" "record_fence r = f"
      "validLocked g r now" "ai_Mode (if_Assignment f) = ModeNormal"
      "g_clockHealthy g" "g_lastElapsed g \<le> now"
proof (cases "AuthorizeSync_checks g f = None \<and>
      (\<exists>r. fmlookup (g_authorizations g) (fence_id f) = Some r \<and> record_fence r = f)")
  case False
  show ?thesis
    by (rule same) (use False in \<open>auto simp: AuthorizeSync_def Let_def check_def split: option.splits\<close>)
next
  case True
  then obtain r where pre: "AuthorizeSync_checks g f = None"
    and r: "fmlookup (g_authorizations g) (fence_id f) = Some r" "record_fence r = f" by auto
  show ?thesis
  proof (cases rule: elapsedLocked_cases [of now g])
    case unhealthy
    show ?thesis by (rule clock) (simp_all add: AuthorizeSync_def Let_def pre r unhealthy)
  next
    case ok
    show ?thesis
    proof (cases "validLocked g r now")
      case True
      show ?thesis
        by (rule accepted) (use pre ok r True in
            \<open>auto simp: AuthorizeSync_def AuthorizeSync_checks_def Let_def checks\<close>)
    next
      case False
      show ?thesis
        by (rule expired) (use ok r False in \<open>auto simp: AuthorizeSync_def Let_def pre\<close>)
    qed
  qed
qed

subsection \<open>The invariant\<close>

lemma gate_inv_Accept: "gate_inv g \<Longrightarrow> gate_inv (snd (AcceptAuthoritativeControl c g))"
  by (cases rule: Accept_cases [of c g]) (auto simp: gate_inv_defs)

lemma gate_inv_Disconnect: "gate_inv g \<Longrightarrow> gate_inv (DisconnectControl c g)"
  by (auto simp: DisconnectControl_def gate_inv_defs)

lemma auth_ok_later_clock:
  "auth_ok g i r \<Longrightarrow> g_lastElapsed g \<le> now \<Longrightarrow> auth_ok (g\<lparr>g_lastElapsed := now\<rparr>) i r"
  by (simp add: auth_ok_def)

lemma gate_inv_later_clock:
  "gate_inv g \<Longrightarrow> g_lastElapsed g \<le> now \<Longrightarrow> gate_inv (g\<lparr>g_lastElapsed := now\<rparr>)"
  by (simp add: gate_inv_def auth_ok_later_clock control_ok_def)

lemma gate_inv_unhealthy: "gate_inv g \<Longrightarrow> gate_inv (g\<lparr>g_clockHealthy := h\<rparr>)"
  by (simp add: gate_inv_defs)

lemma gate_inv_installed:
  assumes inv: "gate_inv g"
    and valid: "Authorization_validate (g_maxTTL g) a = None" "currentControlLocked g c"
      "if_DiscoveryEpoch (au_Fence a) = cc_DiscoveryEpoch c"
      "ai_Worker (if_Assignment (au_Fence a)) = currentWorkerLocked g" "g_lastElapsed g \<le> now"
    and new: "fmlookup (g_assignments g) (fence_id (au_Fence a)) = Some (if_Assignment (au_Fence a)) \<or>
      fmlookup (g_assignments g) (fence_id (au_Fence a)) = None \<and>
      int (map_len (g_assignments g)) < g_maxAuthorizations g"
  shows "gate_inv (g\<lparr>g_lastElapsed := now,
      g_assignments := fmupd (fence_id (au_Fence a)) (if_Assignment (au_Fence a)) (g_assignments g),
      g_authorizations := fmupd (fence_id (au_Fence a))
        \<lparr>ar_authorization = a, ar_connection = c, ar_receivedAt = now\<rparr> (g_authorizations g)\<rparr>)"
    (is "gate_inv ?g")
proof -
  have c: "cc_DiscoveryEpoch c = g_highestDiscoveryEpoch g" "cc_SessionEpoch c = g_currentSessionEpoch g"
    using gate_inv_control [OF inv] valid(2) by (auto simp: currentControlLocked_def control_ok_def)
  have "auth_ok ?g i r" if r: "fmlookup (g_authorizations ?g) i = Some r" for i r
  proof (cases "i = fence_id (au_Fence a)")
    case True
    with r c valid gate_inv_elapsed [OF inv] show ?thesis by (auto simp: auth_ok_def)
  next
    case False
    with r have "auth_ok g i r" by (intro gate_inv_auth [OF inv]) simp
    with False valid(5) show ?thesis by (simp add: auth_ok_def)
  qed
  moreover have "ai_AssignmentID b = i \<and> ai_Worker b = currentWorkerLocked ?g"
    if "fmlookup (g_assignments ?g) i = Some b" for i b
    using that gate_inv_assignment [OF inv, of i b] valid(4)
    by (auto simp: currentWorkerLocked_def split: if_splits)
  moreover have "int (map_len (g_assignments ?g)) \<le> g_maxAuthorizations ?g"
    using gate_inv_capacity [OF inv] new by auto
  moreover have "control_ok ?g" "0 \<le> g_lastElapsed ?g" "g_maxTTL ?g \<le> HardMaxTTL"
    using gate_inv_control [OF inv] gate_inv_elapsed [OF inv] gate_inv_ttl [OF inv] valid(5)
    by (simp_all add: control_ok_def)
  ultimately show ?thesis unfolding gate_inv_def by blast
qed

lemma gate_inv_Install: "gate_inv g \<Longrightarrow> gate_inv (snd (Install c a now g))"
proof (cases rule: Install_cases [of c a now g])
  case installed
  assume inv: "gate_inv g"
  from gate_inv_installed [OF inv installed(2,4,5,6,8,9)] installed(1) show ?thesis by simp
qed (simp_all add: gate_inv_later_clock gate_inv_unhealthy)

lemma gate_inv_AuthorizeSync: "gate_inv g \<Longrightarrow> gate_inv (snd (AuthorizeSync f now g))"
proof (cases rule: AuthorizeSync_cases [of f now g])
  case (expired r)
  assume "gate_inv g"
  then have "gate_inv (g\<lparr>g_lastElapsed := now\<rparr>)" using expired(6) by (rule gate_inv_later_clock)
  then show ?thesis using expired(1) by (simp add: gate_inv_defs)
qed (simp_all add: gate_inv_later_clock gate_inv_unhealthy)

lemma gate_inv_Revoke: "gate_inv g \<Longrightarrow> gate_inv (Revoke i g)"
  using map_len_drop_le [of i "g_assignments g"]
  by (auto simp: Revoke_def gate_inv_defs)

lemma gate_inv_exec: "gate_inv g \<Longrightarrow> gate_inv (gate_exec e g)"
  by (cases e) (simp_all add: gate_inv_Accept gate_inv_Disconnect gate_inv_Install
      gate_inv_AuthorizeSync gate_inv_Revoke)

lemma gate_later_exec: "gate_later g (gate_exec e g)"
proof (cases e)
  case (EvAccept c)
  show ?thesis unfolding EvAccept gate_exec.simps
    by (cases rule: Accept_cases [of c g]) (simp_all add: gate_later_def less_imp_le)
next
  case (EvInstall c a t)
  show ?thesis unfolding EvInstall gate_exec.simps
    by (cases rule: Install_cases [of c a t g]) (simp_all add: gate_later_def)
next
  case (EvAuthorize f t)
  show ?thesis unfolding EvAuthorize gate_exec.simps
    by (cases rule: AuthorizeSync_cases [of f t g]) (simp_all add: gate_later_def)
qed (simp_all add: gate_later_def DisconnectControl_def Revoke_def)

interpretation gate: evolving gate_initial gate_exec gate_inv gate_later
  by unfold_locales
     (auto simp: gate_inv_initial gate_inv_exec gate_later_exec, auto simp: gate_later_def)

subsection \<open>Where a permission comes from\<close>

text \<open>The events after which a gate no longer honours a fence.\<close>

fun ends_permission :: "InvocationFence \<Rightarrow> GateEvent \<Rightarrow> bool" where
  "ends_permission f (EvAccept c) \<longleftrightarrow> ControlConnection_validate c = None \<and>
     (cc_DiscoveryEpoch c > if_DiscoveryEpoch f \<or>
      cc_DiscoveryEpoch c = if_DiscoveryEpoch f \<and>
      cc_SessionEpoch c > ws_SessionEpoch (ai_Worker (if_Assignment f)))"
| "ends_permission f (EvRevoke i) \<longleftrightarrow> i = fence_id f"
| "ends_permission f _ \<longleftrightarrow> False"

lemma auth_ok_session:
  "gate_inv g \<Longrightarrow> auth_ok g i r \<Longrightarrow>
     ws_SessionEpoch (ai_Worker (if_Assignment (record_fence r))) = g_currentSessionEpoch g"
  using gate_inv_assignment [of g i "if_Assignment (record_fence r)"]
  by (simp add: auth_ok_def currentWorkerLocked_def)

lemma stored_step:
  assumes inv: "gate_inv g" and stored: "fmlookup (g_authorizations (gate_exec e g)) i = Some r"
  obtains (new) "e = EvInstall (ar_connection r) (ar_authorization r) (ar_receivedAt r)"
      "fst (Install (ar_connection r) (ar_authorization r) (ar_receivedAt r) g) = Inr ()"
  | (old) "fmlookup (g_authorizations g) i = Some r" "\<not> ends_permission (record_fence r) e"
      "currentControlLocked (gate_exec e g) (ar_connection r) \<Longrightarrow>
         currentControlLocked g (ar_connection r) \<and> e \<noteq> EvDisconnect (ar_connection r)"
proof (cases e)
  case (EvAccept c)
  show ?thesis
  proof (cases rule: Accept_cases [of c g])
    case same
    have r: "auth_ok g i r"
      using stored same(1) EvAccept by (intro gate_inv_auth [OF inv]) simp
    show ?thesis
      by (rule old) (use stored EvAccept same r auth_ok_session [OF inv r] in
          \<open>auto simp: auth_ok_def\<close>)
  qed (use stored EvAccept in simp_all)
next
  case (EvDisconnect c)
  then show ?thesis
    using stored by (intro old) (auto simp: DisconnectControl_def currentControlLocked_def split: if_splits)
next
  case (EvInstall c a t)
  show ?thesis
  proof (cases rule: Install_cases [of c a t g])
    case installed
    show ?thesis
    proof (cases "i = fence_id (au_Fence a)")
      case True
      then have "r = \<lparr>ar_authorization = a, ar_connection = c, ar_receivedAt = t\<rparr>"
        using stored installed(1) EvInstall by simp
      then show ?thesis using EvInstall installed(1) by (intro new) simp_all
    next
      case False
      show ?thesis
        by (rule old) (use False stored installed(1) EvInstall in
            \<open>auto simp: currentControlLocked_def\<close>)
    qed
  qed (use stored EvInstall in \<open>auto intro: old simp: currentControlLocked_def\<close>)
next
  case (EvAuthorize f t)
  show ?thesis
    by (cases rule: AuthorizeSync_cases [of f t g])
       (use stored EvAuthorize in \<open>auto intro: old simp: currentControlLocked_def split: if_splits\<close>)
next
  case (EvRevoke j)
  have "j = [] \<or> i \<noteq> j" and r: "fmlookup (g_authorizations g) i = Some r"
    using stored EvRevoke by (auto simp: Revoke_def split: if_splits)
  moreover have "fence_id (record_fence r) = i" "i \<noteq> []"
    using gate_inv_auth [OF inv r]
    by (auto simp: auth_ok_def Authorization_validate_def InvocationFence_validate_def
        AssignmentIdentity_validate_def identifierPattern_def matches_class_def checks)
  ultimately show ?thesis
    using EvRevoke
    by (intro old) (auto simp: Revoke_def currentControlLocked_def split: if_splits)
qed

lemma stored_history:
  assumes "gate_initial g0" and "fmlookup (g_authorizations (run gate_exec es g0)) i = Some r"
  shows "\<exists>pre post. es = pre @ EvInstall (ar_connection r) (ar_authorization r) (ar_receivedAt r) # post \<and>
    fst (Install (ar_connection r) (ar_authorization r) (ar_receivedAt r) (run gate_exec pre g0)) = Inr () \<and>
    (\<forall>e \<in> set post. \<not> ends_permission (record_fence r) e) \<and>
    (currentControlLocked (run gate_exec es g0) (ar_connection r) \<longrightarrow>
       EvDisconnect (ar_connection r) \<notin> set post)"
  using assms(2)
proof (induction es rule: rev_induct)
  case Nil
  then show ?case using assms(1)
    by (auto simp: gate_initial_def NewGate_def Let_def split: option.splits if_splits)
next
  case (snoc e es)
  have inv: "gate_inv (run gate_exec es g0)"
    by (rule gate.inv_run) (rule gate_inv_initial [OF assms(1)])
  have stored: "fmlookup (g_authorizations (gate_exec e (run gate_exec es g0))) i = Some r"
    using snoc.prems by simp
  from inv stored show ?case
  proof (cases rule: stored_step)
    case new
    then show ?thesis by (intro exI [of _ es] exI [of _ "[]"]) simp
  next
    case old
    from snoc.IH [OF old(1)] obtain pre post where
      "es = pre @ EvInstall (ar_connection r) (ar_authorization r) (ar_receivedAt r) # post"
      "fst (Install (ar_connection r) (ar_authorization r) (ar_receivedAt r) (run gate_exec pre g0)) = Inr ()"
      "\<forall>e \<in> set post. \<not> ends_permission (record_fence r) e"
      "currentControlLocked (run gate_exec es g0) (ar_connection r) \<longrightarrow>
         EvDisconnect (ar_connection r) \<notin> set post" by blast
    with old(2,3) show ?thesis by (intro exI [of _ pre] exI [of _ "post @ [e]"]) auto
  qed
qed

lemma validLocked_lifetime:
  assumes "auth_ok g i r" and "validLocked g r now"
  shows "ar_receivedAt r \<le> now \<and>
    (au_Lifetime (ar_authorization r) = LifetimeTTL \<and>
       now - ar_receivedAt r < au_TTL (ar_authorization r) \<and>
       au_TTL (ar_authorization r) \<le> g_maxTTL g \<or>
     au_Lifetime (ar_authorization r) = LifetimeLiveOnly \<and> currentControlLocked g (ar_connection r))"
  using assms
  by (cases "au_Lifetime (ar_authorization r)")
     (auto simp: auth_ok_def validLocked_def Authorization_validate_def checks split: if_splits)

lemma stored_survives_step:
  assumes inv: "gate_inv g" and stored: "fmlookup (g_authorizations g) (fence_id (au_Fence a)) =
      Some \<lparr>ar_authorization = a, ar_connection = c, ar_receivedAt = t\<rparr>" (is "_ = Some ?r")
    and ttl: "au_Lifetime a = LifetimeTTL"
    and keep: "\<not> ends_permission (au_Fence a) e"
      "\<forall>c' a' t'. e = EvInstall c' a' t' \<longrightarrow> fence_id (au_Fence a') \<noteq> fence_id (au_Fence a)"
    and clock: "g_clockHealthy (gate_exec e g)" "g_lastElapsed (gate_exec e g) - t < au_TTL a"
  shows "fmlookup (g_authorizations (gate_exec e g)) (fence_id (au_Fence a)) = Some ?r"
proof (cases e)
  case (EvAccept c')
  have ok: "auth_ok g (fence_id (au_Fence a)) ?r" by (rule gate_inv_auth [OF inv stored])
  show ?thesis
    by (cases rule: Accept_cases [of c' g])
       (use EvAccept keep(1) stored ok auth_ok_session [OF inv ok] in \<open>auto simp: auth_ok_def\<close>)
next
  case (EvInstall c' a' t')
  show ?thesis
    by (cases rule: Install_cases [of c' a' t' g]) (use EvInstall keep(2) stored in simp_all)
next
  case (EvAuthorize f' t')
  have ok: "auth_ok g (fence_id (au_Fence a)) ?r" by (rule gate_inv_auth [OF inv stored])
  show ?thesis
  proof (cases rule: AuthorizeSync_cases [of f' t' g])
    case (expired r)
    have "fence_id f' \<noteq> fence_id (au_Fence a)"
    proof
      assume "fence_id f' = fence_id (au_Fence a)"
      with expired(3) stored have "r = ?r" by simp
      with expired(1,5,6) clock(2) EvAuthorize ttl ok show False
        by (auto simp: validLocked_def auth_ok_def)
    qed
    with stored expired(1) EvAuthorize show ?thesis by simp
  qed (use EvAuthorize stored in simp_all)
qed (use stored keep(1) in \<open>auto simp: DisconnectControl_def Revoke_def\<close>)

lemma stored_survives:
  assumes "gate_inv g" and "fmlookup (g_authorizations g) (fence_id (au_Fence a)) =
      Some \<lparr>ar_authorization = a, ar_connection = c, ar_receivedAt = t\<rparr>" (is "_ = Some ?r")
    and "au_Lifetime a = LifetimeTTL"
    and "\<forall>e \<in> set es. \<not> ends_permission (au_Fence a) e \<and>
      (\<forall>c' a' t'. e = EvInstall c' a' t' \<longrightarrow> fence_id (au_Fence a') \<noteq> fence_id (au_Fence a))"
    and "g_clockHealthy (run gate_exec es g)" "g_lastElapsed (run gate_exec es g) - t < au_TTL a"
  shows "fmlookup (g_authorizations (run gate_exec es g)) (fence_id (au_Fence a)) = Some ?r"
  using assms(1,2,4-6)
proof (induction es arbitrary: g)
  case (Cons e es)
  have inv': "gate_inv (gate_exec e g)" by (rule gate_inv_exec [OF Cons.prems(1)])
  have "gate_later (gate_exec e g) (run gate_exec es (gate_exec e g))"
    by (rule gate.later_run [OF inv'])
  then have "g_clockHealthy (gate_exec e g)" "g_lastElapsed (gate_exec e g) - t < au_TTL a"
    using Cons.prems(4,5) by (auto simp: gate_later_def)
  then have "fmlookup (g_authorizations (gate_exec e g)) (fence_id (au_Fence a)) = Some ?r"
    using stored_survives_step [OF Cons.prems(1,2) assms(3)] Cons.prems(3) by simp
  with Cons inv' show ?case by simp
qed simp

subsection \<open>Properties\<close>

text \<open>
  C3: Soundness of admission. If a gate accepts an invocation after any sequence of
  operations, then exactly this fence was installed earlier on some control connection; no
  later leader, session or revocation has ended it since; and either its TTL, at most ten
  minutes, has not run out on the worker's own clock, or it is live-only and the connection
  that delivered it has never been disconnected since.
\<close>

theorem authorize_sync_sound:
  assumes "NewGate config t0 = Inr g0"
    and "fst (AuthorizeSync f now (run gate_exec es g0)) = Inr ()"
  shows "\<exists>pre post c a t. es = pre @ EvInstall c a t # post \<and>
    fst (Install c a t (run gate_exec pre g0)) = Inr () \<and> au_Fence a = f \<and> t \<le> now \<and>
    (\<forall>e \<in> set post. \<not> ends_permission f e) \<and>
    (au_Lifetime a = LifetimeTTL \<and> now - t < au_TTL a \<and> au_TTL a \<le> HardMaxTTL \<or>
     au_Lifetime a = LifetimeLiveOnly \<and> EvDisconnect c \<notin> set post)"
proof -
  let ?g = "run gate_exec es g0"
  have init: "gate_initial g0" using assms(1) by (auto simp: gate_initial_def)
  have inv: "gate_inv ?g" by (rule gate.inv_run) (rule gate_inv_initial [OF init])
  show ?thesis
  proof (cases rule: AuthorizeSync_cases [of f now ?g])
    case (accepted r)
    note life = validLocked_lifetime [OF gate_inv_auth [OF inv accepted(2)] accepted(4)]
    from stored_history [OF init accepted(2)] life gate_inv_ttl [OF inv] accepted(3)
    show ?thesis by (metis (no_types, lifting) order_trans)
  qed (use assms(2) in simp_all)
qed

text \<open>
  C30: Completeness of admission. A permission with a TTL, once installed for normal mode, is
  honoured through every further sequence of operations that neither ends nor replaces it,
  at every clock reading within the TTL, as long as the worker's clock never ran backwards.
\<close>

theorem authorize_sync_complete:
  assumes "reachable gate_initial gate_exec g" and "fst (Install c a t g) = Inr ()"
    and "ai_Mode (if_Assignment (au_Fence a)) = ModeNormal" and "au_Lifetime a = LifetimeTTL"
    and "\<forall>e \<in> set es. \<not> ends_permission (au_Fence a) e \<and>
      (\<forall>c' a' t'. e = EvInstall c' a' t' \<longrightarrow> fence_id (au_Fence a') \<noteq> fence_id (au_Fence a))"
    and "g' = run gate_exec es (snd (Install c a t g))"
    and "g_clockHealthy g'" and "g_lastElapsed g' \<le> now" and "now - t < au_TTL a"
  shows "fst (AuthorizeSync (au_Fence a) now g') = Inr ()"
proof -
  let ?r = "\<lparr>ar_authorization = a, ar_connection = c, ar_receivedAt = t\<rparr>"
  let ?g = "snd (Install c a t g)"
  have inv: "gate_inv ?g"
    by (rule gate_inv_Install) (rule gate.inv_reachable [OF assms(1)])
  have inv': "gate_inv g'" unfolding assms(6) by (rule gate.inv_run [OF inv])
  have "fmlookup (g_authorizations ?g) (fence_id (au_Fence a)) = Some ?r"
    by (cases rule: Install_cases [of c a t g]) (use assms(2) in simp_all)
  then have stored: "fmlookup (g_authorizations g') (fence_id (au_Fence a)) = Some ?r"
    using stored_survives [of ?g a c t es] inv assms(4-9) by simp
  have ok: "auth_ok g' (fence_id (au_Fence a)) ?r" by (rule gate_inv_auth [OF inv' stored])
  then have "AuthorizeSync_checks g' (au_Fence a) = None"
    using assms(3) by (simp add: AuthorizeSync_checks_def auth_ok_def Authorization_validate_def checks)
  moreover have "validLocked g' ?r now"
    using ok assms(4,8,9) by (simp add: validLocked_def auth_ok_def)
  ultimately show ?thesis
    using stored assms(7,8) by (simp add: AuthorizeSync_def elapsedLocked_def Let_def)
qed

text \<open>
  C28: Leader and session fencing. Once a gate has seen a well-formed connection of a
  discovery epoch, also one it then refuses, no invocation of an earlier epoch is accepted
  after any further operations; once it has accepted a connection, the same holds for
  invocations of an earlier worker session.
\<close>

theorem stale_fence_rejected:
  assumes "reachable gate_initial gate_exec g" and "ControlConnection_validate c = None"
    and "if_DiscoveryEpoch f < cc_DiscoveryEpoch c \<or>
      fst (AcceptAuthoritativeControl c g) = Inr () \<and>
      ws_SessionEpoch (ai_Worker (if_Assignment f)) < cc_SessionEpoch c"
  shows "fst (AuthorizeSync f now (run gate_exec (EvAccept c # es) g)) \<noteq> Inr ()"
proof -
  let ?g = "gate_exec (EvAccept c) g" and ?g' = "run gate_exec (EvAccept c # es) g"
  have inv: "gate_inv ?g" by (rule gate_inv_exec) (rule gate.inv_reachable [OF assms(1)])
  have inv': "gate_inv ?g'" using gate.inv_run [OF inv] by simp
  have "gate_later ?g ?g'" using gate.later_run [OF inv] by simp
  moreover have "cc_DiscoveryEpoch c \<le> g_highestDiscoveryEpoch ?g"
    by (cases rule: Accept_cases [of c g]) (use assms(2) in simp_all)
  moreover have "cc_SessionEpoch c \<le> g_currentSessionEpoch ?g"
    if "fst (AcceptAuthoritativeControl c g) = Inr ()"
    by (cases rule: Accept_cases [of c g]) (use that in simp_all)
  ultimately have epochs: "cc_DiscoveryEpoch c \<le> g_highestDiscoveryEpoch ?g'"
    "fst (AcceptAuthoritativeControl c g) = Inr () \<Longrightarrow> cc_SessionEpoch c \<le> g_currentSessionEpoch ?g'"
    unfolding gate_later_def by auto
  show ?thesis
  proof (cases rule: AuthorizeSync_cases [of f now ?g'])
    case (accepted r)
    note ok = gate_inv_auth [OF inv' accepted(2)]
    have "if_DiscoveryEpoch f = g_highestDiscoveryEpoch ?g'"
      "ws_SessionEpoch (ai_Worker (if_Assignment f)) = g_currentSessionEpoch ?g'"
      using ok auth_ok_session [OF inv' ok] accepted(3) by (simp_all add: auth_ok_def)
    with epochs assms(3) show ?thesis by (simp add: leD)
  qed simp_all
qed

text \<open>
  C29: the gate fails closed on a bad clock: after a reading that runs backwards inside an
  operation has made the clock unhealthy, no permission is installed and no invocation is
  accepted by any later operation.
\<close>

theorem unhealthy_clock_closed:
  assumes "reachable gate_initial gate_exec g" and "\<not> g_clockHealthy g"
  shows "fst (AuthorizeSync f now (run gate_exec es g)) \<noteq> Inr () \<and>
    fst (Install c a now (run gate_exec es g)) \<noteq> Inr ()"
proof -
  have "gate_later g (run gate_exec es g)" by (rule gate.later_reachable [OF assms(1)])
  with assms(2) have bad: "\<not> g_clockHealthy (run gate_exec es g)" by (simp add: gate_later_def)
  have "fst (AuthorizeSync f now (run gate_exec es g)) \<noteq> Inr ()"
    by (cases rule: AuthorizeSync_cases [of f now "run gate_exec es g"]) (use bad in simp_all)
  moreover have "fst (Install c a now (run gate_exec es g)) \<noteq> Inr ()"
    by (cases rule: Install_cases [of c a now "run gate_exec es g"]) (use bad in simp_all)
  ultimately show ?thesis by blast
qed

text \<open>
  In every reachable state the gate tracks at most its configured number of assignments,
  stores a permission only for a tracked assignment of the current worker session and
  discovery epoch, and reports a connected control channel only for that session and epoch.
\<close>

theorem gate_state_bounded:
  assumes "reachable gate_initial gate_exec g"
  shows "int (gs_TrackedAssignments (GateSnapshot_of g)) \<le> g_maxAuthorizations g \<and>
    gs_StoredAuthorizations (GateSnapshot_of g) \<le> gs_TrackedAssignments (GateSnapshot_of g) \<and>
    (\<forall>i r. fmlookup (g_authorizations g) i = Some r \<longrightarrow>
       fmlookup (g_assignments g) i = Some (if_Assignment (record_fence r)) \<and>
       ai_Worker (if_Assignment (record_fence r)) = currentWorkerLocked g \<and>
       if_DiscoveryEpoch (record_fence r) = gs_HighestDiscoveryEpoch (GateSnapshot_of g)) \<and>
    (gs_ControlConnected (GateSnapshot_of g) \<longrightarrow>
       CheckControl g (cs_connection (g_control g)) = ControlConnection_validate (cs_connection (g_control g)))"
proof -
  have inv: "gate_inv g" by (rule gate.inv_reachable [OF assms])
  have "fmdom (g_authorizations g) |\<subseteq>| fmdom (g_assignments g)"
    using gate_inv_auth [OF inv]
    by (intro fsubsetI) (metis auth_ok_def fmdomE fmdomI)
  then have len: "map_len (g_authorizations g) \<le> map_len (g_assignments g)"
    by (simp add: map_len_def fcard_mono)
  have "CheckControl g (cs_connection (g_control g)) = ControlConnection_validate (cs_connection (g_control g))"
    if "cs_connected (g_control g)"
    using that gate_inv_control [OF inv]
    by (cases "ControlConnection_validate (cs_connection (g_control g))")
       (simp_all add: CheckControl_def currentControlLocked_def control_ok_def)
  moreover have "fmlookup (g_assignments g) i = Some (if_Assignment (record_fence r)) \<and>
      ai_Worker (if_Assignment (record_fence r)) = currentWorkerLocked g \<and>
      if_DiscoveryEpoch (record_fence r) = g_highestDiscoveryEpoch g"
    if "fmlookup (g_authorizations g) i = Some r" for i r
    using gate_inv_auth [OF inv that] gate_inv_assignment [OF inv] by (auto simp: auth_ok_def)
  ultimately show ?thesis
    using gate_inv_capacity [OF inv] len by (simp add: GateSnapshot_of_def)
qed

subsection \<open>A sample gate\<close>

definition sample_config :: GateConfig where
  "sample_config = \<lparr>gc_Worker = \<lparr>wp_WorkerID = ''worker-1'', wp_BootID = ''boot-1''\<rparr>,
     gc_MaxTTL = 0, gc_MaxAuthorizations = 0\<rparr>"

definition sample_gate :: Gate where
  "sample_gate = (case NewGate sample_config 0 of Inr g \<Rightarrow> g)"

definition sample_connection :: ControlConnection where
  "sample_connection = \<lparr>cc_ConnectionID = ''conn-1'', cc_SessionEpoch = 1, cc_DiscoveryEpoch = 1\<rparr>"

definition sample_identity :: AssignmentIdentity where
  "sample_identity =
    \<lparr>ai_Worker = \<lparr>ws_WorkerID = ''worker-1'', ws_BootID = ''boot-1'', ws_SessionEpoch = 1\<rparr>,
     ai_AssignmentID = ''a-1'', ai_VersionID = ''v-1'', ai_AdmissionEpoch = 1,
     ai_DeploymentGeneration = 1, ai_PolicyDigest = sample_digest, ai_Mode = ModeNormal\<rparr>"

definition sample_fence :: InvocationFence where
  "sample_fence = \<lparr>if_Assignment = sample_identity, if_DiscoveryEpoch = 1\<rparr>"

definition sample_authorization :: Authorization where
  "sample_authorization = \<lparr>au_Fence = sample_fence, au_Lifetime = LifetimeTTL, au_TTL = 60 * second\<rparr>"

lemma sample_gate_new: "NewGate sample_config 0 = Inr sample_gate"
  by code_simp

lemma sample_gate_reachable: "reachable gate_initial gate_exec (run gate_exec es sample_gate)"
  by (rule reachable_run, rule reachable_initial) (use sample_gate_new in \<open>auto simp: gate_initial_def\<close>)

theorem authorize_sync_sound_witness:
  "\<exists>pre post c a t. [EvAccept sample_connection, EvInstall sample_connection sample_authorization 5]
      = pre @ EvInstall c a t # post \<and>
    fst (Install c a t (run gate_exec pre sample_gate)) = Inr () \<and> au_Fence a = sample_fence \<and> t \<le> 7 \<and>
    (\<forall>e \<in> set post. \<not> ends_permission sample_fence e) \<and>
    (au_Lifetime a = LifetimeTTL \<and> 7 - t < au_TTL a \<and> au_TTL a \<le> HardMaxTTL \<or>
     au_Lifetime a = LifetimeLiveOnly \<and> EvDisconnect c \<notin> set post)"
  by (rule authorize_sync_sound [OF sample_gate_new, of sample_fence 7]) code_simp

theorem authorize_sync_complete_witness:
  "fst (AuthorizeSync sample_fence (30 * second)
     (run gate_exec [EvDisconnect sample_connection, EvAuthorize sample_fence 9]
       (snd (Install sample_connection sample_authorization 5
         (run gate_exec [EvAccept sample_connection] sample_gate))))) = Inr ()"
proof -
  have "au_Fence sample_authorization = sample_fence" by (simp add: sample_authorization_def)
  moreover have "fst (AuthorizeSync (au_Fence sample_authorization) (30 * second)
     (run gate_exec [EvDisconnect sample_connection, EvAuthorize sample_fence 9]
       (snd (Install sample_connection sample_authorization 5
         (run gate_exec [EvAccept sample_connection] sample_gate))))) = Inr ()"
    by (rule authorize_sync_complete [OF sample_gate_reachable, of sample_connection
          sample_authorization 5 "[EvAccept sample_connection]"
          "[EvDisconnect sample_connection, EvAuthorize sample_fence 9]", OF _ _ _ _ refl])
       (simp_all only: list.set ends_permission.simps, auto, code_simp+)
  ultimately show ?thesis by simp
qed

theorem stale_fence_rejected_witness:
  "fst (AuthorizeSync sample_fence 8 (run gate_exec
     (EvAccept (sample_connection\<lparr>cc_DiscoveryEpoch := 2\<rparr>) # [EvInstall sample_connection sample_authorization 6])
     (run gate_exec [EvAccept sample_connection, EvInstall sample_connection sample_authorization 5]
       sample_gate))) \<noteq> Inr ()"
  by (rule stale_fence_rejected [OF sample_gate_reachable], code_simp, rule disjI1, code_simp)

theorem unhealthy_clock_closed_witness:
  "fst (AuthorizeSync sample_fence 8 (run gate_exec [EvAuthorize sample_fence 9]
     (run gate_exec [EvAccept sample_connection, EvInstall sample_connection sample_authorization 5,
        EvAuthorize sample_fence 4] sample_gate))) \<noteq> Inr () \<and>
   fst (Install sample_connection sample_authorization 8 (run gate_exec [EvAuthorize sample_fence 9]
     (run gate_exec [EvAccept sample_connection, EvInstall sample_connection sample_authorization 5,
        EvAuthorize sample_fence 4] sample_gate))) \<noteq> Inr ()"
  by (rule unhealthy_clock_closed [OF sample_gate_reachable]) code_simp

theorem gate_state_bounded_witness:
  "let g = run gate_exec [EvAccept sample_connection,
        EvInstall sample_connection sample_authorization 5] sample_gate
   in gs_StoredAuthorizations (GateSnapshot_of g) = 1 \<and>
      int (gs_TrackedAssignments (GateSnapshot_of g)) \<le> g_maxAuthorizations g"
proof -
  let ?g = "run gate_exec [EvAccept sample_connection,
        EvInstall sample_connection sample_authorization 5] sample_gate"
  have "gs_StoredAuthorizations (GateSnapshot_of ?g) = 1" by code_simp
  with gate_state_bounded [OF sample_gate_reachable, of
      "[EvAccept sample_connection, EvInstall sample_connection sample_authorization 5]"]
  show ?thesis unfolding Let_def by blast
qed

end
