(* ===== verification/Scheduler.thy ===== *)
theory Scheduler
  imports ServingAuth GoJson
begin

text \<open>
  Package \<^verbatim>\<open>internal/scheduler\<close>, file \<^verbatim>\<open>types.go\<close>: worker observations, placement requests,
  assignments and their validation; with them the compiled-module cache key of
  \<^verbatim>\<open>internal/workercache/key.go\<close>. The patterns of this package are those of
  \<open>identifierPattern\<close> and \<open>labelKeyPattern\<close>. A Go set \<^verbatim>\<open>map[K]struct{}\<close> is a finite set;
  where a nil map and an empty one marshal differently, it is an option.
\<close>

subsection \<open>Data (types.go)\<close>

abbreviation MaxWorkers :: nat where "MaxWorkers \<equiv> 1000"
abbreviation MaxRequiredLabels :: nat where "MaxRequiredLabels \<equiv> 32"
abbreviation MaxExistingWorkers :: nat where "MaxExistingWorkers \<equiv> 100"
abbreviation MaxCacheHints :: nat where "MaxCacheHints \<equiv> 4096"
definition MaxWorkerSlots :: u64 where "MaxWorkerSlots = 1024"

datatype SchedulingIntent = IntentSchedulable | IntentDraining | IntentRemoved | IntentOther string
datatype SessionState =
  SessionJoining | SessionReady | SessionSuspect | SessionUnavailable | SessionOther string
datatype DrainState = DrainNotDraining | DrainDraining | DrainDrained | DrainOther string

record CacheKey =
  ck_ArtifactDigest :: SHA256
  ck_ArtifactSize :: int
  ck_RuntimeName :: string
  ck_RuntimeVersion :: string
  ck_ABI :: string
  ck_HostAPIProfile :: string
  ck_RuntimeFeatureProfile :: string
  ck_Engine :: string
  ck_MemoryLimitMiB :: u32
  ck_GOOS :: string
  ck_GOARCH :: string

record RuntimeProfile =
  rp_Name :: string
  rp_Version :: string
  rp_Engine :: string
  rp_GOOS :: string
  rp_GOARCH :: string
  rp_ABI :: string
  rp_HostAPI :: string
  rp_FeatureProfile :: string
  rp_MemoryMiB :: u32

record Capacity =
  cy_MemoryMiB :: u64
  cy_AllocatedMemoryMiB :: u64
  cy_Slots :: u64
  cy_AllocatedSlots :: u64

record CacheHints =
  ch_Artifacts :: "SHA256 fset"
  ch_Compiled :: "CacheKey fset"

record WorkerSnapshot =
  wk_Session :: WorkerSession
  wk_Runtime :: RuntimeProfile
  wk_Intent :: SchedulingIntent
  wk_State :: SessionState
  wk_Drain :: DrainState
  wk_Capacity :: Capacity
  wk_Labels :: "(string, string) fmap"
  wk_Cache :: CacheHints

record PlacementRequest =
  pr_CommandID :: string
  pr_AssignmentID :: string
  pr_VersionID :: string
  pr_ArtifactDigest :: SHA256
  pr_ArtifactSize :: int
  pr_ABI :: string
  pr_HostAPI :: string
  pr_FeatureProfile :: string
  pr_RuntimeName :: string
  pr_RuntimeVersion :: string
  pr_RuntimeEngine :: string
  pr_GOOS :: string
  pr_GOARCH :: string
  pr_MemoryMiB :: u32
  pr_RequiredSlots :: u64
  pr_AdmissionEpoch :: u64
  pr_DeploymentGeneration :: u64
  pr_PolicyDigest :: SHA256
  pr_CompiledCacheKey :: CacheKey
  pr_RequiredLabels :: "(string, string) fmap option"
  pr_ExistingWorkerIDs :: "string fset option"

record Assignment =
  as_CommandID :: string
  as_AssignmentID :: string
  as_Worker :: WorkerSession
  as_VersionID :: string
  as_ArtifactDigest :: SHA256
  as_ArtifactSize :: int
  as_ABI :: string
  as_HostAPI :: string
  as_FeatureProfile :: string
  as_MemoryMiB :: u32
  as_RequiredSlots :: u64
  as_AdmissionEpoch :: u64
  as_DeploymentGeneration :: u64
  as_PolicyDigest :: SHA256

datatype DecisionStatus = StatusNone | StatusApplied | StatusDuplicate | StatusAlreadySatisfied

datatype FilterReason =
    ReasonInvalidObservation | ReasonIntent | ReasonSession | ReasonRuntime | ReasonLabels
  | ReasonMemory | ReasonSlots

record Candidate =
  cd_WorkerID :: string
  cd_Session :: WorkerSession
  cd_Eligible :: bool
  cd_Reasons :: "FilterReason list"
  cd_CacheScore :: u8
  cd_LoadNumerator :: u64
  cd_LoadDenominator :: u64

record LeaderBarrier =
  lb_Term :: u64
  lb_AppliedIndex :: u64
  lb_Ready :: bool

record PlacementDecision =
  pd_Status :: DecisionStatus
  pd_Assignment :: Assignment
  pd_Barrier :: LeaderBarrier
  pd_Candidates :: "Candidate list"

subsection \<open>Validation (types.go)\<close>

definition Assignment_Validate :: "Assignment \<Rightarrow> error option" where
  "Assignment_Validate a = first_error
    [fail_if (\<not> identifierPattern (as_CommandID a)) (Invalid ''command_id'' ''must be a valid identifier''),
     AssignmentIdentity_validate
       \<lparr>ai_Worker = as_Worker a, ai_AssignmentID = as_AssignmentID a, ai_VersionID = as_VersionID a,
        ai_AdmissionEpoch = as_AdmissionEpoch a, ai_DeploymentGeneration = as_DeploymentGeneration a,
        ai_PolicyDigest = as_PolicyDigest a, ai_Mode = ModeNormal\<rparr>,
     fail_if (bad_digest (as_ArtifactDigest a))
       (Invalid ''artifact_digest'' ''must be a lowercase sha-256 digest''),
     fail_if (as_ArtifactSize a < 1 \<or> as_ArtifactSize a > MaxArtifactBytes)
       (Invalid ''artifact_size'' ''must be within the v1 artifact size limit''),
     fail_if (as_ABI a \<noteq> ABIWASICommandV1) (Invalid ''abi'' ''is not supported''),
     fail_if (as_HostAPI a \<noteq> HostAPIProfileNone) (Invalid ''host_api'' ''is not supported''),
     fail_if (as_FeatureProfile a \<noteq> FeatureProfile) (Invalid ''feature_profile'' ''is not supported''),
     fail_if (bad_profile EngineCompiler (as_MemoryMiB a))
       (Invalid ''memory_mib'' ''is not a supported runtime memory tier''),
     fail_if (as_RequiredSlots a = 0 \<or> as_RequiredSlots a > MaxWorkerSlots)
       (Invalid ''required_slots'' ''must be within the v1 worker slot limit'')]"

definition SchedulingIntent_valid :: "SchedulingIntent \<Rightarrow> bool" where
  "SchedulingIntent_valid s \<longleftrightarrow> s = IntentSchedulable \<or> s = IntentDraining \<or> s = IntentRemoved"

definition SessionState_valid :: "SessionState \<Rightarrow> bool" where
  "SessionState_valid s \<longleftrightarrow>
     s = SessionJoining \<or> s = SessionReady \<or> s = SessionSuspect \<or> s = SessionUnavailable"

definition DrainState_valid :: "DrainState \<Rightarrow> bool" where
  "DrainState_valid d \<longleftrightarrow> d = DrainNotDraining \<or> d = DrainDraining \<or> d = DrainDrained"

definition RuntimeProfile_compatible :: "RuntimeProfile \<Rightarrow> PlacementRequest \<Rightarrow> bool" where
  "RuntimeProfile_compatible r request \<longleftrightarrow>
     rp_Name r = pr_RuntimeName request \<and> rp_Version r = pr_RuntimeVersion request \<and>
     rp_Engine r = pr_RuntimeEngine request \<and> rp_GOOS r = pr_GOOS request \<and>
     rp_GOARCH r = pr_GOARCH request \<and> rp_ABI r = pr_ABI request \<and>
     rp_HostAPI r = pr_HostAPI request \<and> rp_FeatureProfile r = pr_FeatureProfile request \<and>
     rp_MemoryMiB r = pr_MemoryMiB request"

text \<open>Ranging over a nil map is ranging over an empty one.\<close>

definition required_labels :: "PlacementRequest \<Rightarrow> (string, string) fmap" where
  "required_labels r = (case pr_RequiredLabels r of None \<Rightarrow> fmempty | Some m \<Rightarrow> m)"

definition existing_workers :: "PlacementRequest \<Rightarrow> string fset" where
  "existing_workers r = (case pr_ExistingWorkerIDs r of None \<Rightarrow> {||} | Some s \<Rightarrow> s)"

definition cache_key_mismatch :: "PlacementRequest \<Rightarrow> bool" where
  "cache_key_mismatch r =
    (let key = pr_CompiledCacheKey r in
     ck_ArtifactDigest key \<noteq> pr_ArtifactDigest r \<or> ck_ArtifactSize key \<noteq> pr_ArtifactSize r \<or>
     ck_RuntimeName key \<noteq> pr_RuntimeName r \<or> ck_RuntimeVersion key \<noteq> pr_RuntimeVersion r \<or>
     ck_Engine key \<noteq> pr_RuntimeEngine r \<or> ck_GOOS key \<noteq> pr_GOOS r \<or> ck_GOARCH key \<noteq> pr_GOARCH r \<or>
     ck_ABI key \<noteq> pr_ABI r \<or> ck_HostAPIProfile key \<noteq> pr_HostAPI r \<or>
     ck_RuntimeFeatureProfile key \<noteq> pr_FeatureProfile r \<or> ck_MemoryLimitMiB key \<noteq> pr_MemoryMiB r)"

text \<open>
  The three identifiers are ranged over through a map literal, so which invalid one is named
  first is not determined by the code; the model takes the field names in ascending order.
\<close>

definition PlacementRequest_Validate :: "PlacementRequest \<Rightarrow> error option" where
  "PlacementRequest_Validate r = first_error
    ([fail_if (\<not> identifierPattern (pr_AssignmentID r))
        (Invalid ''assignment_id'' ''must be a valid identifier''),
      fail_if (\<not> identifierPattern (pr_CommandID r)) (Invalid ''command_id'' ''must be a valid identifier''),
      fail_if (\<not> identifierPattern (pr_VersionID r)) (Invalid ''version_id'' ''must be a valid identifier''),
      fail_if (bad_digest (pr_ArtifactDigest r))
        (Invalid ''artifact_digest'' ''must be a lowercase sha-256 digest''),
      fail_if (pr_ArtifactSize r < 1 \<or> pr_ArtifactSize r > MaxArtifactBytes)
        (Invalid ''artifact_size'' ''must be within the v1 artifact size limit''),
      fail_if (pr_ABI r \<noteq> ABIWASICommandV1) (Invalid ''abi'' ''is not supported''),
      fail_if (pr_HostAPI r \<noteq> HostAPIProfileNone) (Invalid ''host_api'' ''is not supported''),
      fail_if (pr_RuntimeName r \<noteq> RuntimeName \<or> pr_RuntimeVersion r \<noteq> RuntimeVersion \<or>
               pr_RuntimeEngine r = '''' \<or> pr_GOOS r = '''' \<or> pr_GOARCH r = '''' \<or>
               pr_FeatureProfile r \<noteq> FeatureProfile \<or> pr_MemoryMiB r = 0 \<or> pr_RequiredSlots r = 0)
        (Invalid ''runtime_profile'' ''runtime, platform, feature, memory, and slots are required''),
      fail_if (bad_profile (pr_RuntimeEngine r) (pr_MemoryMiB r))
        (Invalid ''runtime_profile'' ''engine and memory tier are unsupported''),
      fail_if (pr_RequiredSlots r > MaxWorkerSlots)
        (Invalid ''required_slots'' ''exceeds the v1 worker slot limit''),
      fail_if (pr_AdmissionEpoch r = 0 \<or> pr_DeploymentGeneration r = 0)
        (Invalid ''generation'' ''admission epoch and deployment generation are required''),
      fail_if (bad_digest (pr_PolicyDigest r))
        (Invalid ''policy_digest'' ''must be a lowercase sha-256 digest''),
      fail_if (ck_ArtifactDigest (pr_CompiledCacheKey r) \<noteq> '''' \<and> cache_key_mismatch r)
        (Invalid ''compiled_cache_key'' ''does not match placement runtime inputs''),
      fail_if (map_len (required_labels r) > MaxRequiredLabels)
        (Invalid ''required_labels'' ''contains too many labels'')]
     @ map (\<lambda>(key, value). first_error
         [fail_if (\<not> labelKeyPattern key) (Invalid ''required_labels'' ''contains an invalid key''),
          fail_if (\<not> utf8_valid value \<or> length value > 256)
            (Invalid ''required_labels'' ''contains an invalid value'')])
        (sorted_list_of_fmap (required_labels r))
     @ [fail_if (fcard (existing_workers r) > MaxExistingWorkers)
          (Invalid ''existing_worker_ids'' ''contains too many workers'')]
     @ map (\<lambda>id. fail_if (\<not> identifierPattern id)
          (Invalid ''existing_worker_ids'' ''contains an invalid worker id''))
        (sorted_list_of_fset (existing_workers r)))"

definition WorkerSnapshot_validate :: "WorkerSnapshot \<Rightarrow> error option" where
  "WorkerSnapshot_validate w = first_error
    ([WorkerSession_validate (wk_Session w),
      fail_if (\<not> SchedulingIntent_valid (wk_Intent w) \<or> \<not> SessionState_valid (wk_State w) \<or>
               \<not> DrainState_valid (wk_Drain w))
        (Invalid ''worker_state'' ''intent or session state is unsupported''),
      fail_if (rp_Name (wk_Runtime w) \<noteq> RuntimeName \<or> rp_Version (wk_Runtime w) \<noteq> RuntimeVersion \<or>
               rp_GOOS (wk_Runtime w) = '''' \<or> rp_GOARCH (wk_Runtime w) = '''' \<or>
               rp_ABI (wk_Runtime w) \<noteq> ABIWASICommandV1 \<or>
               rp_HostAPI (wk_Runtime w) \<noteq> HostAPIProfileNone \<or>
               rp_FeatureProfile (wk_Runtime w) \<noteq> FeatureProfile)
        (Invalid ''runtime'' ''runtime profile is incomplete''),
      fail_if (bad_profile (rp_Engine (wk_Runtime w)) (rp_MemoryMiB (wk_Runtime w)))
        (Invalid ''runtime'' ''runtime engine or memory tier is unsupported''),
      fail_if (cy_AllocatedMemoryMiB (wk_Capacity w) > cy_MemoryMiB (wk_Capacity w) \<or>
               cy_AllocatedSlots (wk_Capacity w) > cy_Slots (wk_Capacity w) \<or>
               cy_Slots (wk_Capacity w) > MaxWorkerSlots)
        (Invalid ''capacity'' ''allocation exceeds capacity''),
      fail_if (map_len (wk_Labels w) > MaxRequiredLabels \<or>
               fcard (ch_Artifacts (wk_Cache w)) > MaxCacheHints \<or>
               fcard (ch_Compiled (wk_Cache w)) > MaxCacheHints)
        (Invalid ''worker_observation'' ''contains more entries than the v1 bound'')]
     @ map (\<lambda>(key, value). fail_if (\<not> labelKeyPattern key \<or> \<not> utf8_valid value \<or> length value > 256)
          (Invalid ''labels'' ''contains an invalid label''))
        (sorted_list_of_fmap (wk_Labels w)))"

end
