(* ===== verification/Planner.thy ===== *)
theory Planner
  imports Complex_Main Scheduler
begin

text \<open>
  Package \<^verbatim>\<open>internal/scheduler\<close>, file \<^verbatim>\<open>planner.go\<close>: deterministic placement with retained,
  explicitly acknowledged idempotency records. Values are immutable here, so the cloning
  helpers of the source are the identity.
\<close>

subsection \<open>Ranking (planner.go)\<close>

record eligibleCandidate =
  ec_worker :: WorkerSnapshot
  ec_cacheScore :: u8
  ec_spreadScore :: u8
  ec_loadNumerator :: u64
  ec_loadDenominator :: u64
  ec_memoryNumerator :: u64
  ec_memoryDenominator :: u64

definition compareCandidates :: "Candidate \<Rightarrow> Candidate \<Rightarrow> int" where
  "compareCandidates left right =
    (if cd_WorkerID left < cd_WorkerID right then - 1
     else if cd_WorkerID left > cd_WorkerID right then 1
     else if ws_BootID (cd_Session left) < ws_BootID (cd_Session right) then - 1
     else if ws_BootID (cd_Session left) > ws_BootID (cd_Session right) then 1
     else if ws_SessionEpoch (cd_Session left) < ws_SessionEpoch (cd_Session right) then - 1
     else if ws_SessionEpoch (cd_Session left) > ws_SessionEpoch (cd_Session right) then 1
     else 0)"

definition compareRatio :: "u64 \<Rightarrow> u64 \<Rightarrow> u64 \<Rightarrow> u64 \<Rightarrow> int" where
  "compareRatio leftNumerator leftDenominator rightNumerator rightDenominator =
    (let (leftHigh, leftLow) = mul64 leftNumerator rightDenominator;
         (rightHigh, rightLow) = mul64 rightNumerator leftDenominator
     in if leftHigh < rightHigh \<or> leftHigh = rightHigh \<and> leftLow < rightLow then - 1
        else if leftHigh > rightHigh \<or> leftHigh = rightHigh \<and> leftLow > rightLow then 1
        else 0)"

text \<open>A \<open>Candidate\<close> literal with the fields other than these two left zero.\<close>

definition new_candidate :: "WorkerSession \<Rightarrow> Candidate" where
  "new_candidate session =
    \<lparr>cd_WorkerID = ws_WorkerID session, cd_Session = session, cd_Eligible = False,
     cd_Reasons = [], cd_CacheScore = 0, cd_LoadNumerator = 0, cd_LoadDenominator = 0\<rparr>"

definition compareEligible :: "eligibleCandidate \<Rightarrow> eligibleCandidate \<Rightarrow> int" where
  "compareEligible left right =
    (let load = compareRatio (ec_loadNumerator left) (ec_loadDenominator left)
                  (ec_loadNumerator right) (ec_loadDenominator right);
         memory = compareRatio (ec_memoryNumerator left) (ec_memoryDenominator left)
                    (ec_memoryNumerator right) (ec_memoryDenominator right)
     in if ec_cacheScore left \<noteq> ec_cacheScore right
          then (if ec_cacheScore left > ec_cacheScore right then - 1 else 1)
        else if ec_spreadScore left \<noteq> ec_spreadScore right
          then (if ec_spreadScore left > ec_spreadScore right then - 1 else 1)
        else if load \<noteq> 0 then load
        else if memory \<noteq> 0 then memory
        else compareCandidates (new_candidate (wk_Session (ec_worker left)))
               (new_candidate (wk_Session (ec_worker right))))"

subsection \<open>Filtering (planner.go)\<close>

definition labelsMatch :: "(string, string) fmap \<Rightarrow> (string, string) fmap \<Rightarrow> bool" where
  "labelsMatch labels required =
    list_all (\<lambda>(key, expected). map_get [] labels key = expected) (sorted_list_of_fmap required)"

definition memoryOK :: "PlacementRequest \<Rightarrow> Capacity \<Rightarrow> bool" where
  "memoryOK request c \<longleftrightarrow> cy_MemoryMiB c \<ge> cy_AllocatedMemoryMiB c \<and>
     cy_MemoryMiB c - cy_AllocatedMemoryMiB c \<ge> ucast (pr_MemoryMiB request)"

definition slotsOK :: "PlacementRequest \<Rightarrow> Capacity \<Rightarrow> bool" where
  "slotsOK request c \<longleftrightarrow> cy_Slots c \<ge> cy_AllocatedSlots c \<and>
     cy_Slots c - cy_AllocatedSlots c \<ge> pr_RequiredSlots request"

definition filter_reasons :: "PlacementRequest \<Rightarrow> WorkerSnapshot \<Rightarrow> FilterReason list" where
  "filter_reasons request worker =
    (if wk_Intent worker \<noteq> IntentSchedulable then [ReasonIntent] else []) @
    (if wk_State worker \<noteq> SessionReady then [ReasonSession] else []) @
    (if \<not> RuntimeProfile_compatible (wk_Runtime worker) request then [ReasonRuntime] else []) @
    (if \<not> labelsMatch (wk_Labels worker) (required_labels request) then [ReasonLabels] else []) @
    (if \<not> memoryOK request (wk_Capacity worker) then [ReasonMemory] else []) @
    (if \<not> slotsOK request (wk_Capacity worker) then [ReasonSlots] else [])"

definition cache_score :: "PlacementRequest \<Rightarrow> WorkerSnapshot \<Rightarrow> u8" where
  "cache_score request worker =
    (if ck_ArtifactDigest (pr_CompiledCacheKey request) \<noteq> '''' \<and>
        pr_CompiledCacheKey request |\<in>| ch_Compiled (wk_Cache worker) then 2
     else if pr_ArtifactDigest request |\<in>| ch_Artifacts (wk_Cache worker) then 1
     else 0)"

definition spread_score :: "PlacementRequest \<Rightarrow> WorkerSnapshot \<Rightarrow> u8" where
  "spread_score request worker =
    (if ws_WorkerID (wk_Session worker) |\<in>| existing_workers request then 0 else 1)"

text \<open>One pass of the loop for a worker whose id has not been seen.\<close>

definition evaluate_worker ::
  "PlacementRequest \<Rightarrow> WorkerSnapshot \<Rightarrow> Candidate \<times> eligibleCandidate option" where
  "evaluate_worker request worker =
    (let candidate = new_candidate (wk_Session worker) in
     if WorkerSnapshot_validate worker \<noteq> None
       then (candidate\<lparr>cd_Reasons := [ReasonInvalidObservation]\<rparr>, None)
     else if filter_reasons request worker \<noteq> []
       then (candidate\<lparr>cd_Reasons := filter_reasons request worker\<rparr>, None)
     else
       (let c = wk_Capacity worker in
        (candidate\<lparr>cd_Eligible := True, cd_CacheScore := cache_score request worker,
                   cd_LoadNumerator := cy_AllocatedSlots c, cd_LoadDenominator := cy_Slots c\<rparr>,
         Some \<lparr>ec_worker = worker, ec_cacheScore = cache_score request worker,
               ec_spreadScore = spread_score request worker,
               ec_loadNumerator = cy_AllocatedSlots c, ec_loadDenominator = cy_Slots c,
               ec_memoryNumerator = cy_AllocatedMemoryMiB c,
               ec_memoryDenominator = cy_MemoryMiB c\<rparr>)))"

fun evaluate_loop ::
  "PlacementRequest \<Rightarrow> string fset \<Rightarrow> WorkerSnapshot list \<Rightarrow> Candidate list \<times> eligibleCandidate list" where
  "evaluate_loop request seenIDs [] = ([], [])"
| "evaluate_loop request seenIDs (worker # workers) =
    (let workerID = ws_WorkerID (wk_Session worker) in
     if workerID |\<in>| seenIDs
     then (let (candidates, eligible) = evaluate_loop request seenIDs workers
           in ((new_candidate (wk_Session worker))\<lparr>cd_Reasons := [ReasonInvalidObservation]\<rparr> # candidates,
               eligible))
     else (let (candidate, entry) = evaluate_worker request worker;
               (candidates, eligible) = evaluate_loop request (finsert workerID seenIDs) workers
           in (candidate # candidates,
               case entry of None \<Rightarrow> eligible | Some e \<Rightarrow> e # eligible)))"

definition evaluateCandidates ::
  "PlacementRequest \<Rightarrow> WorkerSnapshot list \<Rightarrow> Candidate list \<times> eligibleCandidate list" where
  "evaluateCandidates request workers =
    (let (candidates, eligible) = evaluate_loop request {||} workers
     in (sort_by compareCandidates candidates, eligible))"

fun validateWorkerSet_loop :: "string fset \<Rightarrow> WorkerSnapshot list \<Rightarrow> error option" where
  "validateWorkerSet_loop seen [] = None"
| "validateWorkerSet_loop seen (worker # workers) =
    (if ws_WorkerID (wk_Session worker) |\<in>| seen
     then Some (Invalid ''workers'' ''contains a duplicate worker_id'')
     else validateWorkerSet_loop (finsert (ws_WorkerID (wk_Session worker)) seen) workers)"

definition validateWorkerSet :: "WorkerSnapshot list \<Rightarrow> error option" where
  "validateWorkerSet workers = first_error
    [fail_if (length workers > MaxWorkers)
       (Invalid ''workers'' ''contains more than the v1 worker observation limit''),
     validateWorkerSet_loop {||} workers]"

subsection \<open>The planner (planner.go)\<close>

definition json_cache_key :: "CacheKey \<Rightarrow> json" where
  "json_cache_key k = JObj
    [(''ArtifactDigest'', JStr (ck_ArtifactDigest k)), (''ArtifactSize'', JNum (ck_ArtifactSize k)),
     (''RuntimeName'', JStr (ck_RuntimeName k)), (''RuntimeVersion'', JStr (ck_RuntimeVersion k)),
     (''ABI'', JStr (ck_ABI k)), (''HostAPIProfile'', JStr (ck_HostAPIProfile k)),
     (''RuntimeFeatureProfile'', JStr (ck_RuntimeFeatureProfile k)), (''Engine'', JStr (ck_Engine k)),
     (''MemoryLimitMiB'', json_uint (ck_MemoryLimitMiB k)),
     (''GOOS'', JStr (ck_GOOS k)), (''GOARCH'', JStr (ck_GOARCH k))]"

definition json_request :: "PlacementRequest \<Rightarrow> json" where
  "json_request r = JObj
    [(''CommandID'', JStr (pr_CommandID r)), (''AssignmentID'', JStr (pr_AssignmentID r)),
     (''VersionID'', JStr (pr_VersionID r)), (''ArtifactDigest'', JStr (pr_ArtifactDigest r)),
     (''ArtifactSize'', JNum (pr_ArtifactSize r)), (''ABI'', JStr (pr_ABI r)),
     (''HostAPI'', JStr (pr_HostAPI r)), (''FeatureProfile'', JStr (pr_FeatureProfile r)),
     (''RuntimeName'', JStr (pr_RuntimeName r)), (''RuntimeVersion'', JStr (pr_RuntimeVersion r)),
     (''RuntimeEngine'', JStr (pr_RuntimeEngine r)), (''GOOS'', JStr (pr_GOOS r)),
     (''GOARCH'', JStr (pr_GOARCH r)), (''MemoryMiB'', json_uint (pr_MemoryMiB r)),
     (''RequiredSlots'', json_uint (pr_RequiredSlots r)),
     (''AdmissionEpoch'', json_uint (pr_AdmissionEpoch r)),
     (''DeploymentGeneration'', json_uint (pr_DeploymentGeneration r)),
     (''PolicyDigest'', JStr (pr_PolicyDigest r)),
     (''CompiledCacheKey'', json_cache_key (pr_CompiledCacheKey r)),
     (''RequiredLabels'', json_ptr (json_map JStr) (pr_RequiredLabels r)),
     (''ExistingWorkerIDs'',
        json_ptr (\<lambda>s. JObj (map (\<lambda>id. (id, JObj [])) (sorted_list_of_fset s))) (pr_ExistingWorkerIDs r))]"

definition requestFingerprint :: "canonicalizer \<Rightarrow> PlacementRequest \<Rightarrow> error + SHA256" where
  "requestFingerprint jcs request =
    CanonicalJSON jcs ''scheduler-decision'' ''v1''
      (json_marshal (json_request (request\<lparr>pr_CommandID := ''''\<rparr>)))"

record decisionRecord =
  dr_fingerprint :: SHA256
  dr_decision :: PlacementDecision

record Planner =
  pl_maxDecisions :: int
  pl_barrier :: LeaderBarrier
  pl_decisions :: "(string, decisionRecord) fmap"
  pl_assignments :: "(string, string) fmap"

definition zero_session :: WorkerSession where
  "zero_session = \<lparr>ws_WorkerID = [], ws_BootID = [], ws_SessionEpoch = 0\<rparr>"

definition zero_barrier :: LeaderBarrier where
  "zero_barrier = \<lparr>lb_Term = 0, lb_AppliedIndex = 0, lb_Ready = False\<rparr>"

definition zero_assignment :: Assignment where
  "zero_assignment =
    \<lparr>as_CommandID = [], as_AssignmentID = [], as_Worker = zero_session, as_VersionID = [],
     as_ArtifactDigest = [], as_ArtifactSize = 0, as_ABI = [], as_HostAPI = [],
     as_FeatureProfile = [], as_MemoryMiB = 0, as_RequiredSlots = 0, as_AdmissionEpoch = 0,
     as_DeploymentGeneration = 0, as_PolicyDigest = []\<rparr>"

definition zero_decision :: PlacementDecision where
  "zero_decision = \<lparr>pd_Status = StatusNone, pd_Assignment = zero_assignment,
     pd_Barrier = zero_barrier, pd_Candidates = []\<rparr>"

definition zero_record :: decisionRecord where
  "zero_record = \<lparr>dr_fingerprint = [], dr_decision = zero_decision\<rparr>"

definition DefaultMaxDecisions :: int where "DefaultMaxDecisions = 100000"
definition HardMaxDecisions :: int where "HardMaxDecisions = 100000"

definition NewPlanner :: "int \<Rightarrow> error + Planner" where
  "NewPlanner maxDecisions =
    (let limit = (if maxDecisions = 0 then DefaultMaxDecisions else maxDecisions)
     in if limit < 1 \<or> limit > HardMaxDecisions
        then Inl (Opaque ''scheduler decision limit is outside v1 bounds'')
        else Inr \<lparr>pl_maxDecisions = limit, pl_barrier = zero_barrier,
                  pl_decisions = fmempty, pl_assignments = fmempty\<rparr>)"

definition InstallBarrier :: "LeaderBarrier \<Rightarrow> (error, Planner, unit) operation" where
  "InstallBarrier barrier p =
    check (first_error
      [fail_if (lb_Term barrier = 0 \<or> lb_AppliedIndex barrier = 0)
         (Invalid ''leader_barrier'' ''term and applied index must be greater than zero''),
       fail_if (\<not> lb_Ready barrier) (classified CodeNoQuorum ''leader barrier is not committed''),
       fail_if (lb_Term (pl_barrier p) \<noteq> 0 \<and>
                (lb_Term barrier < lb_Term (pl_barrier p) \<or>
                 lb_AppliedIndex barrier < lb_AppliedIndex (pl_barrier p)))
         (classified CodeStaleGeneration ''leader barrier moved backwards'')]) p
    (Inr (), p\<lparr>pl_barrier := barrier\<rparr>)"

definition InvalidateBarrier :: "Planner \<Rightarrow> Planner" where
  "InvalidateBarrier p = p\<lparr>pl_barrier := (pl_barrier p)\<lparr>lb_Ready := False\<rparr>\<rparr>"

definition new_assignment :: "PlacementRequest \<Rightarrow> WorkerSession \<Rightarrow> Assignment" where
  "new_assignment request session =
    \<lparr>as_CommandID = pr_CommandID request, as_AssignmentID = pr_AssignmentID request,
     as_Worker = session, as_VersionID = pr_VersionID request,
     as_ArtifactDigest = pr_ArtifactDigest request, as_ArtifactSize = pr_ArtifactSize request,
     as_ABI = pr_ABI request, as_HostAPI = pr_HostAPI request,
     as_FeatureProfile = pr_FeatureProfile request, as_MemoryMiB = pr_MemoryMiB request,
     as_RequiredSlots = pr_RequiredSlots request, as_AdmissionEpoch = pr_AdmissionEpoch request,
     as_DeploymentGeneration = pr_DeploymentGeneration request,
     as_PolicyDigest = pr_PolicyDigest request\<rparr>"

text \<open>
  \<open>Plan\<close> returns a decision together with the error: where no worker is eligible, the
  decision explains why each was excluded. \<open>Plan_fresh\<close> is the part after the two
  idempotency lookups.
\<close>

definition Plan_fresh ::
  "PlacementRequest \<Rightarrow> SHA256 \<Rightarrow> WorkerSnapshot list \<Rightarrow> Planner \<Rightarrow>
     (PlacementDecision \<times> error option) \<times> Planner" where
  "Plan_fresh request fingerprint workers p =
    (case first_error
       [fail_if (\<not> lb_Ready (pl_barrier p))
          (classified CodeControlPlaneStale ''current Leader barrier is not installed''),
        fail_if (int (map_len (pl_decisions p)) \<ge> pl_maxDecisions p)
          (classified CodeOverloaded ''scheduler decision capacity is full''),
        validateWorkerSet workers]
     of Some e \<Rightarrow> ((zero_decision, Some e), p)
      | None \<Rightarrow>
          (let (candidates, eligible) = evaluateCandidates request workers in
           if eligible = []
           then ((zero_decision\<lparr>pd_Barrier := pl_barrier p, pd_Candidates := candidates\<rparr>,
                  Some (classified CodeNoReadyReplica
                    ''no Worker satisfies the placement constraints'')), p)
           else
             (let chosen = hd (sort_by compareEligible eligible);
                  decision = \<lparr>pd_Status = StatusApplied,
                              pd_Assignment = new_assignment request (wk_Session (ec_worker chosen)),
                              pd_Barrier = pl_barrier p, pd_Candidates = candidates\<rparr>
              in ((decision, None),
                  p\<lparr>pl_decisions := fmupd (pr_CommandID request)
                       \<lparr>dr_fingerprint = fingerprint, dr_decision = decision\<rparr> (pl_decisions p),
                    pl_assignments := fmupd (pr_AssignmentID request) (pr_CommandID request)
                       (pl_assignments p)\<rparr>))))"

definition Plan ::
  "canonicalizer \<Rightarrow> PlacementRequest \<Rightarrow> WorkerSnapshot list \<Rightarrow> Planner \<Rightarrow>
     (PlacementDecision \<times> error option) \<times> Planner" where
  "Plan jcs request workers p =
    (case PlacementRequest_Validate request of
       Some e \<Rightarrow> ((zero_decision, Some e), p)
     | None \<Rightarrow>
    (case requestFingerprint jcs request of
       Inl e \<Rightarrow> ((zero_decision, Some e), p)
     | Inr fingerprint \<Rightarrow>
    (case fmlookup (pl_decisions p) (pr_CommandID request) of
       Some existing \<Rightarrow>
         if dr_fingerprint existing \<noteq> fingerprint
         then ((zero_decision, Some (classified CodeConflict
                 ''command id was reused with different placement input'')), p)
         else (((dr_decision existing)\<lparr>pd_Status := StatusDuplicate\<rparr>, None), p)
     | None \<Rightarrow>
    (case fmlookup (pl_assignments p) (pr_AssignmentID request) of
       Some commandID \<Rightarrow>
         (let existing = map_get zero_record (pl_decisions p) commandID in
          if dr_fingerprint existing \<noteq> fingerprint
          then ((zero_decision, Some (classified CodeConflict
                  ''assignment id was reused with different placement input'')), p)
          else (((dr_decision existing)\<lparr>pd_Status := StatusAlreadySatisfied\<rparr>, None), p))
     | None \<Rightarrow> Plan_fresh request fingerprint workers p))))"

definition Acknowledge :: "string \<Rightarrow> (error, Planner, unit) operation" where
  "Acknowledge commandID p =
    check (fail_if (\<not> identifierPattern commandID)
      (Invalid ''command_id'' ''must be a valid identifier'')) p
    (case fmlookup (pl_decisions p) commandID of
       None \<Rightarrow> (Inr (), p)
     | Some record \<Rightarrow>
         (let assignmentID = as_AssignmentID (pd_Assignment (dr_decision record));
              p1 = p\<lparr>pl_decisions := fmdrop commandID (pl_decisions p)\<rparr>
          in (Inr (), if map_get [] (pl_assignments p1) assignmentID = commandID
                      then p1\<lparr>pl_assignments := fmdrop assignmentID (pl_assignments p1)\<rparr>
                      else p1)))"

definition DecisionCount :: "Planner \<Rightarrow> nat" where
  "DecisionCount p = map_len (pl_decisions p)"

subsection \<open>The ranking is a linear order\<close>

text \<open>
  The products are exact, so the comparison of two ratios with positive denominators is the
  comparison of the rational numbers.
\<close>

definition ratio :: "u64 \<Rightarrow> u64 \<Rightarrow> rat" where
  "ratio numerator denominator = rat_of_int (uint numerator) / rat_of_int (uint denominator)"

lemma mult_add_less:
  assumes "a < c" "b < K" "0 \<le> d" "0 \<le> b"
  shows "a * K + b < c * K + (d :: int)"
proof -
  have "(a + 1) * K \<le> c * K" using assms by (intro mult_right_mono) auto
  moreover have "(a + 1) * K = a * K + K" by (simp add: distrib_right)
  ultimately show ?thesis using assms(2,3) by linarith
qed

lemma pair_less_iff:
  fixes a b c d :: u64
  shows "uint a * 2 ^ 64 + uint b < uint c * 2 ^ 64 + uint d \<longleftrightarrow> a < c \<or> a = c \<and> b < d"
proof -
  have bounds: "0 \<le> uint b" "uint b < 2 ^ 64" "0 \<le> uint d" "uint d < 2 ^ 64"
    using uint_lt2p [of b] uint_lt2p [of d] by auto
  consider "uint a < uint c" | "a = c" | "uint c < uint a" by (metis linorder_cases word_uint_eq_iff)
  then show ?thesis
  proof cases
    case 1
    then show ?thesis using mult_add_less [OF 1 bounds(2,3,1)] by (simp add: word_less_def)
  next
    case 2
    then show ?thesis by (simp add: word_less_def)
  next
    case 3
    then show ?thesis using mult_add_less [OF 3 bounds(4,1,3)] by (auto simp: word_less_def)
  qed
qed

lemma compareRatio_products:
  "compareRatio a b c d = compare_lin (uint a * uint d) (uint c * uint b)"
proof -
  let ?l = "mul64 a d" and ?r = "mul64 c b"
  have "compareRatio a b c d = (if fst ?l < fst ?r \<or> fst ?l = fst ?r \<and> snd ?l < snd ?r then - 1
      else if fst ?r < fst ?l \<or> fst ?r = fst ?l \<and> snd ?r < snd ?l then 1 else 0)"
    by (auto simp: compareRatio_def case_prod_beta Let_def)
  also have "\<dots> = compare_lin (uint a * uint d) (uint c * uint b)"
    unfolding pair_less_iff [symmetric] mul64_product by (simp add: compare_lin_def)
  finally show ?thesis .
qed

lemma fraction_less:
  fixes p q r s :: int
  assumes "0 < q" "0 < s"
  shows "rat_of_int p / rat_of_int q < rat_of_int r / rat_of_int s \<longleftrightarrow> p * s < r * q"
proof -
  have "rat_of_int p / rat_of_int q < rat_of_int r / rat_of_int s \<longleftrightarrow>
      rat_of_int (p * s) < rat_of_int (r * q)"
    using assms by (simp add: divide_less_eq less_divide_eq field_simps)
  then show ?thesis by (simp only: of_int_less_iff)
qed

lemma compareRatio_ratio:
  assumes "b \<noteq> 0" "d \<noteq> 0"
  shows "compareRatio a b c d = compare_lin (ratio a b) (ratio c d)"
proof -
  have pos: "0 < uint b" "0 < uint d"
    using assms by (simp_all add: order.strict_iff_order word_uint_eq_iff)
  have "ratio a b < ratio c d \<longleftrightarrow> uint a * uint d < uint c * uint b"
    unfolding ratio_def by (rule fraction_less [OF pos])
  moreover have "ratio c d < ratio a b \<longleftrightarrow> uint c * uint b < uint a * uint d"
    unfolding ratio_def by (rule fraction_less [OF pos(2,1)])
  ultimately show ?thesis by (simp add: compareRatio_products compare_lin_def)
qed

text \<open>Cache score and spread count downwards, the load and memory ratios upwards.\<close>

definition eligible_key ::
  "eligibleCandidate \<Rightarrow> int \<times> int \<times> rat \<times> rat \<times> string \<times> string \<times> u64" where
  "eligible_key e =
    (- uint (ec_cacheScore e), - uint (ec_spreadScore e),
     ratio (ec_loadNumerator e) (ec_loadDenominator e),
     ratio (ec_memoryNumerator e) (ec_memoryDenominator e),
     ws_WorkerID (wk_Session (ec_worker e)), ws_BootID (wk_Session (ec_worker e)),
     ws_SessionEpoch (wk_Session (ec_worker e)))"

definition eligible_ok :: "eligibleCandidate \<Rightarrow> bool" where
  "eligible_ok e \<longleftrightarrow> ec_loadDenominator e \<noteq> 0 \<and> ec_memoryDenominator e \<noteq> 0"

lemma compareCandidates_key:
  "compareCandidates l r = compare_lin
     (cd_WorkerID l, ws_BootID (cd_Session l), ws_SessionEpoch (cd_Session l))
     (cd_WorkerID r, ws_BootID (cd_Session r), ws_SessionEpoch (cd_Session r))"
  by (auto simp: compareCandidates_def compare_lin_def)

lemma compareEligible_key:
  assumes "eligible_ok l" "eligible_ok r"
  shows "compareEligible l r = compare_lin (eligible_key l) (eligible_key r)"
proof -
  have lin: "compare_lin (x, y) (x', y') = (if x = x' then compare_lin y y' else compare_lin x x')"
    for x x' :: "'x :: linorder" and y y' :: "'y :: linorder"
    by (auto simp: compare_lin_def)
  have neg: "compare_lin (- uint a) (- uint b) = (if a > b then - 1 else if a = b then 0 else 1)"
    for a b :: u8
    by (simp add: compare_lin_def word_less_def word_uint_eq_iff)
  have eq: "- uint a = - uint b \<longleftrightarrow> a = b" for a b :: u8
    by (simp add: word_uint_eq_iff)
  note ratios = compareRatio_ratio [of "ec_loadDenominator l" "ec_loadDenominator r"]
    compareRatio_ratio [of "ec_memoryDenominator l" "ec_memoryDenominator r"]
  have den: "ec_loadDenominator l \<noteq> 0" "ec_loadDenominator r \<noteq> 0"
    "ec_memoryDenominator l \<noteq> 0" "ec_memoryDenominator r \<noteq> 0"
    using assms by (simp_all add: eligible_ok_def)
  have names: "compareCandidates (new_candidate (wk_Session (ec_worker l)))
      (new_candidate (wk_Session (ec_worker r))) = compare_lin
        (ws_WorkerID (wk_Session (ec_worker l)), ws_BootID (wk_Session (ec_worker l)),
         ws_SessionEpoch (wk_Session (ec_worker l)))
        (ws_WorkerID (wk_Session (ec_worker r)), ws_BootID (wk_Session (ec_worker r)),
         ws_SessionEpoch (wk_Session (ec_worker r)))"
    by (simp add: compareCandidates_key new_candidate_def)
  show ?thesis
    unfolding compareEligible_def eligible_key_def Let_def names ratios(1) [OF den(1,2)]
      ratios(2) [OF den(3,4)] lin [of "- uint _"] lin [of "ratio _ _"] neg eq
    by (cases "ec_cacheScore l = ec_cacheScore r"; cases "ec_spreadScore l = ec_spreadScore r";
        cases "ratio (ec_loadNumerator l) (ec_loadDenominator l) =
          ratio (ec_loadNumerator r) (ec_loadDenominator r)") simp_all
qed

interpretation eligible_order: go_compare compareEligible eligible_ok
  by unfold_locales (auto simp: compareEligible_key)

interpretation candidate_order: key_compare compareCandidates
  "\<lambda>c. (cd_WorkerID c, ws_BootID (cd_Session c), ws_SessionEpoch (cd_Session c))"
  by unfold_locales (simp_all add: compareCandidates_key)

subsection \<open>Evaluation\<close>

abbreviation worker_id :: "WorkerSnapshot \<Rightarrow> string" where
  "worker_id w \<equiv> ws_WorkerID (wk_Session w)"

text \<open>The hard constraints a worker must meet, as numbers without wrap-around.\<close>

definition placeable :: "PlacementRequest \<Rightarrow> WorkerSnapshot \<Rightarrow> bool" where
  "placeable request w \<longleftrightarrow>
     WorkerSnapshot_validate w = None \<and> wk_Intent w = IntentSchedulable \<and> wk_State w = SessionReady \<and>
     RuntimeProfile_compatible (wk_Runtime w) request \<and>
     (\<forall>k v. fmlookup (required_labels request) k = Some v \<longrightarrow> map_get [] (wk_Labels w) k = v) \<and>
     unat (cy_AllocatedMemoryMiB (wk_Capacity w)) + unat (pr_MemoryMiB request)
       \<le> unat (cy_MemoryMiB (wk_Capacity w)) \<and>
     unat (cy_AllocatedSlots (wk_Capacity w)) + unat (pr_RequiredSlots request)
       \<le> unat (cy_Slots (wk_Capacity w))"

definition placement_key ::
  "PlacementRequest \<Rightarrow> WorkerSnapshot \<Rightarrow> int \<times> int \<times> rat \<times> rat \<times> string \<times> string \<times> u64" where
  "placement_key request w =
    (- uint (cache_score request w), - uint (spread_score request w),
     ratio (cy_AllocatedSlots (wk_Capacity w)) (cy_Slots (wk_Capacity w)),
     ratio (cy_AllocatedMemoryMiB (wk_Capacity w)) (cy_MemoryMiB (wk_Capacity w)),
     worker_id w, ws_BootID (wk_Session w), ws_SessionEpoch (wk_Session w))"

lemma free_capacity_iff:
  fixes a m r :: u64
  shows "m \<ge> a \<and> m - a \<ge> r \<longleftrightarrow> unat a + unat r \<le> unat m"
  by (auto simp: word_le_nat_alt unat_sub)

lemma unat_ucast_u32: "unat (ucast (m :: u32) :: u64) = unat m"
proof -
  have "unat m < 2 ^ 32" using unsigned_less [of m] by simp
  then have "unat m < 2 ^ 64" by simp
  then show ?thesis by (simp add: unsigned_ucast_eq take_bit_nat_eq_self)
qed

lemma memoryOK_iff: "memoryOK request c \<longleftrightarrow>
    unat (cy_AllocatedMemoryMiB c) + unat (pr_MemoryMiB request) \<le> unat (cy_MemoryMiB c)"
  unfolding memoryOK_def free_capacity_iff unat_ucast_u32 ..

lemma slotsOK_iff: "slotsOK request c \<longleftrightarrow>
    unat (cy_AllocatedSlots c) + unat (pr_RequiredSlots request) \<le> unat (cy_Slots c)"
  unfolding slotsOK_def free_capacity_iff ..

lemma placeable_iff:
  "placeable request w \<longleftrightarrow> WorkerSnapshot_validate w = None \<and> filter_reasons request w = []"
  by (auto simp: placeable_def filter_reasons_def memoryOK_iff slotsOK_iff labelsMatch_def list_all_iff)

definition eligible_entry :: "PlacementRequest \<Rightarrow> WorkerSnapshot \<Rightarrow> eligibleCandidate" where
  "eligible_entry request w =
    \<lparr>ec_worker = w, ec_cacheScore = cache_score request w, ec_spreadScore = spread_score request w,
     ec_loadNumerator = cy_AllocatedSlots (wk_Capacity w), ec_loadDenominator = cy_Slots (wk_Capacity w),
     ec_memoryNumerator = cy_AllocatedMemoryMiB (wk_Capacity w),
     ec_memoryDenominator = cy_MemoryMiB (wk_Capacity w)\<rparr>"

lemma eligible_entry_key [simp]: "eligible_key (eligible_entry request w) = placement_key request w"
  by (simp add: eligible_key_def eligible_entry_def placement_key_def)

lemma eligible_entry_worker [simp]: "ec_worker (eligible_entry request w) = w"
  by (simp add: eligible_entry_def)

lemma evaluate_worker_entry:
  "snd (evaluate_worker request w) = (if placeable request w then Some (eligible_entry request w) else None)"
  by (simp add: evaluate_worker_def placeable_iff eligible_entry_def Let_def)

lemma evaluate_worker_candidate:
  "cd_WorkerID (fst (evaluate_worker request w)) = worker_id w"
  "cd_Session (fst (evaluate_worker request w)) = wk_Session w"
  "cd_Eligible (fst (evaluate_worker request w)) = placeable request w"
  by (simp_all add: evaluate_worker_def placeable_iff new_candidate_def Let_def)

lemma evaluate_loop_distinct:
  "distinct (map worker_id ws) \<Longrightarrow> (\<forall>w \<in> set ws. worker_id w |\<notin>| seen) \<Longrightarrow>
     evaluate_loop request seen ws =
       (map (\<lambda>w. fst (evaluate_worker request w)) ws,
        map (eligible_entry request) (filter (placeable request) ws))"
proof (induction ws arbitrary: seen)
  case (Cons w ws)
  have "evaluate_loop request (finsert (worker_id w) seen) ws =
      (map (\<lambda>w. fst (evaluate_worker request w)) ws,
       map (eligible_entry request) (filter (placeable request) ws))"
    using Cons.prems by (intro Cons.IH) (auto simp: image_iff)
  with Cons.prems evaluate_worker_entry [of request w] show ?case
    by (cases "evaluate_worker request w") (auto simp: Let_def split: option.splits if_splits)
qed simp

lemma validateWorkerSet_loop_None:
  "validateWorkerSet_loop seen ws = None \<longleftrightarrow>
     distinct (map worker_id ws) \<and> (\<forall>w \<in> set ws. worker_id w |\<notin>| seen)"
  by (induction ws arbitrary: seen) (auto simp: image_iff)

lemma validateWorkerSet_loop_Some:
  "validateWorkerSet_loop seen ws = Some e \<Longrightarrow> e = Invalid ''workers'' ''contains a duplicate worker_id''"
  by (induction ws arbitrary: seen) (auto split: if_splits)

lemma validateWorkerSet_loop_eq:
  "validateWorkerSet_loop {||} ws = fail_if (\<not> distinct (map worker_id ws))
     (Invalid ''workers'' ''contains a duplicate worker_id'')"
proof (cases "validateWorkerSet_loop {||} ws")
  case None
  then show ?thesis using validateWorkerSet_loop_None [of "{||}" ws] by simp
next
  case (Some e)
  then have "\<not> distinct (map worker_id ws)" using validateWorkerSet_loop_None [of "{||}" ws] by simp
  with Some validateWorkerSet_loop_Some [OF Some] show ?thesis by simp
qed

lemma validateWorkerSet_None [checks]:
  "validateWorkerSet ws = None \<longleftrightarrow> length ws \<le> MaxWorkers \<and> distinct (map worker_id ws)"
  by (auto simp: validateWorkerSet_def checks validateWorkerSet_loop_None)

lemma evaluateCandidates_valid:
  assumes "validateWorkerSet ws = None"
  shows "evaluateCandidates request ws =
    (sort_by compareCandidates (map (\<lambda>w. fst (evaluate_worker request w)) ws),
     map (eligible_entry request) (filter (placeable request) ws))"
  using evaluate_loop_distinct [of ws "{||}" request] assms
  by (simp add: evaluateCandidates_def checks)

lemma request_other_command:
  assumes "PlacementRequest_Validate r = None" and "identifierPattern c"
  shows "PlacementRequest_Validate (r\<lparr>pr_CommandID := c\<rparr>) = None"
proof -
  have "required_labels (r\<lparr>pr_CommandID := c\<rparr>) = required_labels r"
    "existing_workers (r\<lparr>pr_CommandID := c\<rparr>) = existing_workers r"
    "cache_key_mismatch (r\<lparr>pr_CommandID := c\<rparr>) = cache_key_mismatch r"
    by (simp_all add: required_labels_def existing_workers_def cache_key_mismatch_def)
  with assms show ?thesis by (simp add: PlacementRequest_Validate_def)
qed

lemma request_positive:
  "PlacementRequest_Validate r = None \<Longrightarrow> pr_MemoryMiB r \<noteq> 0 \<and> pr_RequiredSlots r \<noteq> 0"
  by (simp add: PlacementRequest_Validate_def checks)

lemma eligible_entries_ok:
  assumes "PlacementRequest_Validate request = None" "placeable request w"
  shows "eligible_ok (eligible_entry request w)"
proof -
  have "0 < unat (pr_MemoryMiB request)" "0 < unat (pr_RequiredSlots request)"
    using request_positive [OF assms(1)] by (simp_all add: unat_gt_0)
  then have "0 < unat (cy_MemoryMiB (wk_Capacity w))" "0 < unat (cy_Slots (wk_Capacity w))"
    using assms(2) by (auto simp: placeable_def)
  then show ?thesis by (auto simp: eligible_ok_def eligible_entry_def)
qed

subsection \<open>Outcomes of Plan\<close>

definition best_worker :: "PlacementRequest \<Rightarrow> WorkerSnapshot list \<Rightarrow> WorkerSnapshot" where
  "best_worker request ws =
    ec_worker (hd (sort_by compareEligible (map (eligible_entry request) (filter (placeable request) ws))))"

definition applied_decision ::
  "PlacementRequest \<Rightarrow> WorkerSnapshot list \<Rightarrow> LeaderBarrier \<Rightarrow> PlacementDecision" where
  "applied_decision request ws barrier =
    \<lparr>pd_Status = StatusApplied,
     pd_Assignment = new_assignment request (wk_Session (best_worker request ws)),
     pd_Barrier = barrier,
     pd_Candidates = sort_by compareCandidates (map (\<lambda>w. fst (evaluate_worker request w)) ws)\<rparr>"

definition record_decision ::
  "PlacementRequest \<Rightarrow> SHA256 \<Rightarrow> PlacementDecision \<Rightarrow> Planner \<Rightarrow> Planner" where
  "record_decision request fingerprint d p =
    p\<lparr>pl_decisions := fmupd (pr_CommandID request)
         \<lparr>dr_fingerprint = fingerprint, dr_decision = d\<rparr> (pl_decisions p),
      pl_assignments := fmupd (pr_AssignmentID request) (pr_CommandID request) (pl_assignments p)\<rparr>"

text \<open>When a new decision can be made, and that it then is.\<close>

definition can_place :: "PlacementRequest \<Rightarrow> WorkerSnapshot list \<Rightarrow> Planner \<Rightarrow> bool" where
  "can_place request ws p \<longleftrightarrow>
     lb_Ready (pl_barrier p) \<and> int (map_len (pl_decisions p)) < pl_maxDecisions p \<and>
     validateWorkerSet ws = None \<and> (\<exists>w \<in> set ws. placeable request w)"

lemma Plan_fresh_applied:
  "can_place request ws p \<Longrightarrow> Plan_fresh request fp ws p =
     ((applied_decision request ws (pl_barrier p), None),
      record_decision request fp (applied_decision request ws (pl_barrier p)) p)"
  by (auto simp: can_place_def Plan_fresh_def evaluateCandidates_valid filter_empty_conv Let_def
      best_worker_def applied_decision_def record_decision_def)

lemma Plan_fresh_refused:
  "\<not> can_place request ws p \<Longrightarrow> \<exists>d e. Plan_fresh request fp ws p = ((d, Some e), p)"
  by (cases "validateWorkerSet ws")
     (auto simp: can_place_def Plan_fresh_def evaluateCandidates_valid filter_empty_conv Let_def
       fail_if_def)

lemma Plan_cases:
  obtains (refused) d e where "Plan jcs request ws p = ((d, Some e), p)"
  | (duplicate) r where "Plan jcs request ws p = (((dr_decision r)\<lparr>pd_Status := StatusDuplicate\<rparr>, None), p)"
      "fmlookup (pl_decisions p) (pr_CommandID request) = Some r"
      "requestFingerprint jcs request = Inr (dr_fingerprint r)"
  | (satisfied) c r where "Plan jcs request ws p =
        (((dr_decision r)\<lparr>pd_Status := StatusAlreadySatisfied\<rparr>, None), p)"
      "fmlookup (pl_assignments p) (pr_AssignmentID request) = Some c"
      "r = map_get zero_record (pl_decisions p) c"
      "requestFingerprint jcs request = Inr (dr_fingerprint r)"
  | (applied) fp where "Plan jcs request ws p =
        ((applied_decision request ws (pl_barrier p), None),
         record_decision request fp (applied_decision request ws (pl_barrier p)) p)"
      "PlacementRequest_Validate request = None" "requestFingerprint jcs request = Inr fp"
      "fmlookup (pl_decisions p) (pr_CommandID request) = None"
      "fmlookup (pl_assignments p) (pr_AssignmentID request) = None" "can_place request ws p"
proof (cases "PlacementRequest_Validate request")
  case (Some e)
  then show ?thesis by (intro refused) (simp add: Plan_def)
next
  case valid: None
  show ?thesis
  proof (cases "requestFingerprint jcs request")
    case (Inl e)
    then show ?thesis using valid by (intro refused) (simp add: Plan_def)
  next
    case fp: (Inr fp)
    show ?thesis
    proof (cases "fmlookup (pl_decisions p) (pr_CommandID request)")
      case (Some r)
      show ?thesis
      proof (cases "dr_fingerprint r = fp")
        case True
        show ?thesis by (rule duplicate [OF _ Some]) (simp_all add: Plan_def valid fp Some True)
      next
        case False
        show ?thesis by (rule refused) (simp add: Plan_def valid fp Some False)
      qed
    next
      case no_command: None
      show ?thesis
      proof (cases "fmlookup (pl_assignments p) (pr_AssignmentID request)")
        case (Some c)
        show ?thesis
        proof (cases "dr_fingerprint (map_get zero_record (pl_decisions p) c) = fp")
          case True
          show ?thesis
            by (rule satisfied [OF _ Some refl])
               (simp_all add: Plan_def valid fp no_command Some True Let_def)
        next
          case False
          show ?thesis by (rule refused) (simp add: Plan_def valid fp no_command Some False Let_def)
        qed
      next
        case None
        have plan: "Plan jcs request ws p = Plan_fresh request fp ws p"
          using None no_command valid fp by (simp add: Plan_def)
        show ?thesis
        proof (cases "can_place request ws p")
          case True
          show ?thesis
            by (rule applied [OF _ valid fp no_command None True])
               (simp add: plan Plan_fresh_applied [OF True])
        next
          case False
          from Plan_fresh_refused [OF this, of fp] plan show ?thesis by (metis refused)
        qed
      qed
    qed
  qed
qed

lemma best_worker_min:
  assumes "PlacementRequest_Validate request = None" and "\<exists>w \<in> set ws. placeable request w"
  shows "best_worker request ws \<in> set ws \<and> placeable request (best_worker request ws) \<and>
    (\<forall>w \<in> set ws. placeable request w \<longrightarrow>
       placement_key request (best_worker request ws) \<le> placement_key request w)"
proof -
  let ?es = "map (eligible_entry request) (filter (placeable request) ws)"
  have ok: "\<forall>e \<in> set ?es. eligible_ok e"
    using eligible_entries_ok [OF assms(1)] by auto
  obtain e es where sorted: "sort_by compareEligible ?es = e # es"
    using assms(2) by (cases "sort_by compareEligible ?es") (auto simp: filter_empty_conv)
  then have "e \<in> set ?es" by (metis list.set_intros(1) set_sort_by)
  then obtain b where b: "b \<in> set ws" "placeable request b" "e = eligible_entry request b" by auto
  then have best: "best_worker request ws = b" by (simp add: best_worker_def sorted)
  have "placement_key request b \<le> placement_key request w" if "w \<in> set ws" "placeable request w" for w
  proof -
    have "compareEligible e (eligible_entry request w) \<le> 0"
      using that by (intro eligible_order.sort_by_head_least [OF ok sorted]) auto
    then show ?thesis
      using b that eligible_entries_ok [OF assms(1)] by (simp add: compareEligible_key)
  qed
  with b best show ?thesis by auto
qed

subsection \<open>Behaviours of a planner\<close>

datatype PlannerEvent =
    PlInstallBarrier LeaderBarrier
  | PlInvalidateBarrier
  | PlPlan PlacementRequest "WorkerSnapshot list"
  | PlAcknowledge string

fun planner_exec :: "canonicalizer \<Rightarrow> PlannerEvent \<Rightarrow> Planner \<Rightarrow> Planner" where
  "planner_exec jcs (PlInstallBarrier b) p = snd (InstallBarrier b p)"
| "planner_exec jcs PlInvalidateBarrier p = InvalidateBarrier p"
| "planner_exec jcs (PlPlan request ws) p = snd (Plan jcs request ws p)"
| "planner_exec jcs (PlAcknowledge c) p = snd (Acknowledge c p)"

definition planner_initial :: "Planner \<Rightarrow> bool" where
  "planner_initial p \<longleftrightarrow> (\<exists>maxDecisions. NewPlanner maxDecisions = Inr p)"

text \<open>
  The two maps are inverse to each other, and every retained record is a decision that was
  applied under a committed barrier and is fit to be persisted.
\<close>

definition decision_ok :: "Planner \<Rightarrow> string \<Rightarrow> decisionRecord \<Rightarrow> bool" where
  "decision_ok p c r \<longleftrightarrow>
     as_CommandID (pd_Assignment (dr_decision r)) = c \<and>
     fmlookup (pl_assignments p) (as_AssignmentID (pd_Assignment (dr_decision r))) = Some c \<and>
     Assignment_Validate (pd_Assignment (dr_decision r)) = None \<and>
     pd_Status (dr_decision r) = StatusApplied \<and> lb_Ready (pd_Barrier (dr_decision r)) \<and>
     lb_Term (pd_Barrier (dr_decision r)) \<le> lb_Term (pl_barrier p)"

definition planner_inv :: "Planner \<Rightarrow> bool" where
  "planner_inv p \<longleftrightarrow>
     (\<forall>c r. fmlookup (pl_decisions p) c = Some r \<longrightarrow> decision_ok p c r) \<and>
     (\<forall>a c. fmlookup (pl_assignments p) a = Some c \<longrightarrow>
        (\<exists>r. fmlookup (pl_decisions p) c = Some r \<and>
             as_AssignmentID (pd_Assignment (dr_decision r)) = a)) \<and>
     int (map_len (pl_decisions p)) \<le> pl_maxDecisions p \<and> pl_maxDecisions p \<le> HardMaxDecisions"

definition planner_later :: "Planner \<Rightarrow> Planner \<Rightarrow> bool" where
  "planner_later p p' \<longleftrightarrow> lb_Term (pl_barrier p) \<le> lb_Term (pl_barrier p') \<and>
     (lb_Term (pl_barrier p) \<noteq> 0 \<longrightarrow> lb_AppliedIndex (pl_barrier p) \<le> lb_AppliedIndex (pl_barrier p'))"

lemma planner_invD:
  assumes "planner_inv p"
  shows planner_decision: "fmlookup (pl_decisions p) c = Some r \<Longrightarrow> decision_ok p c r"
    and planner_assignment: "fmlookup (pl_assignments p) a = Some c \<Longrightarrow>
      \<exists>r. fmlookup (pl_decisions p) c = Some r \<and> as_AssignmentID (pd_Assignment (dr_decision r)) = a"
    and planner_capacity: "int (map_len (pl_decisions p)) \<le> pl_maxDecisions p"
      "pl_maxDecisions p \<le> HardMaxDecisions"
  using assms unfolding planner_inv_def by blast+

lemma planner_inv_initial: "planner_initial p \<Longrightarrow> planner_inv p"
  by (auto simp: planner_initial_def NewPlanner_def planner_inv_def Let_def split: if_splits)

lemma InstallBarrier_cases:
  obtains (refused) "snd (InstallBarrier b p) = p" "fst (InstallBarrier b p) \<noteq> Inr ()"
  | (installed) "InstallBarrier b p = (Inr (), p\<lparr>pl_barrier := b\<rparr>)" "lb_Ready b"
      "lb_Term (pl_barrier p) \<le> lb_Term b"
      "lb_Term (pl_barrier p) \<noteq> 0 \<Longrightarrow> lb_AppliedIndex (pl_barrier p) \<le> lb_AppliedIndex b"
proof (cases "first_error
      [fail_if (lb_Term b = 0 \<or> lb_AppliedIndex b = 0)
         (Invalid ''leader_barrier'' ''term and applied index must be greater than zero''),
       fail_if (\<not> lb_Ready b) (classified CodeNoQuorum ''leader barrier is not committed''),
       fail_if (lb_Term (pl_barrier p) \<noteq> 0 \<and>
                (lb_Term b < lb_Term (pl_barrier p) \<or> lb_AppliedIndex b < lb_AppliedIndex (pl_barrier p)))
         (classified CodeStaleGeneration ''leader barrier moved backwards'')]")
  case None
  then show ?thesis
    by (intro installed) (auto simp: InstallBarrier_def checks not_less fail_if_def split: if_splits)
next
  case (Some e)
  then show ?thesis by (intro refused) (simp_all only: InstallBarrier_def check_simps fst_conv snd_conv, simp)
qed

lemma new_assignment_valid:
  assumes "PlacementRequest_Validate request = None" and "WorkerSession_validate s = None"
  shows "Assignment_Validate (new_assignment request s) = None"
  using assms
  by (simp add: PlacementRequest_Validate_def Assignment_Validate_def new_assignment_def
      AssignmentIdentity_validate_def checks bad_profile_iff not_less)

lemma applied_decision_ok:
  assumes "PlacementRequest_Validate request = None" and "can_place request ws p"
    and "pl_barrier p' = pl_barrier p"
    and "fmlookup (pl_assignments p') (pr_AssignmentID request) = Some (pr_CommandID request)"
  shows "decision_ok p' (pr_CommandID request)
    \<lparr>dr_fingerprint = fp, dr_decision = applied_decision request ws (pl_barrier p)\<rparr>"
proof -
  have "placeable request (best_worker request ws)"
    using best_worker_min [OF assms(1)] assms(2) by (auto simp: can_place_def)
  then have "WorkerSession_validate (wk_Session (best_worker request ws)) = None"
    by (simp add: placeable_def WorkerSnapshot_validate_def checks)
  from new_assignment_valid [OF assms(1) this] show ?thesis
    using assms(2-4)
    by (simp add: decision_ok_def applied_decision_def can_place_def) (simp add: new_assignment_def)
qed

lemma planner_inv_Plan: "planner_inv p \<Longrightarrow> planner_inv (snd (Plan jcs request ws p))"
proof (cases rule: Plan_cases [of jcs request ws p])
  case (applied fp)
  assume inv: "planner_inv p"
  let ?p = "snd (Plan jcs request ws p)"
  have "decision_ok ?p c r" if r: "fmlookup (pl_decisions ?p) c = Some r" for c r
  proof (cases "c = pr_CommandID request")
    case True
    then show ?thesis
      using r applied(1) applied_decision_ok [OF applied(2,6), of ?p fp]
      by (simp add: record_decision_def)
  next
    case False
    then have "decision_ok p c r"
      using r applied(1) by (intro planner_decision [OF inv]) (simp add: record_decision_def)
    with applied(1,5) show ?thesis by (auto simp: decision_ok_def record_decision_def)
  qed
  moreover have "\<exists>r. fmlookup (pl_decisions ?p) c = Some r \<and> as_AssignmentID (pd_Assignment (dr_decision r)) = a"
    if a: "fmlookup (pl_assignments ?p) a = Some c" for a c
  proof (cases "a = pr_AssignmentID request")
    case True
    then show ?thesis
      using a applied(1) by (simp add: record_decision_def applied_decision_def new_assignment_def)
  next
    case False
    then obtain r where "fmlookup (pl_decisions p) c = Some r"
      "as_AssignmentID (pd_Assignment (dr_decision r)) = a"
      using a applied(1) planner_assignment [OF inv, of a c] by (auto simp: record_decision_def)
    moreover from this applied(4) have "c \<noteq> pr_CommandID request" by auto
    ultimately show ?thesis using applied(1) by (simp add: record_decision_def)
  qed
  moreover have "int (map_len (pl_decisions ?p)) \<le> pl_maxDecisions ?p" "pl_maxDecisions ?p \<le> HardMaxDecisions"
    using applied(1,4,6) planner_capacity [OF inv] by (simp_all add: record_decision_def can_place_def)
  ultimately show ?thesis unfolding planner_inv_def by blast
qed simp_all

lemma planner_inv_barrier:
  "planner_inv p \<Longrightarrow> lb_Term (pl_barrier p) \<le> lb_Term b \<Longrightarrow> planner_inv (p\<lparr>pl_barrier := b\<rparr>)"
  by (auto simp: planner_inv_def decision_ok_def intro: order_trans)

text \<open>In a reachable state an acknowledged record always takes its assignment entry along.\<close>

lemma Acknowledge_state:
  assumes "planner_inv p"
  shows "snd (Acknowledge c p) =
    (case fmlookup (pl_decisions p) c of
       Some r \<Rightarrow> if identifierPattern c
         then p\<lparr>pl_decisions := fmdrop c (pl_decisions p),
                pl_assignments := fmdrop (as_AssignmentID (pd_Assignment (dr_decision r))) (pl_assignments p)\<rparr>
         else p
     | None \<Rightarrow> p)"
proof (cases "fmlookup (pl_decisions p) c")
  case (Some r)
  have "fmlookup (pl_assignments p) (as_AssignmentID (pd_Assignment (dr_decision r))) = Some c"
    using planner_decision [OF assms Some] by (simp add: decision_ok_def)
  with Some show ?thesis by (simp add: Acknowledge_def check_def fail_if_def map_get_def Let_def)
qed (simp add: Acknowledge_def check_def fail_if_def)

lemma planner_inv_Acknowledge: "planner_inv p \<Longrightarrow> planner_inv (snd (Acknowledge c p))"
proof (cases "fmlookup (pl_decisions p) c")
  case (Some r)
  assume inv: "planner_inv p"
  show ?thesis
  proof (cases "identifierPattern c")
    case True
    let ?a = "as_AssignmentID (pd_Assignment (dr_decision r))"
    let ?p = "p\<lparr>pl_decisions := fmdrop c (pl_decisions p), pl_assignments := fmdrop ?a (pl_assignments p)\<rparr>"
    have own: "fmlookup (pl_assignments p) ?a = Some c"
      using planner_decision [OF inv Some] by (simp add: decision_ok_def)
    have "decision_ok ?p c' r'" if "fmlookup (pl_decisions p) c' = Some r'" "c' \<noteq> c" for c' r'
      using planner_decision [OF inv that(1)] own that(2) by (auto simp: decision_ok_def)
    moreover have "\<exists>r'. fmlookup (pl_decisions p) c' = Some r' \<and> c' \<noteq> c \<and>
        as_AssignmentID (pd_Assignment (dr_decision r')) = a"
      if "fmlookup (pl_assignments p) a = Some c'" "a \<noteq> ?a" for a c'
      using planner_assignment [OF inv that(1)] that(2) Some by auto
    moreover have "int (map_len (pl_decisions ?p)) \<le> pl_maxDecisions ?p"
      using planner_capacity(1) [OF inv] map_len_drop_le [of c "pl_decisions p"] by simp
    ultimately have "planner_inv ?p"
      unfolding planner_inv_def using planner_capacity(2) [OF inv] by (auto split: if_splits) blast
    then show ?thesis using Some True by (simp add: Acknowledge_state [OF inv])
  qed (use inv Some in \<open>simp add: Acknowledge_state [OF inv]\<close>)
qed (simp add: Acknowledge_state)

lemma planner_inv_exec: "planner_inv p \<Longrightarrow> planner_inv (planner_exec jcs e p)"
proof (cases e)
  case (PlInstallBarrier b)
  assume "planner_inv p"
  then show ?thesis
    by (cases rule: InstallBarrier_cases [of b p]) (simp_all add: PlInstallBarrier planner_inv_barrier)
qed (simp_all add: planner_inv_Plan planner_inv_Acknowledge InvalidateBarrier_def planner_inv_barrier)

lemma planner_later_exec: "planner_later p (planner_exec jcs e p)"
proof (cases e)
  case (PlInstallBarrier b)
  show ?thesis
    by (cases rule: InstallBarrier_cases [of b p]) (simp_all add: PlInstallBarrier planner_later_def)
next
  case (PlPlan request ws)
  show ?thesis
    by (cases rule: Plan_cases [of jcs request ws p])
       (simp_all add: PlPlan planner_later_def record_decision_def)
qed (simp_all add: planner_later_def InvalidateBarrier_def Acknowledge_def check_def fail_if_def Let_def
      split: option.split)

interpretation planner: evolving planner_initial "planner_exec jcs" planner_inv planner_later for jcs
  by unfold_locales
     (auto simp: planner_inv_initial planner_inv_exec planner_later_exec, auto simp: planner_later_def)

text \<open>A retained record stays until its own command is acknowledged.\<close>

lemma record_survives:
  assumes "fmlookup (pl_decisions p) c = Some r" and "PlAcknowledge c \<notin> set es"
  shows "fmlookup (pl_decisions (run (planner_exec jcs) es p)) c = Some r"
  using assms
proof (induction es arbitrary: p)
  case (Cons e es)
  have "fmlookup (pl_decisions (planner_exec jcs e p)) c = Some r"
  proof (cases e)
    case (PlInstallBarrier b)
    show ?thesis
      by (cases rule: InstallBarrier_cases [of b p]) (use Cons.prems(1) PlInstallBarrier in simp_all)
  next
    case (PlPlan request ws)
    show ?thesis
      by (cases rule: Plan_cases [of jcs request ws p])
         (use Cons.prems(1) PlPlan in \<open>auto simp: record_decision_def\<close>)
  next
    case (PlAcknowledge c')
    then show ?thesis using Cons.prems
      by (auto simp: Acknowledge_def check_def fail_if_def Let_def split: option.splits)
  qed (use Cons.prems(1) in \<open>simp add: InvalidateBarrier_def\<close>)
  with Cons show ?case by simp
qed simp

text \<open>The list of workers matters as a multiset only.\<close>

lemma best_worker_perm:
  assumes "PlacementRequest_Validate request = None" and "mset ws' = mset ws"
    and "distinct (map worker_id ws)"
  shows "best_worker request ws' = best_worker request ws"
proof -
  let ?es = "\<lambda>ws. map (eligible_entry request) (filter (placeable request) ws)"
  have "sort_by compareEligible (?es ws') = sort_by compareEligible (?es ws)"
  proof (rule eligible_order.sort_by_perm)
    show "mset (?es ws') = mset (?es ws)" using assms(2) by simp
    show "\<forall>x \<in> set (?es ws). eligible_ok x" using eligible_entries_ok [OF assms(1)] by auto
    show "\<forall>x \<in> set (?es ws). \<forall>y \<in> set (?es ws). compareEligible x y = 0 \<longrightarrow> x = y"
      using eligible_entries_ok [OF assms(1)] assms(3)
      by (auto simp: compareEligible_key placement_key_def distinct_map inj_on_def)
  qed
  then show ?thesis by (simp add: best_worker_def)
qed

lemma candidates_perm:
  assumes "mset ws' = mset ws" and "distinct (map worker_id ws)"
  shows "sort_by compareCandidates (map (\<lambda>w. fst (evaluate_worker request w)) ws') =
    sort_by compareCandidates (map (\<lambda>w. fst (evaluate_worker request w)) ws)"
  by (rule candidate_order.sort_by_key_perm)
     (use assms in \<open>auto simp: evaluate_worker_candidate distinct_map inj_on_def\<close>)

lemma Plan_fresh_perm:
  assumes "mset ws' = mset ws" and "PlacementRequest_Validate request = None"
  shows "Plan_fresh request fp ws' p = Plan_fresh request fp ws p"
proof -
  have len: "length ws' = length ws" and sets: "set ws' = set ws"
    using assms(1) by (metis size_mset, metis set_mset_mset)
  have "mset (map worker_id ws') = mset (map worker_id ws)" using assms(1) by simp
  then have dist: "distinct (map worker_id ws') \<longleftrightarrow> distinct (map worker_id ws)"
    by (rule mset_eq_imp_distinct_iff)
  have valid: "validateWorkerSet ws' = validateWorkerSet ws"
    by (simp add: validateWorkerSet_def validateWorkerSet_loop_eq len dist)
  show ?thesis
  proof (cases "validateWorkerSet ws")
    case (Some e)
    then show ?thesis using valid by (simp add: Plan_fresh_def fail_if_def)
  next
    case None
    then have "distinct (map worker_id ws)" by (simp add: checks)
    note perm = best_worker_perm [OF assms(2,1) this] candidates_perm [OF assms(1) this, of request]
    have "filter (placeable request) ws' = [] \<longleftrightarrow> filter (placeable request) ws = []"
      by (simp add: filter_empty_conv sets)
    with None valid perm show ?thesis
      by (simp add: Plan_fresh_def evaluateCandidates_valid fail_if_def Let_def
          flip: best_worker_def)
  qed
qed

subsection \<open>Properties\<close>

text \<open>
  C4: The planner makes the best choice. A newly applied decision assigns a worker of the
  list that meets every hard constraint, and among all such workers it is least in the
  documented order: cache match first, then spread, then the exact load and memory ratios,
  then the identity.
\<close>

theorem plan_best_worker:
  assumes "Plan jcs request ws p = ((d, None), p')" and "pd_Status d = StatusApplied"
    and "planner_inv p"
  shows "\<exists>w \<in> set ws. as_Worker (pd_Assignment d) = wk_Session w \<and> placeable request w \<and>
    (\<forall>w' \<in> set ws. placeable request w' \<longrightarrow> placement_key request w \<le> placement_key request w')"
proof (cases rule: Plan_cases [of jcs request ws p])
  case (applied fp)
  have d: "d = applied_decision request ws (pl_barrier p)" using applied(1) assms(1) by simp
  from best_worker_min [OF applied(2)] applied(6) show ?thesis
    by (auto simp: d applied_decision_def new_assignment_def can_place_def)
qed (use assms in auto)

text \<open>
  C31: The planner is complete. In any state, a request is decided anew exactly if it is valid and
  its fingerprint can be computed, neither its command nor its assignment is known, the leader
  barrier is committed, a decision is free, and the worker list is well formed and has a worker that
  meets all constraints. No other reason keeps a worker from being assigned.
\<close>

theorem plan_applies_iff:
  "(\<exists>d p'. Plan jcs request ws p = ((d, None), p') \<and> pd_Status d = StatusApplied) \<longleftrightarrow>
    PlacementRequest_Validate request = None \<and> (\<exists>fp. requestFingerprint jcs request = Inr fp)
    \<and> fmlookup (pl_decisions p) (pr_CommandID request) = None
    \<and> fmlookup (pl_assignments p) (pr_AssignmentID request) = None
    \<and> lb_Ready (pl_barrier p) \<and> int (DecisionCount p) < pl_maxDecisions p
    \<and> length ws \<le> MaxWorkers \<and> distinct (map worker_id ws) \<and> (\<exists>w \<in> set ws. placeable request w)"
  (is "?applied \<longleftrightarrow> ?valid \<and> ?fp \<and> ?command \<and> ?assignment \<and> ?room")
proof -
  have room: "can_place request ws p \<longleftrightarrow> ?room"
    by (auto simp: can_place_def checks DecisionCount_def)
  show ?thesis
  proof
    assume ?applied
    then show "?valid \<and> ?fp \<and> ?command \<and> ?assignment \<and> ?room"
      by (cases rule: Plan_cases [of jcs request ws p]) (auto simp: room [symmetric])
  next
    assume ok: "?valid \<and> ?fp \<and> ?command \<and> ?assignment \<and> ?room"
    then obtain fp where "requestFingerprint jcs request = Inr fp" by blast
    with ok have "Plan jcs request ws p = Plan_fresh request fp ws p" by (simp add: Plan_def)
    then show ?applied
      using Plan_fresh_applied [of request ws p fp] ok room by (simp add: applied_decision_def)
  qed
qed

text \<open>
  C38: Placement does not depend on the order in which the workers are observed: permuting
  the list changes neither the result, with all its explanations, nor the planner.
\<close>

theorem plan_order_independent:
  assumes "mset ws' = mset ws"
  shows "Plan jcs request ws' p = Plan jcs request ws p"
  using Plan_fresh_perm [OF assms]
  by (cases "PlacementRequest_Validate request") (simp_all add: Plan_def split: option.split sum.split)

text \<open>
  C39: Planning is idempotent. Once a decision is applied, repeating the request, whatever
  workers it then names, returns the same assignment, barrier and explanations and changes
  nothing, after any operations that do not acknowledge its command and also after the
  barrier is withdrawn; an unused command for the same assignment is told of the same
  decision.
\<close>

theorem plan_idempotent:
  assumes "reachable planner_initial (planner_exec jcs) p"
    and "Plan jcs request ws p = ((d, None), p1)" and "pd_Status d = StatusApplied"
    and "PlAcknowledge (pr_CommandID request) \<notin> set es" and "p2 = run (planner_exec jcs) es p1"
  shows "Plan jcs request ws' p2 = ((d\<lparr>pd_Status := StatusDuplicate\<rparr>, None), p2) \<and>
    (\<forall>c. identifierPattern c \<and> fmlookup (pl_decisions p2) c = None \<longrightarrow>
       Plan jcs (request\<lparr>pr_CommandID := c\<rparr>) ws' p2
         = ((d\<lparr>pd_Status := StatusAlreadySatisfied\<rparr>, None), p2))"
proof -
  have inv: "planner_inv p" by (rule planner.inv_reachable [OF assms(1)])
  have inv2: "planner_inv p2"
    using planner.inv_run [OF planner_inv_Plan [OF inv, of jcs request ws]] assms(2,5) by simp
  obtain fp where valid: "PlacementRequest_Validate request = None"
    and fp: "requestFingerprint jcs request = Inr fp"
    and d: "d = applied_decision request ws (pl_barrier p)"
    and stored: "fmlookup (pl_decisions p1) (pr_CommandID request)
      = Some \<lparr>dr_fingerprint = fp, dr_decision = d\<rparr>"
    by (cases rule: Plan_cases [of jcs request ws p])
       (use assms(2,3) planner_decision [OF inv] in \<open>auto simp: record_decision_def\<close>)
  have stored2: "fmlookup (pl_decisions p2) (pr_CommandID request)
      = Some \<lparr>dr_fingerprint = fp, dr_decision = d\<rparr>"
    unfolding assms(5) by (rule record_survives [OF stored assms(4)])
  have named: "fmlookup (pl_assignments p2) (pr_AssignmentID request) = Some (pr_CommandID request)"
    using planner_decision [OF inv2 stored2]
    by (simp add: decision_ok_def d applied_decision_def new_assignment_def)
  have "Plan jcs request ws' p2 = ((d\<lparr>pd_Status := StatusDuplicate\<rparr>, None), p2)"
    by (simp add: Plan_def valid fp stored2)
  moreover have "Plan jcs (request\<lparr>pr_CommandID := c\<rparr>) ws' p2
      = ((d\<lparr>pd_Status := StatusAlreadySatisfied\<rparr>, None), p2)"
    if c: "identifierPattern c" "fmlookup (pl_decisions p2) c = None" for c
  proof -
    have "PlacementRequest_Validate (request\<lparr>pr_CommandID := c\<rparr>) = None"
      by (rule request_other_command [OF valid c(1)])
    moreover have "requestFingerprint jcs (request\<lparr>pr_CommandID := c\<rparr>) = Inr fp"
      using fp by (simp add: requestFingerprint_def)
    ultimately show ?thesis using c(2) named stored2 by (simp add: Plan_def map_get_def Let_def)
  qed
  ultimately show ?thesis by blast
qed

text \<open>
  In every reachable state of a planner the retained decisions and the assignment index
  are inverse to each other, so the lookup behind a known assignment never fails; the number
  of records is bounded; and every record holds an assignment that passes validation and was
  decided under a committed barrier whose term the current one has not gone below.
\<close>

theorem planner_records_consistent:
  assumes "reachable planner_initial (planner_exec jcs) p"
  shows "int (DecisionCount p) \<le> HardMaxDecisions \<and>
    (\<forall>a c. fmlookup (pl_assignments p) a = Some c \<longleftrightarrow>
       (\<exists>r. fmlookup (pl_decisions p) c = Some r \<and> as_AssignmentID (pd_Assignment (dr_decision r)) = a)) \<and>
    (\<forall>c r. fmlookup (pl_decisions p) c = Some r \<longrightarrow>
       as_CommandID (pd_Assignment (dr_decision r)) = c \<and>
       Assignment_Validate (pd_Assignment (dr_decision r)) = None \<and>
       lb_Ready (pd_Barrier (dr_decision r)) \<and>
       lb_Term (pd_Barrier (dr_decision r)) \<le> lb_Term (pl_barrier p))"
proof -
  have inv: "planner_inv p" by (rule planner.inv_reachable [OF assms])
  have "fmlookup (pl_assignments p) a = Some c \<longleftrightarrow>
      (\<exists>r. fmlookup (pl_decisions p) c = Some r \<and> as_AssignmentID (pd_Assignment (dr_decision r)) = a)" for a c
    using planner_assignment [OF inv, of a c] planner_decision [OF inv, of c]
    by (auto simp: decision_ok_def)
  moreover have "int (DecisionCount p) \<le> HardMaxDecisions"
    using planner_capacity [OF inv] by (simp add: DecisionCount_def)
  ultimately show ?thesis
    using planner_decision [OF inv] by (auto simp: decision_ok_def)
qed

subsection \<open>A sample placement\<close>

definition no_cache_key :: CacheKey where
  "no_cache_key =
    \<lparr>ck_ArtifactDigest = [], ck_ArtifactSize = 0, ck_RuntimeName = [], ck_RuntimeVersion = [],
     ck_ABI = [], ck_HostAPIProfile = [], ck_RuntimeFeatureProfile = [], ck_Engine = [],
     ck_MemoryLimitMiB = 0, ck_GOOS = [], ck_GOARCH = []\<rparr>"

definition sample_request :: PlacementRequest where
  "sample_request =
    \<lparr>pr_CommandID = ''cmd-1'', pr_AssignmentID = ''a-1'', pr_VersionID = ''v-1'',
     pr_ArtifactDigest = sample_digest, pr_ArtifactSize = 1024, pr_ABI = ABIWASICommandV1,
     pr_HostAPI = HostAPIProfileNone, pr_FeatureProfile = FeatureProfile,
     pr_RuntimeName = RuntimeName, pr_RuntimeVersion = RuntimeVersion,
     pr_RuntimeEngine = EngineCompiler, pr_GOOS = ''linux'', pr_GOARCH = ''amd64'',
     pr_MemoryMiB = 128, pr_RequiredSlots = 1, pr_AdmissionEpoch = 1, pr_DeploymentGeneration = 1,
     pr_PolicyDigest = sample_digest, pr_CompiledCacheKey = no_cache_key,
     pr_RequiredLabels = Some (fmap_of_list [(''zone'', ''a'')]), pr_ExistingWorkerIDs = None\<rparr>"

definition sample_worker :: "string \<Rightarrow> u64 \<Rightarrow> WorkerSnapshot" where
  "sample_worker name allocated =
    \<lparr>wk_Session = \<lparr>ws_WorkerID = name, ws_BootID = ''boot'', ws_SessionEpoch = 1\<rparr>,
     wk_Runtime = \<lparr>rp_Name = RuntimeName, rp_Version = RuntimeVersion, rp_Engine = EngineCompiler,
       rp_GOOS = ''linux'', rp_GOARCH = ''amd64'', rp_ABI = ABIWASICommandV1,
       rp_HostAPI = HostAPIProfileNone, rp_FeatureProfile = FeatureProfile, rp_MemoryMiB = 128\<rparr>,
     wk_Intent = IntentSchedulable, wk_State = SessionReady, wk_Drain = DrainNotDraining,
     wk_Capacity = \<lparr>cy_MemoryMiB = 1024, cy_AllocatedMemoryMiB = 0, cy_Slots = 8, cy_AllocatedSlots = allocated\<rparr>,
     wk_Labels = fmap_of_list [(''zone'', ''a'')],
     wk_Cache = \<lparr>ch_Artifacts = {||}, ch_Compiled = {||}\<rparr>\<rparr>"

definition sample_workers :: "WorkerSnapshot list" where
  "sample_workers = [sample_worker ''w-1'' 3, sample_worker ''w-2'' 1, sample_worker ''w-3'' 8]"

definition sample_planner :: Planner where
  "sample_planner = (case NewPlanner 10 of Inr p \<Rightarrow>
     snd (InstallBarrier \<lparr>lb_Term = 1, lb_AppliedIndex = 1, lb_Ready = True\<rparr> p))"

lemma sample_request_valid: "PlacementRequest_Validate sample_request = None"
  by code_simp

lemma sample_workers_placeable:
  "placeable sample_request (sample_worker ''w-2'' 1)" "\<not> placeable sample_request (sample_worker ''w-3'' 8)"
  unfolding placeable_iff by code_simp+

lemma sample_planner_reachable: "reachable planner_initial (planner_exec jcs) sample_planner"
proof -
  obtain p where p: "NewPlanner 10 = Inr p" by (simp add: NewPlanner_def HardMaxDecisions_def)
  have "sample_planner = planner_exec jcs (PlInstallBarrier \<lparr>lb_Term = 1, lb_AppliedIndex = 1, lb_Ready = True\<rparr>) p"
    by (simp add: sample_planner_def p)
  moreover have "planner_initial p" using p by (auto simp: planner_initial_def)
  ultimately show ?thesis by (metis reachable_exec reachable_initial)
qed

lemma sample_planner_state:
  "pl_decisions sample_planner = fmempty" "pl_assignments sample_planner = fmempty"
  "lb_Ready (pl_barrier sample_planner)" "pl_maxDecisions sample_planner = 10"
  by (simp_all add: sample_planner_def NewPlanner_def InstallBarrier_def HardMaxDecisions_def
      zero_barrier_def)

lemma sample_can_place: "can_place sample_request sample_workers sample_planner"
  using sample_workers_placeable(1)
  by (simp add: can_place_def sample_planner_state checks sample_workers_def)
     (simp add: sample_worker_def)

lemma sample_fingerprint: "\<exists>fp. requestFingerprint Inr sample_request = Inr fp"
  by (simp add: requestFingerprint_def CanonicalJSON_def)

lemma sample_plan:
  "\<exists>d p1. Plan Inr sample_request sample_workers sample_planner = ((d, None), p1) \<and>
     pd_Status d = StatusApplied"
  using sample_fingerprint sample_can_place
  by (auto simp: Plan_def sample_request_valid sample_planner_state Plan_fresh_applied applied_decision_def)

theorem plan_best_worker_witness:
  "\<exists>d p1 w. Plan Inr sample_request sample_workers sample_planner = ((d, None), p1) \<and>
     as_Worker (pd_Assignment d) = wk_Session w \<and> placeable sample_request w"
proof -
  obtain d p1 where plan: "Plan Inr sample_request sample_workers sample_planner = ((d, None), p1)"
    "pd_Status d = StatusApplied" using sample_plan by blast
  from plan_best_worker [OF this planner.inv_reachable [OF sample_planner_reachable]] plan(1)
  show ?thesis by blast
qed

theorem plan_applies_iff_witness:
  "(\<exists>d p'. Plan Inr sample_request sample_workers sample_planner = ((d, None), p') \<and> pd_Status d = StatusApplied)
   \<and> \<not> (\<exists>d p'. Plan Inr sample_request [] sample_planner = ((d, None), p') \<and> pd_Status d = StatusApplied)"
  using plan_applies_iff [of Inr sample_request sample_workers sample_planner]
    plan_applies_iff [of Inr sample_request "[]" sample_planner] sample_request_valid sample_fingerprint sample_can_place
  by (simp add: sample_planner_state DecisionCount_def can_place_def checks)

theorem plan_order_independent_witness:
  "Plan Inr sample_request (rev sample_workers) sample_planner =
   Plan Inr sample_request sample_workers sample_planner"
  by (rule plan_order_independent) simp

theorem plan_idempotent_witness:
  "\<exists>d p1. Plan Inr sample_request sample_workers sample_planner = ((d, None), p1) \<and>
     Plan Inr sample_request [] (run (planner_exec Inr) [PlInvalidateBarrier] p1) =
       ((d\<lparr>pd_Status := StatusDuplicate\<rparr>, None), run (planner_exec Inr) [PlInvalidateBarrier] p1)"
proof -
  obtain d p1 where plan: "Plan Inr sample_request sample_workers sample_planner = ((d, None), p1)"
    "pd_Status d = StatusApplied" using sample_plan by blast
  from plan_idempotent [OF sample_planner_reachable plan, of "[PlInvalidateBarrier]"] plan(1)
  show ?thesis by auto
qed

theorem planner_records_consistent_witness:
  "let p = planner_exec Inr (PlPlan sample_request sample_workers) sample_planner
   in DecisionCount p = 1 \<and>
      (\<forall>c r. fmlookup (pl_decisions p) c = Some r \<longrightarrow>
         Assignment_Validate (pd_Assignment (dr_decision r)) = None)"
proof -
  let ?p = "planner_exec Inr (PlPlan sample_request sample_workers) sample_planner"
  have "DecisionCount ?p = 1"
    using sample_fingerprint sample_can_place
    by (auto simp: Plan_def sample_request_valid sample_planner_state Plan_fresh_applied
        record_decision_def DecisionCount_def)
  moreover have "reachable planner_initial (planner_exec Inr) ?p"
    by (rule reachable_exec) (rule sample_planner_reachable)
  ultimately show ?thesis using planner_records_consistent [of Inr ?p] by (simp add: Let_def)
qed

end
