(* ===== verification/WorkerRegistry.thy ===== *)
theory WorkerRegistry
  imports Planner
begin

text \<open>
  Package \<^verbatim>\<open>internal/workerregistry\<close>: worker sessions, inventories, heartbeats and drain state.
  The clock is read in \<open>elapsedLocked\<close> only; an operation that calls it takes the reading as
  an argument. A record is a value of the map, so the mutation through its pointer is an
  update of the map.
\<close>

subsection \<open>Data (types.go, registry.go)\<close>

definition DefaultHeartbeatInterval :: duration where "DefaultHeartbeatInterval = 2 * second"
definition DefaultSuspectAfter :: duration where "DefaultSuspectAfter = 6 * second"
definition DefaultUnavailableAfter :: duration where "DefaultUnavailableAfter = 10 * second"
definition HardHeartbeatInterval :: duration where "HardHeartbeatInterval = 30 * second"
definition HardSuspectAfter :: duration where "HardSuspectAfter = 10 * minute"
definition HardUnavailableAfter :: duration where "HardUnavailableAfter = 10 * minute"
definition DefaultMaxWorkers :: int where "DefaultMaxWorkers = 1000"
definition HardMaxWorkers :: int where "HardMaxWorkers = 1000"

record RegistryConfig =
  rc_HeartbeatInterval :: duration
  rc_SuspectAfter :: duration
  rc_UnavailableAfter :: duration
  rc_MaxWorkers :: int

record Inventory =
  inv_Revision :: u64
  inv_Session :: WorkerSession
  inv_Runtime :: RuntimeProfile
  inv_Capacity :: Capacity
  inv_Labels :: "(string, string) fmap"
  inv_Cache :: CacheHints

record DrainObservation =
  do_Session :: WorkerSession
  do_ActiveInvocations :: u64
  do_AssignmentsDrained :: bool
  do_GatewayFencesAcked :: bool
  do_AuthorizationExpired :: bool

record WorkerView =
  wv_Snapshot :: WorkerSnapshot
  wv_MaxSessionEpoch :: u64
  wv_LastHeartbeat :: duration
  wv_Registered :: bool

record RegistrySnapshot =
  rs_Revision :: u64
  rs_ClockHealthy :: bool
  rs_Workers :: "WorkerView list"

record workerRecord =
  wr_workerID :: string
  wr_bootID :: string
  wr_maxSessionEpoch :: u64
  wr_current :: WorkerSession
  wr_registered :: bool
  wr_needsNewSession :: bool
  wr_intent :: SchedulingIntent
  wr_drain :: DrainState
  wr_state :: SessionState
  wr_runtime :: RuntimeProfile
  wr_capacity :: Capacity
  wr_labels :: "(string, string) fmap"
  wr_cache :: CacheHints
  wr_hasInventory :: bool
  wr_inventoryRevision :: u64
  wr_lastHeartbeat :: duration

record Registry =
  reg_heartbeatInterval :: duration
  reg_suspectAfter :: duration
  reg_unavailableAfter :: duration
  reg_maxWorkers :: int
  reg_workers :: "(string, workerRecord) fmap"
  reg_revision :: u64
  reg_lastElapsed :: duration
  reg_clockHealthy :: bool

definition zero_runtime :: RuntimeProfile where
  "zero_runtime = \<lparr>rp_Name = [], rp_Version = [], rp_Engine = [], rp_GOOS = [], rp_GOARCH = [],
     rp_ABI = [], rp_HostAPI = [], rp_FeatureProfile = [], rp_MemoryMiB = 0\<rparr>"

definition zero_capacity :: Capacity where
  "zero_capacity =
    \<lparr>cy_MemoryMiB = 0, cy_AllocatedMemoryMiB = 0, cy_Slots = 0, cy_AllocatedSlots = 0\<rparr>"

definition zero_hints :: CacheHints where
  "zero_hints = \<lparr>ch_Artifacts = {||}, ch_Compiled = {||}\<rparr>"

definition new_worker_record :: "string \<Rightarrow> workerRecord" where
  "new_worker_record workerID =
    \<lparr>wr_workerID = workerID, wr_bootID = [], wr_maxSessionEpoch = 0, wr_current = zero_session,
     wr_registered = False, wr_needsNewSession = False, wr_intent = IntentSchedulable,
     wr_drain = DrainNotDraining, wr_state = SessionJoining, wr_runtime = zero_runtime,
     wr_capacity = zero_capacity, wr_labels = fmempty, wr_cache = zero_hints,
     wr_hasInventory = False, wr_inventoryRevision = 0, wr_lastHeartbeat = 0\<rparr>"

subsection \<open>Operations (registry.go)\<close>

definition NewRegistry :: "RegistryConfig \<Rightarrow> duration \<Rightarrow> error + Registry" where
  "NewRegistry config elapsed =
    (let heartbeatInterval = (if rc_HeartbeatInterval config = 0 then DefaultHeartbeatInterval
                              else rc_HeartbeatInterval config);
         suspectAfter = (if rc_SuspectAfter config = 0 then DefaultSuspectAfter
                         else rc_SuspectAfter config);
         unavailableAfter = (if rc_UnavailableAfter config = 0 then DefaultUnavailableAfter
                             else rc_UnavailableAfter config);
         limit = (if rc_MaxWorkers config = 0 then DefaultMaxWorkers else rc_MaxWorkers config)
     in if heartbeatInterval < 500 * millisecond \<or> heartbeatInterval > HardHeartbeatInterval \<or>
           suspectAfter \<le> heartbeatInterval \<or> suspectAfter > HardSuspectAfter \<or>
           unavailableAfter \<le> suspectAfter \<or> unavailableAfter > HardUnavailableAfter
          then Inl (Opaque ''worker registry timing bounds are invalid'')
        else if limit < 1 \<or> limit > HardMaxWorkers
          then Inl (Opaque ''worker registry worker limit is outside v1 bounds'')
        else if elapsed < 0
          then Inl (Opaque ''worker registry clock returned negative elapsed time'')
        else Inr \<lparr>reg_heartbeatInterval = heartbeatInterval, reg_suspectAfter = suspectAfter,
              reg_unavailableAfter = unavailableAfter, reg_maxWorkers = limit,
              reg_workers = fmempty, reg_revision = 0, reg_lastElapsed = elapsed,
              reg_clockHealthy = True\<rparr>)"

definition put_record :: "workerRecord \<Rightarrow> string \<Rightarrow> Registry \<Rightarrow> Registry" where
  "put_record record workerID r =
    r\<lparr>reg_workers := fmupd workerID record (reg_workers r), reg_revision := reg_revision r + 1\<rparr>"

definition commit_session :: "WorkerSession \<Rightarrow> workerRecord \<Rightarrow> workerRecord" where
  "commit_session session record = record
    \<lparr>wr_maxSessionEpoch := ws_SessionEpoch session, wr_bootID := ws_BootID session,
     wr_current := session, wr_registered := False, wr_needsNewSession := False,
     wr_hasInventory := False, wr_inventoryRevision := 0, wr_runtime := zero_runtime,
     wr_capacity := zero_capacity, wr_labels := fmempty, wr_cache := zero_hints,
     wr_state := SessionJoining\<rparr>"

text \<open>The part of \<open>CommitSession\<close> after the record is found or created.\<close>

definition CommitSession_record :: "WorkerSession \<Rightarrow> workerRecord \<Rightarrow> (error, Registry, unit) operation" where
  "CommitSession_record session record r =
    (if wr_intent record = IntentRemoved
       then (Inl (classified CodeForbidden ''removed Worker identity cannot register''), r)
     else if ws_SessionEpoch session \<noteq> wr_maxSessionEpoch record + 1
       then (Inl (classified CodeStaleAssignment
               ''session epoch is not the next committed high-water mark''), r)
     else (Inr (), put_record (commit_session session record) (ws_WorkerID session) r))"

definition CommitSession :: "WorkerSession \<Rightarrow> (error, Registry, unit) operation" where
  "CommitSession session r =
    check (WorkerSession_validate session) r
    (case fmlookup (reg_workers r) (ws_WorkerID session) of
       Some record \<Rightarrow> CommitSession_record session record r
     | None \<Rightarrow>
         if int (map_len (reg_workers r)) \<ge> reg_maxWorkers r
           then (Inl (classified CodeOverloaded ''worker registry capacity is full''), r)
         else if ws_SessionEpoch session \<noteq> 1
           then (Inl (classified CodeStaleAssignment
                   ''new Worker session must start at epoch one''), r)
         else
           (let record = new_worker_record (ws_WorkerID session)
            in CommitSession_record session record
                 (r\<lparr>reg_workers := fmupd (ws_WorkerID session) record (reg_workers r)\<rparr>)))"

definition mark_unavailable :: "workerRecord \<Rightarrow> workerRecord" where
  "mark_unavailable record =
    (if wr_registered record \<and> wr_intent record \<noteq> IntentRemoved
     then record\<lparr>wr_state := SessionUnavailable\<rparr> else record)"

definition registry_elapsedLocked :: "duration \<Rightarrow> (error, Registry, duration) operation" where
  "registry_elapsedLocked now r =
    (if \<not> reg_clockHealthy r \<or> now < reg_lastElapsed r
     then (Inl (classified CodeControlPlaneStale ''worker registry monotonic clock is unhealthy''),
           r\<lparr>reg_clockHealthy := False, reg_workers := fmmap mark_unavailable (reg_workers r)\<rparr>)
     else (Inr now, r\<lparr>reg_lastElapsed := now\<rparr>))"

definition Register :: "WorkerSession \<Rightarrow> duration \<Rightarrow> (error, Registry, unit) operation" where
  "Register session clock r =
    check (WorkerSession_validate session) r
    (case fmlookup (reg_workers r) (ws_WorkerID session) of
       None \<Rightarrow> (Inl (classified CodeStaleAssignment ''Worker session is not committed''), r)
     | Some record \<Rightarrow>
         if wr_intent record = IntentRemoved
           then (Inl (classified CodeForbidden ''removed Worker identity cannot register''), r)
         else if wr_maxSessionEpoch record \<noteq> ws_SessionEpoch session \<or>
                 wr_bootID record \<noteq> ws_BootID session
           then (Inl (classified CodeStaleAssignment ''Worker session is stale''), r)
         else if wr_needsNewSession record
           then (Inl (classified CodeStaleAssignment ''Worker must register a newer session''), r)
         else if wr_registered record \<and> wr_current record = session then (Inr (), r)
         else if wr_registered record
           then (Inl (classified CodeStaleAssignment
                   ''another registration owns the current session''), r)
         else (case registry_elapsedLocked clock r of
             (Inl e, r1) \<Rightarrow> (Inl e, r1)
           | (Inr now, r1) \<Rightarrow>
               (Inr (), put_record (record\<lparr>wr_current := session, wr_registered := True,
                   wr_hasInventory := False, wr_state := SessionJoining, wr_lastHeartbeat := now\<rparr>)
                 (ws_WorkerID session) r1)))"

definition currentLocked :: "Registry \<Rightarrow> WorkerSession \<Rightarrow> error + workerRecord" where
  "currentLocked r session =
    (let stale = Inl (classified CodeStaleAssignment ''Worker session is stale or unavailable'') in
     case fmlookup (reg_workers r) (ws_WorkerID session) of
       None \<Rightarrow> stale
     | Some record \<Rightarrow>
         if \<not> wr_registered record \<or> wr_current record \<noteq> session then stale else Inr record)"

definition inventory_observation :: "Inventory \<Rightarrow> workerRecord \<Rightarrow> WorkerSnapshot" where
  "inventory_observation inventory record =
    \<lparr>wk_Session = inv_Session inventory, wk_Runtime = inv_Runtime inventory,
     wk_Intent = wr_intent record, wk_State = SessionReady, wk_Drain = wr_drain record,
     wk_Capacity = inv_Capacity inventory, wk_Labels = inv_Labels inventory,
     wk_Cache = inv_Cache inventory\<rparr>"

definition ReportInventory :: "Inventory \<Rightarrow> duration \<Rightarrow> (error, Registry, unit) operation" where
  "ReportInventory inventory clock r =
    check (WorkerSession_validate (inv_Session inventory)) r
    (case currentLocked r (inv_Session inventory) of
       Inl e \<Rightarrow> (Inl e, r)
     | Inr record \<Rightarrow>
         check (first_error
           [fail_if (wr_needsNewSession record) (classified CodeStaleAssignment
              ''Worker must register a newer session before reporting inventory''),
            fail_if (wr_hasInventory record \<and> inv_Revision inventory < wr_inventoryRevision record)
              (classified CodeStaleGeneration ''Worker inventory revision is stale''),
            WorkerSnapshot_validate (inventory_observation inventory record)]) r
         (case registry_elapsedLocked clock r of
            (Inl e, r1) \<Rightarrow> (Inl e, r1)
          | (Inr now, r1) \<Rightarrow>
              (Inr (), put_record (record\<lparr>wr_runtime := inv_Runtime inventory,
                  wr_capacity := inv_Capacity inventory, wr_labels := inv_Labels inventory,
                  wr_cache := inv_Cache inventory, wr_hasInventory := True,
                  wr_inventoryRevision := inv_Revision inventory, wr_state := SessionReady,
                  wr_lastHeartbeat := now\<rparr>) (ws_WorkerID (inv_Session inventory)) r1)))"

definition Heartbeat :: "WorkerSession \<Rightarrow> duration \<Rightarrow> (error, Registry, unit) operation" where
  "Heartbeat session clock r =
    check (WorkerSession_validate session) r
    (case currentLocked r session of
       Inl e \<Rightarrow> (Inl e, r)
     | Inr record \<Rightarrow>
         if wr_needsNewSession record
         then (Inl (classified CodeStaleAssignment
                 ''Worker must register a newer session before sending heartbeats''), r)
         else (case registry_elapsedLocked clock r of
             (Inl e, r1) \<Rightarrow> (Inl e, r1)
           | (Inr now, r1) \<Rightarrow>
               (let record1 = record\<lparr>wr_lastHeartbeat := now\<rparr> in
                if wr_hasInventory record \<and> \<not> wr_needsNewSession record \<and>
                   (wr_state record = SessionSuspect \<or> wr_state record = SessionUnavailable)
                then (Inr (), put_record (record1\<lparr>wr_state := SessionReady\<rparr>) (ws_WorkerID session) r1)
                else (Inr (), r1\<lparr>reg_workers :=
                        fmupd (ws_WorkerID session) record1 (reg_workers r1)\<rparr>))))"

definition evaluated_state :: "Registry \<Rightarrow> duration \<Rightarrow> workerRecord \<Rightarrow> SessionState" where
  "evaluated_state r now record =
    (if \<not> wr_registered record \<or> wr_needsNewSession record \<or> \<not> wr_hasInventory record
       then wr_state record
     else
       (let elapsed = now - wr_lastHeartbeat record in
        if elapsed \<ge> reg_unavailableAfter r then SessionUnavailable
        else if elapsed \<ge> reg_suspectAfter r then SessionSuspect
        else SessionReady))"

definition Evaluate :: "duration \<Rightarrow> (error, Registry, unit) operation" where
  "Evaluate clock r =
    (case registry_elapsedLocked clock r of
       (Inl e, r1) \<Rightarrow> (Inl e, r1)
     | (Inr now, r1) \<Rightarrow>
         (Inr (), r1\<lparr>reg_workers :=
             fmmap (\<lambda>record. record\<lparr>wr_state := evaluated_state r1 now record\<rparr>) (reg_workers r1),
           reg_revision := reg_revision r1 +
             of_nat (length (filter (\<lambda>record. evaluated_state r1 now record \<noteq> wr_state record)
               (map_values (reg_workers r1))))\<rparr>))"

definition intentValid :: "SchedulingIntent \<Rightarrow> bool" where
  "intentValid intent \<longleftrightarrow>
     intent = IntentSchedulable \<or> intent = IntentDraining \<or> intent = IntentRemoved"

definition SetIntent :: "string \<Rightarrow> SchedulingIntent \<Rightarrow> (error, Registry, unit) operation" where
  "SetIntent workerID intent r =
    check (fail_if (\<not> identifierPattern workerID \<or> \<not> intentValid intent)
      (Invalid ''worker_intent'' ''worker ID or intent is invalid'')) r
    (case fmlookup (reg_workers r) workerID of
       None \<Rightarrow> (Inl (Invalid ''worker_id'' ''worker is not registered''), r)
     | Some record \<Rightarrow>
         if wr_intent record = IntentRemoved
           then (Inl (classified CodeForbidden ''removed Worker intent cannot change''), r)
         else if intent = IntentRemoved then
           (if wr_intent record \<noteq> IntentDraining \<or> wr_drain record \<noteq> DrainDrained
            then (Inl (classified CodeConflict ''Worker must be Drained before Removed''), r)
            else (Inr (), put_record (record\<lparr>wr_intent := IntentRemoved, wr_registered := False,
                    wr_state := SessionUnavailable\<rparr>) workerID r))
         else if wr_intent record = intent then (Inr (), r)
         else if intent = IntentDraining
           then (Inr (), put_record (record\<lparr>wr_intent := intent, wr_drain := DrainDraining\<rparr>) workerID r)
         else (Inr (), put_record (record\<lparr>wr_intent := intent, wr_drain := DrainNotDraining,
                 wr_needsNewSession := True, wr_state := SessionJoining\<rparr>) workerID r))"

definition drain_proof :: "DrainObservation \<Rightarrow> bool" where
  "drain_proof observation \<longleftrightarrow>
     do_ActiveInvocations observation = 0 \<and> do_AssignmentsDrained observation \<and>
     (do_GatewayFencesAcked observation \<or> do_AuthorizationExpired observation)"

definition UpdateDrain :: "DrainObservation \<Rightarrow> (error, Registry, unit) operation" where
  "UpdateDrain observation r =
    check (WorkerSession_validate (do_Session observation)) r
    (case currentLocked r (do_Session observation) of
       Inl e \<Rightarrow> (Inl e, r)
     | Inr record \<Rightarrow>
         if wr_intent record \<noteq> IntentDraining
         then (Inl (classified CodeConflict ''Worker is not draining''), r)
         else
           (let nextDrain = (if drain_proof observation then DrainDrained else DrainDraining) in
            if wr_drain record \<noteq> nextDrain
            then (Inr (), put_record (record\<lparr>wr_drain := nextDrain\<rparr>)
                   (ws_WorkerID (do_Session observation)) r)
            else (Inr (), r)))"

definition record_snapshot :: "workerRecord \<Rightarrow> WorkerSnapshot" where
  "record_snapshot record =
    \<lparr>wk_Session = wr_current record, wk_Runtime = wr_runtime record, wk_Intent = wr_intent record,
     wk_State = wr_state record, wk_Drain = wr_drain record, wk_Capacity = wr_capacity record,
     wk_Labels = wr_labels record, wk_Cache = wr_cache record\<rparr>"

definition compareViews :: "WorkerView \<Rightarrow> WorkerView \<Rightarrow> int" where
  "compareViews left right =
    (if worker_id (wv_Snapshot left) < worker_id (wv_Snapshot right) then - 1
     else if worker_id (wv_Snapshot left) > worker_id (wv_Snapshot right) then 1
     else 0)"

definition Registry_Snapshot :: "Registry \<Rightarrow> RegistrySnapshot" where
  "Registry_Snapshot r =
    \<lparr>rs_Revision = reg_revision r, rs_ClockHealthy = reg_clockHealthy r,
     rs_Workers = sort_by compareViews (map (\<lambda>record.
       \<lparr>wv_Snapshot = record_snapshot record, wv_MaxSessionEpoch = wr_maxSessionEpoch record,
        wv_LastHeartbeat = wr_lastHeartbeat record, wv_Registered = wr_registered record\<rparr>)
       (map_values (reg_workers r)))\<rparr>"

subsection \<open>The invariant\<close>

fun intent_ok :: "SchedulingIntent \<Rightarrow> workerRecord \<Rightarrow> bool" where
  "intent_ok IntentSchedulable rec \<longleftrightarrow> wr_drain rec = DrainNotDraining"
| "intent_ok IntentDraining rec \<longleftrightarrow> wr_drain rec = DrainDraining \<or> wr_drain rec = DrainDrained"
| "intent_ok IntentRemoved rec \<longleftrightarrow>
     wr_drain rec = DrainDrained \<and> \<not> wr_registered rec \<and> wr_state rec = SessionUnavailable"
| "intent_ok (IntentOther s) rec \<longleftrightarrow> False"

text \<open>
  \<open>record_ok healthy now i rec\<close>: the record of worker \<open>i\<close> carries the session that was
  committed last, its inventory is a valid observation, and it is Ready only while it is
  registered, has reported its inventory, and the clock is healthy.
\<close>

definition record_ok :: "bool \<Rightarrow> duration \<Rightarrow> string \<Rightarrow> workerRecord \<Rightarrow> bool" where
  "record_ok healthy now i rec \<longleftrightarrow>
     wr_workerID rec = i \<and> ws_WorkerID (wr_current rec) = i \<and>
     ws_SessionEpoch (wr_current rec) = wr_maxSessionEpoch rec \<and>
     ws_BootID (wr_current rec) = wr_bootID rec \<and>
     WorkerSession_validate (wr_current rec) = None \<and>
     intent_ok (wr_intent rec) rec \<and> SessionState_valid (wr_state rec) \<and>
     (wr_hasInventory rec \<longrightarrow> WorkerSnapshot_validate (record_snapshot rec) = None) \<and>
     (wr_state rec = SessionReady \<longrightarrow>
        wr_registered rec \<and> wr_hasInventory rec \<and> \<not> wr_needsNewSession rec \<and> healthy) \<and>
     0 \<le> wr_lastHeartbeat rec \<and> wr_lastHeartbeat rec \<le> now"

definition registry_inv :: "Registry \<Rightarrow> bool" where
  "registry_inv r \<longleftrightarrow>
     (\<forall>i rec. fmlookup (reg_workers r) i = Some rec \<longrightarrow>
        record_ok (reg_clockHealthy r) (reg_lastElapsed r) i rec) \<and>
     int (map_len (reg_workers r)) \<le> reg_maxWorkers r \<and> reg_maxWorkers r \<le> HardMaxWorkers \<and>
     0 \<le> reg_lastElapsed r \<and> 0 < reg_suspectAfter r \<and> reg_suspectAfter r < reg_unavailableAfter r"

lemma registry_invD:
  assumes "registry_inv r"
  shows registry_record: "fmlookup (reg_workers r) i = Some rec \<Longrightarrow>
      record_ok (reg_clockHealthy r) (reg_lastElapsed r) i rec"
    and registry_bounds: "int (map_len (reg_workers r)) \<le> reg_maxWorkers r"
      "reg_maxWorkers r \<le> HardMaxWorkers" "0 \<le> reg_lastElapsed r"
      "0 < reg_suspectAfter r" "reg_suspectAfter r < reg_unavailableAfter r"
  using assms unfolding registry_inv_def by blast+

lemma record_okD:
  assumes "record_ok h t i rec"
  shows record_ok_id: "wr_workerID rec = i" "ws_WorkerID (wr_current rec) = i"
      "ws_SessionEpoch (wr_current rec) = wr_maxSessionEpoch rec"
      "ws_BootID (wr_current rec) = wr_bootID rec" "WorkerSession_validate (wr_current rec) = None"
    and record_ok_intent: "intent_ok (wr_intent rec) rec"
    and record_ok_state: "SessionState_valid (wr_state rec)"
    and record_ok_inventory: "wr_hasInventory rec \<Longrightarrow> WorkerSnapshot_validate (record_snapshot rec) = None"
    and record_ok_ready: "wr_state rec = SessionReady \<Longrightarrow>
      wr_registered rec \<and> wr_hasInventory rec \<and> \<not> wr_needsNewSession rec \<and> h"
    and record_ok_heartbeat: "0 \<le> wr_lastHeartbeat rec" "wr_lastHeartbeat rec \<le> t"
  using assms unfolding record_ok_def by blast+

lemma snapshot_valid_states:
  assumes "WorkerSnapshot_validate w = None" "SchedulingIntent_valid i" "SessionState_valid s" "DrainState_valid d"
  shows "WorkerSnapshot_validate (w\<lparr>wk_Intent := i, wk_State := s, wk_Drain := d\<rparr>) = None"
  using assms by (simp add: WorkerSnapshot_validate_def)

lemma intent_ok_valid: "intent_ok (wr_intent rec) rec \<Longrightarrow>
    SchedulingIntent_valid (wr_intent rec) \<and> DrainState_valid (wr_drain rec)"
  by (cases "wr_intent rec") (auto simp: SchedulingIntent_valid_def DrainState_valid_def)

text \<open>
  Changing the control fields of a record only, which keep its session and inventory, leaves
  its observation valid.
\<close>

definition same_session :: "workerRecord \<Rightarrow> workerRecord \<Rightarrow> bool" where
  "same_session rec rec' \<longleftrightarrow>
     wr_workerID rec' = wr_workerID rec \<and> wr_bootID rec' = wr_bootID rec \<and>
     wr_maxSessionEpoch rec' = wr_maxSessionEpoch rec \<and> wr_current rec' = wr_current rec \<and>
     wr_runtime rec' = wr_runtime rec \<and> wr_capacity rec' = wr_capacity rec \<and>
     wr_labels rec' = wr_labels rec \<and> wr_cache rec' = wr_cache rec \<and>
     wr_hasInventory rec' = wr_hasInventory rec"

lemma record_ok_control:
  assumes "record_ok h t i rec" and same: "same_session rec rec'"
    and "intent_ok (wr_intent rec') rec'" and "SessionState_valid (wr_state rec')"
    and "wr_state rec' = SessionReady \<Longrightarrow>
      wr_registered rec' \<and> wr_hasInventory rec \<and> \<not> wr_needsNewSession rec' \<and> h'"
    and "0 \<le> wr_lastHeartbeat rec'" "wr_lastHeartbeat rec' \<le> t'"
  shows "record_ok h' t' i rec'"
proof -
  have "record_snapshot rec' = (record_snapshot rec)
      \<lparr>wk_Intent := wr_intent rec', wk_State := wr_state rec', wk_Drain := wr_drain rec'\<rparr>"
    using same by (simp add: record_snapshot_def same_session_def)
  then have "wr_hasInventory rec \<longrightarrow> WorkerSnapshot_validate (record_snapshot rec') = None"
    using assms(1,4) intent_ok_valid [OF assms(3)] snapshot_valid_states by (auto simp: record_ok_def)
  with assms show ?thesis by (auto simp: record_ok_def same_session_def)
qed

lemma registry_inv_update:
  assumes "registry_inv r" and "record_ok (reg_clockHealthy r) now i rec'"
    and "reg_lastElapsed r \<le> now"
    and "fmlookup (reg_workers r) i = None \<Longrightarrow> int (map_len (reg_workers r)) < reg_maxWorkers r"
  shows "registry_inv (r\<lparr>reg_lastElapsed := now, reg_workers := fmupd i rec' (reg_workers r), reg_revision := v\<rparr>)"
proof -
  have "record_ok (reg_clockHealthy r) now j rec"
    if "fmlookup (fmupd i rec' (reg_workers r)) j = Some rec" for j rec
    using that assms(2,3) registry_record [OF assms(1), of j rec]
    by (auto simp: record_ok_def split: if_splits)
  moreover have "int (map_len (fmupd i rec' (reg_workers r))) \<le> reg_maxWorkers r"
    using assms(4) registry_bounds(1) [OF assms(1)] by (auto simp: map_len_upd)
  ultimately show ?thesis
    using registry_bounds [OF assms(1)] assms(3) by (simp add: registry_inv_def)
qed

lemma registry_inv_put:
  assumes "registry_inv r" and "record_ok (reg_clockHealthy r) (reg_lastElapsed r) i rec'"
    and "fmlookup (reg_workers r) i = None \<Longrightarrow> int (map_len (reg_workers r)) < reg_maxWorkers r"
  shows "registry_inv (put_record rec' i r)"
  using registry_inv_update [OF assms(1,2) order_refl assms(3), of "reg_revision r + 1"]
  by (simp add: put_record_def)

lemma registry_inv_map:
  assumes "registry_inv r" "reg_lastElapsed r \<le> now"
    and "\<And>i rec. fmlookup (reg_workers r) i = Some rec \<Longrightarrow> record_ok h now i (f rec)"
  shows "registry_inv (r\<lparr>reg_lastElapsed := now, reg_clockHealthy := h,
    reg_workers := fmmap f (reg_workers r), reg_revision := v\<rparr>)"
  using registry_bounds [OF assms(1)] assms(2,3) by (auto simp: registry_inv_def)

text \<open>The two outcomes of reading the clock.\<close>

lemma registry_elapsed_cases:
  obtains (bad) e where "registry_elapsedLocked now r = (Inl e,
      r\<lparr>reg_clockHealthy := False, reg_workers := fmmap mark_unavailable (reg_workers r)\<rparr>)"
  | (ok) "registry_elapsedLocked now r = (Inr now, r\<lparr>reg_lastElapsed := now\<rparr>)"
      "reg_clockHealthy r" "reg_lastElapsed r \<le> now"
  by (cases "\<not> reg_clockHealthy r \<or> now < reg_lastElapsed r") (auto simp: registry_elapsedLocked_def)

abbreviation clock_failed :: "Registry \<Rightarrow> Registry" where
  "clock_failed r \<equiv> r\<lparr>reg_clockHealthy := False, reg_workers := fmmap mark_unavailable (reg_workers r)\<rparr>"

lemma record_ok_unavailable: 
  assumes "record_ok h t i rec"
  shows "record_ok False t i (mark_unavailable rec)"
proof (rule record_ok_control [OF assms])
  show "intent_ok (wr_intent (mark_unavailable rec)) (mark_unavailable rec)"
    using record_ok_intent [OF assms] by (cases "wr_intent rec") (simp_all add: mark_unavailable_def)
  show "wr_state (mark_unavailable rec) = SessionReady \<Longrightarrow>
      wr_registered (mark_unavailable rec) \<and> wr_hasInventory rec \<and>
      \<not> wr_needsNewSession (mark_unavailable rec) \<and> False"
    using record_ok_intent [OF assms] record_ok_ready [OF assms]
    by (cases "wr_intent rec") (auto simp: mark_unavailable_def split: if_splits)
qed (use record_ok_state [OF assms] record_ok_heartbeat [OF assms] in
    \<open>simp_all add: mark_unavailable_def same_session_def SessionState_valid_def\<close>)

lemma registry_inv_clock_failed: 
  assumes "registry_inv r" shows "registry_inv (clock_failed r)"
proof -
  have "record_ok False (reg_lastElapsed r) i (mark_unavailable rec)"
    if "fmlookup (reg_workers r) i = Some rec" for i rec
    by (rule record_ok_unavailable) (rule registry_record [OF assms that])
  with registry_inv_map [OF assms order_refl, of False mark_unavailable "reg_revision r"]
  show ?thesis by simp
qed

subsection \<open>Every operation keeps the invariant\<close>

lemma record_ok_commit:
  assumes "WorkerSession_validate session = None" and "ws_WorkerID session = i"
    and "wr_workerID rec = i" "wr_intent rec \<noteq> IntentRemoved" "intent_ok (wr_intent rec) rec"
    and "0 \<le> wr_lastHeartbeat rec" "wr_lastHeartbeat rec \<le> t"
  shows "record_ok h t i (commit_session session rec)"
  using assms by (cases "wr_intent rec") (simp_all add: record_ok_def commit_session_def SessionState_valid_def)

lemma registry_inv_CommitSession_record:
  assumes "registry_inv r" and "WorkerSession_validate session = None"
    and "wr_workerID rec = ws_WorkerID session" "intent_ok (wr_intent rec) rec"
    and "0 \<le> wr_lastHeartbeat rec" "wr_lastHeartbeat rec \<le> reg_lastElapsed r"
    and "fmlookup (reg_workers r) (ws_WorkerID session) \<noteq> None"
  shows "registry_inv (snd (CommitSession_record session rec r))"
  using registry_inv_put [OF assms(1) record_ok_commit [OF assms(2) refl assms(3) _ assms(4-6)]] assms(1,7)
  by (simp add: CommitSession_record_def)

text \<open>
  A new worker's record is inserted and committed in one go: its epoch is one, which is the
  next after zero, so the two error returns in between are not taken.
\<close>

lemma CommitSession_new:
  assumes "WorkerSession_validate session = None" "fmlookup (reg_workers r) (ws_WorkerID session) = None"
    and "int (map_len (reg_workers r)) < reg_maxWorkers r" "ws_SessionEpoch session = 1"
  shows "CommitSession session r =
    (Inr (), put_record (commit_session session (new_worker_record (ws_WorkerID session)))
       (ws_WorkerID session) r)"
  using assms
  by (simp add: CommitSession_def CommitSession_record_def new_worker_record_def put_record_def)

lemma registry_inv_CommitSession:
  assumes inv: "registry_inv r"
  shows "registry_inv (snd (CommitSession session r))"
proof (cases "WorkerSession_validate session")
  case (Some e)
  then show ?thesis using inv by (simp add: CommitSession_def)
next
  case valid: None
  show ?thesis
  proof (cases "fmlookup (reg_workers r) (ws_WorkerID session)")
    case (Some rec)
    note ok = registry_record [OF inv Some]
    show ?thesis
      using registry_inv_CommitSession_record [OF inv valid record_ok_id(1) [OF ok]
          record_ok_intent [OF ok] record_ok_heartbeat [OF ok]] Some valid
      by (simp add: CommitSession_def)
  next
    case new: None
    have ok: "record_ok (reg_clockHealthy r) (reg_lastElapsed r) (ws_WorkerID session)
        (commit_session session (new_worker_record (ws_WorkerID session)))"
      using registry_bounds(3) [OF inv] by (intro record_ok_commit [OF valid]) (simp_all add: new_worker_record_def)
    show ?thesis
    proof (cases "int (map_len (reg_workers r)) < reg_maxWorkers r \<and> ws_SessionEpoch session = 1")
      case True
      then show ?thesis
        using CommitSession_new [OF valid new] registry_inv_put [OF inv ok] by simp
    qed (use inv valid new in \<open>auto simp: CommitSession_def\<close>)
  qed
qed

lemma registry_inv_Register:
  assumes inv: "registry_inv r"
  shows "registry_inv (snd (Register session clock r))"
proof (cases "fmlookup (reg_workers r) (ws_WorkerID session)")
  case (Some rec)
  note ok = registry_record [OF inv Some]
  show ?thesis
  proof (cases rule: registry_elapsed_cases [of clock r])
    case (bad e)
    then show ?thesis
      using inv registry_inv_clock_failed [OF inv] Some by (simp add: Register_def check_def split: option.split)
  next
    case ok': ok
    let ?rec = "rec\<lparr>wr_current := session, wr_registered := True, wr_hasInventory := False,
      wr_state := SessionJoining, wr_lastHeartbeat := clock\<rparr>"
    have "record_ok (reg_clockHealthy r) clock (ws_WorkerID session) ?rec"
      if "wr_intent rec \<noteq> IntentRemoved" "wr_maxSessionEpoch rec = ws_SessionEpoch session"
        "wr_bootID rec = ws_BootID session" "WorkerSession_validate session = None"
      using that ok record_ok_intent [OF ok] registry_bounds(3) [OF inv] ok'(3)
      by (cases "wr_intent rec") (simp_all add: record_ok_def SessionState_valid_def)
    then show ?thesis
      using inv Some ok' registry_inv_update [OF inv _ ok'(3), of "ws_WorkerID session" ?rec "reg_revision r + 1"]
      by (auto simp: Register_def check_def put_record_def split: option.split)
  qed
qed (use inv in \<open>simp add: Register_def check_def split: option.split\<close>)

lemma currentLocked_Inr:
  "currentLocked r session = Inr rec \<longleftrightarrow>
     fmlookup (reg_workers r) (ws_WorkerID session) = Some rec \<and> wr_registered rec \<and> wr_current rec = session"
  by (auto simp: currentLocked_def Let_def split: option.splits if_splits)

lemma registry_inv_ReportInventory:
  assumes inv: "registry_inv r"
  shows "registry_inv (snd (ReportInventory inventory clock r))"
proof (cases "currentLocked r (inv_Session inventory)")
  case (Inr rec)
  then have cur: "fmlookup (reg_workers r) (ws_WorkerID (inv_Session inventory)) = Some rec"
    "wr_registered rec" "wr_current rec = inv_Session inventory" by (simp_all add: currentLocked_Inr)
  note ok = registry_record [OF inv cur(1)]
  let ?rec = "rec\<lparr>wr_runtime := inv_Runtime inventory, wr_capacity := inv_Capacity inventory,
    wr_labels := inv_Labels inventory, wr_cache := inv_Cache inventory, wr_hasInventory := True,
    wr_inventoryRevision := inv_Revision inventory, wr_state := SessionReady, wr_lastHeartbeat := clock\<rparr>"
  show ?thesis
  proof (cases rule: registry_elapsed_cases [of clock r])
    case (bad e)
    then show ?thesis
      using inv registry_inv_clock_failed [OF inv] Inr by (simp add: ReportInventory_def check_def split: option.split)
  next
    case ok': ok
    have "record_snapshot ?rec = inventory_observation inventory rec"
      by (simp add: record_snapshot_def inventory_observation_def cur(3))
    then have "record_ok (reg_clockHealthy r) clock (ws_WorkerID (inv_Session inventory)) ?rec"
      if "\<not> wr_needsNewSession rec" "WorkerSnapshot_validate (inventory_observation inventory rec) = None"
      using that ok record_ok_intent [OF ok] registry_bounds(3) [OF inv] ok'(2,3) cur(2,3)
      by (cases "wr_intent rec") (simp_all add: record_ok_def SessionState_valid_def)
    then show ?thesis
      using inv Inr cur(1) ok'
        registry_inv_update [OF inv _ ok'(3), of "ws_WorkerID (inv_Session inventory)" ?rec "reg_revision r + 1"]
      by (auto simp: ReportInventory_def check_def put_record_def split: option.split)
  qed
qed (use inv in \<open>simp add: ReportInventory_def check_def split: option.split\<close>)

lemma record_ok_beat:
  assumes ok: "record_ok h t i rec" and "\<not> wr_needsNewSession rec" "wr_registered rec" "wr_hasInventory rec \<or> s = wr_state rec"
    and "t \<le> now" "0 \<le> now" and "s = wr_state rec \<or> s = SessionReady" and "h"
  shows "record_ok h now i (rec\<lparr>wr_lastHeartbeat := now, wr_state := s\<rparr>)"
proof (rule record_ok_control [OF ok])
  show "intent_ok (wr_intent (rec\<lparr>wr_lastHeartbeat := now, wr_state := s\<rparr>))
      (rec\<lparr>wr_lastHeartbeat := now, wr_state := s\<rparr>)"
    using record_ok_intent [OF ok] assms(3) by (cases "wr_intent rec") simp_all
  show "wr_state (rec\<lparr>wr_lastHeartbeat := now, wr_state := s\<rparr>) = SessionReady \<Longrightarrow>
      wr_registered (rec\<lparr>wr_lastHeartbeat := now, wr_state := s\<rparr>) \<and> wr_hasInventory rec \<and>
      \<not> wr_needsNewSession (rec\<lparr>wr_lastHeartbeat := now, wr_state := s\<rparr>) \<and> h"
    using record_ok_ready [OF ok] assms(2-4,8) by auto
qed (use record_ok_state [OF ok] assms(5-7) in \<open>auto simp: same_session_def SessionState_valid_def\<close>)

lemma registry_inv_Heartbeat:
  assumes inv: "registry_inv r"
  shows "registry_inv (snd (Heartbeat session clock r))"
proof (cases "currentLocked r session")
  case (Inr rec)
  then have cur: "fmlookup (reg_workers r) (ws_WorkerID session) = Some rec" "wr_registered rec"
    by (simp_all add: currentLocked_Inr)
  note ok = registry_record [OF inv cur(1)]
  show ?thesis
  proof (cases rule: registry_elapsed_cases [of clock r])
    case (bad e)
    then show ?thesis
      using inv registry_inv_clock_failed [OF inv] Inr by (simp add: Heartbeat_def check_def split: option.split)
  next
    case ok': ok
    have now: "0 \<le> clock" using registry_bounds(3) [OF inv] ok'(3) by simp
    have upd: "registry_inv (r\<lparr>reg_lastElapsed := clock,
        reg_workers := fmupd (ws_WorkerID session) (rec\<lparr>wr_lastHeartbeat := clock, wr_state := s\<rparr>) (reg_workers r),
        reg_revision := v\<rparr>)"
      if "\<not> wr_needsNewSession rec" "wr_hasInventory rec \<or> s = wr_state rec"
        "s = wr_state rec \<or> s = SessionReady" for s v
      using registry_inv_update [OF inv record_ok_beat [OF ok that(1) cur(2) that(2) ok'(3) now that(3) ok'(2)]
          ok'(3), of v] cur(1) by simp
    have "rec\<lparr>wr_lastHeartbeat := clock, wr_state := wr_state rec\<rparr> = rec\<lparr>wr_lastHeartbeat := clock\<rparr>"
      "r\<lparr>reg_lastElapsed := clock, reg_workers := m, reg_revision := reg_revision r\<rparr>
        = r\<lparr>reg_lastElapsed := clock, reg_workers := m\<rparr>" for m by simp_all
    with upd [of "wr_state rec" "reg_revision r"] upd [of SessionReady "reg_revision r + 1"] inv Inr ok'(1)
    show ?thesis
      by (auto simp: Heartbeat_def check_def put_record_def Let_def split: option.split)
  qed
qed (use inv in \<open>simp add: Heartbeat_def check_def split: option.split\<close>)

lemma Evaluate_ok:
  assumes "reg_clockHealthy r" "reg_lastElapsed r \<le> clock"
  shows "fst (Evaluate clock r) = Inr ()"
    and "reg_workers (snd (Evaluate clock r)) =
      fmmap (\<lambda>rec. rec\<lparr>wr_state := evaluated_state r clock rec\<rparr>) (reg_workers r)"
    and "reg_clockHealthy (snd (Evaluate clock r))"
    and "reg_lastElapsed (snd (Evaluate clock r)) = clock"
proof -
  have "evaluated_state (r\<lparr>reg_lastElapsed := clock\<rparr>) clock = evaluated_state r clock"
    by (simp add: evaluated_state_def fun_eq_iff Let_def)
  with assms show "fst (Evaluate clock r) = Inr ()"
    "reg_workers (snd (Evaluate clock r)) =
      fmmap (\<lambda>rec. rec\<lparr>wr_state := evaluated_state r clock rec\<rparr>) (reg_workers r)"
    "reg_clockHealthy (snd (Evaluate clock r))" "reg_lastElapsed (snd (Evaluate clock r)) = clock"
    by (simp_all add: Evaluate_def registry_elapsedLocked_def)
qed

lemma record_ok_evaluated:
  assumes ok: "record_ok h t i rec" and "t \<le> now" "h"
  shows "record_ok h now i (rec\<lparr>wr_state := evaluated_state r now rec\<rparr>)" (is "record_ok h now i ?rec")
proof (rule record_ok_control [OF ok])
  show "intent_ok (wr_intent ?rec) ?rec"
    using record_ok_intent [OF ok] by (cases "wr_intent rec") (simp_all add: evaluated_state_def)
  show "wr_state ?rec = SessionReady \<Longrightarrow>
      wr_registered ?rec \<and> wr_hasInventory rec \<and> \<not> wr_needsNewSession ?rec \<and> h"
    using record_ok_ready [OF ok] assms(3) by (auto simp: evaluated_state_def split: if_splits)
qed (use record_ok_state [OF ok] record_ok_heartbeat [OF ok] assms(2) in
    \<open>simp_all add: same_session_def evaluated_state_def SessionState_valid_def Let_def\<close>)

lemma registry_inv_Evaluate:
  assumes inv: "registry_inv r"
  shows "registry_inv (snd (Evaluate clock r))"
proof (cases rule: registry_elapsed_cases [of clock r])
  case (bad e)
  then show ?thesis using registry_inv_clock_failed [OF inv] by (simp add: Evaluate_def)
next
  case ok
  let ?f = "\<lambda>rec. rec\<lparr>wr_state := evaluated_state (r\<lparr>reg_lastElapsed := clock\<rparr>) clock rec\<rparr>"
  have records: "record_ok True clock i (?f rec)" if "fmlookup (reg_workers r) i = Some rec" for i rec
    using registry_record [OF inv that] ok(2,3) by (auto intro: record_ok_evaluated)
  have "r\<lparr>reg_lastElapsed := clock, reg_workers := m, reg_revision := v\<rparr> =
      r\<lparr>reg_lastElapsed := clock, reg_clockHealthy := True, reg_workers := m, reg_revision := v\<rparr>" for m v
    using ok(2) by (cases r) simp
  with registry_inv_map [OF inv ok(3), of True ?f, OF records] show ?thesis
    by (simp add: Evaluate_def ok(1))
qed

lemma registry_inv_SetIntent:
  assumes inv: "registry_inv r"
  shows "registry_inv (snd (SetIntent i intent r))"
proof (cases "fmlookup (reg_workers r) i")
  case (Some rec)
  note ok = registry_record [OF inv Some]
  let ?h = "reg_clockHealthy r" and ?t = "reg_lastElapsed r"
  have removed: "record_ok ?h ?t i (rec\<lparr>wr_intent := IntentRemoved, wr_registered := False,
      wr_state := SessionUnavailable\<rparr>)" if "wr_drain rec = DrainDrained"
    by (rule record_ok_control [OF ok])
       (use that record_ok_heartbeat [OF ok] in \<open>simp_all add: same_session_def SessionState_valid_def\<close>)
  have draining: "record_ok ?h ?t i (rec\<lparr>wr_intent := IntentDraining, wr_drain := DrainDraining\<rparr>)"
    by (rule record_ok_control [OF ok])
       (use record_ok_heartbeat [OF ok] record_ok_state [OF ok] record_ok_ready [OF ok] in
         \<open>simp_all add: same_session_def\<close>)
  have active: "record_ok ?h ?t i (rec\<lparr>wr_intent := IntentSchedulable, wr_drain := DrainNotDraining,
      wr_needsNewSession := True, wr_state := SessionJoining\<rparr>)"
    by (rule record_ok_control [OF ok])
       (use record_ok_heartbeat [OF ok] in \<open>simp_all add: same_session_def SessionState_valid_def\<close>)
  show ?thesis
    using inv Some removed draining active
    by (auto simp: SetIntent_def check_def fail_if_def intentValid_def intro!: registry_inv_put)
qed (use inv in \<open>simp add: SetIntent_def check_def fail_if_def\<close>)

lemma registry_inv_UpdateDrain:
  assumes inv: "registry_inv r"
  shows "registry_inv (snd (UpdateDrain obs r))"
proof (cases "currentLocked r (do_Session obs)")
  case (Inr rec)
  then have cur: "fmlookup (reg_workers r) (ws_WorkerID (do_Session obs)) = Some rec"
    by (simp add: currentLocked_Inr)
  note ok = registry_record [OF inv cur]
  have "record_ok (reg_clockHealthy r) (reg_lastElapsed r) (ws_WorkerID (do_Session obs)) (rec\<lparr>wr_drain := d\<rparr>)"
    if "wr_intent rec = IntentDraining" "d = DrainDraining \<or> d = DrainDrained" for d
    by (rule record_ok_control [OF ok])
       (use that record_ok_heartbeat [OF ok] record_ok_state [OF ok] record_ok_ready [OF ok] in
         \<open>auto simp: same_session_def\<close>)
  then show ?thesis
    using inv Inr cur
    by (auto simp: UpdateDrain_def check_def Let_def intro!: registry_inv_put split: option.split)
qed (use inv in \<open>simp add: UpdateDrain_def check_def split: option.split\<close>)

subsection \<open>Behaviours of a registry\<close>

datatype RegistryEvent =
    ReCommit WorkerSession
  | ReRegister WorkerSession duration
  | ReInventory Inventory duration
  | ReHeartbeat WorkerSession duration
  | ReEvaluate duration
  | ReSetIntent string SchedulingIntent
  | ReUpdateDrain DrainObservation

fun registry_exec :: "RegistryEvent \<Rightarrow> Registry \<Rightarrow> Registry" where
  "registry_exec (ReCommit s) r = snd (CommitSession s r)"
| "registry_exec (ReRegister s t) r = snd (Register s t r)"
| "registry_exec (ReInventory v t) r = snd (ReportInventory v t r)"
| "registry_exec (ReHeartbeat s t) r = snd (Heartbeat s t r)"
| "registry_exec (ReEvaluate t) r = snd (Evaluate t r)"
| "registry_exec (ReSetIntent i intent) r = snd (SetIntent i intent r)"
| "registry_exec (ReUpdateDrain obs) r = snd (UpdateDrain obs r)"

definition registry_initial :: "Registry \<Rightarrow> bool" where
  "registry_initial r \<longleftrightarrow> (\<exists>config elapsed. NewRegistry config elapsed = Inr r)"

lemma registry_inv_initial: "registry_initial r \<Longrightarrow> registry_inv r"
  by (auto simp: registry_initial_def NewRegistry_def registry_inv_def Let_def split: if_splits)

lemma registry_inv_exec: "registry_inv r \<Longrightarrow> registry_inv (registry_exec e r)"
  by (cases e) (simp_all add: registry_inv_CommitSession registry_inv_Register
      registry_inv_ReportInventory registry_inv_Heartbeat registry_inv_Evaluate
      registry_inv_SetIntent registry_inv_UpdateDrain)

text \<open>
  What one operation does to the record of worker \<open>i\<close>. A removed worker's record is never
  touched, the committed epoch never falls, and a draining worker becomes Drained only by
  an observation with the required proof.
\<close>

definition record_step :: "Registry \<Rightarrow> RegistryEvent \<Rightarrow> string \<Rightarrow> workerRecord \<Rightarrow> workerRecord \<Rightarrow> bool" where
  "record_step r e i rec rec' \<longleftrightarrow>
     (wr_intent rec = IntentRemoved \<longrightarrow> rec' = rec) \<and>
     wr_maxSessionEpoch rec \<le> wr_maxSessionEpoch rec' \<and>
     (wr_intent rec' = IntentDraining \<and> wr_drain rec' = DrainDrained \<longrightarrow>
        (\<exists>obs. e = ReUpdateDrain obs \<and> ws_WorkerID (do_Session obs) = i \<and> drain_proof obs \<and>
           fst (UpdateDrain obs r) = Inr ()) \<or>
        wr_intent rec = IntentDraining \<and> wr_drain rec = DrainDrained \<and> e \<noteq> ReSetIntent i IntentSchedulable)"

lemma record_step_keep:
  assumes "wr_intent rec \<noteq> IntentRemoved" "wr_maxSessionEpoch rec \<le> wr_maxSessionEpoch rec'"
    and "wr_intent rec' = wr_intent rec" "wr_drain rec' = wr_drain rec"
    and "e \<noteq> ReSetIntent i IntentSchedulable"
  shows "record_step r e i rec rec'"
  using assms by (simp add: record_step_def)

lemma record_step_refl: "e \<noteq> ReSetIntent i IntentSchedulable \<Longrightarrow> record_step r e i rec rec"
  by (simp add: record_step_def)

lemma record_step_unavailable:
  "e \<noteq> ReSetIntent i IntentSchedulable \<Longrightarrow> record_step r e i rec (mark_unavailable rec)"
  by (simp add: record_step_def mark_unavailable_def)

text \<open>An operation on another worker, or one whose clock reading fails, keeps the record.\<close>

lemma step_elapsed:
  assumes "fmlookup (reg_workers r) i = Some rec" and "e \<noteq> ReSetIntent i IntentSchedulable"
    and "registry_elapsedLocked t r = (x, r1)"
  shows "\<exists>rec'. fmlookup (reg_workers r1) i = Some rec' \<and> record_step r e i rec rec'"
  using assms record_step_refl [OF assms(2)] record_step_unavailable [OF assms(2)]
  by (cases rule: registry_elapsed_cases [of t r]) auto

lemma word_next_le: "(x :: u64) + 1 \<noteq> 0 \<Longrightarrow> x \<le> x + 1"
  using word_less_inc [of x] word_inc_zero_iff [of x] by (simp add: less_imp_le)

lemma step_CommitSession:
  assumes r: "fmlookup (reg_workers r) i = Some rec" and e: "e \<noteq> ReSetIntent i IntentSchedulable"
  shows "\<exists>rec'. fmlookup (reg_workers (snd (CommitSession s r))) i = Some rec' \<and> record_step r e i rec rec'"
proof (cases "WorkerSession_validate s")
  case (Some err)
  then show ?thesis using r record_step_refl [OF e] by (simp add: CommitSession_def)
next
  case None
  then have "ws_SessionEpoch s \<noteq> 0" by (simp add: WorkerSession_validate_def checks)
  then have "record_step r e i rec (commit_session s rec)"
    if "wr_intent rec \<noteq> IntentRemoved" "ws_SessionEpoch s = wr_maxSessionEpoch rec + 1"
    by (intro record_step_keep) (use that e in \<open>auto simp: commit_session_def intro: word_next_le\<close>)
  then show ?thesis
    using r record_step_refl [OF e, of r rec] None
    by (auto simp: CommitSession_def CommitSession_record_def put_record_def Let_def split: option.split)
qed

lemma step_Register:
  assumes r: "fmlookup (reg_workers r) i = Some rec" and e: "e \<noteq> ReSetIntent i IntentSchedulable"
  shows "\<exists>rec'. fmlookup (reg_workers (snd (Register s t r))) i = Some rec' \<and> record_step r e i rec rec'"
  using r e record_step_refl [OF e, of r rec] step_elapsed [OF r e, of t]
  by (cases rule: registry_elapsed_cases [of t r])
     (auto simp: Register_def check_def put_record_def intro!: record_step_keep split: option.split)

lemma currentLocked_active:
  assumes inv: "registry_inv r" and cur: "currentLocked r s = Inr rec"
  shows "wr_intent rec \<noteq> IntentRemoved \<and> fmlookup (reg_workers r) (ws_WorkerID s) = Some rec"
proof -
  have rec: "fmlookup (reg_workers r) (ws_WorkerID s) = Some rec" "wr_registered rec"
    using cur by (simp_all add: currentLocked_Inr)
  with record_ok_intent [OF registry_record [OF inv rec(1)]] show ?thesis by auto
qed

lemma step_ReportInventory:
  assumes inv: "registry_inv r" and r: "fmlookup (reg_workers r) i = Some rec"
    and e: "e \<noteq> ReSetIntent i IntentSchedulable"
  shows "\<exists>rec'. fmlookup (reg_workers (snd (ReportInventory v t r))) i = Some rec' \<and> record_step r e i rec rec'"
proof (cases "currentLocked r (inv_Session v)")
  case (Inl err)
  then show ?thesis
    using r record_step_refl [OF e] by (simp add: ReportInventory_def check_def split: option.split)
next
  case (Inr rec1)
  then have "wr_intent rec1 \<noteq> IntentRemoved" "fmlookup (reg_workers r) (ws_WorkerID (inv_Session v)) = Some rec1"
    using currentLocked_active [OF inv Inr] by simp_all
  then show ?thesis
    using r e Inr record_step_refl [OF e, of r rec] step_elapsed [OF r e, of t]
    by (cases rule: registry_elapsed_cases [of t r])
       (auto simp: ReportInventory_def check_def put_record_def intro!: record_step_keep split: option.split)
qed

lemma step_Heartbeat:
  assumes inv: "registry_inv r" and r: "fmlookup (reg_workers r) i = Some rec"
    and e: "e \<noteq> ReSetIntent i IntentSchedulable"
  shows "\<exists>rec'. fmlookup (reg_workers (snd (Heartbeat s t r))) i = Some rec' \<and> record_step r e i rec rec'"
proof (cases "currentLocked r s")
  case (Inl err)
  then show ?thesis
    using r record_step_refl [OF e] by (simp add: Heartbeat_def check_def split: option.split)
next
  case (Inr rec1)
  then have "wr_intent rec1 \<noteq> IntentRemoved" "fmlookup (reg_workers r) (ws_WorkerID s) = Some rec1"
    using currentLocked_active [OF inv Inr] by simp_all
  then show ?thesis
    using r e Inr record_step_refl [OF e, of r rec] step_elapsed [OF r e, of t]
    by (cases rule: registry_elapsed_cases [of t r])
       (auto simp: Heartbeat_def check_def put_record_def Let_def intro!: record_step_keep split: option.split)
qed

lemma step_Evaluate:
  assumes inv: "registry_inv r" and r: "fmlookup (reg_workers r) i = Some rec"
    and e: "e \<noteq> ReSetIntent i IntentSchedulable"
  shows "\<exists>rec'. fmlookup (reg_workers (snd (Evaluate t r))) i = Some rec' \<and> record_step r e i rec rec'"
proof -
  have "record_step r e i rec (rec\<lparr>wr_state := evaluated_state r' t rec\<rparr>)" for r'
  proof (cases "wr_intent rec = IntentRemoved")
    case True
    then have "\<not> wr_registered rec" using record_ok_intent [OF registry_record [OF inv r]] by simp
    then have "rec\<lparr>wr_state := evaluated_state r' t rec\<rparr> = rec" by (simp add: evaluated_state_def)
    then show ?thesis using record_step_refl [OF e] by simp
  qed (use e in \<open>auto intro!: record_step_keep\<close>)
  then show ?thesis
    using r step_elapsed [OF r e, of t]
    by (cases rule: registry_elapsed_cases [of t r]) (auto simp: Evaluate_def)
qed

lemma step_SetIntent:
  assumes inv: "registry_inv r" and r: "fmlookup (reg_workers r) i = Some rec"
  shows "\<exists>rec'. fmlookup (reg_workers (snd (SetIntent j intent r))) i = Some rec' \<and>
    record_step r (ReSetIntent j intent) i rec rec'"
proof (cases "j = i")
  case False
  then have "record_step r (ReSetIntent j intent) i rec rec" by (intro record_step_refl) simp
  then show ?thesis using r False
    by (auto simp: SetIntent_def check_def fail_if_def put_record_def split: option.split)
next
  case True
  have pattern: "identifierPattern i"
    using record_ok_id(2,5) [OF registry_record [OF inv r]]
    by (auto simp: WorkerSession_validate_def checks)
  show ?thesis
    using r True pattern
    by (auto simp: SetIntent_def check_def fail_if_def put_record_def record_step_def intentValid_def)
qed

lemma step_UpdateDrain:
  assumes r: "fmlookup (reg_workers r) i = Some rec"
  shows "\<exists>rec'. fmlookup (reg_workers (snd (UpdateDrain obs r))) i = Some rec' \<and>
    record_step r (ReUpdateDrain obs) i rec rec'"
  using r
  by (auto simp: UpdateDrain_def check_def put_record_def record_step_def currentLocked_Inr Let_def
      split: option.split sum.split)

lemma registry_step:
  assumes inv: "registry_inv r" and r: "fmlookup (reg_workers r) i = Some rec"
  shows "\<exists>rec'. fmlookup (reg_workers (registry_exec e r)) i = Some rec' \<and> record_step r e i rec rec'"
  using step_CommitSession [OF r, of e] step_Register [OF r, of e] step_ReportInventory [OF inv r, of e]
    step_Heartbeat [OF inv r, of e] step_Evaluate [OF inv r, of e] step_SetIntent [OF inv r]
    step_UpdateDrain [OF r]
  by (cases e) simp_all

lemma registry_exec_clock: "reg_clockHealthy (registry_exec e r) \<Longrightarrow> reg_clockHealthy r"
  by (cases e) (auto simp: CommitSession_def CommitSession_record_def Register_def ReportInventory_def
      Heartbeat_def Evaluate_def SetIntent_def UpdateDrain_def check_def put_record_def Let_def
      registry_elapsedLocked_def split: option.splits sum.splits if_splits)

text \<open>Only a committed session adds a worker, and a new worker is not draining.\<close>

lemma fmlookup_elapsed_None:
  "registry_elapsedLocked t r = (x, r1) \<Longrightarrow> fmlookup (reg_workers r) i = None \<Longrightarrow>
     fmlookup (reg_workers r1) i = None"
  by (auto simp: registry_elapsedLocked_def split: if_splits)

lemma registry_step_new:
  assumes new: "fmlookup (reg_workers r) i = None" and rec: "fmlookup (reg_workers (registry_exec e r)) i = Some rec"
  shows "wr_drain rec = DrainNotDraining"
proof (cases e)
  case (ReCommit s)
  then show ?thesis using new rec
    by (auto simp: CommitSession_def CommitSession_record_def check_def put_record_def Let_def
        commit_session_def new_worker_record_def split: option.splits if_splits)
next
  case (ReSetIntent j intent)
  then show ?thesis using new rec
    by (auto simp: SetIntent_def check_def fail_if_def put_record_def split: option.splits if_splits)
next
  case (ReUpdateDrain obs)
  then show ?thesis using new rec
    by (auto simp: UpdateDrain_def check_def put_record_def currentLocked_Inr Let_def
        split: option.splits sum.splits if_splits)
next
  case (ReRegister s t)
  then show ?thesis using new rec fmlookup_elapsed_None [OF _ new, of t]
    by (cases "registry_elapsedLocked t r")
       (auto simp: Register_def check_def put_record_def split: option.splits sum.splits if_splits)
next
  case (ReInventory v t)
  then show ?thesis using new rec fmlookup_elapsed_None [OF _ new, of t]
    by (cases "registry_elapsedLocked t r")
       (auto simp: ReportInventory_def check_def put_record_def currentLocked_Inr
         split: option.splits sum.splits if_splits)
next
  case (ReHeartbeat s t)
  then show ?thesis using new rec fmlookup_elapsed_None [OF _ new, of t]
    by (cases "registry_elapsedLocked t r")
       (auto simp: Heartbeat_def check_def put_record_def currentLocked_Inr Let_def
         split: option.splits sum.splits if_splits)
next
  case (ReEvaluate t)
  then show ?thesis using new rec fmlookup_elapsed_None [OF _ new, of t]
    by (cases "registry_elapsedLocked t r") (auto simp: Evaluate_def split: sum.splits)
qed

definition registry_later :: "Registry \<Rightarrow> Registry \<Rightarrow> bool" where
  "registry_later r r' \<longleftrightarrow>
     (\<forall>i rec. fmlookup (reg_workers r) i = Some rec \<longrightarrow>
        (\<exists>rec'. fmlookup (reg_workers r') i = Some rec' \<and>
           (wr_intent rec = IntentRemoved \<longrightarrow> rec' = rec) \<and>
           wr_maxSessionEpoch rec \<le> wr_maxSessionEpoch rec')) \<and>
     (reg_clockHealthy r' \<longrightarrow> reg_clockHealthy r)"

lemma registry_later_exec:
  assumes "registry_inv r"
  shows "registry_later r (registry_exec e r)"
proof -
  have "\<exists>rec'. fmlookup (reg_workers (registry_exec e r)) i = Some rec' \<and>
      (wr_intent rec = IntentRemoved \<longrightarrow> rec' = rec) \<and> wr_maxSessionEpoch rec \<le> wr_maxSessionEpoch rec'"
    if "fmlookup (reg_workers r) i = Some rec" for i rec
    using registry_step [OF assms that, of e] by (auto simp: record_step_def)
  with registry_exec_clock [of e r] show ?thesis by (simp add: registry_later_def)
qed

lemma registry_later_trans:
  assumes "registry_later r s" "registry_later s t" shows "registry_later r t"
proof -
  have "\<exists>rec'. fmlookup (reg_workers t) i = Some rec' \<and> (wr_intent rec = IntentRemoved \<longrightarrow> rec' = rec) \<and>
      wr_maxSessionEpoch rec \<le> wr_maxSessionEpoch rec'"
    if rec: "fmlookup (reg_workers r) i = Some rec" for i rec
  proof -
    obtain rec1 where 1: "fmlookup (reg_workers s) i = Some rec1"
      "wr_intent rec = IntentRemoved \<Longrightarrow> rec1 = rec" "wr_maxSessionEpoch rec \<le> wr_maxSessionEpoch rec1"
      using assms(1) rec unfolding registry_later_def by blast
    obtain rec2 where "fmlookup (reg_workers t) i = Some rec2"
      "wr_intent rec1 = IntentRemoved \<Longrightarrow> rec2 = rec1" "wr_maxSessionEpoch rec1 \<le> wr_maxSessionEpoch rec2"
      using assms(2) 1(1) unfolding registry_later_def by blast
    with 1(2,3) show ?thesis by auto
  qed
  with assms show ?thesis by (simp add: registry_later_def)
qed

lemma registry_laterD:
  "registry_later r r' \<Longrightarrow> fmlookup (reg_workers r) i = Some rec \<Longrightarrow>
     \<exists>rec'. fmlookup (reg_workers r') i = Some rec' \<and> (wr_intent rec = IntentRemoved \<longrightarrow> rec' = rec) \<and>
       wr_maxSessionEpoch rec \<le> wr_maxSessionEpoch rec'"
  unfolding registry_later_def by blast

interpretation registry: evolving registry_initial registry_exec registry_inv registry_later
  by unfold_locales
     (auto simp: registry_inv_initial registry_inv_exec registry_later_exec intro: registry_later_trans,
      simp add: registry_later_def)

lemma drained_history:
  assumes "registry_initial r0" and "fmlookup (reg_workers (run registry_exec es r0)) i = Some rec"
    and "wr_intent rec = IntentDraining" "wr_drain rec = DrainDrained"
  shows "\<exists>pre obs post. es = pre @ ReUpdateDrain obs # post \<and> ws_WorkerID (do_Session obs) = i \<and>
    drain_proof obs \<and> fst (UpdateDrain obs (run registry_exec pre r0)) = Inr () \<and>
    ReSetIntent i IntentSchedulable \<notin> set post"
  using assms(2-4)
proof (induction es arbitrary: rec rule: rev_induct)
  case Nil
  then show ?case using assms(1)
    by (auto simp: registry_initial_def NewRegistry_def Let_def split: if_splits)
next
  case (snoc e es)
  let ?r = "run registry_exec es r0"
  have inv: "registry_inv ?r" by (rule registry.inv_run) (rule registry_inv_initial [OF assms(1)])
  have rec: "fmlookup (reg_workers (registry_exec e ?r)) i = Some rec" using snoc.prems(1) by simp
  obtain rec0 where rec0: "fmlookup (reg_workers ?r) i = Some rec0"
    using registry_step_new [OF _ rec] snoc.prems(3) by (cases "fmlookup (reg_workers ?r) i") auto
  have "record_step ?r e i rec0 rec" using registry_step [OF inv rec0, of e] rec by auto
  then consider obs where "e = ReUpdateDrain obs" "ws_WorkerID (do_Session obs) = i" "drain_proof obs"
      "fst (UpdateDrain obs ?r) = Inr ()"
    | "wr_intent rec0 = IntentDraining" "wr_drain rec0 = DrainDrained" "e \<noteq> ReSetIntent i IntentSchedulable"
    using snoc.prems(2,3) by (auto simp: record_step_def)
  then show ?case
  proof cases
    case (1 obs)
    then show ?thesis by (intro exI [of _ es] exI [of _ obs] exI [of _ "[]"]) simp
  next
    case 2
    from snoc.IH [OF rec0 2(1,2)] obtain pre obs post where
      "es = pre @ ReUpdateDrain obs # post" "ws_WorkerID (do_Session obs) = i" "drain_proof obs"
      "fst (UpdateDrain obs (run registry_exec pre r0)) = Inr ()" "ReSetIntent i IntentSchedulable \<notin> set post"
      by blast
    with 2(3) show ?thesis by (intro exI [of _ pre] exI [of _ obs] exI [of _ "post @ [e]"]) auto
  qed
qed

lemma WorkerSession_validate_invalid: "WorkerSession_validate s = Some e \<Longrightarrow> \<exists>f m. e = Invalid f m"
  by (auto simp: WorkerSession_validate_def fail_if_def split: if_splits)

subsection \<open>Properties\<close>

text \<open>
  C6: Safe removal. If removing a worker succeeds after any sequence of operations, then an
  accepted drain observation of that worker proved earlier that no invocation was active,
  all its assignments were drained, and the gateways had acknowledged the fence or its
  authorization had expired; and the worker has not been made schedulable again since.
\<close>

theorem removal_needs_proof:
  assumes "NewRegistry config t0 = Inr r0"
    and "fst (SetIntent i IntentRemoved (run registry_exec es r0)) = Inr ()"
  shows "\<exists>pre obs post. es = pre @ ReUpdateDrain obs # post \<and> ws_WorkerID (do_Session obs) = i \<and>
    do_ActiveInvocations obs = 0 \<and> do_AssignmentsDrained obs \<and>
    (do_GatewayFencesAcked obs \<or> do_AuthorizationExpired obs) \<and>
    fst (UpdateDrain obs (run registry_exec pre r0)) = Inr () \<and>
    ReSetIntent i IntentSchedulable \<notin> set post"
proof -
  have init: "registry_initial r0" using assms(1) by (auto simp: registry_initial_def)
  obtain rec where "fmlookup (reg_workers (run registry_exec es r0)) i = Some rec"
    "wr_intent rec = IntentDraining" "wr_drain rec = DrainDrained"
    using assms(2)
    by (auto simp: SetIntent_def check_def fail_if_def split: option.splits if_splits)
  from drained_history [OF init this] show ?thesis by (auto simp: drain_proof_def)
qed

text \<open>
  C40: Liveness classification. After a successful evaluation every worker that is
  registered with an inventory and not waiting for a new session is Ready, Suspect or
  Unavailable exactly by the age of its last heartbeat, and no other worker is Ready.
\<close>

theorem evaluate_classifies:
  assumes "reachable registry_initial registry_exec r" and "fst (Evaluate now r) = Inr ()"
    and "fmlookup (reg_workers (snd (Evaluate now r))) i = Some rec"
  shows "(wr_state rec = SessionReady \<longleftrightarrow>
      wr_registered rec \<and> wr_hasInventory rec \<and> \<not> wr_needsNewSession rec \<and>
      now - wr_lastHeartbeat rec < reg_suspectAfter r) \<and>
    (wr_registered rec \<and> wr_hasInventory rec \<and> \<not> wr_needsNewSession rec \<longrightarrow>
      (wr_state rec = SessionUnavailable \<longleftrightarrow> reg_unavailableAfter r \<le> now - wr_lastHeartbeat rec) \<and>
      (wr_state rec = SessionSuspect \<longleftrightarrow> reg_suspectAfter r \<le> now - wr_lastHeartbeat rec \<and>
         now - wr_lastHeartbeat rec < reg_unavailableAfter r))"
proof -
  have inv: "registry_inv r" by (rule registry.inv_reachable [OF assms(1)])
  have ok: "reg_clockHealthy r" "reg_lastElapsed r \<le> now"
    using assms(2) by (auto simp: Evaluate_def registry_elapsedLocked_def split: if_splits)
  obtain rec0 where rec0: "fmlookup (reg_workers r) i = Some rec0"
    "rec = rec0\<lparr>wr_state := evaluated_state r now rec0\<rparr>"
    using assms(3) by (auto simp: Evaluate_ok(2) [OF ok])
  note bounds = registry_bounds [OF inv]
  from record_ok_ready [OF registry_record [OF inv rec0(1)]] bounds(4,5) show ?thesis
    by (auto simp: rec0(2) evaluated_state_def Let_def)
qed

text \<open>
  The registry fails closed. Once a clock reading has gone backwards, no worker is Ready
  in any later state, so none can be selected for placement.
\<close>

theorem unhealthy_registry_not_ready:
  assumes "reachable registry_initial registry_exec r" and "\<not> reg_clockHealthy r"
    and "fmlookup (reg_workers (run registry_exec es r)) i = Some rec"
  shows "wr_state rec \<noteq> SessionReady"
proof -
  let ?r = "run registry_exec es r"
  have "registry_later r ?r" by (rule registry.later_reachable [OF assms(1)])
  then have "\<not> reg_clockHealthy ?r" using assms(2) by (simp add: registry_later_def)
  moreover have "registry_inv ?r"
    by (rule registry.inv_reachable) (rule reachable_run [OF assms(1)])
  ultimately show ?thesis using record_ok_ready [OF registry_record [OF _ assms(3)]] by blast
qed

text \<open>
  C32: Session fencing. Once a session is committed, no operation that names an older session
  of the same worker is accepted after any further operations: not its registration, its
  inventory, its heartbeats or its drain reports.
\<close>

theorem stale_session_rejected:
  assumes "reachable registry_initial registry_exec r" and "fst (CommitSession s r) = Inr ()"
    and "ws_WorkerID old = ws_WorkerID s" and "ws_SessionEpoch old < ws_SessionEpoch s"
    and "r' = run registry_exec (ReCommit s # es) r"
  shows "fst (Register old t r') \<noteq> Inr () \<and> fst (Heartbeat old t r') \<noteq> Inr () \<and>
    (\<forall>v. inv_Session v = old \<longrightarrow> fst (ReportInventory v t r') \<noteq> Inr ()) \<and>
    (\<forall>obs. do_Session obs = old \<longrightarrow> fst (UpdateDrain obs r') \<noteq> Inr ())"
proof -
  let ?r = "registry_exec (ReCommit s) r"
  have inv: "registry_inv ?r" by (rule registry_inv_exec) (rule registry.inv_reachable [OF assms(1)])
  have inv': "registry_inv r'" using registry.inv_run [OF inv] by (simp add: assms(5))
  obtain rec where rec: "fmlookup (reg_workers ?r) (ws_WorkerID s) = Some rec"
    "wr_maxSessionEpoch rec = ws_SessionEpoch s"
    using assms(2)
    by (auto simp: CommitSession_def CommitSession_record_def check_def put_record_def Let_def
        commit_session_def split: option.splits if_splits)
  obtain rec' where rec': "fmlookup (reg_workers r') (ws_WorkerID s) = Some rec'"
    "ws_SessionEpoch s \<le> wr_maxSessionEpoch rec'"
    using registry_laterD [OF registry.later_run [OF inv, of es] rec(1)] rec(2) by (auto simp: assms(5))
  have "ws_SessionEpoch (wr_current rec') = wr_maxSessionEpoch rec'"
    by (rule record_ok_id(3) [OF registry_record [OF inv' rec'(1)]])
  with rec'(2) assms(4) have "wr_current rec' \<noteq> old" "wr_maxSessionEpoch rec' \<noteq> ws_SessionEpoch old"
    by auto
  moreover have "fmlookup (reg_workers r') (ws_WorkerID old) = Some rec'" using rec'(1) assms(3) by simp
  ultimately have "fst (Register old t r') \<noteq> Inr ()" "\<exists>e. currentLocked r' old = Inl e"
    by (auto simp: Register_def check_def currentLocked_def Let_def split: option.split)
  then show ?thesis
    by (auto simp: Heartbeat_def ReportInventory_def UpdateDrain_def check_def split: option.splits)
qed

text \<open>
  Removal is final: the record of a removed worker never changes again, and neither a
  new session nor a registration is accepted for it.
\<close>

theorem removed_is_final:
  assumes "reachable registry_initial registry_exec r" and "fmlookup (reg_workers r) i = Some rec"
    and "wr_intent rec = IntentRemoved" and "r' = run registry_exec es r"
  shows "fmlookup (reg_workers r') i = Some rec \<and>
    (\<forall>s. ws_WorkerID s = i \<longrightarrow> fst (CommitSession s r') \<noteq> Inr () \<and> fst (Register s t r') \<noteq> Inr ())"
proof -
  have "registry_later r r'" unfolding assms(4) by (rule registry.later_reachable [OF assms(1)])
  from registry_laterD [OF this assms(2)] have "fmlookup (reg_workers r') i = Some rec"
    using assms(3) by auto
  with assms(3) show ?thesis
    by (auto simp: CommitSession_def CommitSession_record_def Register_def check_def split: option.split)
qed

text \<open>
  The committed session is the only one a record can carry, so the error that another
  registration owns the current session is unreachable.
\<close>

theorem register_conflict_unreachable:
  assumes "reachable registry_initial registry_exec r"
  shows "fst (Register s t r) \<noteq>
    Inl (classified CodeStaleAssignment ''another registration owns the current session'')"
proof (cases "fmlookup (reg_workers r) (ws_WorkerID s)")
  case (Some rec)
  have ok: "record_ok (reg_clockHealthy r) (reg_lastElapsed r) (ws_WorkerID s) rec"
    by (rule registry_record [OF registry.inv_reachable [OF assms] Some])
  have "wr_current rec = s"
    if "wr_maxSessionEpoch rec = ws_SessionEpoch s" "wr_bootID rec = ws_BootID s"
    using that record_ok_id [OF ok] by (intro WorkerSession.equality) simp_all
  then show ?thesis
    using Some WorkerSession_validate_invalid [of s]
    by (auto simp: Register_def check_def registry_elapsedLocked_def classified_def Invalid_def
        split: option.splits)
qed (use WorkerSession_validate_invalid [of s] in
    \<open>auto simp: Register_def check_def classified_def Invalid_def split: option.splits\<close>)

subsection \<open>A sample registry\<close>

definition sample_registry :: Registry where
  "sample_registry = (case NewRegistry \<lparr>rc_HeartbeatInterval = 0, rc_SuspectAfter = 0,
     rc_UnavailableAfter = 0, rc_MaxWorkers = 0\<rparr> 0 of Inr r \<Rightarrow> r)"

definition sample_session :: "u64 \<Rightarrow> WorkerSession" where
  "sample_session epoch = \<lparr>ws_WorkerID = ''w-1'', ws_BootID = ''boot'', ws_SessionEpoch = epoch\<rparr>"

definition sample_inventory :: Inventory where
  "sample_inventory = (let w = sample_worker ''w-1'' 1 in
     \<lparr>inv_Revision = 1, inv_Session = sample_session 1, inv_Runtime = wk_Runtime w,
      inv_Capacity = wk_Capacity w, inv_Labels = wk_Labels w, inv_Cache = wk_Cache w\<rparr>)"

definition sample_drain :: DrainObservation where
  "sample_drain = \<lparr>do_Session = sample_session 1, do_ActiveInvocations = 0,
     do_AssignmentsDrained = True, do_GatewayFencesAcked = True, do_AuthorizationExpired = False\<rparr>"

definition sample_joined :: Registry where
  "sample_joined = run registry_exec
     [ReCommit (sample_session 1), ReRegister (sample_session 1) 1, ReInventory sample_inventory 2]
     sample_registry"

definition sample_drained :: "RegistryEvent list" where
  "sample_drained = [ReCommit (sample_session 1), ReRegister (sample_session 1) 1,
     ReSetIntent ''w-1'' IntentDraining, ReUpdateDrain sample_drain]"

lemma sample_registry_new:
  "NewRegistry \<lparr>rc_HeartbeatInterval = 0, rc_SuspectAfter = 0, rc_UnavailableAfter = 0,
     rc_MaxWorkers = 0\<rparr> 0 = Inr sample_registry"
  by code_simp

lemma sample_registry_reachable: "reachable registry_initial registry_exec (run registry_exec es sample_registry)"
  by (rule reachable_run, rule reachable_initial)
     (use sample_registry_new in \<open>auto simp: registry_initial_def\<close>)

lemma sample_joined_reachable: "reachable registry_initial registry_exec sample_joined"
  unfolding sample_joined_def by (rule sample_registry_reachable)

theorem removal_needs_proof_witness:
  "\<exists>pre obs post. sample_drained = pre @ ReUpdateDrain obs # post \<and> ws_WorkerID (do_Session obs) = ''w-1'' \<and>
    do_ActiveInvocations obs = 0 \<and> do_AssignmentsDrained obs \<and>
    (do_GatewayFencesAcked obs \<or> do_AuthorizationExpired obs) \<and>
    fst (UpdateDrain obs (run registry_exec pre sample_registry)) = Inr () \<and>
    ReSetIntent ''w-1'' IntentSchedulable \<notin> set post"
  by (rule removal_needs_proof [OF sample_registry_new]) code_simp

theorem evaluate_classifies_witness:
  "\<exists>rec. fmlookup (reg_workers (snd (Evaluate (7 * second) sample_joined))) ''w-1'' = Some rec \<and>
     wr_state rec \<noteq> SessionReady"
proof -
  have ok: "fst (Evaluate (7 * second) sample_joined) = Inr ()" by code_simp
  have rec: "fmlookup (reg_workers (snd (Evaluate (7 * second) sample_joined))) ''w-1'' =
      Some (the (fmlookup (reg_workers (snd (Evaluate (7 * second) sample_joined))) ''w-1''))"
    by (rule option.collapse [symmetric]) code_simp
  have "\<not> 7 * second - wr_lastHeartbeat (the (fmlookup (reg_workers
      (snd (Evaluate (7 * second) sample_joined))) ''w-1'')) < reg_suspectAfter sample_joined"
    by code_simp
  with evaluate_classifies [OF sample_joined_reachable ok rec] rec show ?thesis by blast
qed

theorem unhealthy_registry_not_ready_witness:
  "\<exists>rec. fmlookup (reg_workers (run registry_exec [ReHeartbeat (sample_session 1) 9]
       (registry_exec (ReEvaluate 1) sample_joined))) ''w-1'' = Some rec \<and> wr_state rec \<noteq> SessionReady"
proof -
  let ?r = "registry_exec (ReEvaluate 1) sample_joined"
  let ?r' = "run registry_exec [ReHeartbeat (sample_session 1) 9] ?r"
  have reach: "reachable registry_initial registry_exec ?r"
    by (rule reachable_exec) (rule sample_joined_reachable)
  have bad: "\<not> reg_clockHealthy ?r" by code_simp
  have rec: "fmlookup (reg_workers ?r') ''w-1'' = Some (the (fmlookup (reg_workers ?r') ''w-1''))"
    by (rule option.collapse [symmetric]) code_simp
  from unhealthy_registry_not_ready [OF reach bad rec] rec show ?thesis by blast
qed

theorem stale_session_rejected_witness:
  "fst (Heartbeat (sample_session 1) 9 (run registry_exec
     (ReCommit (sample_session 2) # [ReRegister (sample_session 2) 8]) sample_joined)) \<noteq> Inr ()"
proof -
  have "fst (CommitSession (sample_session 2) sample_joined) = Inr ()" by code_simp
  from stale_session_rejected [OF sample_joined_reachable this _ _ refl, of "sample_session 1" 9
      "[ReRegister (sample_session 2) 8]"]
  show ?thesis by (simp add: sample_session_def)
qed

theorem removed_is_final_witness:
  "fst (CommitSession (sample_session 2) (run registry_exec [ReEvaluate 5]
     (run registry_exec (sample_drained @ [ReSetIntent ''w-1'' IntentRemoved]) sample_registry))) \<noteq> Inr ()"
proof -
  let ?r = "run registry_exec (sample_drained @ [ReSetIntent ''w-1'' IntentRemoved]) sample_registry"
  have rec: "fmlookup (reg_workers ?r) ''w-1'' = Some (the (fmlookup (reg_workers ?r) ''w-1''))"
    by (rule option.collapse [symmetric]) code_simp
  have "wr_intent (the (fmlookup (reg_workers ?r) ''w-1'')) = IntentRemoved" by code_simp
  from removed_is_final [OF sample_registry_reachable rec this refl, of "[ReEvaluate 5]"]
  show ?thesis by (simp add: sample_session_def)
qed

theorem register_conflict_unreachable_witness:
  "fst (Register (sample_session 1) 3 sample_joined) \<noteq>
    Inl (classified CodeStaleAssignment ''another registration owns the current session'')"
  by (rule register_conflict_unreachable [OF sample_joined_reachable])

end
