(* ===== verification/GoTime.thy ===== *)
theory GoTime
  imports GoText
begin

text \<open>
  \<^verbatim>\<open>Time.Format\<close> of Go's package \<^verbatim>\<open>time\<close> for the one layout the program formats a timestamp
  with, \<^verbatim>\<open>time.RFC3339Nano\<close>: the civil date of an instant, the clock time of its day, the
  fraction of a second without trailing zeros, and the zone.
\<close>

subsection \<open>Decimal numbers of a given width\<close>

fun decimal :: "nat \<Rightarrow> string" where
  "decimal n = (if n < 10 then [char_of (48 + int n)]
     else decimal (n div 10) @ [char_of (48 + int (n mod 10))])"

declare decimal.simps [simp del]

definition append_int :: "int \<Rightarrow> nat \<Rightarrow> string" where
  "append_int n width =
    (let digits = decimal (nat \<bar>n\<bar>) in
     (if n < 0 then ''-'' else '''') @ replicate (width - length digits) (CHR ''0'') @ digits)"

subsection \<open>Civil dates\<close>

text \<open>
  The year is found by cutting the days since January 1, year 1 into cycles of 400, 100, 4
  and 1 years; the last cycle of 100 and of 1 may be a day longer, which \<open>capped\<close> accounts
  for (the source writes \<^verbatim>\<open>n -= n >> 2\<close>).
\<close>

definition capped :: "int \<Rightarrow> int" where
  "capped n = n - n div 4"

definition year_day :: "int \<Rightarrow> int \<times> int" where
  "year_day days =
    (let n400 = days div 146097; d400 = days mod 146097;
         n100 = capped (d400 div 36524); d100 = d400 - 36524 * n100;
         n4 = d100 div 1461; d4 = d100 - 1461 * n4;
         n1 = capped (d4 div 365); d1 = d4 - 365 * n1
     in (400 * n400 + 100 * n100 + 4 * n4 + n1 + 1, d1))"

definition isLeap :: "int \<Rightarrow> bool" where
  "isLeap year \<longleftrightarrow> year mod 4 = 0 \<and> (year mod 100 \<noteq> 0 \<or> year mod 400 = 0)"

definition daysBefore :: "int list" where
  "daysBefore = [0, 31, 59, 90, 120, 151, 181, 212, 243, 273, 304, 334, 365]"

definition month_day :: "bool \<Rightarrow> int \<Rightarrow> int \<times> int" where
  "month_day leap yday =
    (if leap \<and> yday = 59 then (2, 29)
     else
       (let day = (if leap \<and> yday > 59 then yday - 1 else yday);
            month = day div 31;
            after = daysBefore ! nat (month + 1)
        in if day \<ge> after then (month + 2, day - after + 1)
           else (month + 1, day - daysBefore ! nat month + 1)))"

subsection \<open>The layout\<close>

fun trim_zeros :: "string \<Rightarrow> string" where
  "trim_zeros s = (if s \<noteq> [] \<and> last s = CHR ''0'' then trim_zeros (butlast s) else s)"

declare trim_zeros.simps [simp del]

definition append_nano :: "int \<Rightarrow> string" where
  "append_nano nanos = (if nanos = 0 then '''' else ''.'' @ trim_zeros (append_int nanos 9))"

definition append_zone :: "int \<Rightarrow> string" where
  "append_zone offset =
    (if offset = 0 then ''Z''
     else let zone = \<bar>offset\<bar> div 60 in
       (if offset < 0 then ''-'' else ''+'') @ append_int (zone div 60) 2 @ '':'' @
       append_int (zone mod 60) 2)"

definition RFC3339Nano :: "Time \<Rightarrow> string" where
  "RFC3339Nano t =
    (let seconds = t_nanos t div 1000000000 + t_offset t;
         (year, yday) = year_day (seconds div 86400);
         (month, day) = month_day (isLeap year) yday;
         clock = seconds mod 86400
     in append_int year 4 @ ''-'' @ append_int month 2 @ ''-'' @ append_int day 2 @ ''T'' @
        append_int (clock div 3600) 2 @ '':'' @ append_int (clock mod 3600 div 60) 2 @ '':'' @
        append_int (clock mod 60) 2 @ append_nano (t_nanos t mod 1000000000) @
        append_zone (t_offset t))"

subsection \<open>A formatted timestamp determines the instant\<close>

lemma is_digit_char_of: "n < 10 \<Longrightarrow> is_digit (char_of (48 + int n))"
  using byte_val_digit [of "int n"] by (simp add: is_digit_def)

lemma decimal_digits: "list_all is_digit (decimal n)"
proof (induction n rule: decimal.induct)
  case (1 n)
  then show ?case
    by (subst decimal.simps) (auto intro!: is_digit_char_of)
qed

lemma decimal_nonempty [simp]: "decimal n \<noteq> []"
  by (subst decimal.simps) simp

lemma dec_value_snoc: "dec_value (s @ [c]) = 10 * dec_value s + (byte_val c - 48)"
  by (simp add: dec_value_def)

lemma dec_value_decimal: "dec_value (decimal n) = int n"
proof (induction n rule: decimal.induct)
  case (1 n)
  have digit: "byte_val (char_of (48 + int m)) - 48 = int m" if "m < 10" for m
    using that byte_val_digit [of "int m"] by simp
  show ?case
  proof (cases "n < 10")
    case True
    then show ?thesis using digit by (subst decimal.simps) (simp add: dec_value_def)
  next
    case False
    then show ?thesis
      using 1 digit [of "n mod 10"] by (subst decimal.simps) (simp add: dec_value_snoc zmod_int zdiv_int)
  qed
qed

lemma length_decimal: "0 < w \<Longrightarrow> n < 10 ^ w \<Longrightarrow> length (decimal n) \<le> w"
proof (induction w arbitrary: n)
  case (Suc w)
  show ?case
  proof (cases "n < 10")
    case False
    with Suc.prems have "0 < w" by (cases w) auto
    moreover have "n div 10 < 10 ^ w" using Suc.prems by (auto simp: div_less_iff_less_mult mult.commute)
    ultimately show ?thesis using Suc.IH [of "n div 10"] False by (subst decimal.simps) simp
  qed (subst decimal.simps, simp)
qed simp

lemma dec_value_zeros: "dec_value (replicate k (CHR ''0'') @ s) = dec_value s"
  by (induction k) (simp_all add: dec_value_Cons byte_val_def)

lemma append_int_value: "0 \<le> n \<Longrightarrow> dec_value (append_int n w) = n"
  by (simp add: append_int_def Let_def dec_value_zeros dec_value_decimal)

lemma append_int_digits: "0 \<le> n \<Longrightarrow> list_all is_digit (append_int n w)"
  using decimal_digits [of "nat n"] by (auto simp: append_int_def Let_def list_all_iff is_digit_def byte_val_def)

lemma length_append_int: "0 \<le> n \<Longrightarrow> n < 10 ^ w \<Longrightarrow> 0 < w \<Longrightarrow> length (append_int n w) = w"
  using length_decimal [of w "nat n"] by (simp add: append_int_def Let_def nat_less_iff)

lemma append_int_minus: "n < 0 \<Longrightarrow> append_int n w = CHR ''-'' # append_int (- n) (w)"
  by (simp add: append_int_def Let_def)

lemma digit_not: "is_digit c \<Longrightarrow> c \<noteq> CHR ''-'' \<and> c \<noteq> CHR ''T'' \<and> c \<noteq> CHR ''Z'' \<and> c \<noteq> CHR ''.''"
  by (auto simp: is_digit_def byte_val_def)

lemma append_int_head: "0 \<le> n \<Longrightarrow> append_int n w \<noteq> CHR ''-'' # s"
  using append_int_digits [of n w] digit_not by fastforce

lemma append_int_inject [simp]: "append_int m w = append_int n w \<longleftrightarrow> m = n"
proof
  assume eq: "append_int m w = append_int n w"
  consider "0 \<le> m" "0 \<le> n" | "m < 0" "n < 0" | "0 \<le> m" "n < 0" | "m < 0" "0 \<le> n" by linarith
  then show "m = n"
  proof cases
    case 1
    then show ?thesis using eq append_int_value by metis
  next
    case 2
    then have "append_int (- m) w = append_int (- n) w" using eq by (simp add: append_int_minus)
    then show ?thesis using 2 append_int_value by (metis neg_equal_iff_equal neg_0_le_iff_le less_imp_le)
  next
    case 3
    then show ?thesis using eq append_int_head by (metis append_int_minus)
  next
    case 4
    then show ?thesis using eq append_int_head by (metis append_int_minus)
  qed
qed simp

lemma trim_zeros_pad: "\<exists>k. s = trim_zeros s @ replicate k (CHR ''0'')"
proof (induction s rule: trim_zeros.induct)
  case (1 s)
  show ?case
  proof (cases "s \<noteq> [] \<and> last s = CHR ''0''")
    case True
    with 1 obtain k where "butlast s = trim_zeros (butlast s) @ replicate k (CHR ''0'')" by blast
    with True have "s = trim_zeros (butlast s) @ replicate (Suc k) (CHR ''0'')"
      by (metis append.assoc append_butlast_last_id replicate_append_same replicate_Suc)
    moreover have "trim_zeros s = trim_zeros (butlast s)" using True by (subst trim_zeros.simps) simp
    ultimately show ?thesis by (metis (no_types))
  next
    case False
    then show ?thesis by (subst trim_zeros.simps) (auto intro: exI [of _ 0])
  qed
qed

lemma trim_zeros_inject: "length s = length t \<Longrightarrow> trim_zeros s = trim_zeros t \<Longrightarrow> s = t"
  using trim_zeros_pad [of s] trim_zeros_pad [of t]
  by (metis append_same_eq length_append length_replicate add_left_cancel)

lemma append_nano_inject:
  assumes "0 \<le> m" "m < 1000000000" "0 \<le> n" "n < 1000000000" and eq: "append_nano m = append_nano n"
  shows "m = n"
proof (cases "m = 0 \<or> n = 0")
  case True
  with eq show ?thesis by (auto simp: append_nano_def split: if_splits)
next
  case False
  with eq have "trim_zeros (append_int m 9) = trim_zeros (append_int n 9)" by (simp add: append_nano_def)
  moreover have "length (append_int m 9) = 9" "length (append_int n 9) = 9"
    using assms by (simp_all add: length_append_int)
  ultimately have "append_int m 9 = append_int n 9" using trim_zeros_inject by metis
  then show ?thesis by simp
qed

text \<open>The days before the year and the day of the year, from the year and back.\<close>

lemma div_less: "d < n * k \<Longrightarrow> 0 < k \<Longrightarrow> d div k < n" for d n k :: int
proof -
  assume "d < n * k" "0 < k"
  moreover have "d = (d div k) * k + d mod k" "0 \<le> d mod k" using \<open>0 < k\<close> by simp_all
  ultimately have "(d div k) * k < n * k" by linarith
  with \<open>0 < k\<close> show ?thesis by simp
qed

lemma capped_cycle:
  assumes "0 < k" "0 \<le> d" "d \<le> 4 * k"
  shows "0 \<le> capped (d div k)" "capped (d div k) \<le> 3"
    "0 \<le> d - k * capped (d div k)" "d - k * capped (d div k) \<le> k"
proof -
  consider "d = 4 * k" | "d < 4 * k" using assms by linarith
  then have "0 \<le> capped (d div k) \<and> capped (d div k) \<le> 3 \<and>
      0 \<le> d - k * capped (d div k) \<and> d - k * capped (d div k) \<le> k"
  proof cases
    case 1
    then show ?thesis using assms by (simp add: capped_def)
  next
    case 2
    then have "d div k < 4" using assms(1) by (rule div_less)
    moreover have "0 \<le> d div k" using assms by (simp add: pos_imp_zdiv_nonneg_iff)
    ultimately have q: "0 \<le> d div k" "d div k < 4" by simp_all
    then have "capped (d div k) = d div k" by (simp add: capped_def)
    moreover have "d - k * (d div k) = d mod k" by (simp add: minus_mult_div_eq_mod)
    moreover have "0 \<le> d mod k" "d mod k < k" using assms by simp_all
    ultimately show ?thesis using q by simp
  qed
  then show "0 \<le> capped (d div k)" "capped (d div k) \<le> 3"
    "0 \<le> d - k * capped (d div k)" "d - k * capped (d div k) \<le> k" by simp_all
qed

lemma mixed_radix:
  fixes a b c e :: int
  assumes "0 \<le> b" "b \<le> 3" "0 \<le> c" "c \<le> 24" "0 \<le> e" "e \<le> 3"
  defines "n \<equiv> 400 * a + 100 * b + 4 * c + e"
  shows "n div 400 = a" "n mod 400 div 100 = b" "n mod 100 div 4 = c" "n mod 4 = e"
proof -
  show "n div 400 = a"
    by (rule int_div_pos_eq [where r = "100 * b + 4 * c + e"]) (use assms in simp_all)
  have "n mod 400 = 100 * b + 4 * c + e"
    by (rule int_mod_pos_eq [where q = a]) (use assms in simp_all)
  then show "n mod 400 div 100 = b"
    using int_div_pos_eq [of "100 * b + 4 * c + e" 100 b "4 * c + e"] assms by simp
  have "n mod 100 = 4 * c + e"
    by (rule int_mod_pos_eq [where q = "4 * a + b"]) (use assms in simp_all)
  then show "n mod 100 div 4 = c"
    using int_div_pos_eq [of "4 * c + e" 4 c e] assms by simp
  show "n mod 4 = e"
    by (rule int_mod_pos_eq [where q = "100 * a + 25 * b + c"]) (use assms in simp_all)
qed

lemma year_day_inverse:
  assumes "year_day days = (year, yday)"
  shows "0 \<le> yday" "yday \<le> 365"
    and "days = 146097 * ((year - 1) div 400) + 36524 * ((year - 1) mod 400 div 100) +
      1461 * ((year - 1) mod 100 div 4) + 365 * ((year - 1) mod 4) + yday"
proof -
  define n400 where "n400 = days div 146097"
  define d400 where "d400 = days mod 146097"
  define n100 where "n100 = capped (d400 div 36524)"
  define d100 where "d100 = d400 - 36524 * n100"
  define n4 where "n4 = d100 div 1461"
  define d4 where "d4 = d100 - 1461 * n4"
  define n1 where "n1 = capped (d4 div 365)"
  have year: "year = 400 * n400 + 100 * n100 + 4 * n4 + n1 + 1" and yday: "yday = d4 - 365 * n1"
    using assms by (auto simp: year_day_def Let_def n400_def d400_def n100_def d100_def n4_def d4_def n1_def)
  have "0 \<le> d400" "d400 < 146097" by (simp_all add: d400_def)
  then have n100: "0 \<le> n100" "n100 \<le> 3" "0 \<le> d100" "d100 \<le> 36524"
    using capped_cycle [of 36524 d400] by (simp_all add: n100_def d100_def)
  then have "n4 < 25" unfolding n4_def by (intro div_less) simp_all
  with n100(3) have n4: "0 \<le> n4" "n4 \<le> 24" by (simp_all add: n4_def pos_imp_zdiv_nonneg_iff)
  have "d4 = d100 mod 1461" by (simp add: d4_def n4_def minus_mult_div_eq_mod)
  then have "0 \<le> d4" "d4 < 1461" by simp_all
  then have n1: "0 \<le> n1" "n1 \<le> 3" "0 \<le> yday" "yday \<le> 365"
    using capped_cycle [of 365 d4] by (simp_all add: n1_def yday)
  show "0 \<le> yday" "yday \<le> 365" by (fact n1)+
  have "year - 1 = 400 * n400 + 100 * n100 + 4 * n4 + n1" by (simp add: year)
  then have "(year - 1) div 400 = n400" "(year - 1) mod 400 div 100 = n100"
    "(year - 1) mod 100 div 4 = n4" "(year - 1) mod 4 = n1"
    using mixed_radix [OF n100(1,2) n4 n1(1,2), of n400] by simp_all
  moreover have "days = 146097 * n400 + d400" by (simp add: n400_def d400_def)
  ultimately show "days = 146097 * ((year - 1) div 400) + 36524 * ((year - 1) mod 400 div 100) +
      1461 * ((year - 1) mod 100 div 4) + 365 * ((year - 1) mod 4) + yday"
    using yday d4_def d100_def by simp
qed

definition yday_of :: "bool \<Rightarrow> int \<times> int \<Rightarrow> int" where
  "yday_of leap md = daysBefore ! nat (fst md - 1) + snd md - 1 + (if leap \<and> fst md > 2 then 1 else 0)"

lemma month_day_table:
  "list_all (\<lambda>yday. list_all (\<lambda>leap. let md = month_day leap yday in
      yday_of leap md = yday \<and> 1 \<le> fst md \<and> fst md \<le> 13 \<and> 1 \<le> snd md \<and> snd md \<le> 31)
    [True, False]) [0..365]"
  by code_simp

lemma month_day_inverse:
  assumes "0 \<le> yday" "yday \<le> 365" "month_day leap yday = (month, day)"
  shows "yday_of leap (month, day) = yday" "0 \<le> month" "month < 100" "0 \<le> day" "day < 100"
proof -
  have "list_all (\<lambda>leap. let md = month_day leap yday in
      yday_of leap md = yday \<and> 1 \<le> fst md \<and> fst md \<le> 13 \<and> 1 \<le> snd md \<and> snd md \<le> 31) [True, False]"
  proof -
    have "yday \<in> set [0..365]" using assms(1,2) by simp
    then show ?thesis using month_day_table unfolding list_all_iff by blast
  qed
  then have "let md = month_day leap yday in
      yday_of leap md = yday \<and> 1 \<le> fst md \<and> fst md \<le> 13 \<and> 1 \<le> snd md \<and> snd md \<le> 31"
    by (cases leap) simp_all
  then show "yday_of leap (month, day) = yday" "0 \<le> month" "month < 100" "0 \<le> day" "day < 100"
    using assms(3) by (simp_all add: Let_def)
qed

lemma append_int_no_T: "CHR ''T'' \<notin> set (append_int n w)"
proof -
  have nonneg: "CHR ''T'' \<notin> set (append_int m w)" if "0 \<le> m" for m
    using append_int_digits [OF that, of w] digit_not unfolding list_all_iff by blast
  show ?thesis
  proof (cases "0 \<le> n")
    case False
    then have "append_int n w = CHR ''-'' # append_int (- n) w" by (simp add: append_int_minus)
    with nonneg [of "- n"] False show ?thesis by simp
  qed (rule nonneg)
qed

lemma clock_inject:
  assumes "0 \<le> s" "s < 86400" "0 \<le> s'" "s' < 86400"
    and "append_int (s div 3600) 2 @ CHR '':'' # append_int (s mod 3600 div 60) 2 @ CHR '':'' # append_int (s mod 60) 2 @ x =
      append_int (s' div 3600) 2 @ CHR '':'' # append_int (s' mod 3600 div 60) 2 @ CHR '':'' # append_int (s' mod 60) 2 @ x'"
  shows "s = s' \<and> x = x'"
proof -
  have two: "length (append_int n 2) = 2" if "0 \<le> n" "n < 100" for n
    using that by (simp add: length_append_int)
  have bounds: "0 \<le> t div 3600 \<and> t div 3600 < 100" "0 \<le> t mod 3600 div 60 \<and> t mod 3600 div 60 < 100"
    "0 \<le> t mod 60 \<and> t mod 60 < 100" if "0 \<le> t" "t < 86400" for t :: int
  proof -
    have "0 \<le> t mod 3600" "t mod 3600 < 3600" "0 \<le> t mod 60" "t mod 60 < 60" by simp_all
    then show "0 \<le> t div 3600 \<and> t div 3600 < 100" "0 \<le> t mod 3600 div 60 \<and> t mod 3600 div 60 < 100"
      "0 \<le> t mod 60 \<and> t mod 60 < 100"
      using that by (auto simp: pos_imp_zdiv_nonneg_iff intro!: div_less)
  qed
  note lens = two [OF conjunct1 conjunct2] bounds [OF assms(1,2)] bounds [OF assms(3,4)]
  have eqs: "s div 3600 = s' div 3600" "s mod 3600 div 60 = s' mod 3600 div 60" "s mod 60 = s' mod 60" "x = x'"
    using assms(5) lens two by (auto simp: append_eq_append_conv)
  have split: "t = 3600 * (t div 3600) + 60 * (t mod 3600 div 60) + t mod 60" for t :: int
  proof -
    have "t mod 3600 mod 60 = t mod 60" by (rule mod_mod_cancel) simp
    moreover have "t mod 3600 = 60 * (t mod 3600 div 60) + t mod 3600 mod 60" by simp
    moreover have "t = 3600 * (t div 3600) + t mod 3600" by simp
    ultimately show ?thesis by linarith
  qed
  have "s = s'" using split [of s] split [of s'] eqs by simp
  with eqs show ?thesis by simp
qed

lemma date_inject:
  assumes "append_int (fst (year_day d)) 4 @ CHR ''-'' # append_int (fst (month_day (isLeap (fst (year_day d))) (snd (year_day d)))) 2
      @ CHR ''-'' # append_int (snd (month_day (isLeap (fst (year_day d))) (snd (year_day d)))) 2 =
    append_int (fst (year_day d')) 4 @ CHR ''-'' # append_int (fst (month_day (isLeap (fst (year_day d'))) (snd (year_day d')))) 2
      @ CHR ''-'' # append_int (snd (month_day (isLeap (fst (year_day d'))) (snd (year_day d')))) 2"
  shows "d = d'"
proof -
  obtain y n where yn: "year_day d = (y, n)" by fastforce
  obtain y' n' where yn': "year_day d' = (y', n')" by fastforce
  obtain m k where mk: "month_day (isLeap y) n = (m, k)" by fastforce
  obtain m' k' where mk': "month_day (isLeap y') n' = (m', k')" by fastforce
  note inv = year_day_inverse [OF yn] and inv' = year_day_inverse [OF yn']
  note md = month_day_inverse [OF inv(1,2) mk] and md' = month_day_inverse [OF inv'(1,2) mk']
  have len: "length (append_int m 2) = 2" "length (append_int m' 2) = 2" "length (append_int k 2) = 2"
    "length (append_int k' 2) = 2"
    using md md' by (simp_all add: length_append_int)
  have "append_int y 4 @ (CHR ''-'' # append_int m 2 @ CHR ''-'' # append_int k 2) =
      append_int y' 4 @ (CHR ''-'' # append_int m' 2 @ CHR ''-'' # append_int k' 2)"
    using assms yn yn' mk mk' by simp
  then have "append_int y 4 = append_int y' 4 \<and> append_int m 2 @ CHR ''-'' # append_int k 2 =
      append_int m' 2 @ CHR ''-'' # append_int k' 2"
    using len by (subst (asm) append_eq_append_conv) simp_all
  then have eq: "y = y'" "m = m'" "k = k'" using len by (auto simp: append_eq_append_conv)
  then have "n = n'" using md(1) md'(1) by simp
  with eq inv(3) inv'(3) show ?thesis by simp
qed

lemma RFC3339Nano_inject:
  assumes utc: "t_offset t = 0" "t_offset u = 0"
  shows "RFC3339Nano t = RFC3339Nano u \<longleftrightarrow> t = u"
proof
  assume eq: "RFC3339Nano t = RFC3339Nano u"
  define date where "date s = (let (year, yday) = year_day (s div 86400);
      (month, day) = month_day (isLeap year) yday in
      append_int year 4 @ CHR ''-'' # append_int month 2 @ CHR ''-'' # append_int day 2)" for s
  define clock where "clock s = append_int (s div 3600) 2 @ CHR '':'' # append_int (s mod 3600 div 60) 2 @
      CHR '':'' # append_int (s mod 60) 2" for s
  let ?s = "\<lambda>x. t_nanos x div 1000000000" and ?n = "\<lambda>x. t_nanos x mod 1000000000"
  have format: "RFC3339Nano x = date (?s x) @ CHR ''T'' # clock (?s x mod 86400) @ append_nano (?n x) @ ''Z''"
    if "t_offset x = 0" for x
    using that by (simp add: RFC3339Nano_def date_def clock_def Let_def append_zone_def split_beta)
  have no_T: "CHR ''T'' \<notin> set (date s)" for s
    by (simp add: date_def Let_def split_beta append_int_no_T)
  have "date (?s t) = date (?s u)"
    and rest: "clock (?s t mod 86400) @ append_nano (?n t) @ ''Z'' = clock (?s u mod 86400) @ append_nano (?n u) @ ''Z''"
    using eq by (simp_all only: format utc sep_inject no_T not_False_eq_True)
  then have days: "?s t div 86400 = ?s u div 86400"
    by (intro date_inject) (simp add: date_def Let_def split_beta)
  have "?s t mod 86400 = ?s u mod 86400 \<and> append_nano (?n t) @ ''Z'' = append_nano (?n u) @ ''Z''"
    by (rule clock_inject) (use rest in \<open>simp_all add: clock_def\<close>)
  then have secs: "?s t mod 86400 = ?s u mod 86400" and "append_nano (?n t) = append_nano (?n u)" by simp_all
  then have "?n t = ?n u" by (intro append_nano_inject) simp_all
  moreover have "?s t = ?s u" using days secs by (metis div_mult_mod_eq)
  ultimately have "t_nanos t = t_nanos u" by (metis div_mult_mod_eq)
  then show "t = u" using utc by simp
qed simp

end
