(* ===== verification/ControlCatalog.thy ===== *)
theory ControlCatalog
  imports Model Machine GoTime
begin

text \<open>
  Package \<^verbatim>\<open>internal/controlplane\<close>, file \<^verbatim>\<open>catalog.go\<close>: the Function catalog with its default
  HTTP triggers, and its refinement of a catalog that is one map from Function identifiers
  to a Function and its trigger. The package's \<open>identifierPattern\<close> is the pattern \<open>idPattern\<close>
  of \<^verbatim>\<open>internal/model\<close>. Receivers are not nil.
\<close>

subsection \<open>Data\<close>

abbreviation DefaultMaxFunctions :: nat where "DefaultMaxFunctions \<equiv> 1000"

datatype AuthPolicy = AuthPolicyToken | AuthPolicyPublic | AuthPolicyOther string

record HTTPTrigger = Metadata +
  ht_FunctionID :: string
  ht_Enabled :: bool
  ht_AuthPolicy :: AuthPolicy
  ht_TokenVerifierDigest :: "SHA256 option"

definition HTTPTrigger_Validate :: "HTTPTrigger \<Rightarrow> error option" where
  "HTTPTrigger_Validate t = first_error
    [Metadata_Validate t,
     fail_if (\<not> idPattern (ht_FunctionID t)) (Invalid ''function_id'' ''must be a valid identifier''),
     (case ht_AuthPolicy t of
        AuthPolicyToken \<Rightarrow>
          (case ht_TokenVerifierDigest t of
             None \<Rightarrow> Some (Invalid ''token_verifier_digest'' ''is required for token authentication'')
           | Some d \<Rightarrow> fail_if (bad_digest d)
               (Invalid ''token_verifier_digest'' ''must be a lowercase SHA-256 digest''))
      | AuthPolicyPublic \<Rightarrow> fail_if (ht_TokenVerifierDigest t \<noteq> None)
          (Invalid ''token_verifier_digest'' ''is not allowed for public authentication'')
      | AuthPolicyOther _ \<Rightarrow> Some (Invalid ''auth_policy'' ''must be token or public''))]"

record CreateFunctionCommand =
  cf_IfNoneMatch :: bool
  cf_AppliedIndex :: u64
  cf_Function :: Function
  cf_Trigger :: HTTPTrigger

record RotateInvocationTokenCommand =
  ri_FunctionID :: string
  ri_ExpectedResourceRevision :: u64
  ri_TokenVerifierDigest :: SHA256
  ri_UpdatedAt :: Time
  ri_AppliedIndex :: u64

record SetFunctionLifecycleCommand =
  fl_FunctionID :: string
  fl_ExpectedResourceRevision :: u64
  fl_Lifecycle :: FunctionLifecycle
  fl_UpdatedAt :: Time
  fl_AppliedIndex :: u64

record Catalog =
  cat_functionsByID :: "(string, Function) fmap"
  cat_functionIDByName :: "(string, string) fmap"
  cat_triggersByID :: "(string, HTTPTrigger) fmap"
  cat_triggerIDByFunc :: "(string, string) fmap"

record CatalogSnapshot =
  cs_Functions :: "Function list"
  cs_Triggers :: "HTTPTrigger list"

definition NewCatalog :: Catalog where
  "NewCatalog =
    \<lparr>cat_functionsByID = fmempty, cat_functionIDByName = fmempty,
     cat_triggersByID = fmempty, cat_triggerIDByFunc = fmempty\<rparr>"

text \<open>The zero values that an absent key of a map yields.\<close>

definition zero_time :: Time where "zero_time = \<lparr>t_nanos = 0, t_offset = 0\<rparr>"

definition zero_function :: Function where
  "zero_function =
    \<lparr>m_ID = '''', m_Namespace = '''', m_CreatedAt = zero_time, m_UpdatedAt = zero_time,
     m_CreatedRaftIndex = 0, m_ResourceRevision = 0, f_Name = '''', f_Description = '''',
     f_ActiveRouteRevision = 0, f_Labels = fmempty, f_Lifecycle = FunctionLifecycleOther ''''\<rparr>"

definition zero_trigger :: HTTPTrigger where
  "zero_trigger =
    \<lparr>m_ID = '''', m_Namespace = '''', m_CreatedAt = zero_time, m_UpdatedAt = zero_time,
     m_CreatedRaftIndex = 0, m_ResourceRevision = 0, ht_FunctionID = '''', ht_Enabled = False,
     ht_AuthPolicy = AuthPolicyOther '''', ht_TokenVerifierDigest = None\<rparr>"

text \<open>\<open>validateUTC\<close> of \<^verbatim>\<open>operation.go\<close>, which every store of the package uses.\<close>

definition validateUTC :: "string \<Rightarrow> Time \<Rightarrow> error option" where
  "validateUTC field t = first_error
    [fail_if (Time_IsZero t) (Invalid field ''is required''),
     fail_if (t_offset t \<noteq> 0) (Invalid field ''must use UTC'')]"

subsection \<open>Operations\<close>

definition validateCreateFunction :: "CreateFunctionCommand \<Rightarrow> error option" where
  "validateCreateFunction command =
    (let function = cf_Function command; trigger = cf_Trigger command in first_error
      [fail_if (\<not> cf_IfNoneMatch command)
         (Invalid ''if_none_match'' ''is required when creating a function''),
       fail_if (cf_AppliedIndex command = 0)
         (Invalid ''applied_index'' ''must be greater than zero''),
       Function_Validate function,
       fail_if (f_Lifecycle function \<noteq> FunctionActive)
         (Invalid ''function.lifecycle'' ''must be Active when creating a function''),
       fail_if (f_ActiveRouteRevision function \<noteq> 0)
         (Invalid ''function.active_route_revision''
            ''must be zero before the first Route is published''),
       fail_if (m_CreatedRaftIndex function \<noteq> cf_AppliedIndex command \<or>
                m_ResourceRevision function \<noteq> 1)
         (Invalid ''function''
            ''must be created at this applied index with resource revision one''),
       HTTPTrigger_Validate trigger,
       fail_if (ht_FunctionID trigger \<noteq> m_ID function \<or> \<not> ht_Enabled trigger)
         (Invalid ''trigger'' ''must be enabled and belong to the created function''),
       fail_if (m_CreatedRaftIndex trigger \<noteq> cf_AppliedIndex command \<or>
                m_ResourceRevision trigger \<noteq> 1 \<or>
                \<not> Time_Equal (m_CreatedAt trigger) (m_CreatedAt function) \<or>
                \<not> Time_Equal (m_UpdatedAt trigger) (m_UpdatedAt function))
         (Invalid ''trigger'' ''must share the creation command and timestamp with its function'')])"

definition validateLifecycleCommand :: "SetFunctionLifecycleCommand \<Rightarrow> error option" where
  "validateLifecycleCommand command = first_error
    [fail_if (\<not> idPattern (fl_FunctionID command))
       (Invalid ''function_id'' ''must be a valid identifier''),
     fail_if (fl_ExpectedResourceRevision command = 0)
       (Invalid ''expected_resource_revision'' ''must be greater than zero''),
     fail_if (fl_Lifecycle command \<noteq> FunctionActive \<and> fl_Lifecycle command \<noteq> FunctionDisabled)
       (Invalid ''lifecycle'' ''must be Active or Disabled''),
     validateUTC ''updated_at'' (fl_UpdatedAt command),
     fail_if (fl_AppliedIndex command = 0)
       (Invalid ''applied_index'' ''must be greater than zero'')]"

definition validateRotateInvocationToken :: "RotateInvocationTokenCommand \<Rightarrow> error option" where
  "validateRotateInvocationToken command = first_error
    [fail_if (\<not> idPattern (ri_FunctionID command))
       (Invalid ''function_id'' ''must be a valid identifier''),
     fail_if (ri_ExpectedResourceRevision command = 0)
       (Invalid ''expected_resource_revision'' ''must be greater than zero''),
     fail_if (bad_digest (ri_TokenVerifierDigest command))
       (Invalid ''token_verifier_digest'' ''must be a lowercase SHA-256 digest''),
     validateUTC ''updated_at'' (ri_UpdatedAt command),
     fail_if (ri_AppliedIndex command = 0)
       (Invalid ''applied_index'' ''must be greater than zero'')]"

definition CreateFunction_checks :: "Catalog \<Rightarrow> CreateFunctionCommand \<Rightarrow> error option" where
  "CreateFunction_checks c command = first_error
    [validateCreateFunction command,
     fail_if (map_has (cat_functionsByID c) (m_ID (cf_Function command)))
       (classified CodeConflict ''function id already exists''),
     fail_if (map_has (cat_functionIDByName c) (f_Name (cf_Function command)))
       (classified CodeConflict ''function name already exists''),
     fail_if (map_has (cat_triggersByID c) (m_ID (cf_Trigger command)))
       (classified CodeConflict ''trigger id already exists''),
     fail_if (map_has (cat_triggerIDByFunc c) (m_ID (cf_Function command)))
       (classified CodeConflict ''function already has a default HTTP trigger''),
     fail_if (map_len (cat_functionsByID c) \<ge> DefaultMaxFunctions)
       (classified CodeOverloaded ''function catalog is full'')]"

definition CreateFunction :: "CreateFunctionCommand \<Rightarrow> (error, Catalog, CatalogSnapshot) operation" where
  "CreateFunction command c =
    (let function = cf_Function command; trigger = cf_Trigger command in
     check (CreateFunction_checks c command) c
       (Inr \<lparr>cs_Functions = [function], cs_Triggers = [trigger]\<rparr>,
        c\<lparr>cat_functionsByID := fmupd (m_ID function) function (cat_functionsByID c),
          cat_functionIDByName := fmupd (f_Name function) (m_ID function) (cat_functionIDByName c),
          cat_triggersByID := fmupd (m_ID trigger) trigger (cat_triggersByID c),
          cat_triggerIDByFunc := fmupd (m_ID function) (m_ID trigger) (cat_triggerIDByFunc c)\<rparr>))"

definition SetFunctionLifecycle :: "SetFunctionLifecycleCommand \<Rightarrow> (error, Catalog, Function) operation" where
  "SetFunctionLifecycle command c =
    check (validateLifecycleCommand command) c
    (case fmlookup (cat_functionsByID c) (fl_FunctionID command) of
       None \<Rightarrow> (Inl (classified CodeNotFound ''function was not found''), c)
     | Some function \<Rightarrow>
         if m_ResourceRevision function \<noteq> fl_ExpectedResourceRevision command
           then (Inl (RevisionConflict ''resource_revision'' (fl_ExpectedResourceRevision command)
                   (m_ResourceRevision function)), c)
         else if f_Lifecycle function \<noteq> FunctionActive \<and> f_Lifecycle function \<noteq> FunctionDisabled
           then (Inl (classified CodeConflict
                   ''function lifecycle cannot be changed in its current state''), c)
         else if f_Lifecycle function = fl_Lifecycle command then (Inr function, c)
         else
           (let function' = function\<lparr>f_Lifecycle := fl_Lifecycle command,
                  m_UpdatedAt := Time_Round0 (fl_UpdatedAt command),
                  m_ResourceRevision := m_ResourceRevision function + 1\<rparr> in
            case Function_Validate function' of
              Some e \<Rightarrow> (Inl (Wrapped ''validating updated function'' e), c)
            | None \<Rightarrow> (Inr function', c\<lparr>cat_functionsByID :=
                fmupd (m_ID function') function' (cat_functionsByID c)\<rparr>)))"

definition RotateInvocationToken ::
  "RotateInvocationTokenCommand \<Rightarrow> (error, Catalog, HTTPTrigger) operation" where
  "RotateInvocationToken command c =
    check (validateRotateInvocationToken command) c
    (case fmlookup (cat_triggerIDByFunc c) (ri_FunctionID command) of
       None \<Rightarrow> (Inl (classified CodeNotFound ''function was not found''), c)
     | Some triggerID \<Rightarrow>
         (case fmlookup (cat_triggersByID c) triggerID of
            None \<Rightarrow> (Inl (Opaque ''catalog invariant: function has no default HTTP trigger''), c)
          | Some trigger \<Rightarrow>
              if m_ResourceRevision trigger \<noteq> ri_ExpectedResourceRevision command
                then (Inl (RevisionConflict ''resource_revision''
                        (ri_ExpectedResourceRevision command) (m_ResourceRevision trigger)), c)
              else if ht_AuthPolicy trigger \<noteq> AuthPolicyToken
                then (Inl (classified CodeConflict
                        ''public HTTP trigger has no invocation token''), c)
              else if ht_TokenVerifierDigest trigger = Some (ri_TokenVerifierDigest command)
                then (Inl (classified CodeConflict
                        ''invocation token verifier did not change''), c)
              else
                (let trigger' = trigger
                       \<lparr>ht_TokenVerifierDigest := Some (ri_TokenVerifierDigest command),
                        m_UpdatedAt := Time_Round0 (ri_UpdatedAt command),
                        m_ResourceRevision := m_ResourceRevision trigger + 1\<rparr> in
                 case HTTPTrigger_Validate trigger' of
                   Some e \<Rightarrow> (Inl (Wrapped ''validating rotated HTTP trigger'' e), c)
                 | None \<Rightarrow> (Inr trigger', c\<lparr>cat_triggersByID :=
                     fmupd triggerID trigger' (cat_triggersByID c)\<rparr>))))"

definition GetFunction :: "Catalog \<Rightarrow> string \<Rightarrow> error + Function \<times> HTTPTrigger" where
  "GetFunction c functionID =
    (if \<not> idPattern functionID
       then Inl (Invalid ''function_id'' ''must be a valid identifier'')
     else case fmlookup (cat_functionsByID c) functionID of
         None \<Rightarrow> Inl (classified CodeNotFound ''function was not found'')
       | Some function \<Rightarrow>
           (case fmlookup (cat_triggersByID c) (map_get '''' (cat_triggerIDByFunc c) functionID) of
              None \<Rightarrow> Inl (Opaque ''catalog invariant: function has no default HTTP trigger'')
            | Some trigger \<Rightarrow> Inr (function, trigger)))"

definition GetFunctionByName :: "Catalog \<Rightarrow> string \<Rightarrow> error + Function \<times> HTTPTrigger" where
  "GetFunctionByName c name =
    (case fmlookup (cat_functionIDByName c) name of
       None \<Rightarrow> Inl (classified CodeNotFound ''function was not found'')
     | Some functionID \<Rightarrow>
         Inr (map_get zero_function (cat_functionsByID c) functionID,
              map_get zero_trigger (cat_triggersByID c)
                (map_get '''' (cat_triggerIDByFunc c) functionID)))"

definition compareFunction :: "Function \<Rightarrow> Function \<Rightarrow> int" where
  "compareFunction left right =
    (if m_CreatedRaftIndex left < m_CreatedRaftIndex right then - 1
     else if m_CreatedRaftIndex left > m_CreatedRaftIndex right then 1
     else compare_lin (m_ID left) (m_ID right))"

definition snapshotLocked :: "Catalog \<Rightarrow> CatalogSnapshot" where
  "snapshotLocked c =
    (let functions = sort_by compareFunction (map_values (cat_functionsByID c)) in
     \<lparr>cs_Functions = functions,
      cs_Triggers = map (\<lambda>function. map_get zero_trigger (cat_triggersByID c)
        (map_get '''' (cat_triggerIDByFunc c) (m_ID function))) functions\<rparr>)"

subsection \<open>The invariant\<close>

definition lifecycle_ok :: "Function \<Rightarrow> bool" where
  "lifecycle_ok f \<longleftrightarrow> f_Lifecycle f = FunctionActive \<or> f_Lifecycle f = FunctionDisabled"

text \<open>
  The four maps describe one set of Functions: each has its own name and one enabled trigger,
  and no index holds anything else.
\<close>

definition function_entry :: "Catalog \<Rightarrow> string \<Rightarrow> Function \<Rightarrow> bool" where
  "function_entry c i f \<longleftrightarrow>
     m_ID f = i \<and> Function_Validate f = None \<and> lifecycle_ok f \<and>
     fmlookup (cat_functionIDByName c) (f_Name f) = Some i \<and>
     map_has (cat_triggerIDByFunc c) i"

definition trigger_entry :: "Catalog \<Rightarrow> string \<Rightarrow> HTTPTrigger \<Rightarrow> bool" where
  "trigger_entry c t tr \<longleftrightarrow>
     m_ID tr = t \<and> HTTPTrigger_Validate tr = None \<and> ht_Enabled tr \<and>
     fmlookup (cat_triggerIDByFunc c) (ht_FunctionID tr) = Some t"

definition catalog_inv :: "Catalog \<Rightarrow> bool" where
  "catalog_inv c \<longleftrightarrow>
     (\<forall>i f. fmlookup (cat_functionsByID c) i = Some f \<longrightarrow> function_entry c i f) \<and>
     (\<forall>t tr. fmlookup (cat_triggersByID c) t = Some tr \<longrightarrow> trigger_entry c t tr) \<and>
     (\<forall>n i. fmlookup (cat_functionIDByName c) n = Some i \<longrightarrow>
        (\<exists>f. fmlookup (cat_functionsByID c) i = Some f \<and> f_Name f = n)) \<and>
     (\<forall>i t. fmlookup (cat_triggerIDByFunc c) i = Some t \<longrightarrow>
        map_has (cat_functionsByID c) i \<and>
        (\<exists>tr. fmlookup (cat_triggersByID c) t = Some tr \<and> ht_FunctionID tr = i)) \<and>
     map_len (cat_functionsByID c) \<le> DefaultMaxFunctions"

lemma catalog_invD:
  assumes "catalog_inv c"
  shows catalog_function: "fmlookup (cat_functionsByID c) i = Some f \<Longrightarrow> function_entry c i f"
    and catalog_trigger: "fmlookup (cat_triggersByID c) t = Some tr \<Longrightarrow> trigger_entry c t tr"
    and catalog_name: "fmlookup (cat_functionIDByName c) n = Some i \<Longrightarrow>
      \<exists>f. fmlookup (cat_functionsByID c) i = Some f \<and> f_Name f = n"
    and catalog_index: "fmlookup (cat_triggerIDByFunc c) i = Some t \<Longrightarrow>
      map_has (cat_functionsByID c) i \<and>
      (\<exists>tr. fmlookup (cat_triggersByID c) t = Some tr \<and> ht_FunctionID tr = i)"
    and catalog_bound: "map_len (cat_functionsByID c) \<le> DefaultMaxFunctions"
  using assms unfolding catalog_inv_def by blast+

text \<open>The trigger of a Function, found through the index.\<close>

definition function_trigger :: "Catalog \<Rightarrow> string \<Rightarrow> HTTPTrigger" where
  "function_trigger c i = map_get zero_trigger (cat_triggersByID c) (map_get '''' (cat_triggerIDByFunc c) i)"

lemma function_trigger_found:
  assumes "catalog_inv c" and "fmlookup (cat_functionsByID c) i = Some f"
  obtains t tr where "fmlookup (cat_triggerIDByFunc c) i = Some t"
    "fmlookup (cat_triggersByID c) t = Some tr" "ht_FunctionID tr = i" "function_trigger c i = tr"
proof -
  obtain t where t: "fmlookup (cat_triggerIDByFunc c) i = Some t"
    using catalog_function [OF assms] by (auto simp: function_entry_def map_has_iff)
  then obtain tr where "fmlookup (cat_triggersByID c) t = Some tr" "ht_FunctionID tr = i"
    using catalog_index [OF assms(1)] by blast
  with t show thesis by (intro that) (auto simp: function_trigger_def map_get_def)
qed

lemma catalog_inv_NewCatalog: "catalog_inv NewCatalog"
  by (simp add: catalog_inv_def NewCatalog_def)

lemma catalog_inv_put_function:
  assumes inv: "catalog_inv c" and old: "fmlookup (cat_functionsByID c) i = Some f"
    and new: "m_ID f' = i" "f_Name f' = f_Name f" "Function_Validate f' = None" "lifecycle_ok f'"
  shows "catalog_inv (c\<lparr>cat_functionsByID := fmupd i f' (cat_functionsByID c)\<rparr>)"
  unfolding catalog_inv_def
proof (intro conjI allI impI)
  let ?c = "c\<lparr>cat_functionsByID := fmupd i f' (cat_functionsByID c)\<rparr>"
  fix j g assume "fmlookup (cat_functionsByID ?c) j = Some g"
  then show "function_entry ?c j g"
    using catalog_function [OF inv] old new by (auto simp: function_entry_def split: if_splits)
next
  fix n j assume "fmlookup (cat_functionIDByName (c\<lparr>cat_functionsByID := fmupd i f' (cat_functionsByID c)\<rparr>)) n = Some j"
  then show "\<exists>g. fmlookup (cat_functionsByID (c\<lparr>cat_functionsByID := fmupd i f' (cat_functionsByID c)\<rparr>)) j = Some g \<and> f_Name g = n"
    using catalog_name [OF inv, of n j] old new by auto
qed (use catalog_trigger [OF inv] catalog_index [OF inv] catalog_bound [OF inv] old
     in \<open>auto simp: trigger_entry_def\<close>)

lemma catalog_inv_put_trigger:
  assumes inv: "catalog_inv c" and old: "fmlookup (cat_triggersByID c) t = Some tr"
    and new: "m_ID tr' = t" "ht_FunctionID tr' = ht_FunctionID tr" "HTTPTrigger_Validate tr' = None"
      "ht_Enabled tr'"
  shows "catalog_inv (c\<lparr>cat_triggersByID := fmupd t tr' (cat_triggersByID c)\<rparr>)"
  unfolding catalog_inv_def
proof (intro conjI allI impI)
  let ?c = "c\<lparr>cat_triggersByID := fmupd t tr' (cat_triggersByID c)\<rparr>"
  fix u x assume "fmlookup (cat_triggersByID ?c) u = Some x"
  then show "trigger_entry ?c u x"
    using catalog_trigger [OF inv] old new by (auto simp: trigger_entry_def split: if_splits)
next
  fix i f assume "fmlookup (cat_functionsByID (c\<lparr>cat_triggersByID := fmupd t tr' (cat_triggersByID c)\<rparr>)) i = Some f"
  then show "function_entry (c\<lparr>cat_triggersByID := fmupd t tr' (cat_triggersByID c)\<rparr>) i f"
    using catalog_function [OF inv] by (auto simp: function_entry_def)
next
  fix i u assume "fmlookup (cat_triggerIDByFunc (c\<lparr>cat_triggersByID := fmupd t tr' (cat_triggersByID c)\<rparr>)) i = Some u"
  then have "\<exists>x. fmlookup (cat_triggersByID c) u = Some x \<and> ht_FunctionID x = i"
    using catalog_index [OF inv, of i u] by simp
  then show "\<exists>x. fmlookup (cat_triggersByID (c\<lparr>cat_triggersByID := fmupd t tr' (cat_triggersByID c)\<rparr>)) u = Some x
      \<and> ht_FunctionID x = i"
    using old new by auto
qed (use catalog_name [OF inv] catalog_index [OF inv] catalog_bound [OF inv] in auto)

subsection \<open>What each operation does\<close>

lemma CreateFunction_cases:
  obtains (error) e where "CreateFunction_checks c command = Some e" "CreateFunction command c = (Inl e, c)"
  | (created) "CreateFunction_checks c command = None"
      "CreateFunction command c =
        (Inr \<lparr>cs_Functions = [cf_Function command], cs_Triggers = [cf_Trigger command]\<rparr>,
         c\<lparr>cat_functionsByID := fmupd (m_ID (cf_Function command)) (cf_Function command) (cat_functionsByID c),
           cat_functionIDByName := fmupd (f_Name (cf_Function command)) (m_ID (cf_Function command)) (cat_functionIDByName c),
           cat_triggersByID := fmupd (m_ID (cf_Trigger command)) (cf_Trigger command) (cat_triggersByID c),
           cat_triggerIDByFunc := fmupd (m_ID (cf_Function command)) (m_ID (cf_Trigger command)) (cat_triggerIDByFunc c)\<rparr>)"
  by (cases "CreateFunction_checks c command") (simp_all add: CreateFunction_def Let_def)

lemma validateCreateFunction_None:
  assumes "validateCreateFunction command = None"
  shows "Function_Validate (cf_Function command) = None" "HTTPTrigger_Validate (cf_Trigger command) = None"
    "f_Lifecycle (cf_Function command) = FunctionActive" "f_ActiveRouteRevision (cf_Function command) = 0"
    "ht_FunctionID (cf_Trigger command) = m_ID (cf_Function command)" "ht_Enabled (cf_Trigger command)"
    "m_ResourceRevision (cf_Function command) = 1" "m_ResourceRevision (cf_Trigger command) = 1"
    "m_CreatedRaftIndex (cf_Function command) = cf_AppliedIndex command"
  using assms by (simp_all add: validateCreateFunction_def Let_def)

lemma CreateFunction_checks_None:
  assumes "CreateFunction_checks c command = None"
  shows "validateCreateFunction command = None"
    "fmlookup (cat_functionsByID c) (m_ID (cf_Function command)) = None"
    "fmlookup (cat_functionIDByName c) (f_Name (cf_Function command)) = None"
    "fmlookup (cat_triggersByID c) (m_ID (cf_Trigger command)) = None"
    "fmlookup (cat_triggerIDByFunc c) (m_ID (cf_Function command)) = None"
    "map_len (cat_functionsByID c) < DefaultMaxFunctions"
  using assms by (simp_all add: CreateFunction_checks_def map_has_def)

definition with_lifecycle :: "SetFunctionLifecycleCommand \<Rightarrow> Function \<Rightarrow> Function" where
  "with_lifecycle command f = f\<lparr>f_Lifecycle := fl_Lifecycle command,
     m_UpdatedAt := fl_UpdatedAt command, m_ResourceRevision := m_ResourceRevision f + 1\<rparr>"

text \<open>What a lifecycle change requires of the Function it finds.\<close>

definition changes_lifecycle :: "SetFunctionLifecycleCommand \<Rightarrow> Function \<Rightarrow> bool" where
  "changes_lifecycle command f \<longleftrightarrow> m_ResourceRevision f = fl_ExpectedResourceRevision command \<and>
     lifecycle_ok f \<and> f_Lifecycle f \<noteq> fl_Lifecycle command \<and>
     Function_Validate (with_lifecycle command f) = None"

definition keeps_lifecycle :: "SetFunctionLifecycleCommand \<Rightarrow> Function \<Rightarrow> bool" where
  "keeps_lifecycle command f \<longleftrightarrow> m_ResourceRevision f = fl_ExpectedResourceRevision command \<and>
     lifecycle_ok f \<and> f_Lifecycle f = fl_Lifecycle command"

lemma SetFunctionLifecycle_cases:
  obtains (error) e where "SetFunctionLifecycle command c = (Inl e, c)"
  | (same) f where "validateLifecycleCommand command = None"
      "fmlookup (cat_functionsByID c) (fl_FunctionID command) = Some f" "keeps_lifecycle command f"
      "SetFunctionLifecycle command c = (Inr f, c)"
  | (changed) f where "validateLifecycleCommand command = None"
      "fmlookup (cat_functionsByID c) (fl_FunctionID command) = Some f" "changes_lifecycle command f"
      "SetFunctionLifecycle command c = (Inr (with_lifecycle command f), c\<lparr>cat_functionsByID :=
         fmupd (m_ID f) (with_lifecycle command f) (cat_functionsByID c)\<rparr>)"
proof -
  consider
      (change) f where "validateLifecycleCommand command = None"
        "fmlookup (cat_functionsByID c) (fl_FunctionID command) = Some f" "changes_lifecycle command f"
    | (keep) f where "validateLifecycleCommand command = None"
        "fmlookup (cat_functionsByID c) (fl_FunctionID command) = Some f" "keeps_lifecycle command f"
    | (neither) "\<forall>f. validateLifecycleCommand command = None \<longrightarrow>
        fmlookup (cat_functionsByID c) (fl_FunctionID command) = Some f \<longrightarrow>
        \<not> changes_lifecycle command f \<and> \<not> keeps_lifecycle command f"
    by blast
  then show thesis
  proof cases
    case (change f)
    then have "SetFunctionLifecycle command c = (Inr (with_lifecycle command f), c\<lparr>cat_functionsByID :=
         fmupd (m_ID f) (with_lifecycle command f) (cat_functionsByID c)\<rparr>)"
      by (auto simp: SetFunctionLifecycle_def changes_lifecycle_def with_lifecycle_def lifecycle_ok_def Let_def)
    with change changed show thesis by blast
  next
    case (keep f)
    then have "SetFunctionLifecycle command c = (Inr f, c)"
      by (auto simp: SetFunctionLifecycle_def keeps_lifecycle_def lifecycle_ok_def)
    with keep same show thesis by blast
  next
    case neither
    then have "\<exists>e. SetFunctionLifecycle command c = (Inl e, c)"
      by (auto simp: SetFunctionLifecycle_def changes_lifecycle_def keeps_lifecycle_def
          with_lifecycle_def lifecycle_ok_def check_def Let_def split: option.splits)
    with error show thesis by blast
  qed
qed

definition with_verifier :: "RotateInvocationTokenCommand \<Rightarrow> HTTPTrigger \<Rightarrow> HTTPTrigger" where
  "with_verifier command tr = tr\<lparr>ht_TokenVerifierDigest := Some (ri_TokenVerifierDigest command),
     m_UpdatedAt := ri_UpdatedAt command, m_ResourceRevision := m_ResourceRevision tr + 1\<rparr>"

text \<open>What a rotation requires of the trigger it finds.\<close>

definition rotates :: "RotateInvocationTokenCommand \<Rightarrow> HTTPTrigger \<Rightarrow> bool" where
  "rotates command tr \<longleftrightarrow> m_ResourceRevision tr = ri_ExpectedResourceRevision command \<and>
     ht_AuthPolicy tr = AuthPolicyToken \<and>
     ht_TokenVerifierDigest tr \<noteq> Some (ri_TokenVerifierDigest command) \<and>
     HTTPTrigger_Validate (with_verifier command tr) = None"

lemma RotateInvocationToken_cases:
  obtains (error) e where "RotateInvocationToken command c = (Inl e, c)"
  | (rotated) t tr where "validateRotateInvocationToken command = None"
      "fmlookup (cat_triggerIDByFunc c) (ri_FunctionID command) = Some t"
      "fmlookup (cat_triggersByID c) t = Some tr" "rotates command tr"
      "RotateInvocationToken command c = (Inr (with_verifier command tr), c\<lparr>cat_triggersByID :=
         fmupd t (with_verifier command tr) (cat_triggersByID c)\<rparr>)"
proof (cases "validateRotateInvocationToken command = None \<and>
    (\<exists>t tr. fmlookup (cat_triggerIDByFunc c) (ri_FunctionID command) = Some t \<and>
      fmlookup (cat_triggersByID c) t = Some tr \<and> rotates command tr)")
  case True
  then obtain t tr where found: "validateRotateInvocationToken command = None"
    "fmlookup (cat_triggerIDByFunc c) (ri_FunctionID command) = Some t"
    "fmlookup (cat_triggersByID c) t = Some tr" "rotates command tr" by blast
  have "RotateInvocationToken command c = (Inr (with_verifier command tr), c\<lparr>cat_triggersByID :=
         fmupd t (with_verifier command tr) (cat_triggersByID c)\<rparr>)"
    using found by (auto simp: RotateInvocationToken_def rotates_def with_verifier_def Let_def)
  with found rotated show thesis by blast
next
  case False
  then have "\<exists>e. RotateInvocationToken command c = (Inl e, c)"
    by (auto simp: RotateInvocationToken_def rotates_def with_verifier_def check_def Let_def
        split: option.splits)
  with error show thesis by blast
qed

subsection \<open>The operations keep the invariant\<close>

lemma catalog_inv_CreateFunction:
  assumes inv: "catalog_inv c"
  shows "catalog_inv (snd (CreateFunction command c))"
proof (cases rule: CreateFunction_cases [of c command])
  case created
  note ok = CreateFunction_checks_None [OF created(1)]
  note command = validateCreateFunction_None [OF ok(1)]
  let ?f = "cf_Function command" and ?t = "cf_Trigger command"
  let ?c = "snd (CreateFunction command c)"
  have c: "cat_functionsByID ?c = fmupd (m_ID ?f) ?f (cat_functionsByID c)"
    "cat_functionIDByName ?c = fmupd (f_Name ?f) (m_ID ?f) (cat_functionIDByName c)"
    "cat_triggersByID ?c = fmupd (m_ID ?t) ?t (cat_triggersByID c)"
    "cat_triggerIDByFunc ?c = fmupd (m_ID ?f) (m_ID ?t) (cat_triggerIDByFunc c)"
    using created by simp_all
  show ?thesis
    unfolding catalog_inv_def
  proof (intro conjI allI impI)
    fix i f assume "fmlookup (cat_functionsByID ?c) i = Some f"
    then show "function_entry ?c i f"
      using catalog_function [OF inv, of i f] ok command
      by (auto simp: function_entry_def c lifecycle_ok_def split: if_splits)
  next
    fix t tr assume "fmlookup (cat_triggersByID ?c) t = Some tr"
    then show "trigger_entry ?c t tr"
      using catalog_trigger [OF inv, of t tr] ok command
      by (auto simp: trigger_entry_def c split: if_splits)
  next
    fix n i assume "fmlookup (cat_functionIDByName ?c) n = Some i"
    then show "\<exists>f. fmlookup (cat_functionsByID ?c) i = Some f \<and> f_Name f = n"
      using catalog_name [OF inv, of n i] ok by (auto simp: c split: if_splits)
  next
    fix i t assume "fmlookup (cat_triggerIDByFunc ?c) i = Some t"
    then show "\<exists>tr. fmlookup (cat_triggersByID ?c) t = Some tr \<and> ht_FunctionID tr = i"
      using catalog_index [OF inv, of i t] ok command by (auto simp: c split: if_splits)
  qed (use catalog_index [OF inv] ok in \<open>auto simp: c split: if_splits\<close>)
qed (use inv in simp)

lemma with_lifecycle_simps [simp]:
  "m_ID (with_lifecycle command f) = m_ID f" "f_Name (with_lifecycle command f) = f_Name f"
  "f_Lifecycle (with_lifecycle command f) = fl_Lifecycle command"
  "f_ActiveRouteRevision (with_lifecycle command f) = f_ActiveRouteRevision f"
  "m_ResourceRevision (with_lifecycle command f) = m_ResourceRevision f + 1"
  by (simp_all add: with_lifecycle_def)

lemma with_verifier_simps [simp]:
  "m_ID (with_verifier command tr) = m_ID tr" "ht_FunctionID (with_verifier command tr) = ht_FunctionID tr"
  "ht_Enabled (with_verifier command tr) = ht_Enabled tr"
  "m_ResourceRevision (with_verifier command tr) = m_ResourceRevision tr + 1"
  by (simp_all add: with_verifier_def)

lemma validateLifecycleCommand_None:
  "validateLifecycleCommand command = None \<Longrightarrow>
     fl_Lifecycle command = FunctionActive \<or> fl_Lifecycle command = FunctionDisabled"
  by (auto simp: validateLifecycleCommand_def)

lemma catalog_inv_SetFunctionLifecycle:
  assumes inv: "catalog_inv c"
  shows "catalog_inv (snd (SetFunctionLifecycle command c))"
proof (cases rule: SetFunctionLifecycle_cases [of command c])
  case (changed f)
  have "m_ID f = fl_FunctionID command"
    using catalog_function [OF inv changed(2)] by (simp add: function_entry_def)
  then show ?thesis
    using catalog_inv_put_function [OF inv changed(2), of "with_lifecycle command f"] changed
      validateLifecycleCommand_None [OF changed(1)]
    by (simp add: changes_lifecycle_def lifecycle_ok_def)
qed (use inv in simp_all)

lemma catalog_inv_RotateInvocationToken:
  assumes inv: "catalog_inv c"
  shows "catalog_inv (snd (RotateInvocationToken command c))"
proof (cases rule: RotateInvocationToken_cases [of command c])
  case (rotated t tr)
  have "m_ID tr = t" "ht_Enabled tr"
    using catalog_trigger [OF inv rotated(3)] by (simp_all add: trigger_entry_def)
  then show ?thesis
    using catalog_inv_put_trigger [OF inv rotated(3), of "with_verifier command tr"] rotated
    by (simp add: rotates_def)
qed (use inv in simp_all)

subsection \<open>Refinement\<close>

text \<open>
  What the catalog promises: one map from Function identifiers to a Function with its
  trigger. The abstraction reads it off the four maps, and the operations below are those
  of the catalog on that one map.
\<close>

type_synonym catalog_view = "(string, Function \<times> HTTPTrigger) fmap"

definition catalog_view :: "Catalog \<Rightarrow> catalog_view" where
  "catalog_view c = fmmap_keys (\<lambda>i f. (f, function_trigger c i)) (cat_functionsByID c)"

definition view_has :: "(Function \<times> HTTPTrigger \<Rightarrow> bool) \<Rightarrow> catalog_view \<Rightarrow> bool" where
  "view_has P m \<longleftrightarrow> list_ex P (map_values m)"

definition view_CreateFunction :: "CreateFunctionCommand \<Rightarrow> (error, catalog_view, CatalogSnapshot) operation" where
  "view_CreateFunction command m =
    (let function = cf_Function command; trigger = cf_Trigger command in
     check (first_error
       [validateCreateFunction command,
        fail_if (map_has m (m_ID function)) (classified CodeConflict ''function id already exists''),
        fail_if (view_has (\<lambda>(f, t). f_Name f = f_Name function) m)
          (classified CodeConflict ''function name already exists''),
        fail_if (view_has (\<lambda>(f, t). m_ID t = m_ID trigger) m)
          (classified CodeConflict ''trigger id already exists''),
        fail_if (map_len m \<ge> DefaultMaxFunctions)
          (classified CodeOverloaded ''function catalog is full'')]) m
       (Inr \<lparr>cs_Functions = [function], cs_Triggers = [trigger]\<rparr>,
        fmupd (m_ID function) (function, trigger) m))"

definition view_SetFunctionLifecycle ::
  "SetFunctionLifecycleCommand \<Rightarrow> (error, catalog_view, Function) operation" where
  "view_SetFunctionLifecycle command m =
    check (validateLifecycleCommand command) m
    (case fmlookup m (fl_FunctionID command) of
       None \<Rightarrow> (Inl (classified CodeNotFound ''function was not found''), m)
     | Some (function, trigger) \<Rightarrow>
         if m_ResourceRevision function \<noteq> fl_ExpectedResourceRevision command
           then (Inl (RevisionConflict ''resource_revision'' (fl_ExpectedResourceRevision command)
                   (m_ResourceRevision function)), m)
         else if f_Lifecycle function = fl_Lifecycle command then (Inr function, m)
         else (case Function_Validate (with_lifecycle command function) of
              Some e \<Rightarrow> (Inl (Wrapped ''validating updated function'' e), m)
            | None \<Rightarrow> (Inr (with_lifecycle command function),
                fmupd (fl_FunctionID command) (with_lifecycle command function, trigger) m)))"

definition view_RotateInvocationToken ::
  "RotateInvocationTokenCommand \<Rightarrow> (error, catalog_view, HTTPTrigger) operation" where
  "view_RotateInvocationToken command m =
    check (validateRotateInvocationToken command) m
    (case fmlookup m (ri_FunctionID command) of
       None \<Rightarrow> (Inl (classified CodeNotFound ''function was not found''), m)
     | Some (function, trigger) \<Rightarrow>
         if m_ResourceRevision trigger \<noteq> ri_ExpectedResourceRevision command
           then (Inl (RevisionConflict ''resource_revision''
                   (ri_ExpectedResourceRevision command) (m_ResourceRevision trigger)), m)
         else if ht_AuthPolicy trigger \<noteq> AuthPolicyToken
           then (Inl (classified CodeConflict ''public HTTP trigger has no invocation token''), m)
         else if ht_TokenVerifierDigest trigger = Some (ri_TokenVerifierDigest command)
           then (Inl (classified CodeConflict ''invocation token verifier did not change''), m)
         else (case HTTPTrigger_Validate (with_verifier command trigger) of
              Some e \<Rightarrow> (Inl (Wrapped ''validating rotated HTTP trigger'' e), m)
            | None \<Rightarrow> (Inr (with_verifier command trigger),
                fmupd (ri_FunctionID command) (function, with_verifier command trigger) m)))"

definition view_GetFunction :: "catalog_view \<Rightarrow> string \<Rightarrow> error + Function \<times> HTTPTrigger" where
  "view_GetFunction m functionID =
    (if \<not> idPattern functionID
       then Inl (Invalid ''function_id'' ''must be a valid identifier'')
     else case fmlookup m functionID of
         None \<Rightarrow> Inl (classified CodeNotFound ''function was not found'')
       | Some entry \<Rightarrow> Inr entry)"

definition view_GetFunctionByName :: "catalog_view \<Rightarrow> string \<Rightarrow> error + Function \<times> HTTPTrigger" where
  "view_GetFunctionByName m name =
    (case find (\<lambda>(f, t). f_Name f = name) (map_values m) of
       None \<Rightarrow> Inl (classified CodeNotFound ''function was not found'')
     | Some entry \<Rightarrow> Inr entry)"

lemma fmlookup_catalog_view [simp]:
  "fmlookup (catalog_view c) i = map_option (\<lambda>f. (f, function_trigger c i)) (fmlookup (cat_functionsByID c) i)"
  by (simp add: catalog_view_def)

lemma map_has_catalog_view [simp]: "map_has (catalog_view c) i = map_has (cat_functionsByID c) i"
  by (simp add: map_has_def)

lemma map_len_catalog_view [simp]: "map_len (catalog_view c) = map_len (cat_functionsByID c)"
  by (simp add: map_len_def catalog_view_def)

lemma view_has_iff: "view_has P m \<longleftrightarrow> (\<exists>i e. fmlookup m i = Some e \<and> P e)"
  by (auto simp: view_has_def list_ex_iff)

lemma view_has_name:
  assumes "catalog_inv c"
  shows "view_has (\<lambda>(f, t). f_Name f = n) (catalog_view c) \<longleftrightarrow> map_has (cat_functionIDByName c) n"
proof
  assume "view_has (\<lambda>(f, t). f_Name f = n) (catalog_view c)"
  then obtain i f where "fmlookup (cat_functionsByID c) i = Some f" "f_Name f = n"
    by (auto simp: view_has_iff)
  then show "map_has (cat_functionIDByName c) n"
    using catalog_function [OF assms] by (auto simp: function_entry_def map_has_iff)
next
  assume "map_has (cat_functionIDByName c) n"
  then show "view_has (\<lambda>(f, t). f_Name f = n) (catalog_view c)"
    using catalog_name [OF assms] by (fastforce simp: view_has_iff map_has_iff)
qed

lemma view_has_trigger:
  assumes "catalog_inv c"
  shows "view_has (\<lambda>(f, t). m_ID t = t') (catalog_view c) \<longleftrightarrow> map_has (cat_triggersByID c) t'"
proof
  assume "view_has (\<lambda>(f, t). m_ID t = t') (catalog_view c)"
  then obtain i f where f: "fmlookup (cat_functionsByID c) i = Some f" "m_ID (function_trigger c i) = t'"
    by (auto simp: view_has_iff)
  from assms f(1) show "map_has (cat_triggersByID c) t'"
  proof (rule function_trigger_found)
    fix t tr assume "fmlookup (cat_triggersByID c) t = Some tr" "function_trigger c i = tr"
    then show ?thesis using catalog_trigger [OF assms] f(2) by (auto simp: trigger_entry_def map_has_iff)
  qed
next
  assume "map_has (cat_triggersByID c) t'"
  then obtain tr where tr: "fmlookup (cat_triggersByID c) t' = Some tr" by (auto simp: map_has_iff)
  then have entry: "m_ID tr = t'" "fmlookup (cat_triggerIDByFunc c) (ht_FunctionID tr) = Some t'"
    using catalog_trigger [OF assms] by (auto simp: trigger_entry_def)
  then have "function_trigger c (ht_FunctionID tr) = tr" "map_has (cat_functionsByID c) (ht_FunctionID tr)"
    using tr catalog_index [OF assms] by (auto simp: function_trigger_def map_get_def)
  with entry show "view_has (\<lambda>(f, t). m_ID t = t') (catalog_view c)"
    by (fastforce simp: view_has_iff map_has_iff)
qed

lemma catalog_view_put_function:
  assumes "fmlookup (cat_functionsByID c) i = Some f"
  shows "catalog_view (c\<lparr>cat_functionsByID := fmupd i f' (cat_functionsByID c)\<rparr>) =
    fmupd i (f', function_trigger c i) (catalog_view c)"
  by (rule fmap_ext) (simp add: function_trigger_def)

lemma catalog_view_put_trigger:
  assumes inv: "catalog_inv c" and f: "fmlookup (cat_functionsByID c) i = Some f"
    and t: "fmlookup (cat_triggerIDByFunc c) i = Some t"
  shows "catalog_view (c\<lparr>cat_triggersByID := fmupd t tr (cat_triggersByID c)\<rparr>) =
    fmupd i (f, tr) (catalog_view c)"
proof (rule fmap_ext)
  fix j
  let ?c = "c\<lparr>cat_triggersByID := fmupd t tr (cat_triggersByID c)\<rparr>"
  have "function_trigger ?c j = function_trigger c j"
    if j: "j \<noteq> i" "fmlookup (cat_functionsByID c) j = Some g" for g
  proof (rule function_trigger_found [OF inv j(2)])
    fix u x assume "fmlookup (cat_triggerIDByFunc c) j = Some u"
      "fmlookup (cat_triggersByID c) u = Some x" "ht_FunctionID x = j"
    moreover from this have "u \<noteq> t" using catalog_index [OF inv t] j(1) by auto
    ultimately show ?thesis by (simp add: function_trigger_def map_get_def)
  qed
  moreover have "function_trigger ?c i = tr" using t by (simp add: function_trigger_def map_get_def)
  ultimately show "fmlookup (catalog_view ?c) j = fmlookup (fmupd i (f, tr) (catalog_view c)) j"
    using f by (cases "fmlookup (cat_functionsByID c) j") auto
qed

lemma refines_CreateFunction:
  assumes inv: "catalog_inv c"
  shows "map_prod id catalog_view (CreateFunction command c) = view_CreateFunction command (catalog_view c)"
proof -
  have index: "map_has (cat_triggerIDByFunc c) i \<Longrightarrow> map_has (cat_functionsByID c) i" for i
    using catalog_index [OF inv] by (auto simp: map_has_iff [of "cat_triggerIDByFunc c"])
  have guards: "view_CreateFunction command (catalog_view c) =
      check (CreateFunction_checks c command) (catalog_view c)
        (Inr \<lparr>cs_Functions = [cf_Function command], cs_Triggers = [cf_Trigger command]\<rparr>,
         fmupd (m_ID (cf_Function command)) (cf_Function command, cf_Trigger command) (catalog_view c))"
    using index [of "m_ID (cf_Function command)"]
    by (cases "validateCreateFunction command")
       (auto simp: view_CreateFunction_def Let_def view_has_name [OF inv] view_has_trigger [OF inv]
         CreateFunction_checks_def fail_if_def)
  show ?thesis
  proof (cases rule: CreateFunction_cases [of c command])
    case (error e)
    then show ?thesis by (simp add: guards)
  next
    case created
    note ok = CreateFunction_checks_None [OF created(1)]
    let ?f = "cf_Function command" and ?t = "cf_Trigger command"
    have "catalog_view (snd (CreateFunction command c)) = fmupd (m_ID ?f) (?f, ?t) (catalog_view c)"
    proof (rule fmap_ext)
      fix j
      have "function_trigger (snd (CreateFunction command c)) j = function_trigger c j"
        if j: "fmlookup (cat_functionsByID c) j = Some g" for g
      proof (rule function_trigger_found [OF inv j])
        fix u x assume "fmlookup (cat_triggerIDByFunc c) j = Some u"
          "fmlookup (cat_triggersByID c) u = Some x"
        with j ok created show ?thesis by (auto simp: function_trigger_def map_get_def)
      qed
      moreover have "function_trigger (snd (CreateFunction command c)) (m_ID ?f) = ?t"
        using created by (simp add: function_trigger_def map_get_def)
      ultimately show "fmlookup (catalog_view (snd (CreateFunction command c))) j =
          fmlookup (fmupd (m_ID ?f) (?f, ?t) (catalog_view c)) j"
        using ok created by (cases "fmlookup (cat_functionsByID c) j") auto
    qed
    then show ?thesis using created by (simp add: guards)
  qed
qed

lemma refines_SetFunctionLifecycle:
  assumes inv: "catalog_inv c"
  shows "map_prod id catalog_view (SetFunctionLifecycle command c) =
    view_SetFunctionLifecycle command (catalog_view c)"
proof (cases "fmlookup (cat_functionsByID c) (fl_FunctionID command)")
  case None
  then show ?thesis
    by (simp add: SetFunctionLifecycle_def view_SetFunctionLifecycle_def check_def split: option.split)
next
  case (Some f)
  then have entry: "m_ID f = fl_FunctionID command" "lifecycle_ok f"
    using catalog_function [OF inv] by (auto simp: function_entry_def)
  show ?thesis
    using Some entry catalog_view_put_function [OF Some]
    unfolding SetFunctionLifecycle_def view_SetFunctionLifecycle_def lifecycle_ok_def
    by (auto simp: check_def Let_def with_lifecycle_def split: option.split)
qed

lemma refines_RotateInvocationToken:
  assumes inv: "catalog_inv c"
  shows "map_prod id catalog_view (RotateInvocationToken command c) =
    view_RotateInvocationToken command (catalog_view c)"
proof (cases "fmlookup (cat_functionsByID c) (ri_FunctionID command)")
  case None
  then have "fmlookup (cat_triggerIDByFunc c) (ri_FunctionID command) = None"
    using catalog_index [OF inv, of "ri_FunctionID command"]
    by (cases "fmlookup (cat_triggerIDByFunc c) (ri_FunctionID command)") (auto simp: map_has_def)
  with None show ?thesis
    by (simp add: RotateInvocationToken_def view_RotateInvocationToken_def check_def split: option.split)
next
  case (Some f)
  from inv Some show ?thesis
  proof (rule function_trigger_found)
    fix t tr assume t: "fmlookup (cat_triggerIDByFunc c) (ri_FunctionID command) = Some t"
      "fmlookup (cat_triggersByID c) t = Some tr" "function_trigger c (ri_FunctionID command) = tr"
    show ?thesis
      using Some t catalog_view_put_trigger [OF inv Some t(1)]
      unfolding RotateInvocationToken_def view_RotateInvocationToken_def
      by (auto simp: check_def Let_def with_verifier_def split: option.split)
  qed
qed

lemma refines_GetFunction:
  assumes inv: "catalog_inv c"
  shows "GetFunction c i = view_GetFunction (catalog_view c) i"
proof (cases "fmlookup (cat_functionsByID c) i")
  case (Some f)
  from inv Some show ?thesis
    by (rule function_trigger_found) (simp add: GetFunction_def view_GetFunction_def Some map_get_def)
qed (simp add: GetFunction_def view_GetFunction_def)

lemma refines_GetFunctionByName:
  assumes inv: "catalog_inv c"
  shows "GetFunctionByName c n = view_GetFunctionByName (catalog_view c) n"
proof (cases "fmlookup (cat_functionIDByName c) n")
  case None
  then have "\<not> view_has (\<lambda>(f, t). f_Name f = n) (catalog_view c)"
    using view_has_name [OF inv] by (simp add: map_has_def)
  then have "find (\<lambda>(f, t). f_Name f = n) (map_values (catalog_view c)) = None"
    by (simp add: view_has_def list_ex_iff find_None_iff)
  with None show ?thesis by (simp add: GetFunctionByName_def view_GetFunctionByName_def)
next
  case (Some i)
  then obtain f where f: "fmlookup (cat_functionsByID c) i = Some f" "f_Name f = n"
    using catalog_name [OF inv] by blast
  have unique: "e = (f, function_trigger c i)"
    if "e \<in> set (map_values (catalog_view c))" "case e of (g, t) \<Rightarrow> f_Name g = n" for e
  proof -
    from that obtain k g where g: "fmlookup (cat_functionsByID c) k = Some g" "f_Name g = n"
      "e = (g, function_trigger c k)" by auto
    with Some catalog_function [OF inv g(1)] have "k = i" by (simp add: function_entry_def)
    with g f show ?thesis by simp
  qed
  have "(f, function_trigger c i) \<in> set (map_values (catalog_view c))"
    using f by auto
  then have "find (\<lambda>(f, t). f_Name f = n) (map_values (catalog_view c)) \<noteq> None"
    using f by (auto simp: find_None_iff)
  then obtain e where e: "find (\<lambda>(f, t). f_Name f = n) (map_values (catalog_view c)) = Some e"
    by blast
  then have "e \<in> set (map_values (catalog_view c))" "case e of (g, t) \<Rightarrow> f_Name g = n"
    by (auto dest: find_SomeD simp del: set_map_values)
  with unique e have "find (\<lambda>(f, t). f_Name f = n) (map_values (catalog_view c)) = Some (f, function_trigger c i)"
    by blast
  then show ?thesis
    using f Some by (simp add: GetFunctionByName_def view_GetFunctionByName_def map_get_def function_trigger_def)
qed

subsection \<open>The state digest\<close>

abbreviation CatalogStateDigestDomain :: string where "CatalogStateDigestDomain \<equiv> ''control-catalog-state''"
abbreviation CatalogStateDigestVersion :: string where "CatalogStateDigestVersion \<equiv> ''v1''"

fun lifecycle_string :: "FunctionLifecycle \<Rightarrow> string" where
  "lifecycle_string FunctionActive = ''Active''"
| "lifecycle_string FunctionDisabled = ''Disabled''"
| "lifecycle_string FunctionDeleting = ''Deleting''"
| "lifecycle_string FunctionTombstoned = ''Tombstoned''"
| "lifecycle_string (FunctionLifecycleOther s) = s"

fun policy_string :: "AuthPolicy \<Rightarrow> string" where
  "policy_string AuthPolicyToken = ''token''"
| "policy_string AuthPolicyPublic = ''public''"
| "policy_string (AuthPolicyOther s) = s"

definition canonicalMetadata :: "'a Metadata_scheme \<Rightarrow> (string \<times> json) list" where
  "canonicalMetadata m =
    [(''id'', JStr (m_ID m)), (''namespace'', JStr (m_Namespace m)),
     (''created_at'', JStr (RFC3339Nano (m_CreatedAt m))),
     (''updated_at'', JStr (RFC3339Nano (m_UpdatedAt m))),
     (''created_raft_index'', json_uint (m_CreatedRaftIndex m)),
     (''resource_revision'', json_uint (m_ResourceRevision m))]"

definition canonicalLabel :: "string \<times> string \<Rightarrow> json" where
  "canonicalLabel kv = JObj [(''key'', JStr (fst kv)), (''value'', JStr (snd kv))]"

definition canonicalFunction :: "Function \<Rightarrow> json" where
  "canonicalFunction f = JObj (canonicalMetadata f @
     [(''name'', JStr (f_Name f))] @
     (if f_Description f = '''' then [] else [(''description'', JStr (f_Description f))]) @
     [(''active_route_revision'', json_uint (f_ActiveRouteRevision f)),
      (''labels'', JArr (map canonicalLabel
         (sort_by (\<lambda>left right. compare_lin (fst left) (fst right)) (sorted_list_of_fmap (f_Labels f))))),
      (''lifecycle'', JStr (lifecycle_string (f_Lifecycle f)))])"

definition canonicalHTTPTrigger :: "HTTPTrigger \<Rightarrow> json" where
  "canonicalHTTPTrigger t = JObj (canonicalMetadata t @
     [(''function_id'', JStr (ht_FunctionID t)), (''enabled'', JBool (ht_Enabled t)),
      (''auth_policy'', JStr (policy_string (ht_AuthPolicy t)))] @
     (case ht_TokenVerifierDigest t of None \<Rightarrow> [] | Some d \<Rightarrow> [(''token_verifier_digest'', JStr d)]))"

definition canonicalCatalog :: "CatalogSnapshot \<Rightarrow> json" where
  "canonicalCatalog s = JObj
    [(''functions'', JArr (map canonicalFunction (cs_Functions s))),
     (''triggers'', JArr (map canonicalHTTPTrigger (cs_Triggers s)))]"

definition Catalog_StateDigest :: "canonicalizer \<Rightarrow> Catalog \<Rightarrow> error + SHA256" where
  "Catalog_StateDigest jcs c =
    CanonicalJSON jcs CatalogStateDigestDomain CatalogStateDigestVersion
      (json_marshal (canonicalCatalog (snapshotLocked c)))"

lemma json_uint_inject [simp]: "json_uint v = json_uint w \<longleftrightarrow> v = w" for v w :: "'a :: len word"
  by (simp add: json_uint_def word_uint_eq_iff)

lemma canonicalMetadata_inject:
  assumes "Metadata_Validate m = None" "Metadata_Validate n = None"
    and "canonicalMetadata m = canonicalMetadata n"
  shows "m_ID m = m_ID n" "m_Namespace m = m_Namespace n" "m_CreatedAt m = m_CreatedAt n"
    "m_UpdatedAt m = m_UpdatedAt n" "m_CreatedRaftIndex m = m_CreatedRaftIndex n"
    "m_ResourceRevision m = m_ResourceRevision n"
  using assms by (simp_all add: canonicalMetadata_def Metadata_Validate_None RFC3339Nano_inject isUTC_def)

lemma length_canonicalMetadata [simp]: "length (canonicalMetadata m) = 6"
  by (simp add: canonicalMetadata_def)

lemma sorted_list_of_fmap_inject: "set (sorted_list_of_fmap m) = set (sorted_list_of_fmap n) \<Longrightarrow> m = n"
  by (rule fmap_ext) (auto simp: set_eq_iff, metis option.exhaust)

lemma canonicalFunction_inject:
  assumes valid: "Function_Validate f = None" "Function_Validate g = None" "lifecycle_ok f" "lifecycle_ok g"
    and eq: "canonicalFunction f = canonicalFunction g"
  shows "f = g"
proof -
  have meta: "Metadata_Validate f = None" "Metadata_Validate g = None"
    using valid by (simp_all add: Function_Validate_def)
  have "canonicalMetadata f = canonicalMetadata g"
    using eq by (simp add: canonicalFunction_def append_eq_append_conv)
  note base = canonicalMetadata_inject [OF meta this]
  have inj: "inj canonicalLabel" by (auto simp: inj_def canonicalLabel_def prod_eq_iff)
  have "f_Name f = f_Name g" "f_Description f = f_Description g"
      "f_ActiveRouteRevision f = f_ActiveRouteRevision g"
      "lifecycle_string (f_Lifecycle f) = lifecycle_string (f_Lifecycle g)"
    and labels: "sort_by (\<lambda>l r. compare_lin (fst l) (fst r)) (sorted_list_of_fmap (f_Labels f)) =
      sort_by (\<lambda>l r. compare_lin (fst l) (fst r)) (sorted_list_of_fmap (f_Labels g))"
    using eq by (auto simp: canonicalFunction_def append_eq_append_conv inj_map_eq_map [OF inj] split: if_splits)
  moreover have "f_Lifecycle f = f_Lifecycle g"
    using calculation(4) valid(3,4) by (auto simp: lifecycle_ok_def)
  moreover have "f_Labels f = f_Labels g"
    using arg_cong [OF labels, of set] by (intro sorted_list_of_fmap_inject) simp
  ultimately show ?thesis using base by simp
qed

lemma canonicalHTTPTrigger_inject:
  assumes valid: "HTTPTrigger_Validate t = None" "HTTPTrigger_Validate u = None"
    and eq: "canonicalHTTPTrigger t = canonicalHTTPTrigger u"
  shows "t = u"
proof -
  have meta: "Metadata_Validate t = None" "Metadata_Validate u = None"
    using valid by (simp_all add: HTTPTrigger_Validate_def)
  have "canonicalMetadata t = canonicalMetadata u"
    using eq by (simp add: canonicalHTTPTrigger_def append_eq_append_conv)
  note base = canonicalMetadata_inject [OF meta this]
  have "ht_FunctionID t = ht_FunctionID u" "ht_Enabled t = ht_Enabled u"
    "policy_string (ht_AuthPolicy t) = policy_string (ht_AuthPolicy u)"
    "ht_TokenVerifierDigest t = ht_TokenVerifierDigest u"
    using eq by (auto simp: canonicalHTTPTrigger_def append_eq_append_conv split: option.splits)
  moreover have "ht_AuthPolicy t = ht_AuthPolicy u"
    using calculation(3) valid by (auto simp: HTTPTrigger_Validate_def split: AuthPolicy.splits)
  ultimately show ?thesis using base by simp
qed

text \<open>
  Two catalogs with the same single-map view are equal: the indexes hold nothing more.
  What one catalog indexes, the other indexes too.
\<close>

lemma name_index_sub:
  assumes "catalog_inv a" "catalog_inv b" "cat_functionsByID a = cat_functionsByID b"
    and "fmlookup (cat_functionIDByName a) n = Some i"
  shows "fmlookup (cat_functionIDByName b) n = Some i"
  using catalog_name [OF assms(1,4)] catalog_function [OF assms(2)] assms(3)
  by (auto simp: function_entry_def)

lemma trigger_index_sub:
  assumes a: "catalog_inv a" and b: "catalog_inv b" and view: "catalog_view a = catalog_view b"
    and t: "fmlookup (cat_triggerIDByFunc a) i = Some t"
  shows "fmlookup (cat_triggerIDByFunc b) i = Some t \<and>
    fmlookup (cat_triggersByID b) t = Some (function_trigger a i)"
proof -
  obtain f where f: "fmlookup (cat_functionsByID a) i = Some f"
    using catalog_index [OF a t] by (auto simp: map_has_iff)
  then have "fmlookup (catalog_view b) i = Some (f, function_trigger a i)"
    by (simp flip: view)
  then have f': "fmlookup (cat_functionsByID b) i = Some f" and same: "function_trigger b i = function_trigger a i"
    by auto
  obtain x where x: "fmlookup (cat_triggersByID a) t = Some x" "function_trigger a i = x"
    using function_trigger_found [OF a f] t by (metis option.inject)
  obtain u y where y: "fmlookup (cat_triggerIDByFunc b) i = Some u" "fmlookup (cat_triggersByID b) u = Some y"
    "function_trigger b i = y"
    using function_trigger_found [OF b f'] by metis
  have "m_ID x = t" "m_ID y = u"
    using catalog_trigger [OF a x(1)] catalog_trigger [OF b y(2)] by (simp_all add: trigger_entry_def)
  then show ?thesis using x y same by simp
qed

lemma trigger_sub:
  assumes a: "catalog_inv a" and b: "catalog_inv b" and view: "catalog_view a = catalog_view b"
    and x: "fmlookup (cat_triggersByID a) t = Some x"
  shows "fmlookup (cat_triggersByID b) t = Some x"
proof -
  have i: "fmlookup (cat_triggerIDByFunc a) (ht_FunctionID x) = Some t"
    using catalog_trigger [OF a x] by (simp add: trigger_entry_def)
  then have "function_trigger a (ht_FunctionID x) = x"
    using x by (simp add: function_trigger_def map_get_def)
  then show ?thesis using trigger_index_sub [OF a b view i] by simp
qed

lemma fmap_eq_sub:
  assumes "\<And>k v. fmlookup m k = Some v \<Longrightarrow> fmlookup n k = Some v"
    and "\<And>k v. fmlookup n k = Some v \<Longrightarrow> fmlookup m k = Some v"
  shows "m = n"
  by (rule fmap_ext) (metis assms option.exhaust)

lemma catalog_view_inject:
  assumes inv: "catalog_inv c" and inv': "catalog_inv d" and eq: "catalog_view c = catalog_view d"
  shows "c = d"
proof -
  have sub: "fmlookup (cat_functionsByID b) i = Some f"
    if "catalog_view a = catalog_view b" "fmlookup (cat_functionsByID a) i = Some f" for a b i f
  proof -
    have "fmlookup (catalog_view b) i = Some (f, function_trigger a i)" using that by (simp flip: that(1))
    then show ?thesis by auto
  qed
  have fns: "cat_functionsByID c = cat_functionsByID d"
    using sub [OF eq] sub [OF eq [symmetric]] by (rule fmap_eq_sub)
  moreover have "cat_functionIDByName c = cat_functionIDByName d"
    using name_index_sub [OF inv inv' fns] name_index_sub [OF inv' inv fns [symmetric]]
    by (rule fmap_eq_sub)
  moreover have "cat_triggerIDByFunc c = cat_triggerIDByFunc d"
    using trigger_index_sub [OF inv inv' eq] trigger_index_sub [OF inv' inv eq [symmetric]]
    by (intro fmap_eq_sub) blast+
  moreover have "cat_triggersByID c = cat_triggersByID d"
    using trigger_sub [OF inv inv' eq] trigger_sub [OF inv' inv eq [symmetric]]
    by (rule fmap_eq_sub)
  ultimately show ?thesis by simp
qed

lemma snapshotLocked_Functions:
  assumes "catalog_inv c"
  shows "f \<in> set (cs_Functions (snapshotLocked c)) \<longleftrightarrow> fmlookup (cat_functionsByID c) (m_ID f) = Some f"
  using catalog_function [OF assms] by (auto simp: snapshotLocked_def Let_def function_entry_def)

lemma snapshotLocked_Triggers:
  "cs_Triggers (snapshotLocked c) = map (\<lambda>f. function_trigger c (m_ID f)) (cs_Functions (snapshotLocked c))"
  by (simp add: snapshotLocked_def Let_def function_trigger_def)

lemma snapshot_valid:
  assumes inv: "catalog_inv c"
  shows "f \<in> set (cs_Functions (snapshotLocked c)) \<Longrightarrow> Function_Validate f = None \<and> lifecycle_ok f"
    and "t \<in> set (cs_Triggers (snapshotLocked c)) \<Longrightarrow> HTTPTrigger_Validate t = None"
proof -
  show "f \<in> set (cs_Functions (snapshotLocked c)) \<Longrightarrow> Function_Validate f = None \<and> lifecycle_ok f"
    using catalog_function [OF inv] by (auto simp: snapshotLocked_Functions [OF inv] function_entry_def)
  assume "t \<in> set (cs_Triggers (snapshotLocked c))"
  then obtain f where f: "fmlookup (cat_functionsByID c) (m_ID f) = Some f" "t = function_trigger c (m_ID f)"
    by (auto simp: snapshotLocked_Triggers snapshotLocked_Functions [OF inv])
  from inv f(1) show "HTTPTrigger_Validate t = None"
  proof (rule function_trigger_found)
    fix u x assume "fmlookup (cat_triggersByID c) u = Some x" "function_trigger c (m_ID f) = x"
    then show ?thesis using catalog_trigger [OF inv] f(2) by (auto simp: trigger_entry_def)
  qed
qed

lemma canonicalCatalog_inject:
  assumes inv: "catalog_inv c" and inv': "catalog_inv d"
    and eq: "canonicalCatalog (snapshotLocked c) = canonicalCatalog (snapshotLocked d)"
  shows "c = d"
proof -
  let ?fs = "\<lambda>c. cs_Functions (snapshotLocked c)" and ?ts = "\<lambda>c. cs_Triggers (snapshotLocked c)"
  have maps: "map canonicalFunction (?fs c) = map canonicalFunction (?fs d)"
    "map canonicalHTTPTrigger (?ts c) = map canonicalHTTPTrigger (?ts d)"
    using eq by (simp_all add: canonicalCatalog_def)
  have "inj_on canonicalFunction (set (?fs c) \<union> set (?fs d))"
    by (intro inj_onI canonicalFunction_inject) (use snapshot_valid(1) [OF inv] snapshot_valid(1) [OF inv'] in blast)+
  then have fs: "?fs c = ?fs d" using map_inj_on [OF maps(1)] by blast
  have "inj_on canonicalHTTPTrigger (set (?ts c) \<union> set (?ts d))"
    by (intro inj_onI canonicalHTTPTrigger_inject) (use snapshot_valid(2) [OF inv] snapshot_valid(2) [OF inv'] in blast)+
  then have "?ts c = ?ts d" using map_inj_on [OF maps(2)] by blast
  then have ts: "function_trigger c (m_ID f) = function_trigger d (m_ID f)" if "f \<in> set (?fs c)" for f
    using that fs by (simp add: snapshotLocked_Triggers)
  have found: "fmlookup (cat_functionsByID x) i = Some f \<Longrightarrow> f \<in> set (?fs x) \<and> m_ID f = i"
    if "catalog_inv x" for x i f
    using catalog_function [OF that] by (fastforce simp: snapshotLocked_Functions [OF that] function_entry_def)
  have functions_eq: "fmlookup (cat_functionsByID c) i = fmlookup (cat_functionsByID d) i" for i
    using found [OF inv] found [OF inv'] snapshotLocked_Functions [OF inv] snapshotLocked_Functions [OF inv'] fs
    by (metis option.exhaust)
  have "catalog_view c = catalog_view d"
  proof (rule fmap_ext)
    fix i show "fmlookup (catalog_view c) i = fmlookup (catalog_view d) i"
    proof (cases "fmlookup (cat_functionsByID c) i")
      case None
      then show ?thesis using functions_eq [of i] by simp
    next
      case (Some f)
      then have "function_trigger c i = function_trigger d i" using ts found [OF inv Some] by blast
      then show ?thesis using functions_eq [of i] Some by (metis fmlookup_catalog_view option.simps(9))
    qed
  qed
  then show ?thesis by (rule catalog_view_inject [OF inv inv'])
qed

interpretation function_order: key_compare compareFunction "\<lambda>f. (m_CreatedRaftIndex f, m_ID f)"
  by unfold_locales (auto simp: compareFunction_def compare_lin_def less_prod_def')

end
