(* ===== verification/ValidatorProtocol.thy ===== *)
theory ValidatorProtocol
  imports Model
begin

text \<open>
  Package \<^verbatim>\<open>internal/validator/protocol\<close>: the values that the Controller and the validator
  subprocess exchange, and their checks. The patterns \<open>validationIDPattern\<close> and \<open>idPattern\<close>
  are the same. A slice that the checks compare with nil is an option.
\<close>

abbreviation SchemaVersion :: string where "SchemaVersion \<equiv> ''validator-v1''"
abbreviation CodeOK :: string where "CodeOK \<equiv> ''ok''"
abbreviation HardArtifactBytes :: int where "HardArtifactBytes \<equiv> 268435456"

record ValidatorRequest =
  vq_SchemaVersion :: string
  vq_ValidationID :: string
  vq_ArtifactDigest :: SHA256
  vq_ArtifactSize :: int
  vq_ABI :: string
  vq_HostAPIProfile :: string
  vq_RuntimeFeatureProfile :: string
  vq_RuntimeEngine :: string
  vq_MemoryLimitMiB :: u32
  vq_RequestedCapabilities :: "CapabilityRequest list option"

record Import =
  im_Module :: string
  im_Name :: string
  im_Kind :: string

record Memory =
  me_Exported :: bool
  me_MinPages :: u32
  me_MaxPages :: u32

record Isolation =
  is_ProcessBoundary :: bool
  is_Deadline :: bool
  is_CPULimit :: bool
  is_FileSizeLimit :: bool
  is_MemoryLimit :: bool
  is_TempDiskLimit :: bool

text \<open>\<open>vr_CompileNanoseconds\<close> is the one field of the struct \<open>Timing\<close>.\<close>

record Report =
  vr_SchemaVersion :: string
  vr_ValidationID :: string
  vr_Valid :: bool
  vr_Code :: string
  vr_Reason :: string
  vr_Message :: string
  vr_ArtifactDigest :: SHA256
  vr_ArtifactSize :: int
  vr_RuntimeName :: string
  vr_RuntimeVersion :: string
  vr_RuntimeFeatureProfile :: string
  vr_RuntimeEngine :: string
  vr_Imports :: "Import list option"
  vr_Exports :: "string list option"
  vr_Memory :: Memory
  vr_CompileNanoseconds :: int
  vr_Isolation :: Isolation

definition ValidatorRequest_Validate :: "ValidatorRequest \<Rightarrow> error option" where
  "ValidatorRequest_Validate r = first_error
    [fail_if (vq_SchemaVersion r \<noteq> SchemaVersion)
       (Opaque ''validator protocol: unsupported schema version''),
     fail_if (\<not> idPattern (vq_ValidationID r))
       (Opaque ''validator protocol: invalid validation id''),
     fail_if (bad_digest (vq_ArtifactDigest r))
       (Opaque ''validator protocol: invalid artifact digest''),
     fail_if (vq_ArtifactSize r < 1 \<or> vq_ArtifactSize r > HardArtifactBytes)
       (Opaque ''validator protocol: invalid artifact size''),
     fail_if (vq_ABI r \<noteq> ABIWASICommandV1) (Opaque ''validator protocol: unsupported abi''),
     fail_if (vq_HostAPIProfile r \<noteq> HostAPIProfileNone)
       (Opaque ''validator protocol: unsupported host api profile''),
     fail_if (vq_RuntimeFeatureProfile r \<noteq> FeatureProfile)
       (Opaque ''validator protocol: unsupported runtime feature profile''),
     fail_if (vq_RuntimeEngine r \<noteq> EngineCompiler \<and> vq_RuntimeEngine r \<noteq> EngineInterpreter)
       (Opaque ''validator protocol: unsupported runtime engine''),
     fail_if (\<not> ValidMemoryTier (vq_MemoryLimitMiB r))
       (Opaque ''validator protocol: unsupported memory tier''),
     fail_if (vq_RequestedCapabilities r = None)
       (Opaque ''validator protocol: requested capabilities must be an array'')]"

definition Report_Validate :: "Report \<Rightarrow> error option" where
  "Report_Validate r = first_error
    [fail_if (vr_SchemaVersion r \<noteq> SchemaVersion \<or> \<not> idPattern (vr_ValidationID r))
       (Opaque ''validator protocol: invalid report identity''),
     fail_if (vr_Message r = '''' \<or> vr_Reason r = '''')
       (Opaque ''validator protocol: invalid report classification''),
     fail_if (bad_digest (vr_ArtifactDigest r))
       (Opaque ''validator protocol: invalid report artifact digest''),
     fail_if (vr_ArtifactSize r < 1 \<or> vr_RuntimeName r \<noteq> RuntimeName \<or>
              vr_RuntimeVersion r \<noteq> RuntimeVersion)
       (Opaque ''validator protocol: invalid report runtime metadata''),
     fail_if (vr_RuntimeFeatureProfile r \<noteq> FeatureProfile \<or> vr_Imports r = None \<or> vr_Exports r = None)
       (Opaque ''validator protocol: incomplete report metadata''),
     fail_if (vr_RuntimeEngine r \<noteq> EngineCompiler \<and> vr_RuntimeEngine r \<noteq> EngineInterpreter)
       (Opaque ''validator protocol: invalid report runtime engine''),
     fail_if (vr_CompileNanoseconds r < 0)
       (Opaque ''validator protocol: invalid report timing''),
     fail_if (vr_Valid r \<and> vr_Code r \<noteq> CodeOK)
       (Opaque ''validator protocol: valid report must use ok code''),
     fail_if (\<not> vr_Valid r \<and> \<not> Known (vr_Code r))
       (Opaque ''validator protocol: rejected report must use a stable error code'')]"

end
