(* ===== verification/ControlRelease.thy ===== *)
theory ControlRelease
  imports ControlCatalog ValidatorProtocol
begin

text \<open>
  Package \<^verbatim>\<open>internal/controlplane\<close>, file \<^verbatim>\<open>release.go\<close>: the lifecycle of a Version from upload
  through validation, and the Deployment that a successful validation creates. The store
  holds a pointer to the Function catalog; its operations take the catalog as an argument.
\<close>

subsection \<open>Data\<close>

abbreviation DefaultMaxVersionsPerFunction :: nat where "DefaultMaxVersionsPerFunction \<equiv> 100"
abbreviation defaultMaxLogBytes :: int where "defaultMaxLogBytes \<equiv> 262144"
abbreviation MaxOperationMessage :: nat where "MaxOperationMessage \<equiv> 512"

record CreateVersionCommand =
  cv_IfNoneMatch :: bool
  cv_AppliedIndex :: u64
  cv_Version :: Version

record StartValidationCommand =
  sv_VersionID :: string
  sv_ExpectedResourceRevision :: u64
  sv_ValidationID :: string
  sv_UpdatedAt :: Time
  sv_AppliedIndex :: u64

record CompleteValidationCommand =
  ev_VersionID :: string
  ev_ExpectedResourceRevision :: u64
  ev_Report :: Report
  ev_Deployment :: "Deployment option"
  ev_UpdatedAt :: Time
  ev_AppliedIndex :: u64

record VersionAdmissionAttempt =
  va_VersionID :: string
  va_ValidationID :: string

record ReleaseSnapshot =
  rn_Versions :: "Version list"
  rn_Deployments :: "Deployment list"
  rn_PendingValidations :: "VersionAdmissionAttempt list"

record ReleaseStore =
  rel_versions :: "(string, Version) fmap"
  rel_versionCountByFunc :: "(string, nat) fmap"
  rel_validationIDByVersion :: "(string, string) fmap"
  rel_deployments :: "(string, Deployment) fmap"

definition NewReleaseStore :: ReleaseStore where
  "NewReleaseStore =
    \<lparr>rel_versions = fmempty, rel_versionCountByFunc = fmempty,
     rel_validationIDByVersion = fmempty, rel_deployments = fmempty\<rparr>"

subsection \<open>Checks\<close>

definition validateCreateVersion :: "CreateVersionCommand \<Rightarrow> error option" where
  "validateCreateVersion command =
    (let version = cv_Version command in first_error
      [fail_if (\<not> cv_IfNoneMatch command)
         (Invalid ''if_none_match'' ''is required when creating a version''),
       fail_if (cv_AppliedIndex command = 0)
         (Invalid ''applied_index'' ''must be greater than zero''),
       Version_Validate version,
       fail_if (v_State version \<noteq> VersionUploaded \<or> v_ValidationError version \<noteq> None)
         (Invalid ''state'' ''new version must be Uploaded without a validation error''),
       fail_if (m_ID version \<noteq> v_VersionID version \<or> v_AdmissionEpoch version \<noteq> 1)
         (Invalid ''version'' ''new version id must match version id with admission epoch one''),
       fail_if (v_RuntimeFeatureProfile version \<noteq> FeatureProfile)
         (Invalid ''runtime_feature_profile'' ''must use the fixed v1 feature profile''),
       fail_if (m_CreatedRaftIndex version \<noteq> cv_AppliedIndex command \<or> m_ResourceRevision version \<noteq> 1)
         (Invalid ''version'' ''must be created at this applied index with resource revision one'')])"

definition validateStartValidation :: "StartValidationCommand \<Rightarrow> error option" where
  "validateStartValidation command = first_error
    [fail_if (\<not> idPattern (sv_VersionID command) \<or> \<not> idPattern (sv_ValidationID command))
       (Invalid ''validation'' ''version id and validation id must be valid identifiers''),
     fail_if (sv_ExpectedResourceRevision command = 0 \<or> sv_AppliedIndex command = 0)
       (Invalid ''revision''
          ''expected resource revision and applied index must be greater than zero''),
     validateUTC ''updated_at'' (sv_UpdatedAt command)]"

definition validateCompleteValidation :: "CompleteValidationCommand \<Rightarrow> error option" where
  "validateCompleteValidation command = first_error
    [fail_if (\<not> idPattern (ev_VersionID command) \<or> ev_ExpectedResourceRevision command = 0 \<or>
              ev_AppliedIndex command = 0)
       (Invalid ''validation'' ''version id, expected revision, and applied index are required''),
     validateUTC ''updated_at'' (ev_UpdatedAt command),
     fail_if (Report_Validate (ev_Report command) \<noteq> None)
       (Invalid ''report'' ''must be a valid validator report''),
     fail_if (vr_Valid (ev_Report command) \<and> ev_Deployment command = None)
       (Invalid ''deployment'' ''is required for a successful validation''),
     fail_if (\<not> vr_Valid (ev_Report command) \<and> ev_Deployment command \<noteq> None)
       (Invalid ''deployment'' ''is not allowed for a failed validation'')]"

definition validateReportForVersion :: "Report \<Rightarrow> Version \<Rightarrow> error option" where
  "validateReportForVersion report version = first_error
    [fail_if (vr_ArtifactDigest report \<noteq> v_ArtifactDigest version \<or>
              vr_ArtifactSize report \<noteq> v_ArtifactSize version \<or>
              vr_RuntimeFeatureProfile report \<noteq> v_RuntimeFeatureProfile version)
       (Invalid ''report'' ''does not match immutable version artifact or runtime profile''),
     fail_if (vr_RuntimeEngine report \<noteq> EngineCompiler)
       (Invalid ''report.runtime_engine'' ''must use the fixed Local Core compiler engine''),
     fail_if (\<not> vr_Valid report \<and>
              (\<not> utf8_valid (vr_Message report) \<or> length (vr_Message report) > MaxOperationMessage))
       (Invalid ''report.message'' ''must be safe UTF-8 within 512 bytes'')]"

definition capabilitiesSubset :: "CapabilityRequest list \<Rightarrow> CapabilityRequest list \<Rightarrow> bool" where
  "capabilitiesSubset granted requested \<longleftrightarrow>
     (let requestedSet = fset_of_list (map capability_key requested) in
      list_all (\<lambda>capability. capability_key capability |\<in>| requestedSet) granted)"

text \<open>The conditions of the second statement of \<open>validateInitialDeployment\<close>.\<close>

definition exact_limits :: "Deployment \<Rightarrow> Version \<Rightarrow> bool" where
  "exact_limits deployment version \<longleftrightarrow>
     rl_Timeout (d_ResourceLimits deployment) = rq_Timeout (v_ResourceRequest version) \<and>
     rl_MemoryMiB (d_ResourceLimits deployment) = rq_MemoryMiB (v_ResourceRequest version) \<and>
     rl_MaxInputBytes (d_ResourceLimits deployment) = rq_MaxInputBytes (v_ResourceRequest version) \<and>
     rl_MaxOutputBytes (d_ResourceLimits deployment) = rq_MaxOutputBytes (v_ResourceRequest version) \<and>
     rl_MaxLogBytes (d_ResourceLimits deployment) = defaultMaxLogBytes"

definition generation_one :: "Deployment \<Rightarrow> Version \<Rightarrow> u64 \<Rightarrow> Time \<Rightarrow> bool" where
  "generation_one deployment version appliedIndex updatedAt \<longleftrightarrow>
     \<not> (d_VersionID deployment \<noteq> v_VersionID version \<or> d_Generation deployment \<noteq> 1 \<or>
        d_ScalingRevision deployment \<noteq> 1 \<or> m_CreatedRaftIndex deployment \<noteq> appliedIndex \<or>
        m_ResourceRevision deployment \<noteq> 1 \<or> \<not> Time_Equal (m_CreatedAt deployment) updatedAt \<or>
        \<not> Time_Equal (m_UpdatedAt deployment) updatedAt \<or> \<not> exact_limits deployment version \<or>
        d_MinReplicas deployment \<noteq> 1 \<or> d_MaxReplicas deployment \<noteq> 1 \<or>
        d_DesiredReplicas deployment \<noteq> 1 \<or> d_ReadyReplicas deployment \<noteq> 0 \<or>
        d_TargetConcurrency deployment \<noteq> rq_MaxConcurrency (v_ResourceRequest version) \<or>
        d_ScalingMode deployment \<noteq> ScalingManual \<or> d_IdleTimeout deployment \<noteq> 0 \<or>
        d_DesiredPhase deployment \<noteq> DeploymentActive)"

definition initial_policy :: "Deployment \<Rightarrow> Version \<Rightarrow> EffectivePolicy" where
  "initial_policy deployment version =
    \<lparr>ep_VersionID = v_VersionID version, ep_AdmissionEpoch = v_AdmissionEpoch version,
     ep_DeploymentGeneration = d_Generation deployment,
     ep_ArtifactDigest = v_ArtifactDigest version, ep_ArtifactSize = v_ArtifactSize version,
     ep_ABI = v_ABI version, ep_HostAPIProfile = v_HostAPIProfile version,
     ep_RuntimeFeatureProfile = v_RuntimeFeatureProfile version,
     ep_ResourceLimits = d_ResourceLimits deployment,
     ep_MaxConcurrency = rq_MaxConcurrency (v_ResourceRequest version),
     ep_GrantedCapabilities = d_GrantedCapabilities deployment\<rparr>"

definition validateInitialDeployment ::
  "canonicalizer \<Rightarrow> Deployment \<Rightarrow> Version \<Rightarrow> u64 \<Rightarrow> Time \<Rightarrow> error option" where
  "validateInitialDeployment jcs deployment version appliedIndex updatedAt = first_error
    [Deployment_Validate deployment,
     fail_if (\<not> generation_one deployment version appliedIndex updatedAt)
       (Invalid ''deployment'' ''must be the fixed Local Core generation one policy''),
     fail_if (\<not> capabilitiesSubset (d_GrantedCapabilities deployment) (v_RequestedCapabilities version))
       (Invalid ''deployment.granted_capabilities'' ''must be requested by the version''),
     (case EffectivePolicy_Digest jcs (initial_policy deployment version) of
        Inl e \<Rightarrow> Some (Wrapped ''calculating initial effective policy'' e)
      | Inr policyDigest \<Rightarrow> fail_if (d_EffectivePolicyDigest deployment \<noteq> policyDigest)
          (Invalid ''deployment.effective_policy_digest''
             ''does not match generation one effective policy''))]"

subsection \<open>Operations\<close>

definition CreateVersion_checks :: "ReleaseStore \<Rightarrow> Function \<Rightarrow> Version \<Rightarrow> error option" where
  "CreateVersion_checks s function version = first_error
    [fail_if (f_Lifecycle function = FunctionDeleting \<or> f_Lifecycle function = FunctionTombstoned)
       (classified CodeConflict ''function does not accept new versions''),
     fail_if (map_has (rel_versions s) (v_VersionID version))
       (classified CodeConflict ''version id already exists''),
     fail_if (map_get 0 (rel_versionCountByFunc s) (v_FunctionID version) \<ge>
              DefaultMaxVersionsPerFunction)
       (classified CodeOverloaded ''function version limit reached'')]"

definition CreateVersion :: "Catalog \<Rightarrow> CreateVersionCommand \<Rightarrow> (error, ReleaseStore, Version) operation" where
  "CreateVersion catalog command s =
    (let version = cv_Version command in
     check (validateCreateVersion command) s
     (case GetFunction catalog (v_FunctionID version) of
        Inl e \<Rightarrow> (Inl (Wrapped ''resolving version parent function'' e), s)
      | Inr (function, _) \<Rightarrow>
          check (CreateVersion_checks s function version) s
          (Inr version, s\<lparr>rel_versions := fmupd (v_VersionID version) version (rel_versions s),
             rel_versionCountByFunc := fmupd (v_FunctionID version)
               (map_get 0 (rel_versionCountByFunc s) (v_FunctionID version) + 1)
               (rel_versionCountByFunc s)\<rparr>)))"

definition started_version :: "StartValidationCommand \<Rightarrow> Version \<Rightarrow> Version" where
  "started_version command version = version\<lparr>v_State := VersionValidating,
     m_UpdatedAt := Time_Round0 (sv_UpdatedAt command),
     m_ResourceRevision := m_ResourceRevision version + 1\<rparr>"

definition StartValidation :: "StartValidationCommand \<Rightarrow> (error, ReleaseStore, Version) operation" where
  "StartValidation command s =
    check (validateStartValidation command) s
    (case fmlookup (rel_versions s) (sv_VersionID command) of
       None \<Rightarrow> (Inl (classified CodeNotFound ''version was not found''), s)
     | Some version \<Rightarrow>
         if m_ResourceRevision version \<noteq> sv_ExpectedResourceRevision command
           then (Inl (RevisionConflict ''resource_revision'' (sv_ExpectedResourceRevision command)
                   (m_ResourceRevision version)), s)
         else if v_State version \<noteq> VersionUploaded
           then (Inl (classified CodeConflict ''version is not awaiting validation''), s)
         else
           (let version' = started_version command version in
            case Version_Validate version' of
              Some e \<Rightarrow> (Inl (Wrapped ''validating started version'' e), s)
            | None \<Rightarrow> (Inr version',
                s\<lparr>rel_versions := fmupd (v_VersionID version') version' (rel_versions s),
                  rel_validationIDByVersion := fmupd (v_VersionID version')
                    (sv_ValidationID command) (rel_validationIDByVersion s)\<rparr>)))"

text \<open>The checks of \<open>CompleteValidation\<close> on the Version it has found.\<close>

definition CompleteValidation_checks ::
  "ReleaseStore \<Rightarrow> CompleteValidationCommand \<Rightarrow> Version \<Rightarrow> error option" where
  "CompleteValidation_checks s command version = first_error
    [fail_if (m_ResourceRevision version \<noteq> ev_ExpectedResourceRevision command)
       (RevisionConflict ''resource_revision'' (ev_ExpectedResourceRevision command)
          (m_ResourceRevision version)),
     fail_if (v_State version \<noteq> VersionValidating)
       (classified CodeStaleGeneration ''version is no longer validating''),
     fail_if (map_get '''' (rel_validationIDByVersion s) (v_VersionID version) \<noteq>
              vr_ValidationID (ev_Report command))
       (classified CodeStaleGeneration ''validator report does not match the active validation''),
     validateReportForVersion (ev_Report command) version,
     fail_if (Time_Before (ev_UpdatedAt command) (m_UpdatedAt version))
       (Invalid ''updated_at'' ''must not precede the current version update time'')]"

definition completed_version :: "CompleteValidationCommand \<Rightarrow> Version \<Rightarrow> Version" where
  "completed_version command version = version\<lparr>m_UpdatedAt := Time_Round0 (ev_UpdatedAt command),
     m_ResourceRevision := m_ResourceRevision version + 1\<rparr>"

definition failed_version :: "CompleteValidationCommand \<Rightarrow> Version \<Rightarrow> Version" where
  "failed_version command version = (completed_version command version)
     \<lparr>v_State := VersionFailed,
      v_ValidationError := Some \<lparr>se_Code = vr_Code (ev_Report command),
        se_Message = vr_Message (ev_Report command)\<rparr>\<rparr>"

definition ready_version :: "CompleteValidationCommand \<Rightarrow> Version \<Rightarrow> Version" where
  "ready_version command version = (completed_version command version)\<lparr>v_State := VersionReady\<rparr>"

text \<open>
  The command has been checked before: a valid report comes with a Deployment, so the
  dereference of \<^verbatim>\<open>*command.Deployment\<close>, whose panic the last branch is, is defined.
\<close>

definition CompleteValidation ::
  "canonicalizer \<Rightarrow> CompleteValidationCommand \<Rightarrow> (error, ReleaseStore, Version \<times> Deployment option) operation" where
  "CompleteValidation jcs command s =
    check (validateCompleteValidation command) s
    (case fmlookup (rel_versions s) (ev_VersionID command) of
       None \<Rightarrow> (Inl (classified CodeNotFound ''version was not found''), s)
     | Some version \<Rightarrow>
         check (CompleteValidation_checks s command version) s
         (if \<not> vr_Valid (ev_Report command)
          then
            (let version' = failed_version command version in
             case Version_Validate version' of
               Some e \<Rightarrow> (Inl (Wrapped ''validating failed version'' e), s)
             | None \<Rightarrow> (Inr (version', None),
                 s\<lparr>rel_versions := fmupd (v_VersionID version') version' (rel_versions s),
                   rel_validationIDByVersion :=
                     fmdrop (v_VersionID version') (rel_validationIDByVersion s)\<rparr>))
          else
            (case ev_Deployment command of
               Some deployment \<Rightarrow>
                 check (validateInitialDeployment jcs deployment (completed_version command version)
                   (ev_AppliedIndex command) (ev_UpdatedAt command)) s
                 (let version' = ready_version command version in
                  case Version_Validate version' of
                    Some e \<Rightarrow> (Inl (Wrapped ''validating ready version'' e), s)
                  | None \<Rightarrow> (Inr (version', Some deployment),
                      s\<lparr>rel_versions := fmupd (v_VersionID version') version' (rel_versions s),
                        rel_deployments := fmupd (v_VersionID version') deployment (rel_deployments s),
                        rel_validationIDByVersion :=
                          fmdrop (v_VersionID version') (rel_validationIDByVersion s)\<rparr>))
             | None \<Rightarrow> (Inl (Opaque ''invalid memory address or nil pointer dereference''), s))))"

definition Release_Get :: "ReleaseStore \<Rightarrow> string \<Rightarrow> error + Version \<times> Deployment option" where
  "Release_Get s versionID =
    (if \<not> idPattern versionID then Inl (Invalid ''version_id'' ''must be a valid identifier'')
     else case fmlookup (rel_versions s) versionID of
         None \<Rightarrow> Inl (classified CodeNotFound ''version was not found'')
       | Some version \<Rightarrow> Inr (version, fmlookup (rel_deployments s) versionID))"

definition compareVersion :: "Version \<Rightarrow> Version \<Rightarrow> int" where
  "compareVersion left right =
    (if v_FunctionID left \<noteq> v_FunctionID right
     then compare_lin (v_FunctionID left) (v_FunctionID right)
     else compare_lin (v_VersionID left) (v_VersionID right))"

definition Release_Snapshot :: "ReleaseStore \<Rightarrow> ReleaseSnapshot" where
  "Release_Snapshot s =
    (let versions = sort_by compareVersion (map_values (rel_versions s)) in
     \<lparr>rn_Versions = versions,
      rn_Deployments = List.map_filter (\<lambda>version. fmlookup (rel_deployments s) (v_VersionID version)) versions,
      rn_PendingValidations = List.map_filter (\<lambda>version.
        map_option (\<lambda>validationID. \<lparr>va_VersionID = v_VersionID version, va_ValidationID = validationID\<rparr>)
          (fmlookup (rel_validationIDByVersion s) (v_VersionID version))) versions\<rparr>)"

subsection \<open>The invariant\<close>

text \<open>What the Deployment of a Ready Version is: the one generation that validation admits.\<close>

definition deployment_for :: "canonicalizer \<Rightarrow> Deployment \<Rightarrow> Version \<Rightarrow> bool" where
  "deployment_for jcs d v \<longleftrightarrow>
     Deployment_Validate d = None \<and> d_VersionID d = v_VersionID v \<and> d_Generation d = 1 \<and>
     d_DesiredPhase d = DeploymentActive \<and> d_DesiredReplicas d = 1 \<and> d_ScalingRevision d = 1 \<and>
     exact_limits d v \<and>
     set (d_GrantedCapabilities d) \<subseteq> set (v_RequestedCapabilities v) \<and>
     EffectivePolicy_Digest jcs (initial_policy d v) = Inr (d_EffectivePolicyDigest d)"

definition version_entry :: "canonicalizer \<Rightarrow> ReleaseStore \<Rightarrow> string \<Rightarrow> Version \<Rightarrow> bool" where
  "version_entry jcs s i v \<longleftrightarrow>
     v_VersionID v = i \<and> m_ID v = i \<and> Version_Validate v = None \<and> v_AdmissionEpoch v = 1 \<and>
     v_RuntimeFeatureProfile v = FeatureProfile \<and>
     v_State v \<in> {VersionUploaded, VersionValidating, VersionReady, VersionFailed} \<and>
     (map_has (rel_validationIDByVersion s) i \<longleftrightarrow> v_State v = VersionValidating) \<and>
     (case fmlookup (rel_deployments s) i of
        None \<Rightarrow> v_State v \<noteq> VersionReady
      | Some d \<Rightarrow> v_State v = VersionReady \<and> deployment_for jcs d v)"

definition versions_of :: "string \<Rightarrow> ReleaseStore \<Rightarrow> nat" where
  "versions_of f s = map_count (\<lambda>v. v_FunctionID v = f) (rel_versions s)"

definition release_inv :: "canonicalizer \<Rightarrow> ReleaseStore \<Rightarrow> bool" where
  "release_inv jcs s \<longleftrightarrow>
     (\<forall>i v. fmlookup (rel_versions s) i = Some v \<longrightarrow> version_entry jcs s i v) \<and>
     (\<forall>i. map_has (rel_validationIDByVersion s) i \<longrightarrow> map_has (rel_versions s) i) \<and>
     (\<forall>i. map_has (rel_deployments s) i \<longrightarrow> map_has (rel_versions s) i) \<and>
     (\<forall>f. map_get 0 (rel_versionCountByFunc s) f = versions_of f s \<and>
          versions_of f s \<le> DefaultMaxVersionsPerFunction)"

lemma release_invD:
  assumes "release_inv jcs s"
  shows release_version: "fmlookup (rel_versions s) i = Some v \<Longrightarrow> version_entry jcs s i v"
    and release_validation: "map_has (rel_validationIDByVersion s) i \<Longrightarrow> map_has (rel_versions s) i"
    and release_deployment: "map_has (rel_deployments s) i \<Longrightarrow> map_has (rel_versions s) i"
    and release_count: "map_get 0 (rel_versionCountByFunc s) f = versions_of f s"
      "versions_of f s \<le> DefaultMaxVersionsPerFunction"
  using assms unfolding release_inv_def by blast+

lemma release_inv_NewReleaseStore: "release_inv jcs NewReleaseStore"
  by (simp add: release_inv_def NewReleaseStore_def versions_of_def)

subsection \<open>What each operation does\<close>

lemma CreateVersion_cases:
  obtains (error) e where "CreateVersion catalog command s = (Inl e, s)"
  | (created) f tr where "validateCreateVersion command = None"
      "GetFunction catalog (v_FunctionID (cv_Version command)) = Inr (f, tr)"
      "fmlookup (rel_versions s) (v_VersionID (cv_Version command)) = None"
      "map_get 0 (rel_versionCountByFunc s) (v_FunctionID (cv_Version command)) < DefaultMaxVersionsPerFunction"
      "CreateVersion catalog command s = (Inr (cv_Version command),
         s\<lparr>rel_versions := fmupd (v_VersionID (cv_Version command)) (cv_Version command) (rel_versions s),
           rel_versionCountByFunc := fmupd (v_FunctionID (cv_Version command))
             (map_get 0 (rel_versionCountByFunc s) (v_FunctionID (cv_Version command)) + 1)
             (rel_versionCountByFunc s)\<rparr>)"
proof (cases "validateCreateVersion command")
  case None
  show thesis
  proof (cases "GetFunction catalog (v_FunctionID (cv_Version command))")
    case (Inl e)
    with None error show thesis by (simp add: CreateVersion_def Let_def)
  next
    case (Inr ft)
    obtain f tr where ft: "ft = (f, tr)" by fastforce
    show thesis
    proof (cases "CreateVersion_checks s f (cv_Version command)")
      case (Some e)
      with None Inr ft error show thesis by (simp add: CreateVersion_def Let_def)
    next
      case checked: None
      with None Inr ft created show thesis
        by (simp add: CreateVersion_def Let_def CreateVersion_checks_def map_has_def)
    qed
  qed
next
  case (Some e)
  with error show thesis by (simp add: CreateVersion_def Let_def)
qed

text \<open>What the start of a validation requires of the Version it finds.\<close>

definition starts :: "StartValidationCommand \<Rightarrow> Version \<Rightarrow> bool" where
  "starts command v \<longleftrightarrow> m_ResourceRevision v = sv_ExpectedResourceRevision command \<and>
     v_State v = VersionUploaded \<and> Version_Validate (started_version command v) = None"

lemma started_version_simps [simp]:
  "v_VersionID (started_version command v) = v_VersionID v" "m_ID (started_version command v) = m_ID v"
  "v_FunctionID (started_version command v) = v_FunctionID v"
  "v_AdmissionEpoch (started_version command v) = v_AdmissionEpoch v"
  "v_RuntimeFeatureProfile (started_version command v) = v_RuntimeFeatureProfile v"
  "v_State (started_version command v) = VersionValidating"
  "m_ResourceRevision (started_version command v) = m_ResourceRevision v + 1"
  by (simp_all add: started_version_def)

lemma StartValidation_cases:
  obtains (error) e where "StartValidation command s = (Inl e, s)"
  | (started) v where "validateStartValidation command = None"
      "fmlookup (rel_versions s) (sv_VersionID command) = Some v" "starts command v"
      "StartValidation command s = (Inr (started_version command v),
         s\<lparr>rel_versions := fmupd (v_VersionID v) (started_version command v) (rel_versions s),
           rel_validationIDByVersion := fmupd (v_VersionID v) (sv_ValidationID command)
             (rel_validationIDByVersion s)\<rparr>)"
proof (cases "validateStartValidation command = None \<and>
    (\<exists>v. fmlookup (rel_versions s) (sv_VersionID command) = Some v \<and> starts command v)")
  case True
  then obtain v where found: "validateStartValidation command = None"
    "fmlookup (rel_versions s) (sv_VersionID command) = Some v" "starts command v" by blast
  then have "StartValidation command s = (Inr (started_version command v),
         s\<lparr>rel_versions := fmupd (v_VersionID v) (started_version command v) (rel_versions s),
           rel_validationIDByVersion := fmupd (v_VersionID v) (sv_ValidationID command)
             (rel_validationIDByVersion s)\<rparr>)"
    by (simp add: StartValidation_def starts_def Let_def)
  with found started show thesis by blast
next
  case False
  then have "\<exists>e. StartValidation command s = (Inl e, s)"
    by (auto simp: StartValidation_def starts_def check_def Let_def split: option.splits)
  with error show thesis by blast
qed

lemma completed_version_simps [simp]:
  "v_VersionID (failed_version command v) = v_VersionID v" "v_VersionID (ready_version command v) = v_VersionID v"
  "v_VersionID (completed_version command v) = v_VersionID v"
  "m_ID (failed_version command v) = m_ID v" "m_ID (ready_version command v) = m_ID v"
  "v_FunctionID (failed_version command v) = v_FunctionID v" "v_FunctionID (ready_version command v) = v_FunctionID v"
  "v_AdmissionEpoch (failed_version command v) = v_AdmissionEpoch v"
  "v_AdmissionEpoch (ready_version command v) = v_AdmissionEpoch v"
  "v_RuntimeFeatureProfile (failed_version command v) = v_RuntimeFeatureProfile v"
  "v_RuntimeFeatureProfile (ready_version command v) = v_RuntimeFeatureProfile v"
  "v_State (failed_version command v) = VersionFailed" "v_State (ready_version command v) = VersionReady"
  "m_ResourceRevision (failed_version command v) = m_ResourceRevision v + 1"
  "m_ResourceRevision (ready_version command v) = m_ResourceRevision v + 1"
  by (simp_all add: failed_version_def ready_version_def completed_version_def)

lemma CompleteValidation_cases:
  obtains (error) e where "CompleteValidation jcs command s = (Inl e, s)"
  | (failed) v where "validateCompleteValidation command = None"
      "fmlookup (rel_versions s) (ev_VersionID command) = Some v"
      "CompleteValidation_checks s command v = None" "\<not> vr_Valid (ev_Report command)"
      "Version_Validate (failed_version command v) = None"
      "CompleteValidation jcs command s = (Inr (failed_version command v, None),
         s\<lparr>rel_versions := fmupd (v_VersionID v) (failed_version command v) (rel_versions s),
           rel_validationIDByVersion := fmdrop (v_VersionID v) (rel_validationIDByVersion s)\<rparr>)"
  | (ready) v d where "validateCompleteValidation command = None"
      "fmlookup (rel_versions s) (ev_VersionID command) = Some v"
      "CompleteValidation_checks s command v = None" "vr_Valid (ev_Report command)"
      "ev_Deployment command = Some d"
      "validateInitialDeployment jcs d (completed_version command v) (ev_AppliedIndex command)
         (ev_UpdatedAt command) = None"
      "Version_Validate (ready_version command v) = None"
      "CompleteValidation jcs command s = (Inr (ready_version command v, Some d),
         s\<lparr>rel_versions := fmupd (v_VersionID v) (ready_version command v) (rel_versions s),
           rel_deployments := fmupd (v_VersionID v) d (rel_deployments s),
           rel_validationIDByVersion := fmdrop (v_VersionID v) (rel_validationIDByVersion s)\<rparr>)"
proof (cases "validateCompleteValidation command")
  case None
  note command = this
  show thesis
  proof (cases "fmlookup (rel_versions s) (ev_VersionID command)")
    case None
    with command error show thesis by (simp add: CompleteValidation_def)
  next
    case (Some v)
    show thesis
    proof (cases "CompleteValidation_checks s command v")
      case None
      note eval = command Some None
      show thesis
      proof (cases "vr_Valid (ev_Report command)")
        case False
        then show thesis
          using eval error failed
          by (cases "Version_Validate (failed_version command v)") (simp_all add: CompleteValidation_def Let_def)
      next
        case True
        then obtain d where d: "ev_Deployment command = Some d"
          using command by (auto simp: validateCompleteValidation_def)
        show thesis
        proof (cases "validateInitialDeployment jcs d (completed_version command v) (ev_AppliedIndex command)
            (ev_UpdatedAt command)")
          case None
          then show thesis
            using eval True d error ready
            by (cases "Version_Validate (ready_version command v)") (simp_all add: CompleteValidation_def Let_def)
        next
          case (Some e)
          with eval True d error show thesis by (simp add: CompleteValidation_def)
        qed
      qed
    next
      case (Some e)
      with command \<open>fmlookup (rel_versions s) (ev_VersionID command) = Some v\<close> error
      show thesis by (simp add: CompleteValidation_def)
    qed
  qed
next
  case (Some e)
  with error show thesis by (simp add: CompleteValidation_def)
qed

subsection \<open>The operations keep the invariant\<close>

lemma version_entry_frame:
  assumes "version_entry jcs s i v"
    and "fmlookup (rel_validationIDByVersion s') i = fmlookup (rel_validationIDByVersion s) i"
    and "fmlookup (rel_deployments s') i = fmlookup (rel_deployments s) i"
  shows "version_entry jcs s' i v"
  using assms by (simp add: version_entry_def map_has_def)

lemma release_inv_put:
  assumes inv: "release_inv jcs s" and old: "fmlookup (rel_versions s) i = Some v"
    and same: "v_FunctionID v' = v_FunctionID v"
    and store: "rel_versions s' = fmupd i v' (rel_versions s)"
      "rel_versionCountByFunc s' = rel_versionCountByFunc s"
    and frame: "\<And>j. j \<noteq> i \<Longrightarrow> fmlookup (rel_validationIDByVersion s') j = fmlookup (rel_validationIDByVersion s) j"
      "\<And>j. j \<noteq> i \<Longrightarrow> fmlookup (rel_deployments s') j = fmlookup (rel_deployments s) j"
    and entry: "version_entry jcs s' i v'"
  shows "release_inv jcs s'"
  unfolding release_inv_def
proof (intro conjI allI impI)
  fix j w assume "fmlookup (rel_versions s') j = Some w"
  then show "version_entry jcs s' j w"
    using entry release_version [OF inv, of j w] frame version_entry_frame
    by (cases "j = i") (auto simp: store)
next
  fix j assume "map_has (rel_validationIDByVersion s') j"
  then show "map_has (rel_versions s') j"
    using release_validation [OF inv, of j] frame(1) by (cases "j = i") (auto simp: store map_has_def)
next
  fix j assume "map_has (rel_deployments s') j"
  then show "map_has (rel_versions s') j"
    using release_deployment [OF inv, of j] frame(2) by (cases "j = i") (auto simp: store map_has_def)
next
  fix f
  have "versions_of f s' = versions_of f s"
    using map_count_upd_old [OF old, of "\<lambda>v. v_FunctionID v = f" v'] same
    by (simp add: versions_of_def store split: if_splits)
  then show "map_get 0 (rel_versionCountByFunc s') f = versions_of f s'"
    "versions_of f s' \<le> DefaultMaxVersionsPerFunction"
    using release_count [OF inv] store(2) by simp_all
qed

lemma validateCreateVersion_None:
  assumes "validateCreateVersion command = None"
  shows "Version_Validate (cv_Version command) = None" "v_State (cv_Version command) = VersionUploaded"
    "m_ID (cv_Version command) = v_VersionID (cv_Version command)" "v_AdmissionEpoch (cv_Version command) = 1"
    "v_RuntimeFeatureProfile (cv_Version command) = FeatureProfile" "m_ResourceRevision (cv_Version command) = 1"
  using assms by (simp_all add: validateCreateVersion_def Let_def)

lemma release_inv_CreateVersion:
  assumes inv: "release_inv jcs s"
  shows "release_inv jcs (snd (CreateVersion catalog command s))"
proof (cases rule: CreateVersion_cases [of catalog command s])
  case (created f tr)
  let ?v = "cv_Version command" and ?s = "snd (CreateVersion catalog command s)"
  note command = validateCreateVersion_None [OF created(1)]
  have s: "rel_versions ?s = fmupd (v_VersionID ?v) ?v (rel_versions s)"
    "rel_versionCountByFunc ?s = fmupd (v_FunctionID ?v) (map_get 0 (rel_versionCountByFunc s) (v_FunctionID ?v) + 1)
       (rel_versionCountByFunc s)"
    "rel_validationIDByVersion ?s = rel_validationIDByVersion s" "rel_deployments ?s = rel_deployments s"
    using created(5) by simp_all
  have fresh: "\<not> map_has (rel_validationIDByVersion s) (v_VersionID ?v)" "\<not> map_has (rel_deployments s) (v_VersionID ?v)"
    using release_validation [OF inv] release_deployment [OF inv] created(3)
    unfolding map_has_def [of "rel_versions s"] by blast+
  show ?thesis
    unfolding release_inv_def
  proof (intro conjI allI impI)
    fix i v assume "fmlookup (rel_versions ?s) i = Some v"
    then show "version_entry jcs ?s i v"
      using release_version [OF inv, of i v] command fresh
      by (auto simp: version_entry_def s map_has_def split: if_splits option.splits)
  next
    fix g
    have "versions_of g ?s = (if v_FunctionID ?v = g then Suc (versions_of g s) else versions_of g s)"
      using map_count_upd_new [OF created(3)] by (simp add: versions_of_def s)
    then show "map_get 0 (rel_versionCountByFunc ?s) g = versions_of g ?s"
      "versions_of g ?s \<le> DefaultMaxVersionsPerFunction"
      using release_count [OF inv, of g] created(4) by (auto simp: s)
  qed (use release_validation [OF inv] release_deployment [OF inv] in \<open>auto simp: s\<close>)
qed (use inv in simp)

lemma release_inv_StartValidation:
  assumes inv: "release_inv jcs s"
  shows "release_inv jcs (snd (StartValidation command s))"
proof (cases rule: StartValidation_cases [of command s])
  case (started v)
  have entry: "version_entry jcs s (v_VersionID v) v" and id: "v_VersionID v = sv_VersionID command"
    using release_version [OF inv started(2)] by (simp_all add: version_entry_def)
  show ?thesis
  proof (rule release_inv_put [OF inv started(2)])
    show "version_entry jcs (snd (StartValidation command s)) (sv_VersionID command) (started_version command v)"
      using entry started id by (auto simp: version_entry_def starts_def split: option.splits)
  qed (use started id in simp_all)
qed (use inv in simp)

lemma capabilitiesSubset_set:
  assumes "capabilitiesSubset granted requested"
    and "validateCapabilities granted = None" "validateCapabilities requested = None"
  shows "set granted \<subseteq> set requested"
proof
  fix x assume x: "x \<in> set granted"
  then obtain y where y: "y \<in> set requested" "capability_key x = capability_key y"
    using assms(1) by (auto simp: capabilitiesSubset_def list_all_iff Let_def fset_of_list.rep_eq)
  then have "x = y" using capability_key_inject [of x y] x assms(2,3) by (simp add: checks)
  with y show "x \<in> set requested" by simp
qed

lemma Version_Validate_capabilities:
  "Version_Validate v = None \<Longrightarrow> validateCapabilities (v_RequestedCapabilities v) = None"
  by (simp add: Version_Validate_def)

text \<open>The checks of a Deployment do not read the state of its Version.\<close>

lemma validateInitialDeployment_state:
  "validateInitialDeployment jcs d (v\<lparr>v_State := x\<rparr>) index time = validateInitialDeployment jcs d v index time"
proof -
  have "exact_limits d (v\<lparr>v_State := x\<rparr>) = exact_limits d v" by (simp add: exact_limits_def)
  moreover have "initial_policy d (v\<lparr>v_State := x\<rparr>) = initial_policy d v" by (simp add: initial_policy_def)
  ultimately show ?thesis by (simp add: validateInitialDeployment_def generation_one_def)
qed

lemma deployment_for_initial:
  assumes checked: "validateInitialDeployment jcs d v index time = None" and v: "Version_Validate v = None"
  shows "deployment_for jcs d v"
proof -
  have d: "Deployment_Validate d = None" "generation_one d v index time"
      "capabilitiesSubset (d_GrantedCapabilities d) (v_RequestedCapabilities v)"
    and digest: "EffectivePolicy_Digest jcs (initial_policy d v) = Inr (d_EffectivePolicyDigest d)"
    using checked by (simp_all add: validateInitialDeployment_def split: sum.splits)
  have "validateCapabilities (d_GrantedCapabilities d) = None"
    using d(1) by (simp add: Deployment_Validate_def)
  with d digest v show ?thesis
    by (simp add: deployment_for_def generation_one_def capabilitiesSubset_set Version_Validate_capabilities)
qed

lemma release_inv_CompleteValidation:
  assumes inv: "release_inv jcs s"
  shows "release_inv jcs (snd (CompleteValidation jcs command s))"
proof (cases rule: CompleteValidation_cases [of jcs command s])
  case (failed v)
  have entry: "version_entry jcs s (v_VersionID v) v" and id: "v_VersionID v = ev_VersionID command"
    using release_version [OF inv failed(2)] by (simp_all add: version_entry_def)
  have "v_State v = VersionValidating" using failed(3) by (simp add: CompleteValidation_checks_def)
  show ?thesis
  proof (rule release_inv_put [OF inv failed(2)])
    show "version_entry jcs (snd (CompleteValidation jcs command s)) (ev_VersionID command) (failed_version command v)"
      using entry failed id \<open>v_State v = VersionValidating\<close> by (auto simp: version_entry_def split: option.splits)
  qed (use failed id in simp_all)
next
  case (ready v d)
  have entry: "version_entry jcs s (v_VersionID v) v" and id: "v_VersionID v = ev_VersionID command"
    using release_version [OF inv ready(2)] by (simp_all add: version_entry_def)
  have "validateInitialDeployment jcs d (ready_version command v) (ev_AppliedIndex command) (ev_UpdatedAt command) = None"
    using ready(6) by (simp add: ready_version_def validateInitialDeployment_state)
  then have "deployment_for jcs d (ready_version command v)"
    using ready(7) by (rule deployment_for_initial)
  then show ?thesis
  proof (intro release_inv_put [OF inv ready(2)])
    show "version_entry jcs (snd (CompleteValidation jcs command s)) (ev_VersionID command) (ready_version command v)"
      using entry ready id \<open>deployment_for jcs d (ready_version command v)\<close>
      by (auto simp: version_entry_def split: option.splits)
  qed (use ready id in simp_all)
qed (use inv in simp)

subsection \<open>History of a Version\<close>

text \<open>
  A Version that changes moves its revision forward, keeps everything but its state, its
  update time and its validation error, and was neither Ready nor Failed before.
\<close>

definition version_later :: "Version \<Rightarrow> Version \<Rightarrow> bool" where
  "version_later v v' \<longleftrightarrow> v' = v \<or>
     m_ResourceRevision v < m_ResourceRevision v' \<and>
     v_State v \<noteq> VersionReady \<and> v_State v \<noteq> VersionFailed \<and>
     v' = v\<lparr>m_UpdatedAt := m_UpdatedAt v', m_ResourceRevision := m_ResourceRevision v',
       v_State := v_State v', v_ValidationError := v_ValidationError v'\<rparr>"

definition release_later :: "ReleaseStore \<Rightarrow> ReleaseStore \<Rightarrow> bool" where
  "release_later s s' \<longleftrightarrow>
     (\<forall>i v. fmlookup (rel_versions s) i = Some v \<longrightarrow>
        (\<exists>v'. fmlookup (rel_versions s') i = Some v' \<and> version_later v v')) \<and>
     (\<forall>i d. fmlookup (rel_deployments s) i = Some d \<longrightarrow> fmlookup (rel_deployments s') i = Some d)"

lemma version_later_refl [simp]: "version_later v v"
  by (simp add: version_later_def)

lemma version_later_trans:
  assumes "version_later u v" "version_later v w"
  shows "version_later u w"
proof (cases "v = u \<or> w = v")
  case True
  with assms show ?thesis by auto
next
  case False
  then have uv: "m_ResourceRevision u < m_ResourceRevision v" "v_State u \<noteq> VersionReady" "v_State u \<noteq> VersionFailed"
      "v = u\<lparr>m_UpdatedAt := m_UpdatedAt v, m_ResourceRevision := m_ResourceRevision v,
       v_State := v_State v, v_ValidationError := v_ValidationError v\<rparr>"
    and vw: "m_ResourceRevision v < m_ResourceRevision w"
      "w = v\<lparr>m_UpdatedAt := m_UpdatedAt w, m_ResourceRevision := m_ResourceRevision w,
       v_State := v_State w, v_ValidationError := v_ValidationError w\<rparr>"
    using assms by (simp_all add: version_later_def)
  have "w = u\<lparr>m_UpdatedAt := m_UpdatedAt w, m_ResourceRevision := m_ResourceRevision w,
       v_State := v_State w, v_ValidationError := v_ValidationError w\<rparr>"
    using uv(4) vw(2) by (cases u; cases v; cases w) simp
  with uv vw show ?thesis unfolding version_later_def by (metis less_trans)
qed

lemma version_later_Ready: "version_later v v' \<Longrightarrow> v_State v = VersionReady \<Longrightarrow> v' = v"
  by (simp add: version_later_def)

lemma version_later_identity:
  assumes "version_later v v'"
  shows "v_FunctionID v' = v_FunctionID v" "v_ArtifactDigest v' = v_ArtifactDigest v"
    "v_VersionID v' = v_VersionID v"
proof -
  from assms obtain t n st e where "v' = v \<or> v' = v\<lparr>m_UpdatedAt := t, m_ResourceRevision := n, v_State := st,
      v_ValidationError := e\<rparr>"
    unfolding version_later_def by blast
  then show "v_FunctionID v' = v_FunctionID v" "v_ArtifactDigest v' = v_ArtifactDigest v"
    "v_VersionID v' = v_VersionID v" by auto
qed

lemma release_later_refl [simp]: "release_later s s"
  by (auto simp: release_later_def)

lemma release_later_trans: "release_later s t \<Longrightarrow> release_later t u \<Longrightarrow> release_later s u"
  unfolding release_later_def by (meson version_later_trans)

lemma Version_Validate_revision: "Version_Validate v = None \<Longrightarrow> m_ResourceRevision v \<noteq> 0"
  by (simp add: Version_Validate_def Metadata_Validate_None)

lemma revision_step: "(w :: u64) + 1 \<noteq> 0 \<Longrightarrow> w < w + 1"
  using word_inc_zero_iff [of w] word_less_inc by blast

lemma version_later_started: "starts command v \<Longrightarrow> version_later v (started_version command v)"
  using Version_Validate_revision [of "started_version command v"] revision_step
  by (simp add: version_later_def starts_def) (simp add: started_version_def)

lemma version_later_completed:
  assumes "v_State v = VersionValidating"
  shows "Version_Validate (failed_version command v) = None \<Longrightarrow> version_later v (failed_version command v)"
    and "Version_Validate (ready_version command v) = None \<Longrightarrow> version_later v (ready_version command v)"
  using assms Version_Validate_revision [of "failed_version command v"]
    Version_Validate_revision [of "ready_version command v"] revision_step
  by (simp_all add: version_later_def) (simp_all add: failed_version_def ready_version_def completed_version_def)

lemma release_later_CreateVersion: "release_later s (snd (CreateVersion catalog command s))"
  by (cases rule: CreateVersion_cases [of catalog command s]) (auto simp: release_later_def)

lemma release_later_StartValidation:
  assumes "release_inv jcs s"
  shows "release_later s (snd (StartValidation command s))"
proof (cases rule: StartValidation_cases [of command s])
  case (started v)
  then show ?thesis
    using version_later_started [OF started(3)] release_version [OF assms started(2)]
    by (auto simp: release_later_def version_entry_def)
qed simp

lemma release_later_CompleteValidation:
  assumes "release_inv jcs s"
  shows "release_later s (snd (CompleteValidation jcs command s))"
proof (cases rule: CompleteValidation_cases [of jcs command s])
  case (failed v)
  have "v_State v = VersionValidating" using failed(3) by (simp add: CompleteValidation_checks_def)
  then show ?thesis
    using failed version_later_completed(1) release_version [OF assms failed(2)]
    by (auto simp: release_later_def version_entry_def)
next
  case (ready v d)
  have "v_State v = VersionValidating" using ready(3) by (simp add: CompleteValidation_checks_def)
  moreover from this have "fmlookup (rel_deployments s) (v_VersionID v) = None"
    using release_version [OF assms ready(2)] by (auto simp: version_entry_def split: option.splits)
  ultimately show ?thesis
    using ready version_later_completed(2) release_version [OF assms ready(2)]
    by (auto simp: release_later_def version_entry_def)
qed simp

end
