(* ===== verification/ControlRoute.thy ===== *)
theory ControlRoute
  imports ControlRelease
begin

text \<open>
  Package \<^verbatim>\<open>internal/controlplane\<close>, file \<^verbatim>\<open>route.go\<close>: the current Route of each Function.
  Publishing holds the locks of the catalog, the releases and the routes together and writes
  the catalog as well, so its state is the pair of the catalog and the route store.
\<close>

subsection \<open>Data\<close>

record PublishRouteCommand =
  pc_FunctionID :: string
  pc_ExpectedActiveRouteRevision :: u64
  pc_Route :: Route
  pc_UpdatedAt :: Time
  pc_AppliedIndex :: u64

record RouteStore =
  rou_routes :: "(string, Route) fmap"
  rou_routeIDs :: "string fset"

record ServingState =
  ss_Function :: Function
  ss_Trigger :: HTTPTrigger
  ss_Route :: "Route option"
  ss_Version :: "Version option"
  ss_Deployment :: "Deployment option"

definition NewRouteStore :: RouteStore where
  "NewRouteStore = \<lparr>rou_routes = fmempty, rou_routeIDs = {||}\<rparr>"

subsection \<open>Operations\<close>

definition validatePublishRoute :: "PublishRouteCommand \<Rightarrow> error option" where
  "validatePublishRoute command =
    (let route = pc_Route command in first_error
      [fail_if (\<not> idPattern (pc_FunctionID command) \<or> r_FunctionID route \<noteq> pc_FunctionID command)
         (Invalid ''function_id'' ''must match a valid route function id''),
       fail_if (pc_AppliedIndex command = 0)
         (Invalid ''applied_index'' ''must be greater than zero''),
       validateUTC ''updated_at'' (pc_UpdatedAt command),
       Route_ValidateCore route,
       fail_if (m_CreatedRaftIndex route \<noteq> pc_AppliedIndex command \<or> m_ResourceRevision route \<noteq> 1 \<or>
                \<not> Time_Equal (m_CreatedAt route) (pc_UpdatedAt command) \<or>
                \<not> Time_Equal (m_UpdatedAt route) (pc_UpdatedAt command))
         (Invalid ''route'' ''must be a new immutable snapshot from this command'')])"

text \<open>
  The first statement reads \<^verbatim>\<open>route.Targets[0]\<close>; the first branch is its panic. Only enabled
  Routes that passed validation come here, and these have a target.
\<close>

definition validateReadyTargetLocked :: "ReleaseStore \<Rightarrow> Route \<Rightarrow> Function \<Rightarrow> error option" where
  "validateReadyTargetLocked releases route function =
    (case r_Targets route of
       [] \<Rightarrow> Some (Opaque ''index out of range'')
     | target # _ \<Rightarrow> first_error
         [fail_if (case fmlookup (rel_versions releases) (rt_VersionID target) of
              None \<Rightarrow> True
            | Some version \<Rightarrow> v_FunctionID version \<noteq> m_ID function \<or> v_State version \<noteq> VersionReady \<or>
                v_AdmissionEpoch version \<noteq> rt_AdmissionEpoch target)
            (classified CodeConflict ''route target is not a ready version for this function''),
          fail_if (case fmlookup (rel_deployments releases) (rt_VersionID target) of
              None \<Rightarrow> True
            | Some deployment \<Rightarrow> d_Generation deployment \<noteq> rt_DeploymentGeneration target \<or>
                d_DesiredPhase deployment \<noteq> DeploymentActive \<or>
                d_EffectivePolicyDigest deployment \<noteq> rt_EffectivePolicyDigest target)
            (classified CodeConflict ''route target does not match an active deployment policy'')])"

definition Publish_checks ::
  "ReleaseStore \<Rightarrow> RouteStore \<Rightarrow> PublishRouteCommand \<Rightarrow> Function \<Rightarrow> error option" where
  "Publish_checks releases s command function = first_error
    [fail_if (pc_ExpectedActiveRouteRevision command \<noteq> f_ActiveRouteRevision function)
       (RevisionConflict ''active_route_revision'' (pc_ExpectedActiveRouteRevision command)
          (f_ActiveRouteRevision function)),
     fail_if (f_ActiveRouteRevision function = - 1 \<or> m_ResourceRevision function = - 1)
       (classified CodeConflict ''function revision space is exhausted''),
     fail_if (r_RouteRevision (pc_Route command) \<noteq> f_ActiveRouteRevision function + 1)
       (Invalid ''route.route_revision'' ''must advance the active route revision by one''),
     fail_if (Time_Before (pc_UpdatedAt command) (m_UpdatedAt function))
       (Invalid ''updated_at'' ''must not precede the current function update time''),
     fail_if (m_ID (pc_Route command) |\<in>| rou_routeIDs s)
       (classified CodeConflict ''route id was already used''),
     (if r_Enabled (pc_Route command)
      then first_error
        [fail_if (f_Lifecycle function \<noteq> FunctionActive)
           (classified CodeConflict ''only an active function may publish an enabled route''),
         validateReadyTargetLocked releases (pc_Route command) function]
      else None)]"

definition routed_function :: "PublishRouteCommand \<Rightarrow> Function \<Rightarrow> Function" where
  "routed_function command function = function
    \<lparr>f_ActiveRouteRevision := r_RouteRevision (pc_Route command),
     m_UpdatedAt := Time_Round0 (pc_UpdatedAt command),
     m_ResourceRevision := m_ResourceRevision function + 1\<rparr>"

definition Publish ::
  "ReleaseStore \<Rightarrow> PublishRouteCommand \<Rightarrow> (error, Catalog \<times> RouteStore, Route \<times> Function) operation" where
  "Publish releases command cs =
    (case cs of (catalog, s) \<Rightarrow>
     check (validatePublishRoute command) cs
     (case fmlookup (cat_functionsByID catalog) (pc_FunctionID command) of
        None \<Rightarrow> (Inl (classified CodeNotFound ''function was not found''), cs)
      | Some function \<Rightarrow>
          check (Publish_checks releases s command function) cs
          (let function' = routed_function command function; route = pc_Route command in
           case Function_Validate function' of
             Some e \<Rightarrow> (Inl e, cs)
           | None \<Rightarrow> (Inr (route, function'),
               (catalog\<lparr>cat_functionsByID :=
                  fmupd (m_ID function') function' (cat_functionsByID catalog)\<rparr>,
                s\<lparr>rou_routes := fmupd (m_ID function') route (rou_routes s),
                  rou_routeIDs := finsert (m_ID route) (rou_routeIDs s)\<rparr>)))))"

definition Route_Get :: "RouteStore \<Rightarrow> string \<Rightarrow> error + Route" where
  "Route_Get s functionID =
    (if \<not> idPattern functionID
       then Inl (Invalid ''function_id'' ''must be a valid identifier'')
     else case fmlookup (rou_routes s) functionID of
         None \<Rightarrow> Inl (classified CodeNotFound ''route was not found'')
       | Some route \<Rightarrow> Inr route)"

definition compareRoutes :: "Route \<Rightarrow> Route \<Rightarrow> int" where
  "compareRoutes left right =
    (if r_FunctionID left < r_FunctionID right then - 1
     else if r_FunctionID left > r_FunctionID right then 1
     else if r_RouteRevision left < r_RouteRevision right then - 1
     else if r_RouteRevision left > r_RouteRevision right then 1
     else 0)"

definition Route_Snapshot :: "RouteStore \<Rightarrow> Route list" where
  "Route_Snapshot s = sort_by compareRoutes (map_values (rou_routes s))"

text \<open>One pass of the loop of \<open>ServingStates\<close>, and the loop, which stops at the first error.\<close>

definition serving_state ::
  "Catalog \<Rightarrow> ReleaseStore \<Rightarrow> RouteStore \<Rightarrow> Function \<Rightarrow> error + ServingState" where
  "serving_state catalog releases s function =
    (case fmlookup (cat_triggerIDByFunc catalog) (m_ID function) of
       None \<Rightarrow> Inl (Opaque ''catalog invariant: function has no default HTTP trigger'')
     | Some triggerID \<Rightarrow>
    (case fmlookup (cat_triggersByID catalog) triggerID of
       None \<Rightarrow> Inl (Opaque ''catalog invariant: default HTTP trigger was not found'')
     | Some trigger \<Rightarrow>
    (let state = \<lparr>ss_Function = function, ss_Trigger = trigger, ss_Route = None, ss_Version = None,
           ss_Deployment = None\<rparr> in
     case fmlookup (rou_routes s) (m_ID function) of
       None \<Rightarrow>
         if f_ActiveRouteRevision function \<noteq> 0
           then Inl (Opaque ''route store invariant: function active route is missing'')
         else Inr state
     | Some route \<Rightarrow>
         if r_RouteRevision route \<noteq> f_ActiveRouteRevision function
           then Inl (Opaque ''route store invariant: route revision does not match function'')
         else
    (case Route_ValidateCore route of
       Some e \<Rightarrow> Inl (Wrapped ''route store invariant: validating persisted route'' e)
     | None \<Rightarrow>
         if \<not> r_Enabled route then Inr (state\<lparr>ss_Route := Some route\<rparr>)
         else
    (case validateReadyTargetLocked releases route function of
       Some e \<Rightarrow> Inl (Wrapped ''route store invariant: validating ready target'' e)
     | None \<Rightarrow>
    (case fmlookup (rel_versions releases) (rt_VersionID (hd (r_Targets route))) of
       None \<Rightarrow> Inl (Opaque ''route store invariant: ready route version was not found'')
     | Some version \<Rightarrow>
    (case fmlookup (rel_deployments releases) (rt_VersionID (hd (r_Targets route))) of
       None \<Rightarrow> Inl (Opaque ''route store invariant: ready route deployment was not found'')
     | Some deployment \<Rightarrow>
         Inr (state\<lparr>ss_Route := Some route, ss_Version := Some version,
           ss_Deployment := Some deployment\<rparr>))))))))"

fun collect_results :: "('a \<Rightarrow> 'e + 'b) \<Rightarrow> 'a list \<Rightarrow> 'e + 'b list" where
  "collect_results f [] = Inr []"
| "collect_results f (x # xs) =
    (case f x of
       Inl e \<Rightarrow> Inl e
     | Inr y \<Rightarrow> (case collect_results f xs of Inl e \<Rightarrow> Inl e | Inr ys \<Rightarrow> Inr (y # ys)))"

definition ServingStates :: "Catalog \<Rightarrow> ReleaseStore \<Rightarrow> RouteStore \<Rightarrow> error + ServingState list" where
  "ServingStates catalog releases s =
    (case collect_results (serving_state catalog releases s) (map_values (cat_functionsByID catalog)) of
       Inl e \<Rightarrow> Inl e
     | Inr states \<Rightarrow>
         Inr (sort_by (\<lambda>left right. compareFunction (ss_Function left) (ss_Function right)) states))"

subsection \<open>The invariant\<close>

definition route_entry :: "Catalog \<Rightarrow> ReleaseStore \<Rightarrow> RouteStore \<Rightarrow> string \<Rightarrow> Route \<Rightarrow> bool" where
  "route_entry catalog releases s i r \<longleftrightarrow>
     r_FunctionID r = i \<and> Route_ValidateCore r = None \<and> m_ID r |\<in>| rou_routeIDs s \<and>
     (\<exists>f. fmlookup (cat_functionsByID catalog) i = Some f \<and> f_ActiveRouteRevision f = r_RouteRevision r \<and>
       (r_Enabled r \<longrightarrow> validateReadyTargetLocked releases r f = None))"

definition route_inv :: "Catalog \<Rightarrow> ReleaseStore \<Rightarrow> RouteStore \<Rightarrow> bool" where
  "route_inv catalog releases s \<longleftrightarrow>
     (\<forall>i r. fmlookup (rou_routes s) i = Some r \<longrightarrow> route_entry catalog releases s i r) \<and>
     (\<forall>i f. fmlookup (cat_functionsByID catalog) i = Some f \<longrightarrow> fmlookup (rou_routes s) i = None \<longrightarrow>
        f_ActiveRouteRevision f = 0)"

lemma route_invD:
  assumes "route_inv catalog releases s"
  shows route_found: "fmlookup (rou_routes s) i = Some r \<Longrightarrow> route_entry catalog releases s i r"
    and route_missing: "fmlookup (cat_functionsByID catalog) i = Some f \<Longrightarrow> fmlookup (rou_routes s) i = None \<Longrightarrow>
      f_ActiveRouteRevision f = 0"
  using assms unfolding route_inv_def by blast+

lemma route_inv_NewRouteStore: "route_inv NewCatalog releases NewRouteStore"
  by (simp add: route_inv_def NewRouteStore_def NewCatalog_def)

lemma validateReadyTargetLocked_function:
  "m_ID f' = m_ID f \<Longrightarrow> validateReadyTargetLocked releases r f' = validateReadyTargetLocked releases r f"
  by (simp add: validateReadyTargetLocked_def split: list.split option.split)

text \<open>A target that is ready stays ready: a Ready Version and its Deployment are final.\<close>

lemma validateReadyTargetLocked_None:
  assumes "validateReadyTargetLocked releases r f = None"
  obtains t ts v d where "r_Targets r = t # ts" "fmlookup (rel_versions releases) (rt_VersionID t) = Some v"
    "v_FunctionID v = m_ID f" "v_State v = VersionReady" "v_AdmissionEpoch v = rt_AdmissionEpoch t"
    "fmlookup (rel_deployments releases) (rt_VersionID t) = Some d" "d_Generation d = rt_DeploymentGeneration t"
    "d_DesiredPhase d = DeploymentActive" "d_EffectivePolicyDigest d = rt_EffectivePolicyDigest t"
  using assms by (auto simp: validateReadyTargetLocked_def split: list.splits option.splits)

lemma validateReadyTargetLocked_later:
  assumes "validateReadyTargetLocked releases r f = None" "release_later releases releases'"
  shows "validateReadyTargetLocked releases' r f = None"
proof -
  obtain t ts v d where ready: "r_Targets r = t # ts" "fmlookup (rel_versions releases) (rt_VersionID t) = Some v"
    "v_FunctionID v = m_ID f" "v_State v = VersionReady" "v_AdmissionEpoch v = rt_AdmissionEpoch t"
    "fmlookup (rel_deployments releases) (rt_VersionID t) = Some d" "d_Generation d = rt_DeploymentGeneration t"
    "d_DesiredPhase d = DeploymentActive" "d_EffectivePolicyDigest d = rt_EffectivePolicyDigest t"
    using assms(1) by (rule validateReadyTargetLocked_None)
  then have "fmlookup (rel_versions releases') (rt_VersionID t) = Some v"
    "fmlookup (rel_deployments releases') (rt_VersionID t) = Some d"
    using assms(2) version_later_Ready unfolding release_later_def by blast+
  with ready show ?thesis by (simp add: validateReadyTargetLocked_def)
qed

lemma route_inv_releases:
  "route_inv catalog releases s \<Longrightarrow> release_later releases releases' \<Longrightarrow> route_inv catalog releases' s"
  using validateReadyTargetLocked_later unfolding route_inv_def route_entry_def by meson

text \<open>Catalog operations that keep the Functions' identities and route pointers.\<close>

definition catalog_frame :: "Catalog \<Rightarrow> Catalog \<Rightarrow> bool" where
  "catalog_frame c c' \<longleftrightarrow>
     (\<forall>i f. fmlookup (cat_functionsByID c) i = Some f \<longrightarrow>
        (\<exists>f'. fmlookup (cat_functionsByID c') i = Some f' \<and> m_ID f' = m_ID f \<and>
          f_ActiveRouteRevision f' = f_ActiveRouteRevision f)) \<and>
     (\<forall>i f'. fmlookup (cat_functionsByID c) i = None \<longrightarrow> fmlookup (cat_functionsByID c') i = Some f' \<longrightarrow>
        f_ActiveRouteRevision f' = 0)"

lemma route_inv_catalog:
  assumes inv: "route_inv catalog releases s" and frame: "catalog_frame catalog catalog'"
  shows "route_inv catalog' releases s"
  unfolding route_inv_def
proof (intro conjI allI impI)
  fix i r assume "fmlookup (rou_routes s) i = Some r"
  then obtain f where f: "r_FunctionID r = i" "Route_ValidateCore r = None" "m_ID r |\<in>| rou_routeIDs s"
    "fmlookup (cat_functionsByID catalog) i = Some f" "f_ActiveRouteRevision f = r_RouteRevision r"
    "r_Enabled r \<longrightarrow> validateReadyTargetLocked releases r f = None"
    using route_found [OF inv] by (auto simp: route_entry_def)
  then obtain f' where "fmlookup (cat_functionsByID catalog') i = Some f'" "m_ID f' = m_ID f"
    "f_ActiveRouteRevision f' = f_ActiveRouteRevision f"
    using frame unfolding catalog_frame_def by blast
  with f show "route_entry catalog' releases s i r"
    by (simp add: route_entry_def validateReadyTargetLocked_function [of f' f])
next
  fix i f' assume new: "fmlookup (cat_functionsByID catalog') i = Some f'" and "fmlookup (rou_routes s) i = None"
  then show "f_ActiveRouteRevision f' = 0"
    using frame route_missing [OF inv] unfolding catalog_frame_def
    by (metis option.exhaust option.inject)
qed

lemma catalog_frame_refl [simp]: "catalog_frame c c"
  by (simp add: catalog_frame_def)

lemma catalog_frame_CreateFunction: "catalog_frame c (snd (CreateFunction command c))"
proof (cases rule: CreateFunction_cases [of c command])
  case created
  then show ?thesis
    using CreateFunction_checks_None [OF created(1)] validateCreateFunction_None
    by (auto simp: catalog_frame_def)
qed simp

lemma catalog_frame_SetFunctionLifecycle:
  assumes "catalog_inv c"
  shows "catalog_frame c (snd (SetFunctionLifecycle command c))"
proof (cases rule: SetFunctionLifecycle_cases [of command c])
  case (changed f)
  then show ?thesis
    using catalog_function [OF assms changed(2)] by (auto simp: catalog_frame_def function_entry_def)
qed simp_all

lemma catalog_frame_RotateInvocationToken: "catalog_frame c (snd (RotateInvocationToken command c))"
  by (cases rule: RotateInvocationToken_cases [of command c]) (simp_all add: catalog_frame_def)

subsection \<open>Publishing\<close>

lemma routed_function_simps [simp]:
  "m_ID (routed_function command f) = m_ID f" "f_Name (routed_function command f) = f_Name f"
  "f_Lifecycle (routed_function command f) = f_Lifecycle f"
  "f_ActiveRouteRevision (routed_function command f) = r_RouteRevision (pc_Route command)"
  "m_ResourceRevision (routed_function command f) = m_ResourceRevision f + 1"
  by (simp_all add: routed_function_def)

lemma Publish_cases:
  obtains (error) e where "Publish releases command (c, s) = (Inl e, (c, s))"
  | (published) f where "validatePublishRoute command = None"
      "fmlookup (cat_functionsByID c) (pc_FunctionID command) = Some f"
      "Publish_checks releases s command f = None"
      "Function_Validate (routed_function command f) = None"
      "Publish releases command (c, s) = (Inr (pc_Route command, routed_function command f),
         (c\<lparr>cat_functionsByID := fmupd (m_ID f) (routed_function command f) (cat_functionsByID c)\<rparr>,
          s\<lparr>rou_routes := fmupd (m_ID f) (pc_Route command) (rou_routes s),
            rou_routeIDs := finsert (m_ID (pc_Route command)) (rou_routeIDs s)\<rparr>))"
proof (cases "validatePublishRoute command")
  case None
  note command = this
  show thesis
  proof (cases "fmlookup (cat_functionsByID c) (pc_FunctionID command)")
    case None
    with command error show thesis by (simp add: Publish_def)
  next
    case (Some f)
    show thesis
    proof (cases "Publish_checks releases s command f")
      case None
      then show thesis
        using command Some error published
        by (cases "Function_Validate (routed_function command f)") (simp_all add: Publish_def Let_def)
    next
      case (Some e)
      with command \<open>fmlookup (cat_functionsByID c) (pc_FunctionID command) = Some f\<close> error
      show thesis by (simp add: Publish_def)
    qed
  qed
next
  case (Some e)
  with error show thesis by (simp add: Publish_def)
qed

lemma Publish_checks_None:
  assumes "Publish_checks releases s command f = None"
  shows "pc_ExpectedActiveRouteRevision command = f_ActiveRouteRevision f"
    "f_ActiveRouteRevision f \<noteq> - 1" "m_ResourceRevision f \<noteq> - 1"
    "r_RouteRevision (pc_Route command) = f_ActiveRouteRevision f + 1"
    "m_ID (pc_Route command) |\<notin>| rou_routeIDs s"
    "r_Enabled (pc_Route command) \<Longrightarrow> f_Lifecycle f = FunctionActive"
    "r_Enabled (pc_Route command) \<Longrightarrow> validateReadyTargetLocked releases (pc_Route command) f = None"
  using assms by (simp_all add: Publish_checks_def)

lemma validatePublishRoute_None:
  assumes "validatePublishRoute command = None"
  shows "r_FunctionID (pc_Route command) = pc_FunctionID command" "Route_ValidateCore (pc_Route command) = None"
    "m_CreatedRaftIndex (pc_Route command) = pc_AppliedIndex command"
  using assms by (simp_all add: validatePublishRoute_def Let_def)

lemma catalog_inv_Publish:
  assumes inv: "catalog_inv c"
  shows "catalog_inv (fst (snd (Publish releases command (c, s))))"
proof (cases rule: Publish_cases [of releases command c s])
  case (published f)
  have "function_entry c (pc_FunctionID command) f" by (rule catalog_function [OF inv published(2)])
  then show ?thesis
    using catalog_inv_put_function [OF inv published(2), of "routed_function command f"] published
    by (simp add: function_entry_def lifecycle_ok_def)
qed (use inv in simp)

lemma route_inv_Publish:
  assumes cat: "catalog_inv c" and inv: "route_inv c releases s"
  shows "route_inv (fst (snd (Publish releases command (c, s)))) releases (snd (snd (Publish releases command (c, s))))"
proof (cases rule: Publish_cases [of releases command c s])
  case (published f)
  have id: "m_ID f = pc_FunctionID command"
    using catalog_function [OF cat published(2)] by (simp add: function_entry_def)
  note ok = Publish_checks_None [OF published(3)] and command = validatePublishRoute_None [OF published(1)]
  let ?c = "fst (snd (Publish releases command (c, s)))" and ?s = "snd (snd (Publish releases command (c, s)))"
  have cs: "cat_functionsByID ?c = fmupd (m_ID f) (routed_function command f) (cat_functionsByID c)"
    "rou_routes ?s = fmupd (m_ID f) (pc_Route command) (rou_routes s)"
    "rou_routeIDs ?s = finsert (m_ID (pc_Route command)) (rou_routeIDs s)"
    using published(5) by simp_all
  show ?thesis
    unfolding route_inv_def
  proof (intro conjI allI impI)
    fix i r assume r: "fmlookup (rou_routes ?s) i = Some r"
    show "route_entry ?c releases ?s i r"
    proof (cases "i = m_ID f")
      case True
      with r have "r = pc_Route command" by (simp add: cs)
      with True show ?thesis
        using ok command id
        by (simp add: route_entry_def cs validateReadyTargetLocked_function [of "routed_function command f" f])
    next
      case False
      with r have "route_entry c releases s i r" by (intro route_found [OF inv]) (simp add: cs)
      with False show ?thesis by (simp add: route_entry_def cs)
    qed
  next
    fix i g assume "fmlookup (cat_functionsByID ?c) i = Some g" "fmlookup (rou_routes ?s) i = None"
    then show "f_ActiveRouteRevision g = 0"
      using route_missing [OF inv, of i g] by (simp add: cs split: if_splits)
  qed
qed (use inv in simp)

subsection \<open>The serving view\<close>

text \<open>The entry of one Function: its trigger, its Route, and the Version and Deployment routed to.\<close>

definition serving_entry ::
  "canonicalizer \<Rightarrow> Catalog \<Rightarrow> ReleaseStore \<Rightarrow> RouteStore \<Rightarrow> ServingState \<Rightarrow> bool" where
  "serving_entry jcs c releases s st \<longleftrightarrow>
     fmlookup (cat_functionsByID c) (m_ID (ss_Function st)) = Some (ss_Function st) \<and>
     ss_Trigger st = function_trigger c (m_ID (ss_Function st)) \<and>
     ss_Route st = fmlookup (rou_routes s) (m_ID (ss_Function st)) \<and>
     (case ss_Route st of
        None \<Rightarrow> ss_Version st = None \<and> ss_Deployment st = None
      | Some r \<Rightarrow>
          if r_Enabled r then
            (\<exists>t v d. r_Targets r = [t] \<and> ss_Version st = Some v \<and> ss_Deployment st = Some d \<and>
              v_VersionID v = rt_VersionID t \<and> v_FunctionID v = m_ID (ss_Function st) \<and>
              v_State v = VersionReady \<and> v_AdmissionEpoch v = rt_AdmissionEpoch t \<and>
              deployment_for jcs d v \<and> d_EffectivePolicyDigest d = rt_EffectivePolicyDigest t)
          else ss_Version st = None \<and> ss_Deployment st = None)"

lemma serving_state_entry:
  assumes cat: "catalog_inv c" and rel: "release_inv jcs releases" and rou: "route_inv c releases s"
    and f: "fmlookup (cat_functionsByID c) i = Some f"
  shows "\<exists>st. serving_state c releases s f = Inr st \<and> ss_Function st = f \<and> serving_entry jcs c releases s st"
proof -
  have id: "m_ID f = i" using catalog_function [OF cat f] by (simp add: function_entry_def)
  obtain t tr where tr: "fmlookup (cat_triggerIDByFunc c) i = Some t" "fmlookup (cat_triggersByID c) t = Some tr"
    "function_trigger c i = tr"
    using function_trigger_found [OF cat f] by metis
  show ?thesis
  proof (cases "fmlookup (rou_routes s) i")
    case None
    then show ?thesis
      using f id tr route_missing [OF rou f None] by (simp add: serving_state_def serving_entry_def)
  next
    case (Some r)
    then have r: "Route_ValidateCore r = None" "r_RouteRevision r = f_ActiveRouteRevision f"
      "r_Enabled r \<Longrightarrow> validateReadyTargetLocked releases r f = None"
      using route_found [OF rou Some] f by (auto simp: route_entry_def)
    show ?thesis
    proof (cases "r_Enabled r")
      case False
      then show ?thesis using f id tr Some r by (simp add: serving_state_def serving_entry_def)
    next
      case True
      obtain t' v d where t': "r_Targets r = [t']"
        and v: "fmlookup (rel_versions releases) (rt_VersionID t') = Some v" "v_FunctionID v = m_ID f"
          "v_State v = VersionReady" "v_AdmissionEpoch v = rt_AdmissionEpoch t'"
        and d: "fmlookup (rel_deployments releases) (rt_VersionID t') = Some d"
          "d_EffectivePolicyDigest d = rt_EffectivePolicyDigest t'"
        using Route_ValidateCore_target [OF r(1) True] validateReadyTargetLocked_None [OF r(3) [OF True]]
        by (metis list.inject)
      have "deployment_for jcs d v" "v_VersionID v = rt_VersionID t'"
        using release_version [OF rel v(1)] d(1) by (simp_all add: version_entry_def)
      then show ?thesis
        using f id tr Some r True t' v d by (simp add: serving_state_def serving_entry_def)
    qed
  qed
qed

lemma collect_results_Inr:
  "\<forall>x \<in> set xs. \<exists>y. f x = Inr y \<and> P x y \<Longrightarrow>
     \<exists>ys. collect_results f xs = Inr ys \<and> list_all2 P xs ys"
  by (induction xs) auto

lemma ServingStates_complete:
  assumes cat: "catalog_inv c" and rel: "release_inv jcs releases" and rou: "route_inv c releases s"
  shows "\<exists>states. ServingStates c releases s = Inr states \<and>
    map ss_Function states = cs_Functions (snapshotLocked c) \<and>
    (\<forall>st \<in> set states. serving_entry jcs c releases s st)"
proof -
  have "\<forall>f \<in> set (map_values (cat_functionsByID c)). \<exists>st. serving_state c releases s f = Inr st \<and>
      ss_Function st = f \<and> serving_entry jcs c releases s st"
    using serving_state_entry [OF cat rel rou] by auto
  then obtain states where states: "collect_results (serving_state c releases s) (map_values (cat_functionsByID c)) = Inr states"
    and all: "list_all2 (\<lambda>f st. ss_Function st = f \<and> serving_entry jcs c releases s st)
      (map_values (cat_functionsByID c)) states"
    using collect_results_Inr [where P = "\<lambda>f st. ss_Function st = f \<and> serving_entry jcs c releases s st"]
    by blast
  have "map ss_Function states = map_values (cat_functionsByID c)"
    using all by (induction rule: list_all2_induct) auto
  moreover have "\<forall>st \<in> set states. serving_entry jcs c releases s st"
    using all by (induction rule: list_all2_induct) auto
  ultimately show ?thesis
    using states by (simp add: ServingStates_def map_sort_by snapshotLocked_def Let_def)
qed

end
