(* ===== verification/ControlAssignment.thy ===== *)
theory ControlAssignment
  imports ControlRoute Scheduler
begin

text \<open>
  Package \<^verbatim>\<open>internal/controlplane\<close>, file \<^verbatim>\<open>assignment.go\<close>: the committed placements and the count
  of those in force for each routed target. Installing one reads the catalog, the releases
  and the routes under their locks; these are arguments here.
\<close>

subsection \<open>Data\<close>

abbreviation defaultMaxAssignments :: int where "defaultMaxAssignments \<equiv> 100000"

datatype AssignmentDesiredState = AssignmentAssigned | AssignmentCancelled | AssignmentStateOther string

record AssignmentRecord =
  ar_FunctionID :: string
  ar_Placement :: Assignment
  ar_DesiredState :: AssignmentDesiredState
  ar_CreatedAt :: Time
  ar_UpdatedAt :: Time
  ar_CreatedRaftIndex :: u64
  ar_LastAppliedIndex :: u64
  ar_ResourceRevision :: u64

definition AssignmentRecord_Identity :: "AssignmentRecord \<Rightarrow> AssignmentIdentity" where
  "AssignmentRecord_Identity r =
    \<lparr>ai_Worker = as_Worker (ar_Placement r), ai_AssignmentID = as_AssignmentID (ar_Placement r),
     ai_VersionID = as_VersionID (ar_Placement r),
     ai_AdmissionEpoch = as_AdmissionEpoch (ar_Placement r),
     ai_DeploymentGeneration = as_DeploymentGeneration (ar_Placement r),
     ai_PolicyDigest = as_PolicyDigest (ar_Placement r), ai_Mode = ModeNormal\<rparr>"

record InstallAssignmentCommand =
  ia_FunctionID :: string
  ia_Placement :: Assignment
  ia_IfNoneMatch :: bool
  ia_ExpectedScalingRevision :: u64
  ia_AppliedIndex :: u64
  ia_UpdatedAt :: Time

record CancelAssignmentCommand =
  ca_AssignmentID :: string
  ca_ExpectedResourceRevision :: u64
  ca_AppliedIndex :: u64
  ca_UpdatedAt :: Time

record assignmentTarget =
  at_functionID :: string
  at_versionID :: string
  at_admissionEpoch :: u64
  at_deploymentGeneration :: u64

record AssignmentStore =
  asg_maxAssignments :: int
  asg_records :: "(string, AssignmentRecord) fmap"
  asg_activeCounts :: "(assignmentTarget, u32) fmap"

definition NewAssignmentStore :: AssignmentStore where
  "NewAssignmentStore =
    \<lparr>asg_maxAssignments = defaultMaxAssignments, asg_records = fmempty, asg_activeCounts = fmempty\<rparr>"

definition assignmentTargetFor :: "string \<Rightarrow> RouteTarget \<Rightarrow> assignmentTarget" where
  "assignmentTargetFor functionID target =
    \<lparr>at_functionID = functionID, at_versionID = rt_VersionID target,
     at_admissionEpoch = rt_AdmissionEpoch target,
     at_deploymentGeneration = rt_DeploymentGeneration target\<rparr>"

definition assignmentTargetForRecord :: "AssignmentRecord \<Rightarrow> assignmentTarget" where
  "assignmentTargetForRecord record =
    \<lparr>at_functionID = ar_FunctionID record, at_versionID = as_VersionID (ar_Placement record),
     at_admissionEpoch = as_AdmissionEpoch (ar_Placement record),
     at_deploymentGeneration = as_DeploymentGeneration (ar_Placement record)\<rparr>"

subsection \<open>Operations\<close>

definition validateInstallAssignment :: "InstallAssignmentCommand \<Rightarrow> error option" where
  "validateInstallAssignment command = first_error
    [fail_if (\<not> idPattern (ia_FunctionID command))
       (Invalid ''function_id'' ''must be a valid identifier''),
     fail_if (\<not> ia_IfNoneMatch command)
       (Invalid ''if_none_match'' ''must be true when creating assignment intent''),
     fail_if (ia_ExpectedScalingRevision command = 0)
       (Invalid ''expected_scaling_revision'' ''must be greater than zero''),
     map_option (Wrapped ''validating assignment placement'') (Assignment_Validate (ia_Placement command)),
     fail_if (ia_AppliedIndex command = 0)
       (Invalid ''applied_index'' ''must be greater than zero''),
     validateUTC ''updated_at'' (ia_UpdatedAt command)]"

definition validateCancelAssignment :: "CancelAssignmentCommand \<Rightarrow> error option" where
  "validateCancelAssignment command = first_error
    [fail_if (\<not> idPattern (ca_AssignmentID command))
       (Invalid ''assignment_id'' ''must be a valid identifier''),
     fail_if (ca_ExpectedResourceRevision command = 0)
       (Invalid ''expected_resource_revision'' ''must be greater than zero''),
     fail_if (ca_AppliedIndex command = 0)
       (Invalid ''applied_index'' ''must be greater than zero''),
     validateUTC ''updated_at'' (ca_UpdatedAt command)]"

definition targetMatches :: "Assignment \<Rightarrow> RouteTarget \<Rightarrow> bool" where
  "targetMatches placement target \<longleftrightarrow>
     as_VersionID placement = rt_VersionID target \<and>
     as_AdmissionEpoch placement = rt_AdmissionEpoch target \<and>
     as_DeploymentGeneration placement = rt_DeploymentGeneration target \<and>
     as_PolicyDigest placement = rt_EffectivePolicyDigest target"

definition runtimeMatches :: "Assignment \<Rightarrow> Version \<Rightarrow> Deployment \<Rightarrow> bool" where
  "runtimeMatches placement version deployment \<longleftrightarrow>
     as_ArtifactDigest placement = v_ArtifactDigest version \<and>
     as_ArtifactSize placement = v_ArtifactSize version \<and>
     as_ABI placement = v_ABI version \<and>
     as_HostAPI placement = v_HostAPIProfile version \<and>
     as_FeatureProfile placement = v_RuntimeFeatureProfile version \<and>
     as_MemoryMiB placement = rl_MemoryMiB (d_ResourceLimits deployment)"

text \<open>
  The checks up to the read of \<^verbatim>\<open>route.Targets[0]\<close>. The Version and the Deployment of that
  target are then read without testing that they exist, which \<open>validateReadyTargetLocked\<close>
  has done; absent ones would read as zero values, which match no validated placement.
\<close>

definition validatePlacement_route ::
  "Catalog \<Rightarrow> ReleaseStore \<Rightarrow> RouteStore \<Rightarrow> InstallAssignmentCommand \<Rightarrow> error + Route" where
  "validatePlacement_route catalog releases routes command =
    (case fmlookup (cat_functionsByID catalog) (ia_FunctionID command) of
       None \<Rightarrow> Inl (classified CodeNotFound ''assignment function was not found'')
     | Some function \<Rightarrow>
         if f_Lifecycle function \<noteq> FunctionActive
           then Inl (classified CodeConflict ''assignment function is not active'')
         else
    (case fmlookup (rou_routes routes) (ia_FunctionID command) of
       None \<Rightarrow> Inl (classified CodeConflict ''assignment function has no current enabled route'')
     | Some route \<Rightarrow>
         if \<not> r_Enabled route \<or> r_RouteRevision route \<noteq> f_ActiveRouteRevision function
           then Inl (classified CodeConflict ''assignment function has no current enabled route'')
         else
    (case validateReadyTargetLocked releases route function of
       Some e \<Rightarrow> Inl (Wrapped ''validating assignment route target'' e)
     | None \<Rightarrow>
         if Time_Before (ia_UpdatedAt command) (m_UpdatedAt route) \<or>
            ia_AppliedIndex command \<le> m_CreatedRaftIndex route
           then Inl (Invalid ''assignment'' ''must be committed after the current route'')
         else Inr route)))"

definition validatePlacementLocked ::
  "Catalog \<Rightarrow> ReleaseStore \<Rightarrow> RouteStore \<Rightarrow> InstallAssignmentCommand \<Rightarrow> error + RouteTarget \<times> Deployment" where
  "validatePlacementLocked catalog releases routes command =
    (case validatePlacement_route catalog releases routes command of
       Inl e \<Rightarrow> Inl e
     | Inr route \<Rightarrow>
    (case r_Targets route of
       [] \<Rightarrow> Inl (Opaque ''index out of range'')
     | target # _ \<Rightarrow>
         if \<not> targetMatches (ia_Placement command) target
           then Inl (classified CodeStaleGeneration ''assignment does not match the current route target'')
         else
    (case (fmlookup (rel_versions releases) (rt_VersionID target),
           fmlookup (rel_deployments releases) (rt_VersionID target)) of
       (Some version, Some deployment) \<Rightarrow>
         if \<not> runtimeMatches (ia_Placement command) version deployment
           then Inl (classified CodeConflict ''assignment runtime does not match the admitted policy'')
         else Inr (target, deployment)
     | _ \<Rightarrow> Inl (classified CodeConflict ''assignment runtime does not match the admitted policy''))))"

definition install_candidate :: "InstallAssignmentCommand \<Rightarrow> AssignmentRecord" where
  "install_candidate command =
    \<lparr>ar_FunctionID = ia_FunctionID command, ar_Placement = ia_Placement command,
     ar_DesiredState = AssignmentAssigned, ar_CreatedAt = Time_Round0 (ia_UpdatedAt command),
     ar_UpdatedAt = Time_Round0 (ia_UpdatedAt command), ar_CreatedRaftIndex = ia_AppliedIndex command,
     ar_LastAppliedIndex = ia_AppliedIndex command, ar_ResourceRevision = 1\<rparr>"

definition InstallAssignment ::
  "Catalog \<Rightarrow> ReleaseStore \<Rightarrow> RouteStore \<Rightarrow> InstallAssignmentCommand \<Rightarrow>
     (error, AssignmentStore, AssignmentRecord) operation" where
  "InstallAssignment catalog releases routes command s =
    (let assignmentID = as_AssignmentID (ia_Placement command) in
     check (first_error
       [validateInstallAssignment command,
        fail_if (map_has (asg_records s) assignmentID)
          (classified CodeConflict ''assignment id was already used''),
        fail_if (int (map_len (asg_records s)) \<ge> asg_maxAssignments s)
          (classified CodeOverloaded ''assignment store is full'')]) s
     (case validatePlacementLocked catalog releases routes command of
        Inl e \<Rightarrow> (Inl e, s)
      | Inr (target, deployment) \<Rightarrow>
          (let targetKey = assignmentTargetFor (ia_FunctionID command) target;
               active = map_get 0 (asg_activeCounts s) targetKey in
           if ia_ExpectedScalingRevision command \<noteq> d_ScalingRevision deployment
             then (Inl (RevisionConflict ''scaling_revision'' (ia_ExpectedScalingRevision command)
                     (d_ScalingRevision deployment)), s)
           else if active \<ge> d_DesiredReplicas deployment
             then (Inl (classified CodeConflict
                     ''deployment desired replica count is already satisfied''), s)
           else (Inr (install_candidate command),
                 s\<lparr>asg_records := fmupd assignmentID (install_candidate command) (asg_records s),
                   asg_activeCounts := fmupd targetKey (active + 1) (asg_activeCounts s)\<rparr>))))"

definition CancelAssignment_checks ::
  "AssignmentStore \<Rightarrow> CancelAssignmentCommand \<Rightarrow> AssignmentRecord \<Rightarrow> error option" where
  "CancelAssignment_checks s command record = first_error
    [fail_if (ar_ResourceRevision record \<noteq> ca_ExpectedResourceRevision command)
       (RevisionConflict ''resource_revision'' (ca_ExpectedResourceRevision command)
          (ar_ResourceRevision record)),
     fail_if (ar_DesiredState record \<noteq> AssignmentAssigned)
       (classified CodeConflict ''assignment is already cancelled''),
     fail_if (Time_Before (ca_UpdatedAt command) (ar_UpdatedAt record))
       (Invalid ''updated_at'' ''must not precede the assignment update time''),
     fail_if (ca_AppliedIndex command \<le> ar_LastAppliedIndex record)
       (Invalid ''applied_index'' ''must advance the assignment apply position''),
     fail_if (ar_ResourceRevision record = - 1)
       (classified CodeConflict ''assignment revision space is exhausted''),
     fail_if (map_get 0 (asg_activeCounts s) (assignmentTargetForRecord record) = 0)
       (Opaque ''assignment store invariant: active count is missing'')]"

definition cancelled_record :: "CancelAssignmentCommand \<Rightarrow> AssignmentRecord \<Rightarrow> AssignmentRecord" where
  "cancelled_record command record = record
    \<lparr>ar_DesiredState := AssignmentCancelled, ar_UpdatedAt := Time_Round0 (ca_UpdatedAt command),
     ar_LastAppliedIndex := ca_AppliedIndex command,
     ar_ResourceRevision := ar_ResourceRevision record + 1\<rparr>"

definition CancelAssignment :: "CancelAssignmentCommand \<Rightarrow> (error, AssignmentStore, AssignmentRecord) operation" where
  "CancelAssignment command s =
    check (validateCancelAssignment command) s
    (case fmlookup (asg_records s) (ca_AssignmentID command) of
       None \<Rightarrow> (Inl (classified CodeNotFound ''assignment was not found''), s)
     | Some record \<Rightarrow>
         check (CancelAssignment_checks s command record) s
         (let targetKey = assignmentTargetForRecord record in
          (Inr (cancelled_record command record),
           s\<lparr>asg_records := fmupd (ca_AssignmentID command) (cancelled_record command record) (asg_records s),
             asg_activeCounts := fmupd targetKey
               (map_get 0 (asg_activeCounts s) targetKey - 1) (asg_activeCounts s)\<rparr>)))"

definition Assignment_Get :: "AssignmentStore \<Rightarrow> string \<Rightarrow> error + AssignmentRecord" where
  "Assignment_Get s assignmentID =
    (if \<not> idPattern assignmentID
       then Inl (Invalid ''assignment_id'' ''must be a valid identifier'')
     else case fmlookup (asg_records s) assignmentID of
         None \<Rightarrow> Inl (classified CodeNotFound ''assignment was not found'')
       | Some record \<Rightarrow> Inr record)"

definition compareAssignmentRecord :: "AssignmentRecord \<Rightarrow> AssignmentRecord \<Rightarrow> int" where
  "compareAssignmentRecord left right =
    (if ar_CreatedRaftIndex left < ar_CreatedRaftIndex right then - 1
     else if ar_CreatedRaftIndex left > ar_CreatedRaftIndex right then 1
     else compare_lin (as_AssignmentID (ar_Placement left)) (as_AssignmentID (ar_Placement right)))"

definition Assignment_Snapshot :: "AssignmentStore \<Rightarrow> AssignmentRecord list" where
  "Assignment_Snapshot s = sort_by compareAssignmentRecord (map_values (asg_records s))"

subsection \<open>The invariant\<close>

text \<open>A placement in force for the target \<open>k\<close>, and their number.\<close>

definition in_force :: "assignmentTarget \<Rightarrow> AssignmentRecord \<Rightarrow> bool" where
  "in_force k r \<longleftrightarrow> ar_DesiredState r = AssignmentAssigned \<and> assignmentTargetForRecord r = k"

definition in_force_count :: "assignmentTarget \<Rightarrow> AssignmentStore \<Rightarrow> nat" where
  "in_force_count k s = map_count (in_force k) (asg_records s)"

text \<open>
  A committed placement names a Ready Version of its Function and the policy of that
  Version's Deployment, whether it is in force or cancelled.
\<close>

definition admitted :: "ReleaseStore \<Rightarrow> AssignmentRecord \<Rightarrow> bool" where
  "admitted releases r \<longleftrightarrow>
     (\<exists>v d. fmlookup (rel_versions releases) (as_VersionID (ar_Placement r)) = Some v \<and>
        fmlookup (rel_deployments releases) (as_VersionID (ar_Placement r)) = Some d \<and>
        v_State v = VersionReady \<and> v_FunctionID v = ar_FunctionID r \<and>
        v_AdmissionEpoch v = as_AdmissionEpoch (ar_Placement r) \<and>
        d_Generation d = as_DeploymentGeneration (ar_Placement r) \<and>
        d_EffectivePolicyDigest d = as_PolicyDigest (ar_Placement r) \<and>
        runtimeMatches (ar_Placement r) v d)"

definition assignment_entry :: "ReleaseStore \<Rightarrow> string \<Rightarrow> AssignmentRecord \<Rightarrow> bool" where
  "assignment_entry releases i r \<longleftrightarrow>
     as_AssignmentID (ar_Placement r) = i \<and> Assignment_Validate (ar_Placement r) = None \<and>
     (ar_DesiredState r = AssignmentAssigned \<and> ar_ResourceRevision r = 1 \<or>
      ar_DesiredState r = AssignmentCancelled \<and> ar_ResourceRevision r = 2) \<and>
     admitted releases r"

definition assignment_inv :: "ReleaseStore \<Rightarrow> AssignmentStore \<Rightarrow> bool" where
  "assignment_inv releases s \<longleftrightarrow>
     (\<forall>i r. fmlookup (asg_records s) i = Some r \<longrightarrow> assignment_entry releases i r) \<and>
     (\<forall>k. unat (map_get 0 (asg_activeCounts s) k) = in_force_count k s \<and> in_force_count k s \<le> 1) \<and>
     int (map_len (asg_records s)) \<le> asg_maxAssignments s \<and> asg_maxAssignments s = defaultMaxAssignments"

lemma assignment_invD:
  assumes "assignment_inv releases s"
  shows assignment_record: "fmlookup (asg_records s) i = Some r \<Longrightarrow> assignment_entry releases i r"
    and assignment_count: "unat (map_get 0 (asg_activeCounts s) k) = in_force_count k s" "in_force_count k s \<le> 1"
    and assignment_bound: "int (map_len (asg_records s)) \<le> asg_maxAssignments s"
      "asg_maxAssignments s = defaultMaxAssignments"
  using assms unfolding assignment_inv_def by blast+

lemma assignment_inv_New: "assignment_inv releases NewAssignmentStore"
  by (simp add: assignment_inv_def NewAssignmentStore_def in_force_count_def)

lemma admitted_later: "admitted releases r \<Longrightarrow> release_later releases releases' \<Longrightarrow> admitted releases' r"
  unfolding admitted_def release_later_def using version_later_Ready by blast

lemma assignment_inv_releases:
  "assignment_inv releases s \<Longrightarrow> release_later releases releases' \<Longrightarrow> assignment_inv releases' s"
  unfolding assignment_inv_def assignment_entry_def using admitted_later by blast

subsection \<open>What each operation does\<close>

lemma validatePlacement_route_Inr:
  assumes "validatePlacement_route c releases routes command = Inr r"
  obtains f where "fmlookup (cat_functionsByID c) (ia_FunctionID command) = Some f"
    "f_Lifecycle f = FunctionActive" "fmlookup (rou_routes routes) (ia_FunctionID command) = Some r"
    "r_Enabled r" "r_RouteRevision r = f_ActiveRouteRevision f"
    "validateReadyTargetLocked releases r f = None" "m_CreatedRaftIndex r < ia_AppliedIndex command"
  using assms by (auto simp: validatePlacement_route_def split: option.splits if_splits)

lemma validatePlacementLocked_Inr:
  assumes cat: "catalog_inv c" and "validatePlacementLocked c releases routes command = Inr (t, d)"
  shows "admitted releases (install_candidate command)"
    and "assignmentTargetFor (ia_FunctionID command) t = assignmentTargetForRecord (install_candidate command)"
    and "fmlookup (rel_deployments releases) (as_VersionID (ia_Placement command)) = Some d"
proof -
  obtain r ts v where r: "validatePlacement_route c releases routes command = Inr r"
    and t: "r_Targets r = t # ts" "targetMatches (ia_Placement command) t"
    and v: "fmlookup (rel_versions releases) (rt_VersionID t) = Some v" "fmlookup (rel_deployments releases) (rt_VersionID t) = Some d"
      "runtimeMatches (ia_Placement command) v d"
    using assms(2) by (auto simp: validatePlacementLocked_def split: sum.splits list.splits option.splits if_splits)
  obtain f where f: "fmlookup (cat_functionsByID c) (ia_FunctionID command) = Some f"
    and ready: "validateReadyTargetLocked releases r f = None"
    using validatePlacement_route_Inr [OF r] by metis
  have id: "m_ID f = ia_FunctionID command" using catalog_function [OF cat f] by (simp add: function_entry_def)
  have target: "v_FunctionID v = m_ID f" "v_State v = VersionReady" "v_AdmissionEpoch v = rt_AdmissionEpoch t"
    "d_Generation d = rt_DeploymentGeneration t" "d_EffectivePolicyDigest d = rt_EffectivePolicyDigest t"
    using validateReadyTargetLocked_None [OF ready] t(1) v(1,2) by (metis list.inject option.inject)+
  show "admitted releases (install_candidate command)"
    "assignmentTargetFor (ia_FunctionID command) t = assignmentTargetForRecord (install_candidate command)"
    "fmlookup (rel_deployments releases) (as_VersionID (ia_Placement command)) = Some d"
    using t v target id
    by (simp_all add: admitted_def install_candidate_def targetMatches_def assignmentTargetFor_def
        assignmentTargetForRecord_def)
qed

text \<open>What an installation requires, and what it leaves behind.\<close>

definition InstallAssignment_checks :: "AssignmentStore \<Rightarrow> InstallAssignmentCommand \<Rightarrow> error option" where
  "InstallAssignment_checks s command = first_error
    [validateInstallAssignment command,
     fail_if (map_has (asg_records s) (as_AssignmentID (ia_Placement command)))
       (classified CodeConflict ''assignment id was already used''),
     fail_if (int (map_len (asg_records s)) \<ge> asg_maxAssignments s)
       (classified CodeOverloaded ''assignment store is full'')]"

definition installed_store :: "InstallAssignmentCommand \<Rightarrow> assignmentTarget \<Rightarrow> AssignmentStore \<Rightarrow> AssignmentStore" where
  "installed_store command k s = s\<lparr>asg_records := fmupd (as_AssignmentID (ia_Placement command))
      (install_candidate command) (asg_records s),
    asg_activeCounts := fmupd k (map_get 0 (asg_activeCounts s) k + 1) (asg_activeCounts s)\<rparr>"

lemma InstallAssignment_cases:
  obtains (error) e where "InstallAssignment c releases routes command s = (Inl e, s)"
  | (installed) t d where "InstallAssignment_checks s command = None"
      "validatePlacementLocked c releases routes command = Inr (t, d)"
      "ia_ExpectedScalingRevision command = d_ScalingRevision d"
      "map_get 0 (asg_activeCounts s) (assignmentTargetFor (ia_FunctionID command) t) < d_DesiredReplicas d"
      "InstallAssignment c releases routes command s = (Inr (install_candidate command),
         installed_store command (assignmentTargetFor (ia_FunctionID command) t) s)"
proof -
  have unfold: "InstallAssignment c releases routes command s =
      check (InstallAssignment_checks s command) s
      (case validatePlacementLocked c releases routes command of
        Inl e \<Rightarrow> (Inl e, s)
      | Inr (target, deployment) \<Rightarrow>
          (let targetKey = assignmentTargetFor (ia_FunctionID command) target;
               active = map_get 0 (asg_activeCounts s) targetKey in
           if ia_ExpectedScalingRevision command \<noteq> d_ScalingRevision deployment
             then (Inl (RevisionConflict ''scaling_revision'' (ia_ExpectedScalingRevision command)
                     (d_ScalingRevision deployment)), s)
           else if active \<ge> d_DesiredReplicas deployment
             then (Inl (classified CodeConflict
                     ''deployment desired replica count is already satisfied''), s)
           else (Inr (install_candidate command), installed_store command targetKey s)))"
    unfolding InstallAssignment_def InstallAssignment_checks_def installed_store_def Let_def by (rule refl)
  show thesis
  proof (cases "InstallAssignment_checks s command")
    case None
    show thesis
    proof (cases "validatePlacementLocked c releases routes command")
      case (Inl e)
      with None error show thesis by (simp add: unfold)
    next
      case (Inr td)
      obtain t d where td: "td = (t, d)" by fastforce
      consider "ia_ExpectedScalingRevision command \<noteq> d_ScalingRevision d"
        | "ia_ExpectedScalingRevision command = d_ScalingRevision d"
          "map_get 0 (asg_activeCounts s) (assignmentTargetFor (ia_FunctionID command) t) \<ge> d_DesiredReplicas d"
        | "ia_ExpectedScalingRevision command = d_ScalingRevision d"
          "map_get 0 (asg_activeCounts s) (assignmentTargetFor (ia_FunctionID command) t) < d_DesiredReplicas d"
        by (meson not_le)
      then show thesis
      proof cases
        case 1
        with None Inr td error show thesis by (simp add: unfold Let_def)
      next
        case 2
        with None Inr td error show thesis by (simp add: unfold Let_def)
      next
        case 3
        with None Inr td installed show thesis by (simp add: unfold Let_def not_le)
      qed
    qed
  next
    case (Some e)
    with error show thesis by (simp add: unfold)
  qed
qed

lemma CancelAssignment_cases:
  obtains (error) e where "CancelAssignment command s = (Inl e, s)"
  | (cancelled) r where "validateCancelAssignment command = None"
      "fmlookup (asg_records s) (ca_AssignmentID command) = Some r"
      "CancelAssignment_checks s command r = None"
      "CancelAssignment command s = (Inr (cancelled_record command r),
         s\<lparr>asg_records := fmupd (ca_AssignmentID command) (cancelled_record command r) (asg_records s),
           asg_activeCounts := fmupd (assignmentTargetForRecord r)
             (map_get 0 (asg_activeCounts s) (assignmentTargetForRecord r) - 1) (asg_activeCounts s)\<rparr>)"
proof (cases "validateCancelAssignment command")
  case None
  note command = this
  show thesis
  proof (cases "fmlookup (asg_records s) (ca_AssignmentID command)")
    case None
    with command error show thesis by (simp add: CancelAssignment_def)
  next
    case (Some r)
    then show thesis
      using command error cancelled
      by (cases "CancelAssignment_checks s command r") (simp_all add: CancelAssignment_def Let_def)
  qed
next
  case (Some e)
  with error show thesis by (simp add: CancelAssignment_def)
qed

subsection \<open>The operations keep the invariant\<close>

lemma install_candidate_simps [simp]:
  "ar_Placement (install_candidate command) = ia_Placement command"
  "ar_FunctionID (install_candidate command) = ia_FunctionID command"
  "ar_DesiredState (install_candidate command) = AssignmentAssigned"
  "ar_ResourceRevision (install_candidate command) = 1"
  by (simp_all add: install_candidate_def)

lemma cancelled_record_simps [simp]:
  "ar_Placement (cancelled_record command r) = ar_Placement r"
  "ar_FunctionID (cancelled_record command r) = ar_FunctionID r"
  "ar_DesiredState (cancelled_record command r) = AssignmentCancelled"
  "ar_ResourceRevision (cancelled_record command r) = ar_ResourceRevision r + 1"
  "assignmentTargetForRecord (cancelled_record command r) = assignmentTargetForRecord r"
  by (simp_all add: cancelled_record_def assignmentTargetForRecord_def)

lemma assignment_inv_Install:
  assumes cat: "catalog_inv c" and rel: "release_inv jcs releases" and inv: "assignment_inv releases s"
  shows "assignment_inv releases (snd (InstallAssignment c releases routes command s))"
proof (cases rule: InstallAssignment_cases [of c releases routes command s])
  case (installed t d)
  let ?k = "assignmentTargetFor (ia_FunctionID command) t" and ?r = "install_candidate command"
  let ?s = "snd (InstallAssignment c releases routes command s)"
  note placed = validatePlacementLocked_Inr [OF cat installed(2)]
  have "validateInstallAssignment command = None"
    and fresh: "fmlookup (asg_records s) (as_AssignmentID (ia_Placement command)) = None"
    and room: "int (map_len (asg_records s)) < asg_maxAssignments s"
    using installed(1) by (simp_all add: InstallAssignment_checks_def map_has_def)
  then have valid: "Assignment_Validate (ia_Placement command) = None"
    by (simp add: validateInstallAssignment_def)
  have "d_DesiredReplicas d = 1"
  proof -
    obtain v where v: "fmlookup (rel_versions releases) (as_VersionID (ia_Placement command)) = Some v"
      using placed(1) by (auto simp: admitted_def)
    then show ?thesis
      using release_version [OF rel v] placed(3) by (simp add: version_entry_def deployment_for_def)
  qed
  with installed(4) have zero: "map_get 0 (asg_activeCounts s) ?k = 0"
    by (simp add: word_less_nat_alt unat_eq_0)
  then have none: "in_force_count ?k s = 0" using assignment_count(1) [OF inv, of ?k] by simp
  have s: "asg_records ?s = fmupd (as_AssignmentID (ia_Placement command)) ?r (asg_records s)"
    "asg_activeCounts ?s = fmupd ?k (map_get 0 (asg_activeCounts s) ?k + 1) (asg_activeCounts s)"
    "asg_maxAssignments ?s = asg_maxAssignments s"
    using installed(5) by (simp_all add: installed_store_def)
  have counts: "in_force_count k ?s = (if k = ?k then 1 else in_force_count k s)" for k
    using map_count_upd_new [OF fresh, of "in_force k" ?r] none placed(2)
    by (auto simp: in_force_count_def s in_force_def)
  show ?thesis
    unfolding assignment_inv_def
  proof (intro conjI allI impI)
    fix i r assume "fmlookup (asg_records ?s) i = Some r"
    then show "assignment_entry releases i r"
      using assignment_record [OF inv, of i r] valid placed(1)
      by (auto simp: s assignment_entry_def split: if_splits)
  next
    fix k
    show "unat (map_get 0 (asg_activeCounts ?s) k) = in_force_count k ?s" "in_force_count k ?s \<le> 1"
      using assignment_count [OF inv, of k] zero by (simp_all add: counts s)
  qed (use assignment_bound [OF inv] room fresh in \<open>simp_all add: s\<close>)
qed (use inv in simp)

lemma assignment_inv_Cancel:
  assumes inv: "assignment_inv releases s"
  shows "assignment_inv releases (snd (CancelAssignment command s))"
proof (cases rule: CancelAssignment_cases [of command s])
  case (cancelled r)
  let ?k = "assignmentTargetForRecord r" and ?s = "snd (CancelAssignment command s)"
  have assigned: "ar_DesiredState r = AssignmentAssigned"
    and active: "map_get 0 (asg_activeCounts s) ?k \<noteq> 0"
    using cancelled(3) by (simp_all add: CancelAssignment_checks_def)
  have entry: "assignment_entry releases (ca_AssignmentID command) r"
    by (rule assignment_record [OF inv cancelled(2)])
  have s: "asg_records ?s = fmupd (ca_AssignmentID command) (cancelled_record command r) (asg_records s)"
    "asg_activeCounts ?s = fmupd ?k (map_get 0 (asg_activeCounts s) ?k - 1) (asg_activeCounts s)"
    "asg_maxAssignments ?s = asg_maxAssignments s"
    using cancelled(4) by simp_all
  have counts: "in_force_count k ?s = (if k = ?k then in_force_count k s - 1 else in_force_count k s)" for k
    using map_count_upd_old [OF cancelled(2), of "in_force k" "cancelled_record command r"] assigned
    by (auto simp: in_force_count_def s in_force_def split: if_splits)
  show ?thesis
    unfolding assignment_inv_def
  proof (intro conjI allI impI)
    fix i x assume "fmlookup (asg_records ?s) i = Some x"
    then show "assignment_entry releases i x"
      using assignment_record [OF inv, of i x] entry assigned
      by (auto simp: s assignment_entry_def admitted_def split: if_splits)
  next
    fix k
    show "unat (map_get 0 (asg_activeCounts ?s) k) = in_force_count k ?s" "in_force_count k ?s \<le> 1"
      using assignment_count [OF inv, of k] active by (auto simp: counts s unat_dec)
  qed (use assignment_bound [OF inv] cancelled(2) in \<open>simp_all add: s\<close>)
qed (use inv in simp)

text \<open>The record of a placement in force is counted: cancelling it finds a positive count.\<close>

lemma in_force_counted:
  assumes "assignment_inv releases s" "fmlookup (asg_records s) i = Some r" "ar_DesiredState r = AssignmentAssigned"
  shows "map_get 0 (asg_activeCounts s) (assignmentTargetForRecord r) \<noteq> 0"
  using assignment_count(1) [OF assms(1), of "assignmentTargetForRecord r"]
    map_count_pos [OF assms(2), of "in_force (assignmentTargetForRecord r)"] assms(3)
  by (auto simp: in_force_count_def in_force_def)

end
