(* ===== verification/ControlPlane.thy ===== *)
theory ControlPlane
  imports ControlAssignment
begin

text \<open>
  The four stores of \<^verbatim>\<open>internal/controlplane\<close> together. They share the catalog and the releases
  by pointer and take their locks in one order, so the behaviours of the control plane are
  the sequences of their operations on one state. One operation reads outside its lock:
  \<open>CreateVersion\<close> looks its Function up before it locks the release store, and other operations may
  come between. The event \<open>DoLateCreateVersion\<close> is that call, with the catalog it has read; all the
  store relies on is that no Function of that catalog has gone (\<open>earlier_catalog_run\<close>). The invariants
  of the stores hold of every state such a sequence reaches, and the properties below are about
  these states.
\<close>

subsection \<open>The machine\<close>

record ControlPlane =
  cp_catalog :: Catalog
  cp_releases :: ReleaseStore
  cp_routes :: RouteStore
  cp_assignments :: AssignmentStore

datatype ControlEvent =
    DoCreateFunction CreateFunctionCommand
  | DoSetFunctionLifecycle SetFunctionLifecycleCommand
  | DoRotateInvocationToken RotateInvocationTokenCommand
  | DoCreateVersion CreateVersionCommand
  | DoStartValidation StartValidationCommand
  | DoCompleteValidation CompleteValidationCommand
  | DoPublish PublishRouteCommand
  | DoInstall InstallAssignmentCommand
  | DoCancel CancelAssignmentCommand
  | DoLateCreateVersion Catalog CreateVersionCommand

definition earlier_catalog :: "Catalog \<Rightarrow> Catalog \<Rightarrow> bool" where
  "earlier_catalog seen c \<longleftrightarrow> list_all (map_has (cat_functionsByID c)) (map_keys (cat_functionsByID seen))"

fun cp_exec :: "canonicalizer \<Rightarrow> ControlEvent \<Rightarrow> ControlPlane \<Rightarrow> ControlPlane" where
  "cp_exec jcs (DoCreateFunction command) s =
     s\<lparr>cp_catalog := snd (CreateFunction command (cp_catalog s))\<rparr>"
| "cp_exec jcs (DoSetFunctionLifecycle command) s =
     s\<lparr>cp_catalog := snd (SetFunctionLifecycle command (cp_catalog s))\<rparr>"
| "cp_exec jcs (DoRotateInvocationToken command) s =
     s\<lparr>cp_catalog := snd (RotateInvocationToken command (cp_catalog s))\<rparr>"
| "cp_exec jcs (DoCreateVersion command) s =
     s\<lparr>cp_releases := snd (CreateVersion (cp_catalog s) command (cp_releases s))\<rparr>"
| "cp_exec jcs (DoStartValidation command) s =
     s\<lparr>cp_releases := snd (StartValidation command (cp_releases s))\<rparr>"
| "cp_exec jcs (DoCompleteValidation command) s =
     s\<lparr>cp_releases := snd (CompleteValidation jcs command (cp_releases s))\<rparr>"
| "cp_exec jcs (DoPublish command) s =
     (case snd (Publish (cp_releases s) command (cp_catalog s, cp_routes s)) of
        (catalog, routes) \<Rightarrow> s\<lparr>cp_catalog := catalog, cp_routes := routes\<rparr>)"
| "cp_exec jcs (DoInstall command) s =
     s\<lparr>cp_assignments := snd (InstallAssignment (cp_catalog s) (cp_releases s) (cp_routes s)
        command (cp_assignments s))\<rparr>"
| "cp_exec jcs (DoCancel command) s =
     s\<lparr>cp_assignments := snd (CancelAssignment command (cp_assignments s))\<rparr>"
| "cp_exec jcs (DoLateCreateVersion seen command) s =
     (if earlier_catalog seen (cp_catalog s)
      then s\<lparr>cp_releases := snd (CreateVersion seen command (cp_releases s))\<rparr> else s)"

definition new_control_plane :: ControlPlane where
  "new_control_plane = \<lparr>cp_catalog = NewCatalog, cp_releases = NewReleaseStore,
     cp_routes = NewRouteStore, cp_assignments = NewAssignmentStore\<rparr>"

definition cp_initial :: "ControlPlane \<Rightarrow> bool" where
  "cp_initial s \<longleftrightarrow> s = new_control_plane"

subsection \<open>The invariant\<close>

definition parents_known :: "Catalog \<Rightarrow> ReleaseStore \<Rightarrow> bool" where
  "parents_known c r \<longleftrightarrow>
     (\<forall>i v. fmlookup (rel_versions r) i = Some v \<longrightarrow> map_has (cat_functionsByID c) (v_FunctionID v))"

definition cp_inv :: "canonicalizer \<Rightarrow> ControlPlane \<Rightarrow> bool" where
  "cp_inv jcs s \<longleftrightarrow> catalog_inv (cp_catalog s) \<and> release_inv jcs (cp_releases s) \<and>
     route_inv (cp_catalog s) (cp_releases s) (cp_routes s) \<and>
     assignment_inv (cp_releases s) (cp_assignments s) \<and> parents_known (cp_catalog s) (cp_releases s)"

lemma cp_invD:
  assumes "cp_inv jcs s"
  shows cp_catalog_inv: "catalog_inv (cp_catalog s)"
    and cp_release_inv: "release_inv jcs (cp_releases s)"
    and cp_route_inv: "route_inv (cp_catalog s) (cp_releases s) (cp_routes s)"
    and cp_assignment_inv: "assignment_inv (cp_releases s) (cp_assignments s)"
    and cp_parents: "parents_known (cp_catalog s) (cp_releases s)"
  using assms unfolding cp_inv_def by blast+

lemma cp_inv_initial: "cp_initial s \<Longrightarrow> cp_inv jcs s"
  by (simp add: cp_initial_def cp_inv_def new_control_plane_def catalog_inv_NewCatalog
      release_inv_NewReleaseStore route_inv_NewRouteStore assignment_inv_New parents_known_def)
     (simp add: NewReleaseStore_def)

text \<open>An operation of the catalog alone, and one of the releases alone.\<close>

lemma parents_known_catalog: "parents_known c r \<Longrightarrow> catalog_frame c c' \<Longrightarrow> parents_known c' r"
  unfolding parents_known_def catalog_frame_def map_has_iff by blast

lemma cp_inv_catalog:
  assumes "cp_inv jcs s" "catalog_inv c" "catalog_frame (cp_catalog s) c"
  shows "cp_inv jcs (s\<lparr>cp_catalog := c\<rparr>)"
  using assms(2) cp_invD [OF assms(1)] route_inv_catalog [OF _ assms(3)] parents_known_catalog [OF _ assms(3)]
  by (simp add: cp_inv_def)

lemma cp_inv_releases:
  assumes "cp_inv jcs s" "release_inv jcs r" "release_later (cp_releases s) r" "parents_known (cp_catalog s) r"
  shows "cp_inv jcs (s\<lparr>cp_releases := r\<rparr>)"
  using assms cp_invD [OF assms(1)] route_inv_releases [OF _ assms(3)] assignment_inv_releases [OF _ assms(3)]
  by (simp add: cp_inv_def)

text \<open>A step within the releases that adds no Version keeps the parents of all.\<close>

lemma parents_known_later:
  assumes "parents_known c r" "release_later r r'" "\<And>i. map_has (rel_versions r') i \<Longrightarrow> map_has (rel_versions r) i"
  shows "parents_known c r'"
  unfolding parents_known_def
proof (intro allI impI)
  fix i v' assume v': "fmlookup (rel_versions r') i = Some v'"
  then obtain v where v: "fmlookup (rel_versions r) i = Some v"
    using assms(3) [of i] by (auto simp: map_has_iff)
  with assms(2) v' have "version_later v v'" unfolding release_later_def by fastforce
  then have "v_FunctionID v' = v_FunctionID v" by (rule version_later_identity)
  with assms(1) v show "map_has (cat_functionsByID c) (v_FunctionID v')"
    unfolding parents_known_def by metis
qed

lemma earlier_catalog_iff:
  "earlier_catalog seen c \<longleftrightarrow> (\<forall>i. map_has (cat_functionsByID seen) i \<longrightarrow> map_has (cat_functionsByID c) i)"
  by (auto simp: earlier_catalog_def list_all_iff map_has_iff)

lemma earlier_catalog_refl [simp]: "earlier_catalog c c"
  by (simp add: earlier_catalog_iff)

lemma cp_inv_CreateVersion:
  assumes inv: "cp_inv jcs s" and seen: "earlier_catalog seen (cp_catalog s)"
  shows "cp_inv jcs (s\<lparr>cp_releases := snd (CreateVersion seen command (cp_releases s))\<rparr>)"
proof (rule cp_inv_releases [OF inv])
  show "release_inv jcs (snd (CreateVersion seen command (cp_releases s)))"
    by (rule release_inv_CreateVersion [OF cp_release_inv [OF inv]])
  show "release_later (cp_releases s) (snd (CreateVersion seen command (cp_releases s)))"
    by (rule release_later_CreateVersion)
  show "parents_known (cp_catalog s) (snd (CreateVersion seen command (cp_releases s)))"
  proof (cases rule: CreateVersion_cases [of seen command "cp_releases s"])
    case (created f tr)
    have "map_has (cat_functionsByID seen) (v_FunctionID (cv_Version command))"
      using created(2) by (auto simp: GetFunction_def map_has_def split: if_splits option.splits)
    then have "map_has (cat_functionsByID (cp_catalog s)) (v_FunctionID (cv_Version command))"
      using seen by (simp add: earlier_catalog_iff)
    then show ?thesis using cp_parents [OF inv] created(5) by (auto simp: parents_known_def)
  qed (use cp_parents [OF inv] in simp)
qed

lemma cp_inv_StartValidation:
  assumes inv: "cp_inv jcs s"
  shows "cp_inv jcs (s\<lparr>cp_releases := snd (StartValidation command (cp_releases s))\<rparr>)"
proof (rule cp_inv_releases [OF inv])
  let ?r = "snd (StartValidation command (cp_releases s))"
  show "release_inv jcs ?r" by (rule release_inv_StartValidation [OF cp_release_inv [OF inv]])
  show later: "release_later (cp_releases s) ?r"
    by (rule release_later_StartValidation [OF cp_release_inv [OF inv]])
  have "map_has (rel_versions ?r) i \<Longrightarrow> map_has (rel_versions (cp_releases s)) i" for i
    using release_version [OF cp_release_inv [OF inv]]
    by (cases rule: StartValidation_cases [of command "cp_releases s"])
       (auto simp: version_entry_def map_has_def split: if_splits)
  then show "parents_known (cp_catalog s) ?r"
    by (rule parents_known_later [OF cp_parents [OF inv] later])
qed

lemma cp_inv_CompleteValidation:
  assumes inv: "cp_inv jcs s"
  shows "cp_inv jcs (s\<lparr>cp_releases := snd (CompleteValidation jcs command (cp_releases s))\<rparr>)"
proof (rule cp_inv_releases [OF inv])
  let ?r = "snd (CompleteValidation jcs command (cp_releases s))"
  show "release_inv jcs ?r" by (rule release_inv_CompleteValidation [OF cp_release_inv [OF inv]])
  show later: "release_later (cp_releases s) ?r"
    by (rule release_later_CompleteValidation [OF cp_release_inv [OF inv]])
  have "map_has (rel_versions ?r) i \<Longrightarrow> map_has (rel_versions (cp_releases s)) i" for i
    using release_version [OF cp_release_inv [OF inv]]
    by (cases rule: CompleteValidation_cases [of jcs command "cp_releases s"])
       (auto simp: version_entry_def map_has_def split: if_splits)
  then show "parents_known (cp_catalog s) ?r"
    by (rule parents_known_later [OF cp_parents [OF inv] later])
qed

lemma cp_inv_Publish:
  assumes inv: "cp_inv jcs s"
  shows "cp_inv jcs (cp_exec jcs (DoPublish command) s)"
proof -
  let ?c = "fst (snd (Publish (cp_releases s) command (cp_catalog s, cp_routes s)))"
  have "parents_known ?c (cp_releases s)"
    using cp_parents [OF inv]
    by (cases rule: Publish_cases [of "cp_releases s" command "cp_catalog s" "cp_routes s"])
       (simp_all add: parents_known_def)
  then show ?thesis
    using catalog_inv_Publish [OF cp_catalog_inv [OF inv], of "cp_releases s" command "cp_routes s"]
      route_inv_Publish [OF cp_catalog_inv [OF inv] cp_route_inv [OF inv], of command]
      cp_release_inv [OF inv] cp_assignment_inv [OF inv]
    by (simp add: cp_inv_def split_beta)
qed

lemma cp_inv_exec: "cp_inv jcs s \<Longrightarrow> cp_inv jcs (cp_exec jcs e s)"
proof (cases e)
  case (DoInstall command)
  assume inv: "cp_inv jcs s"
  then show ?thesis
    using assignment_inv_Install [OF cp_catalog_inv [OF inv] cp_release_inv [OF inv] cp_assignment_inv [OF inv]]
      cp_invD [OF inv] DoInstall by (simp add: cp_inv_def)
next
  case (DoCancel command)
  assume inv: "cp_inv jcs s"
  then show ?thesis
    using assignment_inv_Cancel [OF cp_assignment_inv [OF inv]] cp_invD [OF inv] DoCancel
    by (simp add: cp_inv_def)
qed (auto intro!: cp_inv_catalog cp_inv_CreateVersion cp_inv_StartValidation cp_inv_CompleteValidation
    catalog_inv_CreateFunction catalog_inv_SetFunctionLifecycle catalog_inv_RotateInvocationToken
    catalog_frame_CreateFunction catalog_frame_SetFunctionLifecycle catalog_frame_RotateInvocationToken
    cp_catalog_inv simp del: cp_exec.simps(7) intro: cp_inv_Publish)

interpretation control: component cp_initial "cp_exec jcs" "cp_inv jcs" for jcs
  by unfold_locales (auto intro: cp_inv_initial cp_inv_exec simp del: cp_exec.simps)

lemma reachable_cp_inv: "reachable cp_initial (cp_exec jcs) s \<Longrightarrow> cp_inv jcs s"
  by (rule control.inv_reachable)

lemma reachable_new: "reachable cp_initial (cp_exec jcs) (run (cp_exec jcs) es new_control_plane)"
  by (intro reachable_run reachable_initial) (simp add: cp_initial_def)

subsection \<open>Revisions\<close>

abbreviation function_at :: "ControlPlane \<Rightarrow> string \<Rightarrow> Function option" where
  "function_at s i \<equiv> fmlookup (cat_functionsByID (cp_catalog s)) i"

abbreviation trigger_at :: "ControlPlane \<Rightarrow> string \<Rightarrow> HTTPTrigger option" where
  "trigger_at s i \<equiv> fmlookup (cat_triggersByID (cp_catalog s)) i"

abbreviation version_at :: "ControlPlane \<Rightarrow> string \<Rightarrow> Version option" where
  "version_at s i \<equiv> fmlookup (rel_versions (cp_releases s)) i"

abbreviation deployment_at :: "ControlPlane \<Rightarrow> string \<Rightarrow> Deployment option" where
  "deployment_at s i \<equiv> fmlookup (rel_deployments (cp_releases s)) i"

abbreviation assignment_at :: "ControlPlane \<Rightarrow> string \<Rightarrow> AssignmentRecord option" where
  "assignment_at s i \<equiv> fmlookup (asg_records (cp_assignments s)) i"

lemma Function_Validate_revision: "Function_Validate f = None \<Longrightarrow> m_ResourceRevision f \<noteq> 0"
  by (simp add: Function_Validate_def Metadata_Validate_None)

lemma HTTPTrigger_Validate_revision: "HTTPTrigger_Validate t = None \<Longrightarrow> m_ResourceRevision t \<noteq> 0"
  by (simp add: HTTPTrigger_Validate_def Metadata_Validate_None)

text \<open>
  The step of one Function: it stays as it is, or its revision moves forward; its route
  pointer moves by one exactly when a Route is published for it.
\<close>

definition publishes :: "string \<Rightarrow> ControlEvent \<Rightarrow> ControlPlane \<Rightarrow> bool" where
  "publishes i e s \<longleftrightarrow>
     (case e of
        DoPublish command \<Rightarrow> pc_FunctionID command = i \<and>
          (case fst (Publish (cp_releases s) command (cp_catalog s, cp_routes s)) of
             Inl _ \<Rightarrow> False | Inr _ \<Rightarrow> True)
      | _ \<Rightarrow> False)"

definition function_step :: "bool \<Rightarrow> Function \<Rightarrow> Function \<Rightarrow> bool" where
  "function_step p f f' \<longleftrightarrow>
     (f' = f \<and> \<not> p \<or> m_ResourceRevision f < m_ResourceRevision f' \<and> m_ID f' = m_ID f \<and> f_Name f' = f_Name f) \<and>
     unat (f_ActiveRouteRevision f') = unat (f_ActiveRouteRevision f) + (if p then 1 else 0)"

lemma function_step_exec:
  assumes inv: "cp_inv jcs s" and f: "function_at s i = Some f"
  shows "\<exists>f'. function_at (cp_exec jcs e s) i = Some f' \<and> function_step (publishes i e s) f f'"
proof (cases e)
  case (DoCreateFunction command)
  then show ?thesis
    using f by (cases rule: CreateFunction_cases [of "cp_catalog s" command])
      (auto simp: publishes_def function_step_def dest: CreateFunction_checks_None(2))
next
  case (DoSetFunctionLifecycle command)
  show ?thesis
  proof (cases rule: SetFunctionLifecycle_cases [of command "cp_catalog s"])
    case (changed g)
    have "m_ResourceRevision g + 1 \<noteq> 0" "m_ID g = fl_FunctionID command"
      using changed(3) Function_Validate_revision [of "with_lifecycle command g"]
        catalog_function [OF cp_catalog_inv [OF inv] changed(2)]
      by (auto simp: changes_lifecycle_def function_entry_def)
    then show ?thesis
      using DoSetFunctionLifecycle f changed revision_step
      by (auto simp: publishes_def function_step_def)
  qed (use DoSetFunctionLifecycle f in \<open>auto simp: publishes_def function_step_def\<close>)
next
  case (DoRotateInvocationToken command)
  then show ?thesis
    using f by (cases rule: RotateInvocationToken_cases [of command "cp_catalog s"])
      (auto simp: publishes_def function_step_def)
next
  case (DoPublish command)
  show ?thesis
  proof (cases rule: Publish_cases [of "cp_releases s" command "cp_catalog s" "cp_routes s"])
    case (published g)
    have id: "m_ID g = pc_FunctionID command"
      using catalog_function [OF cp_catalog_inv [OF inv] published(2)] by (simp add: function_entry_def)
    note ok = Publish_checks_None [OF published(3)]
    have "m_ResourceRevision g < m_ResourceRevision g + 1" using ok(3) by (rule word_less_inc)
    moreover have "unat (r_RouteRevision (pc_Route command)) = unat (f_ActiveRouteRevision g) + 1"
      using ok(2,4) by (simp add: unat_inc)
    ultimately show ?thesis
      using DoPublish f published(2,5) id by (auto simp: publishes_def function_step_def)
  qed (use DoPublish f in \<open>simp add: publishes_def function_step_def\<close>)
qed (use f in \<open>simp_all add: publishes_def function_step_def\<close>)

text \<open>The Functions a call has read are still there when it continues.\<close>

lemma earlier_catalog_run:
  "cp_inv jcs s \<Longrightarrow> earlier_catalog (cp_catalog s) (cp_catalog (run (cp_exec jcs) es s))"
proof (induction es arbitrary: s)
  case (Cons e es)
  have "map_has (cat_functionsByID (cp_catalog (cp_exec jcs e s))) i" if "map_has (cat_functionsByID (cp_catalog s)) i" for i
    using that function_step_exec [OF Cons.prems] by (fastforce simp: map_has_iff)
  then show ?case
    using Cons.IH [OF control.inv_exec [OF Cons.prems, of e]] by (simp add: earlier_catalog_iff)
qed simp

lemma trigger_step_exec:
  assumes inv: "cp_inv jcs s" and t: "trigger_at s i = Some t"
  shows "\<exists>t'. trigger_at (cp_exec jcs e s) i = Some t' \<and> (t' = t \<or> m_ResourceRevision t < m_ResourceRevision t')"
proof (cases e)
  case (DoCreateFunction command)
  then show ?thesis
    using t by (cases rule: CreateFunction_cases [of "cp_catalog s" command])
      (auto dest: CreateFunction_checks_None(4))
next
  case (DoSetFunctionLifecycle command)
  then show ?thesis
    using t by (cases rule: SetFunctionLifecycle_cases [of command "cp_catalog s"]) auto
next
  case (DoRotateInvocationToken command)
  show ?thesis
  proof (cases rule: RotateInvocationToken_cases [of command "cp_catalog s"])
    case (rotated u x)
    have "m_ResourceRevision x + 1 \<noteq> 0"
      using rotated(4) HTTPTrigger_Validate_revision [of "with_verifier command x"] by (simp add: rotates_def)
    then show ?thesis
      using DoRotateInvocationToken t rotated revision_step by auto
  qed (use DoRotateInvocationToken t in simp)
next
  case (DoPublish command)
  then show ?thesis
    using t by (cases rule: Publish_cases [of "cp_releases s" command "cp_catalog s" "cp_routes s"]) simp_all
qed (use t in simp_all)

lemma release_later_exec: "cp_inv jcs s \<Longrightarrow> release_later (cp_releases s) (cp_releases (cp_exec jcs e s))"
  by (cases e) (simp_all add: split_beta release_later_CreateVersion
      release_later_StartValidation [OF cp_release_inv] release_later_CompleteValidation [OF cp_release_inv])

lemma version_step_exec:
  "cp_inv jcs s \<Longrightarrow> version_at s i = Some v \<Longrightarrow>
     \<exists>v'. version_at (cp_exec jcs e s) i = Some v' \<and> (v' = v \<or> m_ResourceRevision v < m_ResourceRevision v')"
  using release_later_exec [of jcs s e] unfolding release_later_def version_later_def by blast

lemma assignment_step_exec:
  assumes inv: "cp_inv jcs s" and r: "assignment_at s i = Some r"
  shows "\<exists>r'. assignment_at (cp_exec jcs e s) i = Some r' \<and> (r' = r \<or> ar_ResourceRevision r < ar_ResourceRevision r')"
proof (cases e)
  case (DoInstall command)
  then show ?thesis
    using r by (cases rule: InstallAssignment_cases [of "cp_catalog s" "cp_releases s" "cp_routes s" command "cp_assignments s"])
      (auto simp: installed_store_def InstallAssignment_checks_def map_has_def)
next
  case (DoCancel command)
  show ?thesis
  proof (cases rule: CancelAssignment_cases [of command "cp_assignments s"])
    case (cancelled x)
    have "ar_ResourceRevision x < ar_ResourceRevision x + 1"
      using cancelled(3) by (intro word_less_inc) (auto simp: CancelAssignment_checks_def)
    then show ?thesis using DoCancel r cancelled by auto
  qed (use DoCancel r in simp)
next
  case (DoPublish command)
  then show ?thesis using r by (simp add: split_beta)
qed (use r in simp_all)

interpretation function_rev: revisioned cp_initial "cp_exec jcs" "cp_inv jcs" function_at m_ResourceRevision for jcs
proof unfold_locales
  fix s k e and r :: Function
  assume "cp_inv jcs s" "function_at s k = Some r"
  then show "\<exists>r'. function_at (cp_exec jcs e s) k = Some r' \<and> (r' = r \<or> m_ResourceRevision r < m_ResourceRevision r')"
    using function_step_exec [of jcs s k r e] unfolding function_step_def by blast
qed

interpretation trigger_rev: revisioned cp_initial "cp_exec jcs" "cp_inv jcs" trigger_at m_ResourceRevision for jcs
  by unfold_locales (rule trigger_step_exec)

interpretation version_rev: revisioned cp_initial "cp_exec jcs" "cp_inv jcs" version_at m_ResourceRevision for jcs
  by unfold_locales (rule version_step_exec)

interpretation assignment_rev: revisioned cp_initial "cp_exec jcs" "cp_inv jcs" assignment_at ar_ResourceRevision for jcs
  by unfold_locales (rule assignment_step_exec)

subsection \<open>Properties of every reachable state\<close>

text \<open>
  C1: The aggregate read of the serving view never fails. In every state the control plane
  reaches, \<open>ServingStates\<close> returns one entry per Function, in the order of the catalog
  snapshot. Each entry carries the Function's trigger and its current Route, and for an
  enabled Route the Ready Version of that Function that the one target names, with a
  Deployment whose effective policy digest is the digest of its own policy and equals the
  target's. None of the errors marked "invariant" in the code is returned.
\<close>

theorem serving_states_total:
  assumes "reachable cp_initial (cp_exec jcs) s"
  shows "\<exists>states. ServingStates (cp_catalog s) (cp_releases s) (cp_routes s) = Inr states \<and>
    map ss_Function states = cs_Functions (snapshotLocked (cp_catalog s)) \<and>
    (\<forall>st \<in> set states. serving_entry jcs (cp_catalog s) (cp_releases s) (cp_routes s) st)"
  using reachable_cp_inv [OF assms]
  by (intro ServingStates_complete cp_catalog_inv cp_release_inv cp_route_inv)

text \<open>
  C8: A resource revision identifies the content. If a client has read a Function, a
  trigger, a Version or an Assignment and later finds the same revision under the same
  identifier, then nothing of it has changed in between, whatever operations ran: the
  revision checks of the stores are free of the ABA problem, also at the end of the 64-bit
  revision space.
\<close>

theorem revision_identifies_content:
  assumes "reachable cp_initial (cp_exec jcs) s"
  shows "(function_at s i = Some f \<and> function_at (run (cp_exec jcs) es s) i = Some f' \<and>
        m_ResourceRevision f' = m_ResourceRevision f \<longrightarrow> f' = f) \<and>
    (trigger_at s i = Some t \<and> trigger_at (run (cp_exec jcs) es s) i = Some t' \<and>
        m_ResourceRevision t' = m_ResourceRevision t \<longrightarrow> t' = t) \<and>
    (version_at s i = Some v \<and> version_at (run (cp_exec jcs) es s) i = Some v' \<and>
        m_ResourceRevision v' = m_ResourceRevision v \<longrightarrow> v' = v) \<and>
    (assignment_at s i = Some a \<and> assignment_at (run (cp_exec jcs) es s) i = Some a' \<and>
        ar_ResourceRevision a' = ar_ResourceRevision a \<longrightarrow> a' = a)"
  using function_rev.revision_identifies [OF assms, of i f es f']
    trigger_rev.revision_identifies [OF assms, of i t es t']
    version_rev.revision_identifies [OF assms, of i v es v']
    assignment_rev.revision_identifies [OF assms, of i a es a']
  by blast

text \<open>
  C9: The catalog implements one map from Function identifiers to a Function with its
  trigger. In every reachable state its four maps abstract to that map, and each operation
  returns what the operation on the single map returns and leaves the abstraction of its
  result; the lookups by identifier and by name agree as well. The check that a Function
  already has a trigger has no counterpart: it never decides.
\<close>

theorem catalog_refines_single_map:
  assumes "reachable cp_initial (cp_exec jcs) s"
  shows "map_prod id catalog_view (CreateFunction create (cp_catalog s)) =
      view_CreateFunction create (catalog_view (cp_catalog s)) \<and>
    map_prod id catalog_view (SetFunctionLifecycle lifecycle (cp_catalog s)) =
      view_SetFunctionLifecycle lifecycle (catalog_view (cp_catalog s)) \<and>
    map_prod id catalog_view (RotateInvocationToken rotation (cp_catalog s)) =
      view_RotateInvocationToken rotation (catalog_view (cp_catalog s)) \<and>
    GetFunction (cp_catalog s) i = view_GetFunction (catalog_view (cp_catalog s)) i \<and>
    GetFunctionByName (cp_catalog s) n = view_GetFunctionByName (catalog_view (cp_catalog s)) n"
  using cp_catalog_inv [OF reachable_cp_inv [OF assms]]
  by (intro conjI refines_CreateFunction refines_SetFunctionLifecycle refines_RotateInvocationToken
      refines_GetFunction refines_GetFunctionByName)

text \<open>
  C34: The value that the catalog's state digest hashes determines the catalog. Two reachable
  control planes whose canonical catalogs are equal, with every timestamp formatted as
  RFC 3339, hold the same catalog in all four maps.
\<close>

theorem canonical_catalog_faithful:
  assumes "reachable cp_initial (cp_exec jcs) s" and "reachable cp_initial (cp_exec jcs) s'"
    and "canonicalCatalog (snapshotLocked (cp_catalog s)) = canonicalCatalog (snapshotLocked (cp_catalog s'))"
  shows "cp_catalog s = cp_catalog s'"
  using canonicalCatalog_inject assms(3) cp_catalog_inv [OF reachable_cp_inv [OF assms(1)]]
    cp_catalog_inv [OF reachable_cp_inv [OF assms(2)]] by blast

text \<open>
  C10: The active count that guards an installation is the number of placements in force for
  that target, and never exceeds the replicas the Deployment wants. Hence cancelling a
  placement in force never fails for a missing count.
\<close>

theorem active_counts_exact:
  assumes "reachable cp_initial (cp_exec jcs) s"
  shows "unat (map_get 0 (asg_activeCounts (cp_assignments s)) k) = in_force_count k (cp_assignments s) \<and>
    (\<forall>d. deployment_at s (at_versionID k) = Some d \<longrightarrow>
       in_force_count k (cp_assignments s) \<le> unat (d_DesiredReplicas d)) \<and>
    fst (CancelAssignment command (cp_assignments s)) \<noteq>
      Inl (Opaque ''assignment store invariant: active count is missing'')"
proof (intro conjI allI impI)
  note inv = reachable_cp_inv [OF assms]
  note counts = assignment_count [OF cp_assignment_inv [OF inv], of k]
  show "unat (map_get 0 (asg_activeCounts (cp_assignments s)) k) = in_force_count k (cp_assignments s)"
    by (rule counts)
  fix d
  assume d: "deployment_at s (at_versionID k) = Some d"
  obtain v where v: "version_at s (at_versionID k) = Some v"
    using release_deployment [OF cp_release_inv [OF inv], of "at_versionID k"] d by (auto simp: map_has_iff)
  have "d_DesiredReplicas d = 1"
    using release_version [OF cp_release_inv [OF inv] v] d by (simp add: version_entry_def deployment_for_def)
  with counts show "in_force_count k (cp_assignments s) \<le> unat (d_DesiredReplicas d)" by simp
next
  show "fst (CancelAssignment command (cp_assignments s)) \<noteq>
      Inl (Opaque ''assignment store invariant: active count is missing'')"
    using in_force_counted [OF cp_assignment_inv [OF reachable_cp_inv [OF assms]]]
    by (auto simp: CancelAssignment_def CancelAssignment_checks_def validateCancelAssignment_def
        validateUTC_def check_def fail_if_def Invalid_def classified_def Let_def split: option.splits if_splits)
qed

subsection \<open>Properties of histories\<close>

fun publish_count :: "canonicalizer \<Rightarrow> string \<Rightarrow> ControlEvent list \<Rightarrow> ControlPlane \<Rightarrow> nat" where
  "publish_count jcs i [] s = 0"
| "publish_count jcs i (e # es) s =
     (if publishes i e s then 1 else 0) + publish_count jcs i es (cp_exec jcs e s)"

lemma route_revision_run:
  assumes "cp_inv jcs s" "function_at s i = Some f"
  shows "\<exists>f'. function_at (run (cp_exec jcs) es s) i = Some f' \<and>
    unat (f_ActiveRouteRevision f') = unat (f_ActiveRouteRevision f) + publish_count jcs i es s"
  using assms
proof (induction es arbitrary: s f)
  case (Cons e es)
  obtain f1 where f1: "function_at (cp_exec jcs e s) i = Some f1"
      "unat (f_ActiveRouteRevision f1) = unat (f_ActiveRouteRevision f) + (if publishes i e s then 1 else 0)"
    using function_step_exec [OF Cons.prems, of e] unfolding function_step_def by blast
  then show ?case using Cons.IH [OF cp_inv_exec [OF Cons.prems(1)] f1(1)] by auto
qed simp

text \<open>
  The route revision of a Function counts its publications. From any reachable state,
  the active route revision after a sequence of operations is the one before plus the number
  of successful publications for that Function: no update is lost, none is counted twice,
  and the 64-bit counter does not wrap.
\<close>

theorem route_revision_counts:
  assumes "reachable cp_initial (cp_exec jcs) s" and "function_at s i = Some f"
  shows "\<exists>f'. function_at (run (cp_exec jcs) es s) i = Some f' \<and>
    unat (f_ActiveRouteRevision f') = unat (f_ActiveRouteRevision f) + publish_count jcs i es s"
  by (rule route_revision_run [OF reachable_cp_inv [OF assms(1)] assms(2)])

lemma release_later_run:
  "cp_inv jcs s \<Longrightarrow> release_later (cp_releases s) (cp_releases (run (cp_exec jcs) es s))"
proof (induction es arbitrary: s)
  case (Cons e es)
  then have "release_later (cp_releases (cp_exec jcs e s)) (cp_releases (run (cp_exec jcs) es (cp_exec jcs e s)))"
    by (intro Cons.IH cp_inv_exec)
  with release_later_exec [OF Cons.prems] show ?case by (auto intro: release_later_trans)
qed simp

text \<open>
  C26: A Ready Version is final. Once validation has succeeded, no sequence of operations
  changes the Version or its Deployment, and the Deployment carries the digest of the
  effective policy that the Version and its granted capabilities define.
\<close>

theorem ready_version_final:
  assumes "reachable cp_initial (cp_exec jcs) s"
    and "version_at s i = Some v" and "v_State v = VersionReady"
  shows "\<exists>d. deployment_at s i = Some d \<and>
    version_at (run (cp_exec jcs) es s) i = Some v \<and> deployment_at (run (cp_exec jcs) es s) i = Some d \<and>
    EffectivePolicy_Digest jcs (initial_policy d v) = Inr (d_EffectivePolicyDigest d) \<and>
    set (d_GrantedCapabilities d) \<subseteq> set (v_RequestedCapabilities v)"
proof -
  note inv = reachable_cp_inv [OF assms(1)]
  obtain d where d: "deployment_at s i = Some d" "deployment_for jcs d v"
    using release_version [OF cp_release_inv [OF inv] assms(2)] assms(3)
    by (auto simp: version_entry_def split: option.splits)
  have later: "release_later (cp_releases s) (cp_releases (run (cp_exec jcs) es s))"
    by (rule release_later_run [OF inv])
  have "version_at (run (cp_exec jcs) es s) i = Some v"
    using later assms(2) version_later_Ready [OF _ assms(3)] unfolding release_later_def by blast
  moreover have "deployment_at (run (cp_exec jcs) es s) i = Some d"
    using later d(1) unfolding release_later_def by blast
  ultimately show ?thesis using d by (auto simp: deployment_for_def)
qed

text \<open>The fence of a pending validation is the one its start has set.\<close>

abbreviation pending_at :: "ControlPlane \<Rightarrow> string \<Rightarrow> string option" where
  "pending_at s i \<equiv> fmlookup (rel_validationIDByVersion (cp_releases s)) i"

lemma pending_step:
  assumes inv: "cp_inv jcs s" and now: "pending_at (cp_exec jcs e s) i = Some x"
  shows "pending_at s i = Some x \<or>
    (\<exists>command. e = DoStartValidation command \<and> sv_VersionID command = i \<and> sv_ValidationID command = x)"
proof (cases e)
  case (DoCreateVersion command)
  then show ?thesis
    using now by (cases rule: CreateVersion_cases [of "cp_catalog s" command "cp_releases s"]) simp_all
next
  case (DoLateCreateVersion seen command)
  then show ?thesis
    using now by (cases rule: CreateVersion_cases [of seen command "cp_releases s"]) (simp_all split: if_splits)
next
  case (DoStartValidation command)
  show ?thesis
  proof (cases rule: StartValidation_cases [of command "cp_releases s"])
    case (started v)
    have "v_VersionID v = sv_VersionID command"
      using release_version [OF cp_release_inv [OF inv] started(2)] by (simp add: version_entry_def)
    then show ?thesis using now DoStartValidation started by (auto split: if_splits)
  qed (use now DoStartValidation in simp)
next
  case (DoCompleteValidation command)
  then show ?thesis
    using now by (cases rule: CompleteValidation_cases [of jcs command "cp_releases s"])
      (auto split: if_splits)
next
  case (DoPublish command)
  then show ?thesis using now by (simp add: split_beta)
qed (use now in simp_all)

lemma pending_history:
  "pending_at (run (cp_exec jcs) es new_control_plane) i = Some x \<Longrightarrow>
     \<exists>es1 command es2. es = es1 @ DoStartValidation command # es2 \<and>
       sv_VersionID command = i \<and> sv_ValidationID command = x"
proof (induction es rule: rev_induct)
  case Nil
  then show ?case by (simp add: new_control_plane_def NewReleaseStore_def)
next
  case (snoc e es)
  have inv: "cp_inv jcs (run (cp_exec jcs) es new_control_plane)"
    by (rule reachable_cp_inv [OF reachable_new])
  from snoc.prems have "pending_at (cp_exec jcs e (run (cp_exec jcs) es new_control_plane)) i = Some x" by simp
  from pending_step [OF inv this] show ?case
  proof
    assume "pending_at (run (cp_exec jcs) es new_control_plane) i = Some x"
    from snoc.IH [OF this] show ?thesis by (metis append.assoc append_Cons)
  next
    assume "\<exists>command. e = DoStartValidation command \<and> sv_VersionID command = i \<and> sv_ValidationID command = x"
    then show ?thesis by blast
  qed
qed

text \<open>How a Version becomes Ready.\<close>

lemma ready_step:
  assumes inv: "cp_inv jcs s" and now: "version_at (cp_exec jcs e s) i = Some v" "v_State v = VersionReady"
  shows "version_at s i = Some v \<or>
    (\<exists>command. e = DoCompleteValidation command \<and> ev_VersionID command = i \<and> vr_Valid (ev_Report command) \<and>
       vr_ArtifactDigest (ev_Report command) = v_ArtifactDigest v \<and>
       vr_RuntimeEngine (ev_Report command) = EngineCompiler \<and>
       pending_at s i = Some (vr_ValidationID (ev_Report command)))"
proof (cases e)
  case (DoCreateVersion command)
  then show ?thesis
    using now by (cases rule: CreateVersion_cases [of "cp_catalog s" command "cp_releases s"])
      (auto split: if_splits dest: validateCreateVersion_None(2))
next
  case (DoLateCreateVersion seen command)
  then show ?thesis
    using now by (cases rule: CreateVersion_cases [of seen command "cp_releases s"])
      (auto split: if_splits dest: validateCreateVersion_None(2))
next
  case (DoStartValidation command)
  then show ?thesis
    using now by (cases rule: StartValidation_cases [of command "cp_releases s"]) (auto split: if_splits)
next
  case (DoCompleteValidation command)
  show ?thesis
  proof (cases rule: CompleteValidation_cases [of jcs command "cp_releases s"])
    case (failed w)
    then show ?thesis using now DoCompleteValidation by (auto split: if_splits)
  next
    case (ready w d)
    have id: "v_VersionID w = ev_VersionID command"
      using release_version [OF cp_release_inv [OF inv] ready(2)] by (simp add: version_entry_def)
    have "v_State w = VersionValidating" using ready(3) by (simp add: CompleteValidation_checks_def)
    then have "map_has (rel_validationIDByVersion (cp_releases s)) (ev_VersionID command)"
      using release_version [OF cp_release_inv [OF inv] ready(2)] by (simp add: version_entry_def)
    then have pending: "pending_at s (ev_VersionID command) = Some (vr_ValidationID (ev_Report command))"
      using ready(3) id by (auto simp: CompleteValidation_checks_def map_has_iff map_get_def)
    have "vr_ArtifactDigest (ev_Report command) = v_ArtifactDigest w" "vr_RuntimeEngine (ev_Report command) = EngineCompiler"
      using ready(3) by (simp_all add: CompleteValidation_checks_def validateReportForVersion_def)
    then show ?thesis
      using now DoCompleteValidation ready id pending
      by (auto simp: ready_version_def completed_version_def split: if_splits)
  qed (use now DoCompleteValidation in simp)
next
  case (DoPublish command)
  then show ?thesis using now by (simp add: split_beta)
qed (use now in simp_all)

text \<open>
  C5: Only a validation makes a Version Ready. If a Version is Ready after some sequence of
  operations on a new control plane, then the sequence contains the start of a validation of
  this Version and later its completion, with a report that is valid, carries the identifier
  of exactly that validation, names the digest of the Version's artifact and comes from the
  compiler engine.
\<close>

theorem ready_needs_validation:
  assumes "version_at (run (cp_exec jcs) es new_control_plane) i = Some v" and "v_State v = VersionReady"
  shows "\<exists>es1 start es2 command es3.
    es = es1 @ DoStartValidation start # es2 @ DoCompleteValidation command # es3 \<and>
    sv_VersionID start = i \<and> ev_VersionID command = i \<and>
    vr_ValidationID (ev_Report command) = sv_ValidationID start \<and> vr_Valid (ev_Report command) \<and>
    vr_ArtifactDigest (ev_Report command) = v_ArtifactDigest v \<and>
    vr_RuntimeEngine (ev_Report command) = EngineCompiler"
  using assms
proof (induction es rule: rev_induct)
  case Nil
  then show ?case by (simp add: new_control_plane_def NewReleaseStore_def)
next
  case (snoc e es)
  let ?s = "run (cp_exec jcs) es new_control_plane"
  have inv: "cp_inv jcs ?s" by (rule reachable_cp_inv [OF reachable_new])
  from snoc.prems(1) have "version_at (cp_exec jcs e ?s) i = Some v" by simp
  from ready_step [OF inv this snoc.prems(2)] show ?case
  proof (elim disjE exE conjE)
    assume "version_at ?s i = Some v"
    from snoc.IH [OF this snoc.prems(2)] show ?thesis by fastforce
  next
    fix command
    assume command: "e = DoCompleteValidation command" "ev_VersionID command = i" "vr_Valid (ev_Report command)"
      "vr_ArtifactDigest (ev_Report command) = v_ArtifactDigest v"
      "vr_RuntimeEngine (ev_Report command) = EngineCompiler"
      and "pending_at ?s i = Some (vr_ValidationID (ev_Report command))"
    from pending_history [OF this(6)] obtain es1 start es2 where
      "es = es1 @ DoStartValidation start # es2" "sv_VersionID start = i"
      "sv_ValidationID start = vr_ValidationID (ev_Report command)" by blast
    then have "es @ [e] = es1 @ DoStartValidation start # es2 @ DoCompleteValidation command # []"
      using command(1) by simp
    with command \<open>sv_VersionID start = i\<close> \<open>sv_ValidationID start = _\<close> show ?thesis by metis
  qed
qed

subsection \<open>A run of the control plane\<close>

text \<open>
  A Function is created, a Version uploaded and validated, its Route published and one
  placement installed. The canonicalizer returns its argument.
\<close>

definition at_time :: "int \<Rightarrow> Time" where
  "at_time n = \<lparr>t_nanos = n * second, t_offset = 0\<rparr>"

definition demo_function :: Function where
  "demo_function =
    \<lparr>m_ID = ''fn-1'', m_Namespace = DefaultNamespace, m_CreatedAt = at_time 1, m_UpdatedAt = at_time 1,
     m_CreatedRaftIndex = 1, m_ResourceRevision = 1, f_Name = ''hello'', f_Description = '''',
     f_ActiveRouteRevision = 0, f_Labels = fmempty, f_Lifecycle = FunctionActive\<rparr>"

definition demo_trigger :: HTTPTrigger where
  "demo_trigger =
    \<lparr>m_ID = ''tr-1'', m_Namespace = DefaultNamespace, m_CreatedAt = at_time 1, m_UpdatedAt = at_time 1,
     m_CreatedRaftIndex = 1, m_ResourceRevision = 1, ht_FunctionID = ''fn-1'', ht_Enabled = True,
     ht_AuthPolicy = AuthPolicyPublic, ht_TokenVerifierDigest = None\<rparr>"

definition demo_create :: CreateFunctionCommand where
  "demo_create = \<lparr>cf_IfNoneMatch = True, cf_AppliedIndex = 1, cf_Function = demo_function,
     cf_Trigger = demo_trigger\<rparr>"

definition demo_version :: Version where
  "demo_version =
    \<lparr>m_ID = ''v-1'', m_Namespace = DefaultNamespace, m_CreatedAt = at_time 2, m_UpdatedAt = at_time 2,
     m_CreatedRaftIndex = 2, m_ResourceRevision = 1, v_FunctionID = ''fn-1'', v_VersionID = ''v-1'',
     v_ArtifactDigest = sample_digest, v_ManifestDigest = sample_digest, v_ArtifactSize = 1024,
     v_ABI = ABIWASICommandV1, v_HostAPIProfile = HostAPIProfileNone,
     v_RuntimeFeatureProfile = FeatureProfile,
     v_Toolchain = \<lparr>tc_Name = ''go'', tc_Version = ''1'', tc_Provenance = ''ci''\<rparr>,
     v_AdmissionEpoch = 1,
     v_ResourceRequest = \<lparr>rq_Timeout = second, rq_MemoryMiB = 64, rq_MaxConcurrency = 1,
       rq_MaxInputBytes = 1024, rq_MaxOutputBytes = 1024\<rparr>,
     v_RequestedCapabilities = [], v_State = VersionUploaded, v_ValidationError = None\<rparr>"

definition demo_upload :: CreateVersionCommand where
  "demo_upload = \<lparr>cv_IfNoneMatch = True, cv_AppliedIndex = 2, cv_Version = demo_version\<rparr>"

definition demo_start :: StartValidationCommand where
  "demo_start = \<lparr>sv_VersionID = ''v-1'', sv_ExpectedResourceRevision = 1, sv_ValidationID = ''val-1'',
     sv_UpdatedAt = at_time 3, sv_AppliedIndex = 3\<rparr>"

definition demo_report :: Report where
  "demo_report =
    \<lparr>vr_SchemaVersion = SchemaVersion, vr_ValidationID = ''val-1'', vr_Valid = True, vr_Code = CodeOK,
     vr_Reason = ''ok'', vr_Message = ''ok'', vr_ArtifactDigest = sample_digest, vr_ArtifactSize = 1024,
     vr_RuntimeName = RuntimeName, vr_RuntimeVersion = RuntimeVersion,
     vr_RuntimeFeatureProfile = FeatureProfile, vr_RuntimeEngine = EngineCompiler,
     vr_Imports = Some [], vr_Exports = Some [],
     vr_Memory = \<lparr>me_Exported = True, me_MinPages = 1, me_MaxPages = 1024\<rparr>,
     vr_CompileNanoseconds = 1,
     vr_Isolation = \<lparr>is_ProcessBoundary = True, is_Deadline = True, is_CPULimit = True,
       is_FileSizeLimit = True, is_MemoryLimit = True, is_TempDiskLimit = True\<rparr>\<rparr>"

definition demo_limits :: ResourceLimits where
  "demo_limits = \<lparr>rl_Timeout = second, rl_MemoryMiB = 64, rl_MaxInputBytes = 1024,
     rl_MaxOutputBytes = 1024, rl_MaxLogBytes = 262144\<rparr>"

definition demo_policy :: EffectivePolicy where
  "demo_policy =
    \<lparr>ep_VersionID = ''v-1'', ep_AdmissionEpoch = 1, ep_DeploymentGeneration = 1,
     ep_ArtifactDigest = sample_digest, ep_ArtifactSize = 1024, ep_ABI = ABIWASICommandV1,
     ep_HostAPIProfile = HostAPIProfileNone, ep_RuntimeFeatureProfile = FeatureProfile,
     ep_ResourceLimits = demo_limits, ep_MaxConcurrency = 1, ep_GrantedCapabilities = []\<rparr>"

definition demo_policy_digest :: SHA256 where
  "demo_policy_digest = Sum (digest_prefix @ EffectivePolicyDomain @ [CHR 0x00] @
     EffectivePolicySchemaVersion @ [CHR 0x00] @ json_marshal (canonicalEffectivePolicyV1 demo_policy))"

definition demo_deployment :: Deployment where
  "demo_deployment =
    \<lparr>m_ID = ''d-1'', m_Namespace = DefaultNamespace, m_CreatedAt = at_time 4, m_UpdatedAt = at_time 4,
     m_CreatedRaftIndex = 4, m_ResourceRevision = 1, d_VersionID = ''v-1'', d_Generation = 1,
     d_ScalingRevision = 1, d_ResourceLimits = demo_limits, d_GrantedCapabilities = [],
     d_EffectivePolicyDigest = demo_policy_digest, d_MinReplicas = 1, d_MaxReplicas = 1,
     d_DesiredReplicas = 1, d_ReadyReplicas = 0, d_TargetConcurrency = 1, d_ScalingMode = ScalingManual,
     d_IdleTimeout = 0, d_DesiredPhase = DeploymentActive\<rparr>"

definition demo_complete :: CompleteValidationCommand where
  "demo_complete = \<lparr>ev_VersionID = ''v-1'', ev_ExpectedResourceRevision = 2, ev_Report = demo_report,
     ev_Deployment = Some demo_deployment, ev_UpdatedAt = at_time 4, ev_AppliedIndex = 4\<rparr>"

definition demo_target :: RouteTarget where
  "demo_target = \<lparr>rt_VersionID = ''v-1'', rt_AdmissionEpoch = 1, rt_DeploymentGeneration = 1,
     rt_EffectivePolicyDigest = demo_policy_digest, rt_WeightBasisPoints = 10000\<rparr>"

definition demo_route :: Route where
  "demo_route =
    \<lparr>m_ID = ''r-1'', m_Namespace = DefaultNamespace, m_CreatedAt = at_time 5, m_UpdatedAt = at_time 5,
     m_CreatedRaftIndex = 5, m_ResourceRevision = 1, r_FunctionID = ''fn-1'', r_RouteRevision = 1,
     r_Targets = [demo_target], r_Affinity = AffinityRequestID, r_AffinityHeader = '''',
     r_HashVersion = HashVersionSHA256BPSV1, r_SaltID = ''s-1'', r_Salt = ''0123456789abcdef'',
     r_Enabled = True\<rparr>"

definition demo_publish :: PublishRouteCommand where
  "demo_publish = \<lparr>pc_FunctionID = ''fn-1'', pc_ExpectedActiveRouteRevision = 0, pc_Route = demo_route,
     pc_UpdatedAt = at_time 5, pc_AppliedIndex = 5\<rparr>"

definition demo_assignment :: Assignment where
  "demo_assignment =
    \<lparr>as_CommandID = ''c-1'', as_AssignmentID = ''a-1'',
     as_Worker = \<lparr>ws_WorkerID = ''w-1'', ws_BootID = ''b-1'', ws_SessionEpoch = 1\<rparr>,
     as_VersionID = ''v-1'', as_ArtifactDigest = sample_digest, as_ArtifactSize = 1024,
     as_ABI = ABIWASICommandV1, as_HostAPI = HostAPIProfileNone, as_FeatureProfile = FeatureProfile,
     as_MemoryMiB = 64, as_RequiredSlots = 1, as_AdmissionEpoch = 1, as_DeploymentGeneration = 1,
     as_PolicyDigest = demo_policy_digest\<rparr>"

definition demo_install :: InstallAssignmentCommand where
  "demo_install = \<lparr>ia_FunctionID = ''fn-1'', ia_Placement = demo_assignment, ia_IfNoneMatch = True,
     ia_ExpectedScalingRevision = 1, ia_AppliedIndex = 6, ia_UpdatedAt = at_time 6\<rparr>"

lemmas demo_defs = demo_function_def demo_trigger_def demo_create_def demo_version_def demo_upload_def
  demo_start_def demo_report_def demo_limits_def demo_policy_def demo_deployment_def demo_complete_def
  demo_target_def demo_route_def demo_publish_def demo_assignment_def demo_install_def at_time_def

lemma demo_ids [simp]:
  "idPattern ''fn-1''" "idPattern ''tr-1''" "idPattern ''v-1''" "idPattern ''val-1''" "idPattern ''d-1''"
  "idPattern ''r-1''" "idPattern ''s-1''" "idPattern ''a-1''" "idPattern ''c-1''" "idPattern ''w-1''"
  "idPattern ''b-1''"
  by code_simp+

lemma demo_digest [simp]: "encodedPattern demo_policy_digest" "\<not> bad_digest demo_policy_digest"
  by (simp_all add: demo_policy_digest_def bad_digest_iff)

lemma demo_policy_valid: "EffectivePolicy_Validate demo_policy = None"
  by code_simp

lemma demo_policy_digest_eq: "EffectivePolicy_Digest Inr (initial_policy demo_deployment v) = Inr demo_policy_digest"
  if "v_VersionID v = ''v-1''" "v_AdmissionEpoch v = 1" "v_ArtifactDigest v = sample_digest"
    "v_ArtifactSize v = 1024" "v_ABI v = ABIWASICommandV1" "v_HostAPIProfile v = HostAPIProfileNone"
    "v_RuntimeFeatureProfile v = FeatureProfile" "rq_MaxConcurrency (v_ResourceRequest v) = 1"
proof -
  have "initial_policy demo_deployment v = demo_policy"
    using that by (simp add: initial_policy_def demo_policy_def demo_deployment_def)
  then show ?thesis
    using demo_policy_valid by (simp add: EffectivePolicy_Digest_def CanonicalJSON_def demo_policy_digest_def)
qed

definition demo1 :: Catalog where
  "demo1 = snd (CreateFunction demo_create NewCatalog)"

definition demo3 :: ReleaseStore where
  "demo3 = snd (StartValidation demo_start (snd (CreateVersion demo1 demo_upload NewReleaseStore)))"

lemma demo1_function: "fmlookup (cat_functionsByID demo1) ''fn-1'' = Some demo_function"
  by code_simp

lemma demo3_version: "fmlookup (rel_versions demo3) ''v-1'' = Some (started_version demo_start demo_version)"
  by code_simp

lemma demo3_pending: "fmlookup (rel_validationIDByVersion demo3) ''v-1'' = Some ''val-1''"
  by code_simp

definition demo_ready :: Version where
  "demo_ready = demo_version\<lparr>m_UpdatedAt := at_time 4, m_ResourceRevision := 3, v_State := VersionReady\<rparr>"

lemma demo_ready_eq: "ready_version demo_complete (started_version demo_start demo_version) = demo_ready"
  by (simp add: ready_version_def completed_version_def started_version_def demo_ready_def demo_version_def
      demo_complete_def demo_start_def)

lemma demo_ready_valid: "Version_Validate demo_ready = None"
  by code_simp

lemma demo_time [simp]: "\<not> Time_IsZero (at_time (numeral k))" "t_offset (at_time n) = 0" "isUTC (at_time n)"
  "Time_Equal (at_time n) (at_time n)" "Time_Before (at_time m) (at_time n) \<longleftrightarrow> m < n" "t_nanos (at_time n) = n * second"
  "\<not> Time_IsZero (at_time 1)"
  by (simp_all add: at_time_def time_simps isUTC_def)

lemma demo_deployment_valid: "Deployment_Validate demo_deployment = None"
proof -
  have "ResourceLimits_Validate demo_limits = None" by code_simp
  then show ?thesis
    by (simp add: Deployment_Validate_def Metadata_Validate_def demo_deployment_def validateCapabilities_def
        MaxReplicasV1_def ScalingMode_valid_def DeploymentPhase_valid_def)
qed

lemma demo_command_checked: "validateCompleteValidation demo_complete = None"
proof -
  have "Report_Validate demo_report = None" by code_simp
  then show ?thesis
    by (simp add: validateCompleteValidation_def demo_complete_def validateUTC_def)
       (simp add: demo_report_def)
qed

lemma demo_completion_checked:
  "CompleteValidation_checks demo3 demo_complete (started_version demo_start demo_version) = None"
  using demo3_pending
  by (simp add: CompleteValidation_checks_def validateReportForVersion_def demo_complete_def demo_report_def
      started_version_def demo_start_def demo_version_def map_get_def)

lemma demo_deployment_checked:
  "validateInitialDeployment Inr demo_deployment
     (completed_version demo_complete (started_version demo_start demo_version)) 4 (at_time 4) = None"
proof -
  let ?v = "completed_version demo_complete (started_version demo_start demo_version)"
  have v: "v_VersionID ?v = ''v-1''" "v_AdmissionEpoch ?v = 1" "v_ArtifactDigest ?v = sample_digest"
    "v_ArtifactSize ?v = 1024" "v_ABI ?v = ABIWASICommandV1" "v_HostAPIProfile ?v = HostAPIProfileNone"
    "v_RuntimeFeatureProfile ?v = FeatureProfile" "v_ResourceRequest ?v = v_ResourceRequest demo_version"
    "v_RequestedCapabilities ?v = []"
    by (simp_all add: completed_version_def started_version_def demo_version_def)
  have "generation_one demo_deployment ?v 4 (at_time 4)"
    by (simp add: generation_one_def exact_limits_def v)
       (simp add: demo_deployment_def demo_limits_def demo_version_def)
  moreover have "capabilitiesSubset (d_GrantedCapabilities demo_deployment) (v_RequestedCapabilities ?v)"
    by (simp add: capabilitiesSubset_def demo_deployment_def)
  moreover have "EffectivePolicy_Digest Inr (initial_policy demo_deployment ?v) = Inr demo_policy_digest"
    by (rule demo_policy_digest_eq) (simp_all add: completed_version_def started_version_def demo_version_def)
  moreover have "d_EffectivePolicyDigest demo_deployment = demo_policy_digest"
    by (simp add: demo_deployment_def)
  ultimately show ?thesis by (simp add: validateInitialDeployment_def demo_deployment_valid)
qed

definition demo4 :: ReleaseStore where
  "demo4 = snd (CompleteValidation Inr demo_complete demo3)"

lemma demo_completed:
  "CompleteValidation Inr demo_complete demo3 = (Inr (demo_ready, Some demo_deployment),
     demo3\<lparr>rel_versions := fmupd ''v-1'' demo_ready (rel_versions demo3),
       rel_deployments := fmupd ''v-1'' demo_deployment (rel_deployments demo3),
       rel_validationIDByVersion := fmdrop ''v-1'' (rel_validationIDByVersion demo3)\<rparr>)"
proof -
  have c: "ev_VersionID demo_complete = ''v-1''" "vr_Valid (ev_Report demo_complete)"
    "ev_Deployment demo_complete = Some demo_deployment" "ev_AppliedIndex demo_complete = 4"
    "ev_UpdatedAt demo_complete = at_time 4"
    by (simp_all add: demo_complete_def demo_report_def)
  have "v_VersionID demo_ready = ''v-1''" by (simp add: demo_ready_def demo_version_def)
  then show ?thesis
    by (simp add: CompleteValidation_def demo_command_checked c demo3_version demo_completion_checked
        demo_deployment_checked demo_ready_eq demo_ready_valid Let_def)
qed

lemma demo4_ready:
  "fmlookup (rel_versions demo4) ''v-1'' = Some demo_ready"
  "fmlookup (rel_deployments demo4) ''v-1'' = Some demo_deployment"
  by (simp_all add: demo4_def demo_completed)

lemma demo_route_valid: "Route_ValidateCore demo_route = None"
proof -
  have "target_ok demo_target" by (simp add: target_ok_def demo_target_def TotalRouteWeightBasisPoints_def)
  moreover have "target_weight demo_target = 10000" by (simp add: target_weight_def demo_target_def)
  ultimately have "validateRouteTargets [demo_target] = None" by (simp add: checks)
  then show ?thesis
    by (simp add: Route_ValidateCore_def Route_Validate_def Metadata_Validate_def validateAffinity_def demo_route_def)
qed

lemma demo_route_ready: "validateReadyTargetLocked demo4 demo_route demo_function = None"
  by (simp add: validateReadyTargetLocked_def demo_route_def demo_target_def demo4_ready)
     (simp add: demo_ready_def demo_version_def demo_function_def demo_deployment_def)

definition demo_routed :: Function where
  "demo_routed = demo_function\<lparr>f_ActiveRouteRevision := 1, m_UpdatedAt := at_time 5, m_ResourceRevision := 2\<rparr>"

lemma demo_published:
  "Publish demo4 demo_publish (demo1, NewRouteStore) = (Inr (demo_route, demo_routed),
     (demo1\<lparr>cat_functionsByID := fmupd ''fn-1'' demo_routed (cat_functionsByID demo1)\<rparr>,
      NewRouteStore\<lparr>rou_routes := fmupd ''fn-1'' demo_route fmempty, rou_routeIDs := {|''r-1''|}\<rparr>))"
proof -
  have p: "pc_FunctionID demo_publish = ''fn-1''" "pc_Route demo_publish = demo_route"
    by (simp_all add: demo_publish_def)
  have "validatePublishRoute demo_publish = None"
    by (simp add: validatePublishRoute_def Let_def demo_publish_def demo_route_valid validateUTC_def)
       (simp add: demo_route_def)
  moreover have "Publish_checks demo4 NewRouteStore demo_publish demo_function = None"
    by (simp add: Publish_checks_def p demo_route_ready)
       (simp add: demo_publish_def demo_function_def demo_route_def NewRouteStore_def)
  moreover have "routed_function demo_publish demo_function = demo_routed"
    by (simp add: routed_function_def demo_routed_def demo_publish_def demo_route_def demo_function_def)
  moreover have "Function_Validate demo_routed = None" by code_simp
  moreover have "m_ID demo_routed = ''fn-1''" "m_ID demo_route = ''r-1''"
    by (simp_all add: demo_routed_def demo_function_def demo_route_def)
  ultimately show ?thesis
    by (simp add: Publish_def p demo1_function Let_def NewRouteStore_def)
qed

definition demo5 :: "Catalog \<times> RouteStore" where
  "demo5 = snd (Publish demo4 demo_publish (demo1, NewRouteStore))"

lemma demo5_state:
  "fmlookup (cat_functionsByID (fst demo5)) ''fn-1'' = Some demo_routed"
  "fmlookup (rou_routes (snd demo5)) ''fn-1'' = Some demo_route"
  by (simp_all add: demo5_def demo_published)

definition demo_events :: "ControlEvent list" where
  "demo_events = [DoCreateFunction demo_create, DoCreateVersion demo_upload, DoStartValidation demo_start,
     DoCompleteValidation demo_complete, DoPublish demo_publish, DoInstall demo_install]"

definition demo_plane :: ControlPlane where
  "demo_plane = \<lparr>cp_catalog = fst demo5, cp_releases = demo4, cp_routes = snd demo5,
     cp_assignments = NewAssignmentStore\<lparr>asg_records := fmupd ''a-1'' (install_candidate demo_install) fmempty,
       asg_activeCounts := fmupd (assignmentTargetForRecord (install_candidate demo_install)) 1 fmempty\<rparr>\<rparr>"

lemma demo_assignment_valid: "Assignment_Validate demo_assignment = None"
  by (simp add: Assignment_Validate_def AssignmentIdentity_validate_def WorkerSession_validate_def
      identifierPattern_eq demo_assignment_def MaxArtifactBytes_def bad_profile_iff ValidMemoryTier_def
      memoryTiersMiB_def MaxWorkerSlots_def)

lemma demo_installed:
  "InstallAssignment (fst demo5) demo4 (snd demo5) demo_install NewAssignmentStore =
     (Inr (install_candidate demo_install), cp_assignments demo_plane)"
proof -
  have i: "ia_FunctionID demo_install = ''fn-1''" "ia_Placement demo_install = demo_assignment"
    "ia_ExpectedScalingRevision demo_install = 1" "as_AssignmentID demo_assignment = ''a-1''"
    by (simp_all add: demo_install_def demo_assignment_def)
  have "validateInstallAssignment demo_install = None"
    by (simp add: validateInstallAssignment_def i demo_assignment_valid validateUTC_def)
       (simp add: demo_install_def)
  moreover have "validatePlacement_route (fst demo5) demo4 (snd demo5) demo_install = Inr demo_route"
  proof -
    have "validateReadyTargetLocked demo4 demo_route demo_routed = None"
      using demo_route_ready validateReadyTargetLocked_function [of demo_routed demo_function demo4 demo_route]
      by (simp add: demo_routed_def)
    then show ?thesis
      by (simp add: validatePlacement_route_def i demo5_state)
         (simp add: demo_routed_def demo_function_def demo_route_def demo_install_def)
  qed
  moreover have "r_Targets demo_route = [demo_target]" by (simp add: demo_route_def)
  moreover have "targetMatches demo_assignment demo_target"
    by (simp add: targetMatches_def demo_assignment_def demo_target_def)
  moreover have "runtimeMatches demo_assignment demo_ready demo_deployment"
    by (simp add: runtimeMatches_def demo_assignment_def demo_ready_def demo_version_def demo_deployment_def
        demo_limits_def)
  moreover have "rt_VersionID demo_target = ''v-1''" by (simp add: demo_target_def)
  moreover have "d_ScalingRevision demo_deployment = 1" "d_DesiredReplicas demo_deployment = 1"
    by (simp_all add: demo_deployment_def)
  moreover have "assignmentTargetFor ''fn-1'' demo_target = assignmentTargetForRecord (install_candidate demo_install)"
    by (simp add: assignmentTargetFor_def assignmentTargetForRecord_def i)
       (simp add: demo_target_def demo_assignment_def)
  ultimately show ?thesis
    by (simp add: InstallAssignment_def i NewAssignmentStore_def validatePlacementLocked_def demo4_ready
        demo_plane_def Let_def)
qed

lemma demo_run: "run (cp_exec Inr) demo_events new_control_plane = demo_plane"
  by (simp add: demo_events_def new_control_plane_def split_beta demo_installed
      flip: demo1_def demo3_def demo4_def demo5_def)
     (simp add: demo_plane_def)

lemma demo_reachable: "reachable cp_initial (cp_exec Inr) demo_plane"
  using reachable_new [of Inr demo_events] by (simp add: demo_run)

definition demo_cancel :: CancelAssignmentCommand where
  "demo_cancel = \<lparr>ca_AssignmentID = ''a-1'', ca_ExpectedResourceRevision = 1, ca_AppliedIndex = 7,
     ca_UpdatedAt = at_time 7\<rparr>"

lemma demo_plane_state:
  "function_at demo_plane ''fn-1'' = Some demo_routed" "version_at demo_plane ''v-1'' = Some demo_ready"
  "deployment_at demo_plane ''v-1'' = Some demo_deployment"
  "assignment_at demo_plane ''a-1'' = Some (install_candidate demo_install)"
  by (simp_all add: demo_plane_def demo5_state demo4_ready)

theorem serving_states_total_witness:
  "\<exists>states. ServingStates (cp_catalog demo_plane) (cp_releases demo_plane) (cp_routes demo_plane) = Inr states \<and>
    map ss_Function states = cs_Functions (snapshotLocked (cp_catalog demo_plane)) \<and>
    function_at demo_plane ''fn-1'' = Some demo_routed"
  using serving_states_total [OF demo_reachable] demo_plane_state by blast

theorem revision_identifies_content_witness:
  "\<exists>f'. function_at (run (cp_exec Inr) [DoCancel demo_cancel] demo_plane) ''fn-1'' = Some f' \<and> f' = demo_routed"
proof -
  obtain f' where f': "function_at (run (cp_exec Inr) [DoCancel demo_cancel] demo_plane) ''fn-1'' = Some f'"
    "m_ResourceRevision f' = m_ResourceRevision demo_routed"
    using demo_plane_state by simp
  then have "f' = demo_routed"
    using revision_identifies_content [OF demo_reachable, where i = "''fn-1''" and es = "[DoCancel demo_cancel]"
        and f = demo_routed and f' = f'] demo_plane_state by blast
  with f' show ?thesis by blast
qed

theorem catalog_refines_single_map_witness:
  "GetFunctionByName (cp_catalog demo_plane) ''hello'' =
      view_GetFunctionByName (catalog_view (cp_catalog demo_plane)) ''hello'' \<and>
   fmlookup (catalog_view (cp_catalog demo_plane)) ''fn-1'' =
      Some (demo_routed, function_trigger (cp_catalog demo_plane) ''fn-1'')"
  using catalog_refines_single_map [OF demo_reachable, where n = "''hello''"] demo_plane_state by simp

theorem canonical_catalog_faithful_witness:
  "cp_catalog demo_plane = cp_catalog (run (cp_exec Inr) [DoCancel demo_cancel] demo_plane)"
  by (rule canonical_catalog_faithful [OF demo_reachable reachable_run [OF demo_reachable]]) simp

theorem active_counts_exact_witness:
  "in_force_count (assignmentTargetForRecord (install_candidate demo_install)) (cp_assignments demo_plane) = 1"
  using active_counts_exact [OF demo_reachable, where k = "assignmentTargetForRecord (install_candidate demo_install)"]
  by (simp add: demo_plane_def)

theorem route_revision_counts_witness:
  "\<exists>f'. function_at (run (cp_exec Inr) [DoPublish demo_publish] demo_plane) ''fn-1'' = Some f' \<and>
    unat (f_ActiveRouteRevision f') = 1 + publish_count Inr ''fn-1'' [DoPublish demo_publish] demo_plane"
  using route_revision_counts [OF demo_reachable demo_plane_state(1), of "[DoPublish demo_publish]"]
  by (simp add: demo_routed_def)

theorem ready_version_final_witness:
  "version_at (run (cp_exec Inr) [DoStartValidation demo_start] demo_plane) ''v-1'' = Some demo_ready"
proof -
  have "v_State demo_ready = VersionReady" by (simp add: demo_ready_def)
  then show ?thesis
    using ready_version_final [OF demo_reachable demo_plane_state(2), of "[DoStartValidation demo_start]"] by blast
qed

theorem ready_needs_validation_witness:
  "\<exists>es1 start es2 command es3. demo_events = es1 @ DoStartValidation start # es2 @ DoCompleteValidation command # es3 \<and>
    vr_ValidationID (ev_Report command) = sv_ValidationID start"
proof -
  have "version_at (run (cp_exec Inr) demo_events new_control_plane) ''v-1'' = Some demo_ready"
    "v_State demo_ready = VersionReady"
    by (simp_all add: demo_run demo_plane_state demo_ready_def)
  from ready_needs_validation [OF this] show ?thesis by blast
qed

text \<open>
  C25: Every committed placement is admitted. Its identity passes the checks of the worker's
  serving gate, it names a Ready Version of its Function together with the generation and the
  policy digest of that Version's Deployment, and its runtime is the one that was validated.
  This holds as long as the record is kept, also after later publications and cancellation.
\<close>

theorem committed_placement_admitted:
  assumes "reachable cp_initial (cp_exec jcs) s" and "assignment_at s i = Some a"
  shows "AssignmentIdentity_validate (AssignmentRecord_Identity a) = None \<and>
    ai_AssignmentID (AssignmentRecord_Identity a) = i \<and>
    (\<exists>v d. version_at s (as_VersionID (ar_Placement a)) = Some v \<and>
      deployment_at s (as_VersionID (ar_Placement a)) = Some d \<and> v_State v = VersionReady \<and>
      v_FunctionID v = ar_FunctionID a \<and> d_Generation d = as_DeploymentGeneration (ar_Placement a) \<and>
      d_EffectivePolicyDigest d = as_PolicyDigest (ar_Placement a) \<and> runtimeMatches (ar_Placement a) v d)"
proof -
  have entry: "assignment_entry (cp_releases s) i a"
    using assignment_record [OF cp_assignment_inv [OF reachable_cp_inv [OF assms(1)]] assms(2)] .
  then have "Assignment_Validate (ar_Placement a) = None" by (simp add: assignment_entry_def)
  then have "AssignmentIdentity_validate (AssignmentRecord_Identity a) = None"
    by (simp add: Assignment_Validate_def AssignmentRecord_Identity_def)
  with entry show ?thesis
    by (auto simp: assignment_entry_def admitted_def AssignmentRecord_Identity_def)
qed

theorem committed_placement_admitted_witness:
  "AssignmentIdentity_validate (AssignmentRecord_Identity (install_candidate demo_install)) = None"
  using committed_placement_admitted [OF demo_reachable demo_plane_state(4)] by blast

end
