(* ===== verification/StrictJson.thy ===== *)
theory StrictJson
  imports GoJson Problem
begin

text \<open>
  Package \<^verbatim>\<open>internal/strictjson\<close>, which checks a JSON text before it is decoded, and the part of
  \<^verbatim>\<open>json.Decoder\<close> it drives: \<^verbatim>\<open>Token\<close> and \<^verbatim>\<open>More\<close>. A decoder is its unread input, its token
  state and the stack of states of the enclosing values. Where the decoder of the standard
  library fails, only that it fails is modelled, not the text of its message.
\<close>

subsection \<open>Scalars\<close>

definition is_space :: "char \<Rightarrow> bool" where
  "is_space c \<longleftrightarrow> byte_val c \<in> {32, 9, 13, 10}"

definition hex_val :: "char \<Rightarrow> int option" where
  "hex_val c =
    (if is_digit c then Some (byte_val c - 48)
     else if 97 \<le> byte_val c \<and> byte_val c \<le> 102 then Some (byte_val c - 87)
     else if 65 \<le> byte_val c \<and> byte_val c \<le> 70 then Some (byte_val c - 55)
     else None)"

abbreviation quote_char :: char where "quote_char \<equiv> CHR 0x22"

definition is_simple_escape :: "char \<Rightarrow> bool" where
  "is_simple_escape c \<longleftrightarrow>
     c \<in> set [quote_char, backslash, CHR ''/'', CHR ''b'', CHR ''f'', CHR ''n'', CHR ''r'', CHR ''t'']"

text \<open>
  The scanner inside a string literal, after the opening quote: the raw text up to the closing
  quote and what follows it. The second argument of \<open>scan_string\<close> is the number of
  hexadecimal digits that the escape being read still needs.
\<close>

fun scan_string :: "nat \<Rightarrow> string \<Rightarrow> (string \<times> string) option" where
  "scan_string k [] = None"
| "scan_string 0 (c # cs) =
    (if c = quote_char then Some ([], cs)
     else if byte_val c < 32 then None
     else if c = backslash then
       (case cs of
          [] \<Rightarrow> None
        | d # ds \<Rightarrow>
            if is_simple_escape d
              then map_option (\<lambda>(raw, rest). (c # d # raw, rest)) (scan_string 0 ds)
            else if d = CHR ''u''
              then map_option (\<lambda>(raw, rest). (c # d # raw, rest)) (scan_string 4 ds)
            else None)
     else map_option (\<lambda>(raw, rest). (c # raw, rest)) (scan_string 0 cs))"
| "scan_string (Suc k) (c # cs) =
    (if hex_val c = None then None
     else map_option (\<lambda>(raw, rest). (c # raw, rest)) (scan_string k cs))"

text \<open>\<open>utf8.AppendRune\<close>, and the value of the four digits of an escape.\<close>

definition encode_rune :: "int \<Rightarrow> string" where
  "encode_rune r =
    (if r < 0x80 then [char_of r]
     else if r < 0x800 then [char_of (0xC0 + r div 64), char_of (0x80 + r mod 64)]
     else if r < 0x10000
       then [char_of (0xE0 + r div 4096), char_of (0x80 + r div 64 mod 64), char_of (0x80 + r mod 64)]
     else [char_of (0xF0 + r div 262144), char_of (0x80 + r div 4096 mod 64),
           char_of (0x80 + r div 64 mod 64), char_of (0x80 + r mod 64)])"

fun hex4 :: "string \<Rightarrow> int option" where
  "hex4 (a # b # c # d # _) =
    (case (hex_val a, hex_val b, hex_val c, hex_val d) of
       (Some w, Some x, Some y, Some z) \<Rightarrow> Some (4096 * w + 256 * x + 16 * y + z)
     | _ \<Rightarrow> None)"
| "hex4 _ = None"

definition getu4 :: "string \<Rightarrow> int option" where
  "getu4 s = (case s of a # b # cs \<Rightarrow> if a = backslash \<and> b = CHR ''u'' then hex4 cs else None | _ \<Rightarrow> None)"

definition replacement_rune :: int where "replacement_rune = 0xFFFD"

definition is_surrogate :: "int \<Rightarrow> bool" where
  "is_surrogate r \<longleftrightarrow> 0xD800 \<le> r \<and> r < 0xE000"

definition decode_pair :: "int \<Rightarrow> int option \<Rightarrow> int option" where
  "decode_pair high low =
    (case low of
       Some l \<Rightarrow> if 0xD800 \<le> high \<and> high < 0xDC00 \<and> 0xDC00 \<le> l \<and> l < 0xE000
         then Some ((high - 0xD800) * 1024 + (l - 0xDC00) + 0x10000) else None
     | None \<Rightarrow> None)"

definition simple_escape :: "char \<Rightarrow> char" where
  "simple_escape c =
    (if c = CHR ''b'' then char_of (8 :: int) else if c = CHR ''f'' then char_of (12 :: int)
     else if c = CHR ''n'' then char_of (10 :: int) else if c = CHR ''r'' then char_of (13 :: int)
     else if c = CHR ''t'' then char_of (9 :: int) else c)"

text \<open>\<open>unquote\<close> on the raw text of a literal of valid UTF-8 that the scanner accepted.\<close>

fun json_unquote :: "string \<Rightarrow> string" where
  "json_unquote [] = []"
| "json_unquote (c # cs) =
    (if c \<noteq> backslash then c # json_unquote cs
     else case cs of
         [] \<Rightarrow> []
       | d # ds \<Rightarrow>
           if d = CHR ''u'' then
             (case hex4 ds of
                None \<Rightarrow> []
              | Some r \<Rightarrow>
                  if is_surrogate r then
                    (case decode_pair r (getu4 (drop 4 ds)) of
                       Some full \<Rightarrow> encode_rune full @ json_unquote (drop 10 ds)
                     | None \<Rightarrow> encode_rune replacement_rune @ json_unquote (drop 4 ds))
                  else encode_rune r @ json_unquote (drop 4 ds))
           else simple_escape d # json_unquote ds)"

text \<open>Numbers and the three literals; the result is what follows the value.\<close>

definition scan_exponent :: "string \<Rightarrow> string option" where
  "scan_exponent s =
    (case s of
       [] \<Rightarrow> Some []
     | c # cs \<Rightarrow>
         if c = CHR ''e'' \<or> c = CHR ''E'' then
           (let ds = (case cs of [] \<Rightarrow> [] | d # es \<Rightarrow> if d = CHR ''+'' \<or> d = CHR ''-'' then es else cs) in
            case ds of
              [] \<Rightarrow> None
            | d # es \<Rightarrow> if is_digit d then Some (dropWhile is_digit es) else None)
         else Some s)"

definition scan_fraction :: "string \<Rightarrow> string option" where
  "scan_fraction s =
    (case s of
       [] \<Rightarrow> Some []
     | c # cs \<Rightarrow>
         if c = CHR ''.'' then
           (case cs of
              [] \<Rightarrow> None
            | d # ds \<Rightarrow> if is_digit d then scan_exponent (dropWhile is_digit ds) else None)
         else scan_exponent s)"

definition scan_integer :: "string \<Rightarrow> string option" where
  "scan_integer s =
    (case s of
       [] \<Rightarrow> None
     | c # cs \<Rightarrow>
         if c = CHR ''0'' then scan_fraction cs
         else if is_digit c then scan_fraction (dropWhile is_digit cs)
         else None)"

definition scan_literal :: "string \<Rightarrow> string \<Rightarrow> string option" where
  "scan_literal word s = (if take (length word) s = word then Some (drop (length word) s) else None)"

definition scan_scalar :: "string \<Rightarrow> string option" where
  "scan_scalar s =
    (case s of
       [] \<Rightarrow> None
     | c # cs \<Rightarrow>
         if c = CHR ''t'' then scan_literal ''true'' s
         else if c = CHR ''f'' then scan_literal ''false'' s
         else if c = CHR ''n'' then scan_literal ''null'' s
         else if c = CHR ''-'' then scan_integer cs
         else scan_integer s)"

subsection \<open>The decoder\<close>

datatype tokenState =
    TopValue | ArrayStart | ArrayValue | ArrayComma
  | ObjectStart | ObjectKey | ObjectColon | ObjectValue | ObjectComma

record decoder =
  dc_input :: string
  dc_state :: tokenState
  dc_stack :: "tokenState list"

datatype token = TDelim char | TString string | TScalar

datatype decode_error = DecodeEOF | DecodeError

definition tokenValueAllowed :: "tokenState \<Rightarrow> bool" where
  "tokenValueAllowed st \<longleftrightarrow> st \<in> {TopValue, ArrayStart, ArrayValue, ObjectValue}"

fun tokenValueEnd :: "tokenState \<Rightarrow> tokenState" where
  "tokenValueEnd ArrayStart = ArrayComma"
| "tokenValueEnd ArrayValue = ArrayComma"
| "tokenValueEnd ObjectValue = ObjectComma"
| "tokenValueEnd st = st"

text \<open>
  One round of the loop of \<open>Token\<close> at the next character: \<open>Continue\<close> is the \<^verbatim>\<open>continue\<close> after a
  space, a colon or a comma.
\<close>

datatype token_round = Continue tokenState | Return "decode_error + token \<times> decoder"

definition open_delim :: "char \<Rightarrow> tokenState \<Rightarrow> tokenState \<Rightarrow> tokenState list \<Rightarrow> string \<Rightarrow> token_round" where
  "open_delim c start st stack cs =
    (if tokenValueAllowed st
     then Return (Inr (TDelim c, \<lparr>dc_input = cs, dc_state = start, dc_stack = st # stack\<rparr>))
     else Return (Inl DecodeError))"

definition close_delim :: "char \<Rightarrow> bool \<Rightarrow> tokenState list \<Rightarrow> string \<Rightarrow> token_round" where
  "close_delim c allowed stack cs =
    (case stack of
       outer # rest \<Rightarrow>
         if allowed
         then Return (Inr (TDelim c, \<lparr>dc_input = cs, dc_state = tokenValueEnd outer, dc_stack = rest\<rparr>))
         else Return (Inl DecodeError)
     | [] \<Rightarrow> Return (Inl DecodeError))"

definition string_token :: "tokenState \<Rightarrow> tokenState list \<Rightarrow> string \<Rightarrow> decode_error + token \<times> decoder" where
  "string_token st stack cs =
    (case scan_string 0 cs of
       None \<Rightarrow> Inl DecodeError
     | Some (raw, rest) \<Rightarrow>
         if st = ObjectStart \<or> st = ObjectKey
           then Inr (TString (json_unquote raw),
                  \<lparr>dc_input = rest, dc_state = ObjectColon, dc_stack = stack\<rparr>)
         else if tokenValueAllowed st
           then Inr (TString (json_unquote raw),
                  \<lparr>dc_input = rest, dc_state = tokenValueEnd st, dc_stack = stack\<rparr>)
         else Inl DecodeError)"

definition scalar_token :: "tokenState \<Rightarrow> tokenState list \<Rightarrow> string \<Rightarrow> decode_error + token \<times> decoder" where
  "scalar_token st stack s =
    (if tokenValueAllowed st then
       (case scan_scalar s of
          None \<Rightarrow> Inl DecodeError
        | Some rest \<Rightarrow>
            Inr (TScalar, \<lparr>dc_input = rest, dc_state = tokenValueEnd st, dc_stack = stack\<rparr>))
     else Inl DecodeError)"

definition token_round :: "tokenState \<Rightarrow> tokenState list \<Rightarrow> char \<Rightarrow> string \<Rightarrow> token_round" where
  "token_round st stack c cs =
    (if is_space c then Continue st
     else if c = CHR ''['' then open_delim c ArrayStart st stack cs
     else if c = CHR '']'' then close_delim c (st = ArrayStart \<or> st = ArrayComma) stack cs
     else if c = CHR ''{'' then open_delim c ObjectStart st stack cs
     else if c = CHR ''}'' then close_delim c (st = ObjectStart \<or> st = ObjectComma) stack cs
     else if c = CHR '':'' then
       (if st = ObjectColon then Continue ObjectValue else Return (Inl DecodeError))
     else if c = CHR '','' then
       (if st = ArrayComma then Continue ArrayValue
        else if st = ObjectComma then Continue ObjectKey
        else Return (Inl DecodeError))
     else if c = quote_char then Return (string_token st stack cs)
     else Return (scalar_token st stack (c # cs)))"

fun next_token :: "tokenState \<Rightarrow> tokenState list \<Rightarrow> string \<Rightarrow> decode_error + token \<times> decoder" where
  "next_token st stack [] = Inl DecodeEOF"
| "next_token st stack (c # cs) =
    (case token_round st stack c cs of
       Continue st1 \<Rightarrow> next_token st1 stack cs
     | Return r \<Rightarrow> r)"

definition Token :: "decoder \<Rightarrow> decode_error + token \<times> decoder" where
  "Token d = next_token (dc_state d) (dc_stack d) (dc_input d)"

definition More :: "decoder \<Rightarrow> bool" where
  "More d \<longleftrightarrow>
     (case dropWhile is_space (dc_input d) of [] \<Rightarrow> False | c # _ \<Rightarrow> c \<noteq> CHR '']'' \<and> c \<noteq> CHR ''}'')"

definition NewDecoder :: "string \<Rightarrow> decoder" where
  "NewDecoder data = \<lparr>dc_input = data, dc_state = TopValue, dc_stack = []\<rparr>"

definition decoder_error :: "decode_error \<Rightarrow> error" where
  "decoder_error e = (case e of DecodeEOF \<Rightarrow> Opaque ''EOF'' | DecodeError \<Rightarrow> Opaque ''invalid JSON'')"

subsection \<open>json.go\<close>

definition ErrTooLarge :: error where "ErrTooLarge = Opaque ''json input exceeds size limit''"
definition ErrTooDeep :: error where "ErrTooDeep = Opaque ''json input exceeds depth limit''"
definition ErrDuplicateKey :: error where "ErrDuplicateKey = Opaque ''json object contains duplicate key''"

text \<open>\<open>Read\<close> of a source whose whole content is known.\<close>

definition strict_Read :: "string \<Rightarrow> int \<Rightarrow> error + string" where
  "strict_Read source maxBytes =
    (if maxBytes < 1 then Inl (Opaque ''json size limit must be positive'')
     else let data = take (nat (maxBytes + 1)) source in
       if int (length data) > maxBytes then Inl ErrTooLarge else Inr data)"

definition consumeClosing :: "decoder \<Rightarrow> char \<Rightarrow> error + decoder" where
  "consumeClosing d expected =
    (case Token d of
       Inl e \<Rightarrow> Inl (Wrapped ''reading json closing delimiter'' (decoder_error e))
     | Inr (TDelim c, d1) \<Rightarrow>
         if c \<noteq> expected then Inl (Opaque ''json input contains mismatched delimiter'') else Inr d1
     | Inr (_, d1) \<Rightarrow> Inl (Opaque ''json input contains mismatched delimiter''))"

text \<open>
  The three functions call each other once per token; the first argument bounds the number of
  calls, and \<open>None\<close> stands for running out of it.
\<close>

fun validateValue :: "nat \<Rightarrow> int \<Rightarrow> int \<Rightarrow> decoder \<Rightarrow> (error + decoder) option"
  and validateObject :: "nat \<Rightarrow> string fset \<Rightarrow> int \<Rightarrow> int \<Rightarrow> decoder \<Rightarrow> (error + decoder) option"
  and validateArray :: "nat \<Rightarrow> int \<Rightarrow> int \<Rightarrow> decoder \<Rightarrow> (error + decoder) option" where
  "validateValue 0 depth maxDepth d = None"
| "validateValue (Suc n) depth maxDepth d =
    (case Token d of
       Inl e \<Rightarrow> Some (Inl (Wrapped ''reading json token'' (decoder_error e)))
     | Inr (TDelim c, d1) \<Rightarrow>
         if depth + 1 > maxDepth then Some (Inl ErrTooDeep)
         else if c = CHR ''{'' then validateObject n {||} (depth + 1) maxDepth d1
         else if c = CHR ''['' then validateArray n (depth + 1) maxDepth d1
         else Some (Inl (Opaque ''json input contains unexpected closing delimiter''))
     | Inr (TString _, d1) \<Rightarrow> Some (Inr d1)
     | Inr (TScalar, d1) \<Rightarrow> Some (Inr d1))"
| "validateObject 0 keys depth maxDepth d = None"
| "validateObject (Suc n) keys depth maxDepth d =
    (if More d then
       (case Token d of
          Inl e \<Rightarrow> Some (Inl (Wrapped ''reading json object key'' (decoder_error e)))
        | Inr (TString key, d1) \<Rightarrow>
            if key |\<in>| keys then Some (Inl (Wrapped key ErrDuplicateKey))
            else (case validateValue n depth maxDepth d1 of
                None \<Rightarrow> None
              | Some (Inl e) \<Rightarrow> Some (Inl e)
              | Some (Inr d2) \<Rightarrow> validateObject n (finsert key keys) depth maxDepth d2)
        | Inr _ \<Rightarrow> Some (Inl (Opaque ''json object key is not a string'')))
     else Some (consumeClosing d (CHR ''}'')))"
| "validateArray 0 depth maxDepth d = None"
| "validateArray (Suc n) depth maxDepth d =
    (if More d then
       (case validateValue n depth maxDepth d of
          None \<Rightarrow> None
        | Some (Inl e) \<Rightarrow> Some (Inl e)
        | Some (Inr d1) \<Rightarrow> validateArray n depth maxDepth d1)
     else Some (consumeClosing d (CHR '']'')))"

text \<open>\<open>Some\<close> of the error that is returned, if any; \<open>None\<close> would be running out of fuel.\<close>

definition strict_Validate_fuel :: "nat \<Rightarrow> string \<Rightarrow> int \<Rightarrow> error option option" where
  "strict_Validate_fuel fuel data maxDepth =
    (if maxDepth < 1 then Some (Some (Opaque ''json depth limit must be positive''))
     else if \<not> utf8_valid data then Some (Some (Opaque ''json input is not valid utf-8''))
     else case validateValue fuel 0 maxDepth (NewDecoder data) of
         None \<Rightarrow> None
       | Some (Inl e) \<Rightarrow> Some (Some e)
       | Some (Inr d) \<Rightarrow>
           (case Token d of
              Inl DecodeEOF \<Rightarrow> Some None
            | Inl DecodeError \<Rightarrow> Some (Some (Wrapped ''reading json trailing data'' (decoder_error DecodeError)))
            | Inr _ \<Rightarrow> Some (Some (Opaque ''json input contains multiple values''))))"

definition strict_Validate :: "string \<Rightarrow> int \<Rightarrow> error option" where
  "strict_Validate data maxDepth =
    (case strict_Validate_fuel (2 * length data + 1) data maxDepth of
       Some result \<Rightarrow> result
     | None \<Rightarrow> Some (Opaque ''out of fuel''))"


subsection \<open>Every call reads input, so the fuel is never exhausted\<close>

lemma scan_string_length: "scan_string k s = Some (raw, rest) \<Longrightarrow> length rest < length s"
proof (induction "length s" arbitrary: k s raw rule: less_induct)
  case less
  have shorter: "length rest \<le> length t" if "scan_string m t = Some (raw', rest)" "length t < length s" for m t raw'
    using less.hyps [OF that(2,1)] by simp
  consider "s = []" | c cs where "s = c # cs" "k = 0" | c cs m where "s = c # cs" "k = Suc m"
    by (cases s; cases k) auto
  then show ?case
  proof cases
    case 2
    from less.prems show ?thesis
      unfolding 2 scan_string.simps(2) using 2
      by (cases cs) (auto simp: less_Suc_eq_le simp del: scan_string.simps split: if_splits
          intro: le_SucI dest: shorter)
  next
    case 3
    with less.prems show ?thesis
      by (auto simp: less_Suc_eq_le split: if_splits dest: shorter)
  qed (use less.prems in simp)
qed

lemma length_dropWhile_less: "length (dropWhile P xs) < Suc (length xs)"
  by (simp add: length_dropWhile_le less_Suc_eq_le)

lemma scan_exponent_length: "scan_exponent s = Some rest \<Longrightarrow> length rest \<le> length s"
  by (auto simp: scan_exponent_def Let_def split: list.splits if_splits
      intro: le_trans [OF length_dropWhile_le])

lemma scan_fraction_length: "scan_fraction s = Some rest \<Longrightarrow> length rest \<le> length s"
  by (auto simp: scan_fraction_def split: list.splits if_splits
      dest!: scan_exponent_length intro: le_trans [OF _ le_trans [OF length_dropWhile_le]])

lemma scan_integer_length: "scan_integer s = Some rest \<Longrightarrow> length rest < length s"
  by (auto simp: scan_integer_def less_Suc_eq_le split: list.splits if_splits
      dest!: scan_fraction_length intro: le_trans [OF _ length_dropWhile_le])

lemma scan_scalar_length: "scan_scalar s = Some rest \<Longrightarrow> length rest < length s"
  by (auto simp: scan_scalar_def scan_literal_def split: list.splits if_splits dest!: scan_integer_length)

lemma token_round_length:
  "token_round st stack c cs = Return (Inr (t, d)) \<Longrightarrow> length (dc_input d) \<le> length cs"
  by (auto simp: token_round_def open_delim_def close_delim_def string_token_def scalar_token_def
      split: if_splits option.splits list.splits dest!: scan_string_length scan_scalar_length)

lemma next_token_length:
  "next_token st stack s = Inr (t, d) \<Longrightarrow> length (dc_input d) < length s"
  by (induction st stack s rule: next_token.induct)
    (auto simp: less_Suc_eq_le split: token_round.splits dest: token_round_length)

lemma Token_length: "Token d = Inr (t, d1) \<Longrightarrow> length (dc_input d1) < length (dc_input d)"
  unfolding Token_def by (rule next_token_length)

lemma consumeClosing_length:
  "consumeClosing d c = Inr d1 \<Longrightarrow> length (dc_input d1) < length (dc_input d)"
  by (auto simp: consumeClosing_def split: sum.splits prod.splits token.splits if_splits dest: Token_length)

definition ends_within :: "nat \<Rightarrow> (error + decoder) option \<Rightarrow> bool" where
  "ends_within k r \<longleftrightarrow> (case r of None \<Rightarrow> False | Some (Inl _) \<Rightarrow> True | Some (Inr d) \<Rightarrow> length (dc_input d) < k)"

lemma validate_ends:
  "2 * length (dc_input d) + 1 \<le> n \<Longrightarrow> ends_within (length (dc_input d)) (validateValue n depth maxDepth d)"
  "2 * length (dc_input d) + 2 \<le> n \<Longrightarrow> ends_within (length (dc_input d)) (validateObject n keys depth maxDepth d)"
  "2 * length (dc_input d) + 2 \<le> n \<Longrightarrow> ends_within (length (dc_input d)) (validateArray n depth maxDepth d)"
proof (induction n depth maxDepth d and n keys depth maxDepth d and n depth maxDepth d
    rule: validateValue_validateObject_validateArray.induct)
  case (2 n depth maxDepth d)
  then show ?case
    by (fastforce simp: ends_within_def dest: Token_length
        split: sum.splits prod.splits token.splits if_splits option.splits)
next
  case (4 n keys depth maxDepth d)
  then show ?case
    by (fastforce simp: ends_within_def dest: Token_length consumeClosing_length
        split: sum.splits prod.splits token.splits if_splits option.splits)
next
  case (6 n depth maxDepth d)
  then show ?case
    by (fastforce simp: ends_within_def dest: consumeClosing_length
        split: sum.splits prod.splits token.splits if_splits option.splits)
qed simp_all


subsection \<open>Reading back what \<open>json.Marshal\<close> writes: strings\<close>

lemma utf8_valid_append: "utf8_valid x \<Longrightarrow> utf8_valid (x @ y) \<longleftrightarrow> utf8_valid y"
proof (induction x rule: utf8_valid.induct)
  case (2 c cs)
  then obtain n where n: "rune_size (c # cs) = Some n" "utf8_valid (drop (n - 1) cs)"
    by (auto split: option.splits)
  have "rune_size (c # cs @ y) = Some n \<and> n - Suc (length cs) = 0"
    using n(1) by (auto simp: rune_size.simps split: if_splits elim!: tail2.elims tail3.elims tail4.elims)
  with n 2 show ?case by simp
qed simp

text \<open>A raw text that the scanner reads over and that unquotes to the given text.\<close>

definition escapes :: "string \<Rightarrow> string \<Rightarrow> bool" where
  "escapes raw text \<longleftrightarrow>
     utf8_valid raw
     \<and> (\<forall>t. scan_string 0 (raw @ t) = map_option (\<lambda>(r, rest). (raw @ r, rest)) (scan_string 0 t))
     \<and> (\<forall>t. json_unquote (raw @ t) = text @ json_unquote t)"

lemma escapes_Nil: "escapes [] []"
  by (simp add: escapes_def option.map_id)

lemma escapes_append:
  assumes "escapes r1 t1" and "escapes r2 t2"
  shows "escapes (r1 @ r2) (t1 @ t2)"
  using assms unfolding escapes_def
  by (auto simp: utf8_valid_append option.map_comp comp_def split_def)

lemma escapes_byte:
  assumes "32 \<le> byte_val c" "c \<noteq> quote_char" "c \<noteq> backslash"
  shows "scan_string 0 (c # t) = map_option (\<lambda>(r, rest). (c # r, rest)) (scan_string 0 t)"
    and "json_unquote (c # t) = c # json_unquote t"
  using assms by auto

lemma escapes_plain:
  assumes "32 \<le> byte_val c" "byte_val c < 0x80" "c \<noteq> quote_char" "c \<noteq> backslash"
  shows "escapes [c] [c]"
  using assms by (simp add: escapes_def rune_size.simps)

lemma high_byte: "0x80 \<le> byte_val c \<Longrightarrow> c \<noteq> quote_char \<and> c \<noteq> backslash \<and> 32 \<le> byte_val c"
  by (auto simp: byte_val_def)

lemma escapes_high:
  assumes "\<forall>c \<in> set r. 0x80 \<le> byte_val c" and "utf8_valid r"
  shows "escapes r r"
proof -
  have "scan_string 0 (r @ t) = map_option (\<lambda>(u, rest). (r @ u, rest)) (scan_string 0 t)
      \<and> json_unquote (r @ t) = r @ json_unquote t" for t
    using assms(1)
    by (induction r)
      (simp_all add: high_byte escapes_byte option.map_comp comp_def split_def option.map_ident
        del: scan_string.simps json_unquote.simps)
  with assms(2) show ?thesis by (simp add: escapes_def)
qed

lemma escapes_simple: "is_simple_escape d \<Longrightarrow> escapes [backslash, d] [simple_escape d]"
  by (auto simp: escapes_def is_simple_escape_def rune_size.simps byte_val_def)

lemma scan_hex:
  assumes "\<forall>c \<in> set ds. hex_val c \<noteq> None"
  shows "scan_string (length ds) (ds @ t) = map_option (\<lambda>(r, rest). (ds @ r, rest)) (scan_string 0 t)"
  using assms
  by (induction ds) (auto simp: option.map_comp comp_def split_def option.map_ident)

lemma escapes_unicode:
  assumes "length ds = 4" "\<forall>c \<in> set ds. hex_val c \<noteq> None \<and> byte_val c < 0x80"
    and "hex4 ds = Some r" "\<not> is_surrogate r"
  shows "escapes (json_unicode ds) (encode_rune r)"
proof -
  have valid: "utf8_valid (json_unicode ds)"
    using assms(2) by (intro utf8_valid_ascii) (auto simp: json_unicode_def list_all_iff byte_val_def)
  obtain a b c d where ds: "ds = [a, b, c, d]"
    using assms(1) by (auto simp: numeral_eq_Suc length_Suc_conv)
  have "scan_string 0 (json_unicode ds @ t)
      = map_option (\<lambda>(u, rest). (json_unicode ds @ u, rest)) (scan_string 0 t)" for t
    using scan_hex [of ds t] assms(1,2)
    by (simp add: json_unicode_def is_simple_escape_def byte_val_def option.map_comp comp_def split_def
        del: scan_string.simps(3))
  moreover have "json_unquote (json_unicode ds @ t) = encode_rune r @ json_unquote t" for t
    using assms(3,4) by (simp add: json_unicode_def ds)
  ultimately show ?thesis using valid by (simp add: escapes_def)
qed


lemma hex_val_digit: "0 \<le> d \<Longrightarrow> d < 16 \<Longrightarrow> hex_val (hex_digit d) = Some d"
  by (auto simp: hex_val_def hex_digit_def is_digit_def byte_val_def)

lemma hex_digit_ascii: "0 \<le> d \<Longrightarrow> d < 16 \<Longrightarrow> byte_val (hex_digit d) < 0x80"
  by (auto simp: hex_digit_def byte_val_def)

lemma char_of_byte_val [simp]: "char_of (byte_val c) = c"
  by (simp add: byte_val_def)

lemma escapes_ascii:
  assumes "byte_val c < 0x80"
  shows "escapes (json_escape_ascii c) [c]"
proof -
  note bounds = byte_val_bounds [of c]
  have digits: "escapes (json_unicode (''00'' @ hex_encode [c])) [c]"
  proof -
    have "hex_val (CHR ''0'') = Some 0" "byte_val (CHR ''0'') = 48"
      by (simp_all add: hex_val_def is_digit_def byte_val_def)
    then show ?thesis
      using assms bounds hex_val_digit [of "byte_val c div 16"] hex_val_digit [of "byte_val c mod 16"]
        hex_digit_ascii [of "byte_val c div 16"] hex_digit_ascii [of "byte_val c mod 16"]
        escapes_unicode [of "''00'' @ hex_encode [c]" "byte_val c"]
      by (simp add: hex_encode_def encode_rune_def is_surrogate_def)
  qed
  have simple: "escapes [backslash, e] [c]" if "is_simple_escape e" "simple_escape e = c" for e
    using escapes_simple [OF that(1)] that(2) by simp
  have code: "char_of n = c" if "byte_val c = n" for n
    using that char_of_byte_val [of c] by simp
  have quoted: "escapes [backslash, c] [c]" if "c = backslash \<or> byte_val c = 34"
  proof -
    have "byte_val quote_char = 34" by (simp add: byte_val_def)
    then have "c = backslash \<or> c = quote_char"
      using that code [of 34] char_of_byte_val [of quote_char] by metis
    then show ?thesis
      by (intro simple) (auto simp: is_simple_escape_def simple_escape_def)
  qed
  have control:
      "byte_val c = 8 \<Longrightarrow> escapes [backslash, CHR ''b''] [c]"
      "byte_val c = 12 \<Longrightarrow> escapes [backslash, CHR ''f''] [c]"
      "byte_val c = 10 \<Longrightarrow> escapes [backslash, CHR ''n''] [c]"
      "byte_val c = 13 \<Longrightarrow> escapes [backslash, CHR ''r''] [c]"
      "byte_val c = 9 \<Longrightarrow> escapes [backslash, CHR ''t''] [c]"
    by (intro simple; simp add: is_simple_escape_def simple_escape_def code)+
  have "c \<noteq> quote_char" if "byte_val c \<noteq> 34" using that by (auto simp: byte_val_def)
  then show ?thesis
    using assms digits quoted control escapes_plain [of c] unfolding json_escape_ascii_def by simp
qed


lemma rune_bytes:
  assumes "rune_size (c # cs) = Some n" and "0x80 \<le> byte_val c"
  shows "\<forall>b \<in> set (c # take (n - 1) cs). 0x80 \<le> byte_val b" and "utf8_valid (c # take (n - 1) cs)"
  using assms
  by (auto simp: rune_size.simps is_cont_def numeral_eq_Suc split: if_splits
      elim!: tail2.elims tail3.elims tail4.elims)

lemma escapes_line_separators:
  "escapes (json_unicode ''2028'') [CHR 0xE2, CHR 0x80, CHR 0xA8]"
  "escapes (json_unicode ''2029'') [CHR 0xE2, CHR 0x80, CHR 0xA9]"
proof -
  have bytes: "char_of (0xE2 :: int) = CHR 0xE2" "char_of (0x80 :: int) = CHR 0x80"
      "char_of (0xA8 :: int) = CHR 0xA8" "char_of (0xA9 :: int) = CHR 0xA9"
    by (simp_all add: char_of_def bit_iff_odd)
  have "encode_rune 0x2028 = [CHR 0xE2, CHR 0x80, CHR 0xA8]" "encode_rune 0x2029 = [CHR 0xE2, CHR 0x80, CHR 0xA9]"
    by (simp_all add: encode_rune_def bytes)
  moreover have "escapes (json_unicode ''2028'') (encode_rune 0x2028)"
      "escapes (json_unicode ''2029'') (encode_rune 0x2029)"
    by (rule escapes_unicode; simp add: hex_val_def is_digit_def byte_val_def is_surrogate_def)+
  ultimately show "escapes (json_unicode ''2028'') [CHR 0xE2, CHR 0x80, CHR 0xA8]"
      "escapes (json_unicode ''2029'') [CHR 0xE2, CHR 0x80, CHR 0xA9]"
    by simp_all
qed

lemma escapes_json_escape: "utf8_valid s \<Longrightarrow> escapes (json_escape s) s"
proof (induction s rule: json_escape.induct)
  case (2 c cs)
  then obtain n where n: "rune_size (c # cs) = Some n" and valid: "utf8_valid (drop (n - 1) cs)"
    by (auto split: option.splits)
  show ?case
  proof (cases "byte_val c < 0x80")
    case True
    with n have "n = 1" by (simp add: rune_size.simps)
    with True 2 valid show ?thesis
      using escapes_append [OF escapes_ascii [of c]] by fastforce
  next
    case False
    define r where "r = c # take (n - 1) cs"
    have split: "c # cs = r @ drop (n - 1) cs" by (simp add: r_def)
    have rest: "escapes (json_escape (drop (n - 1) cs)) (drop (n - 1) cs)"
      using 2 False n valid by (simp add: r_def)
    define x where "x = (if r = [CHR 0xE2, CHR 0x80, CHR 0xA8] then json_unicode ''2028''
        else if r = [CHR 0xE2, CHR 0x80, CHR 0xA9] then json_unicode ''2029'' else r)"
    have eq: "json_escape (c # cs) = x @ json_escape (drop (n - 1) cs)"
      using False n unfolding json_escape.simps x_def r_def Let_def by simp
    have "escapes x r"
      using rune_bytes [OF n] False escapes_high [of r] escapes_line_separators
      by (simp add: x_def r_def)
    from escapes_append [OF this rest] show ?thesis
      unfolding eq split [symmetric] .
  qed
qed (simp add: escapes_Nil)

lemma scan_quoted:
  assumes "utf8_valid s"
  shows "scan_string 0 (json_escape s @ quote_char # rest) = Some (json_escape s, rest)"
    and "json_unquote (json_escape s) = s"
  using escapes_json_escape [OF assms] unfolding escapes_def
  by (auto dest: spec [of _ "[]"] spec [of _ "quote_char # rest"])


subsection \<open>Reading back what \<open>json.Marshal\<close> writes: values\<close>

definition ends_value :: "string \<Rightarrow> bool" where
  "ends_value rest \<longleftrightarrow> (case rest of [] \<Rightarrow> True | c # _ \<Rightarrow> c \<in> set '',]}'')"

lemma ends_value_stop:
  assumes "ends_value rest"
  shows "list_all is_digit ds \<Longrightarrow> dropWhile is_digit (ds @ rest) = rest"
    and "scan_fraction rest = Some rest"
proof -
  have "dropWhile is_digit rest = rest"
    using assms by (cases rest) (auto simp: ends_value_def is_digit_def byte_val_def)
  then show "list_all is_digit ds \<Longrightarrow> dropWhile is_digit (ds @ rest) = rest"
    by (induction ds) auto
  show "scan_fraction rest = Some rest"
    using assms by (cases rest) (auto simp: ends_value_def scan_fraction_def scan_exponent_def)
qed

lemma dec_digits_shape:
  assumes "0 \<le> n" "n < 10 ^ fuel" "0 < fuel"
  obtains d ds where "dec_digits fuel n acc = (d # ds) @ acc" "is_digit d" "list_all is_digit ds"
    "d = CHR ''0'' \<longrightarrow> n = 0 \<and> ds = []"
  using assms
proof (induction fuel arbitrary: n acc thesis)
  case (Suc fuel)
  have digit: "is_digit (char_of (48 + n mod 10))"
    by (simp add: is_digit_def byte_val_digit)
  show ?case
  proof (cases "n < 10")
    case True
    have "byte_val (CHR ''0'') = 48" by (simp add: byte_val_def)
    then have "char_of (48 + n) = CHR ''0'' \<longrightarrow> n = 0"
      using byte_val_digit [of n] True Suc.prems(2) by (metis add.right_neutral add_left_cancel)
    with True Suc.prems(2) digit show ?thesis
      by (intro Suc.prems(1) [of "char_of (48 + n)" "[]"]) (auto simp: Let_def)
  next
    case False
    with Suc.prems have smaller: "0 \<le> n div 10" "n div 10 < 10 ^ fuel" "n div 10 \<noteq> 0"
      by (auto simp: pos_imp_zdiv_nonneg_iff)
    then have "0 < fuel" by (cases fuel) auto
    from Suc.IH [OF _ smaller(1,2) this, of "char_of (48 + n mod 10) # acc"]
    obtain d ds where ds: "dec_digits fuel (n div 10) (char_of (48 + n mod 10) # acc)
        = (d # ds) @ char_of (48 + n mod 10) # acc" "is_digit d" "list_all is_digit ds"
        "d = CHR ''0'' \<longrightarrow> n div 10 = 0 \<and> ds = []"
      by blast
    with False digit smaller(3) show ?thesis
      by (intro Suc.prems(1) [of d "ds @ [char_of (48 + n mod 10)]"]) (auto simp: Let_def)
  qed
qed simp

lemma scan_digits:
  assumes "0 \<le> n" "n < 10 ^ 20" "ends_value rest"
  shows "scan_integer (dec_digits 20 n [] @ rest) = Some rest"
    and "is_digit (hd (dec_digits 20 n []))" and "dec_digits 20 n [] \<noteq> []"
proof -
  obtain d ds where "dec_digits 20 n [] = d # ds" "is_digit d" "list_all is_digit ds"
      "d = CHR ''0'' \<longrightarrow> n = 0 \<and> ds = []"
    using dec_digits_shape [OF assms(1,2), of "[]"] by auto
  then show "scan_integer (dec_digits 20 n [] @ rest) = Some rest"
      "is_digit (hd (dec_digits 20 n []))" "dec_digits 20 n [] \<noteq> []"
    using ends_value_stop [OF assms(3)] by (auto simp: scan_integer_def)
qed

end
