(* ===== verification/StrictJsonMarshal.thy ===== *)
theory StrictJsonMarshal
  imports StrictJson
begin

text \<open>
  \<^verbatim>\<open>strictjson.Validate\<close> on the texts that \<^verbatim>\<open>json.Marshal\<close> writes: it accepts exactly those
  of a value within the depth limit in which no object repeats a key.
\<close>

subsection \<open>Tokens of a marshalled value\<close>

text \<open>
  What is accepted, said of the value and not of its text: how deep it nests, that no object
  repeats a key, and that its strings are UTF-8 and its numbers of at most twenty digits.
\<close>

fun json_depth :: "json \<Rightarrow> int" where
  "json_depth (JArr vs) = 1 + foldr max (map json_depth vs) 0"
| "json_depth (JObj ms) = 1 + foldr max (map (\<lambda>(k, v). json_depth v) ms) 0"
| "json_depth v = 0"

fun json_unique :: "json \<Rightarrow> bool" where
  "json_unique (JArr vs) = list_all json_unique vs"
| "json_unique (JObj ms) = (distinct (map fst ms) \<and> list_all (\<lambda>(k, v). json_unique v) ms)"
| "json_unique v = True"

fun json_plain :: "json \<Rightarrow> bool" where
  "json_plain (JNum n) = (\<bar>n\<bar> < 10 ^ 20)"
| "json_plain (JStr s) = utf8_valid s"
| "json_plain (JArr vs) = list_all json_plain vs"
| "json_plain (JObj ms) = list_all (\<lambda>(k, v). utf8_valid k \<and> json_plain v) ms"
| "json_plain v = True"

lemma foldr_max_le: "0 \<le> (b :: int) \<Longrightarrow> foldr max xs 0 \<le> b \<longleftrightarrow> (\<forall>x \<in> set xs. x \<le> b)"
  by (induction xs) auto

definition first_char_ok :: "string \<Rightarrow> bool" where
  "first_char_ok s \<longleftrightarrow> (case s of [] \<Rightarrow> False | c # _ \<Rightarrow> \<not> is_space c \<and> c \<notin> set '',:]}'')"

lemma digit_first: "is_digit c \<Longrightarrow> \<not> is_space c \<and> c \<notin> set '',:]}[{tfn-'' \<and> c \<noteq> quote_char"
  by (auto simp: is_digit_def is_space_def byte_val_def)

lemma marshal_first: "json_plain v \<Longrightarrow> first_char_ok (json_marshal v @ rest)"
proof (cases v)
  case (JNum n)
  assume "json_plain v"
  with JNum scan_digits [of "- n" "[]"] scan_digits [of n "[]"] show ?thesis
    by (cases "dec_digits 20 (- n) []"; cases "dec_digits 20 n []")
      (auto simp: first_char_ok_def format_int_def ends_value_def is_space_def byte_val_def dest!: digit_first)
qed (auto simp: first_char_ok_def json_quote_def is_space_def byte_val_def)

lemma first_char_More: "first_char_ok s \<Longrightarrow> More \<lparr>dc_input = s, dc_state = st, dc_stack = stack\<rparr>"
  by (cases s) (auto simp: first_char_ok_def More_def)

lemma scan_scalar_int:
  assumes "json_plain (JNum n)" "ends_value rest"
  shows "scan_scalar (format_int n @ rest) = Some rest"
proof (cases "n < 0")
  case True
  then show ?thesis
    using assms scan_digits [of "- n" rest] by (simp add: format_int_def scan_scalar_def)
next
  case False
  with assms scan_digits [of n rest] obtain c cs where "dec_digits 20 n [] = c # cs" "is_digit c"
    by (cases "dec_digits 20 n []") auto
  with False assms scan_digits [of n rest] digit_first [of c] show ?thesis
    by (auto simp: format_int_def scan_scalar_def)
qed

lemma int_first: "json_plain (JNum n) \<Longrightarrow> \<exists>c cs. format_int n @ rest = c # cs \<and> (is_digit c \<or> c = CHR ''-'')"
  using scan_digits [of n "[]"]
  by (cases "dec_digits 20 n []") (auto simp: format_int_def ends_value_def)

lemma Token_int:
  assumes "tokenValueAllowed st" "ends_value rest" "json_plain (JNum n)"
  shows "next_token st stack (format_int n @ rest)
    = Inr (TScalar, \<lparr>dc_input = rest, dc_state = tokenValueEnd st, dc_stack = stack\<rparr>)"
proof -
  obtain c cs where s: "format_int n @ rest = c # cs" "is_digit c \<or> c = CHR ''-''"
    using int_first [OF assms(3)] by blast
  have "token_round st stack c cs = Return (scalar_token st stack (c # cs))"
    using s(2)
  proof
    assume "is_digit c"
    from digit_first [OF this] show ?thesis by (simp add: token_round_def)
  qed (simp add: token_round_def is_space_def byte_val_def)
  then show ?thesis
    using assms(1) scan_scalar_int [OF assms(3,2)] by (simp add: s(1) scalar_token_def)
qed

lemma Token_literal:
  assumes "tokenValueAllowed st" "w \<in> {''null'', ''true'', ''false''}"
  shows "next_token st stack (w @ rest)
    = Inr (TScalar, \<lparr>dc_input = rest, dc_state = tokenValueEnd st, dc_stack = stack\<rparr>)"
  using assms
  by (auto simp: token_round_def scalar_token_def scan_scalar_def scan_literal_def is_space_def byte_val_def)

lemma Token_quoted:
  assumes "utf8_valid s"
  shows "tokenValueAllowed st \<Longrightarrow> next_token st stack (json_quote s @ rest)
      = Inr (TString s, \<lparr>dc_input = rest, dc_state = tokenValueEnd st, dc_stack = stack\<rparr>)"
    and "st = ObjectStart \<or> st = ObjectKey \<Longrightarrow> next_token st stack (json_quote s @ rest)
      = Inr (TString s, \<lparr>dc_input = rest, dc_state = ObjectColon, dc_stack = stack\<rparr>)"
  using scan_quoted [OF assms]
  by (auto simp: json_quote_def token_round_def string_token_def is_space_def byte_val_def tokenValueAllowed_def)

lemma Token_structure:
  "tokenValueAllowed st \<Longrightarrow> next_token st stack (CHR ''['' # cs)
    = Inr (TDelim (CHR ''[''), \<lparr>dc_input = cs, dc_state = ArrayStart, dc_stack = st # stack\<rparr>)"
  "tokenValueAllowed st \<Longrightarrow> next_token st stack (CHR ''{'' # cs)
    = Inr (TDelim (CHR ''{''), \<lparr>dc_input = cs, dc_state = ObjectStart, dc_stack = st # stack\<rparr>)"
  "st = ArrayStart \<or> st = ArrayComma \<Longrightarrow> next_token st (outer # stack) (CHR '']'' # cs)
    = Inr (TDelim (CHR '']''), \<lparr>dc_input = cs, dc_state = tokenValueEnd outer, dc_stack = stack\<rparr>)"
  "st = ObjectStart \<or> st = ObjectComma \<Longrightarrow> next_token st (outer # stack) (CHR ''}'' # cs)
    = Inr (TDelim (CHR ''}''), \<lparr>dc_input = cs, dc_state = tokenValueEnd outer, dc_stack = stack\<rparr>)"
  "next_token ArrayComma stack (CHR '','' # cs) = next_token ArrayValue stack cs"
  "next_token ObjectComma stack (CHR '','' # cs) = next_token ObjectKey stack cs"
  "next_token ObjectColon stack (CHR '':'' # cs) = next_token ObjectValue stack cs"
  by (auto simp: token_round_def open_delim_def close_delim_def is_space_def byte_val_def)


subsection \<open>The verdict on a marshalled value\<close>

definition verdict :: "bool \<Rightarrow> decoder \<Rightarrow> (error + decoder) option \<Rightarrow> bool" where
  "verdict ok d r \<longleftrightarrow> (if ok then r = Some (Inr d) else (\<exists>e. r = Some (Inl e)))"

definition reads :: "json \<Rightarrow> bool" where
  "reads v \<longleftrightarrow> (\<forall>n depth maxDepth st stack rest.
     tokenValueAllowed st \<longrightarrow> ends_value rest \<longrightarrow> depth \<le> maxDepth \<longrightarrow>
     2 * length (json_marshal v @ rest) + 1 \<le> n \<longrightarrow>
     verdict (json_unique v \<and> depth + json_depth v \<le> maxDepth)
       \<lparr>dc_input = rest, dc_state = tokenValueEnd st, dc_stack = stack\<rparr>
       (validateValue n depth maxDepth
         \<lparr>dc_input = json_marshal v @ rest, dc_state = st, dc_stack = stack\<rparr>))"

lemma readsD:
  assumes "reads v" "tokenValueAllowed st" "ends_value rest" "depth \<le> maxDepth"
    and "2 * length (json_marshal v @ rest) + 1 \<le> n"
  shows "verdict (json_unique v \<and> depth + json_depth v \<le> maxDepth)
    \<lparr>dc_input = rest, dc_state = tokenValueEnd st, dc_stack = stack\<rparr>
    (validateValue n depth maxDepth
      \<lparr>dc_input = json_marshal v @ rest, dc_state = st, dc_stack = stack\<rparr>)"
  using assms unfolding reads_def by blast

lemma validateValue_cong: "Token d = Token d1 \<Longrightarrow> validateValue n a b d = validateValue n a b d1"
  by (cases n) simp_all

lemma join_comma_Cons: "join_comma (x # xs) = x @ concat (map (\<lambda>s. '','' @ s) xs)"
  by (induction xs arbitrary: x) simp_all

lemma ends_value_tail:
  "ends_value (concat (map (\<lambda>s. '','' @ s) xs) @ CHR '']'' # rest)"
  "ends_value (concat (map (\<lambda>s. '','' @ s) xs) @ CHR ''}'' # rest)"
  by (cases xs; simp add: ends_value_def)+

lemma More_at:
  "More \<lparr>dc_input = CHR '','' # cs, dc_state = st, dc_stack = stack\<rparr>"
  "\<not> More \<lparr>dc_input = CHR '']'' # cs, dc_state = st, dc_stack = stack\<rparr>"
  "\<not> More \<lparr>dc_input = CHR ''}'' # cs, dc_state = st, dc_stack = stack\<rparr>"
  by (simp_all add: More_def is_space_def byte_val_def)

lemma consumeClosing_at:
  "st = ArrayStart \<or> st = ArrayComma \<Longrightarrow>
    consumeClosing \<lparr>dc_input = CHR '']'' # cs, dc_state = st, dc_stack = outer # stack\<rparr> (CHR '']'')
    = Inr \<lparr>dc_input = cs, dc_state = tokenValueEnd outer, dc_stack = stack\<rparr>"
  "st = ObjectStart \<or> st = ObjectComma \<Longrightarrow>
    consumeClosing \<lparr>dc_input = CHR ''}'' # cs, dc_state = st, dc_stack = outer # stack\<rparr> (CHR ''}'')
    = Inr \<lparr>dc_input = cs, dc_state = tokenValueEnd outer, dc_stack = stack\<rparr>"
  by (simp_all add: consumeClosing_def Token_def Token_structure del: next_token.simps)

definition in_limits :: "int \<Rightarrow> int \<Rightarrow> json \<Rightarrow> bool" where
  "in_limits depth maxDepth v \<longleftrightarrow> json_unique v \<and> depth + json_depth v \<le> maxDepth"

text \<open>One element, then the rest of the array, in the state the element was read in.\<close>

lemma array_element:
  assumes "reads v" "tokenValueAllowed st" "tokenValueEnd st = ArrayComma" "depth \<le> maxDepth"
    and "Token d = Token \<lparr>dc_input = json_marshal v @ tail, dc_state = st, dc_stack = stack\<rparr>"
    and "More d" "ends_value tail" "2 * length (json_marshal v @ tail) + 1 \<le> n"
    and tail: "verdict ok d1 (validateArray n depth maxDepth
      \<lparr>dc_input = tail, dc_state = ArrayComma, dc_stack = stack\<rparr>)"
  shows "verdict (in_limits depth maxDepth v \<and> ok) d1 (validateArray (Suc n) depth maxDepth d)"
proof -
  have "verdict (in_limits depth maxDepth v) \<lparr>dc_input = tail, dc_state = ArrayComma, dc_stack = stack\<rparr>
      (validateValue n depth maxDepth d)"
    using readsD [OF assms(1,2,7,4,8), of stack] assms(3)
    unfolding validateValue_cong [OF assms(5)] in_limits_def by simp
  with tail \<open>More d\<close> show ?thesis
    by (auto simp: verdict_def split: if_splits)
qed

lemma array_tail:
  assumes "\<forall>v \<in> set vs. reads v" "depth \<le> maxDepth"
    and "s = concat (map (\<lambda>v. '','' @ json_marshal v) vs) @ CHR '']'' # rest" "2 * length s + 2 \<le> n"
  shows "verdict (list_all (in_limits depth maxDepth) vs)
    \<lparr>dc_input = rest, dc_state = tokenValueEnd outer, dc_stack = stack\<rparr>
    (validateArray n depth maxDepth \<lparr>dc_input = s, dc_state = ArrayComma, dc_stack = outer # stack\<rparr>)"
  using assms
proof (induction vs arbitrary: n s)
  case Nil
  then obtain m where "n = Suc m" by (cases n) auto
  with Nil show ?case by (simp add: verdict_def More_at consumeClosing_at)
next
  case (Cons v vs)
  define tail where "tail = concat (map (\<lambda>v. '','' @ json_marshal v) vs) @ CHR '']'' # rest"
  have s: "s = CHR '','' # json_marshal v @ tail" using Cons.prems(3) by (simp add: tail_def)
  obtain m where n: "n = Suc m" "2 * length (json_marshal v @ tail) + 2 \<le> m"
    using Cons.prems(4) s by (cases n) auto
  have "ends_value tail"
    using ends_value_tail(1) [of "map json_marshal vs"] by (simp add: tail_def comp_def)
  moreover have "verdict (list_all (in_limits depth maxDepth) vs)
      \<lparr>dc_input = rest, dc_state = tokenValueEnd outer, dc_stack = stack\<rparr>
      (validateArray m depth maxDepth \<lparr>dc_input = tail, dc_state = ArrayComma, dc_stack = outer # stack\<rparr>)"
    using Cons.prems n by (intro Cons.IH [OF _ _ tail_def]) auto
  moreover have "Token \<lparr>dc_input = s, dc_state = ArrayComma, dc_stack = outer # stack\<rparr>
      = Token \<lparr>dc_input = json_marshal v @ tail, dc_state = ArrayValue, dc_stack = outer # stack\<rparr>"
    by (simp add: s Token_def Token_structure del: next_token.simps)
  ultimately show ?case
    using array_element [of v ArrayValue] Cons.prems(1,2) n(2)
    by (simp add: n(1) s More_at tokenValueAllowed_def del: validateArray.simps)
qed


definition member :: "string \<times> json \<Rightarrow> string" where
  "member m = json_quote (fst m) @ '':'' @ json_marshal (snd m)"

lemma json_marshal_JObj: "json_marshal (JObj ms) = ''{'' @ join_comma (map member ms) @ ''}''"
  by (simp add: member_def [abs_def] split_def)

definition fresh_members :: "string fset \<Rightarrow> int \<Rightarrow> int \<Rightarrow> (string \<times> json) list \<Rightarrow> bool" where
  "fresh_members keys depth maxDepth ms \<longleftrightarrow>
     distinct (map fst ms) \<and> (\<forall>k \<in> set (map fst ms). k |\<notin>| keys)
     \<and> list_all (\<lambda>m. in_limits depth maxDepth (snd m)) ms"

lemma fresh_members_Cons:
  "fresh_members keys depth maxDepth (m # ms) \<longleftrightarrow>
     fst m |\<notin>| keys \<and> in_limits depth maxDepth (snd m)
     \<and> fresh_members (finsert (fst m) keys) depth maxDepth ms"
  by (auto simp: fresh_members_def intro: rev_image_eqI)

lemma object_member:
  assumes "reads (snd m)" "utf8_valid (fst m)" "st = ObjectStart \<or> st = ObjectKey" "depth \<le> maxDepth"
    and "Token d = Token \<lparr>dc_input = member m @ tail, dc_state = st, dc_stack = stack\<rparr>"
    and "More d" "ends_value tail" "2 * length (member m @ tail) + 1 \<le> n"
    and tail: "verdict (fresh_members (finsert (fst m) keys) depth maxDepth ms) d1
      (validateObject n (finsert (fst m) keys) depth maxDepth
        \<lparr>dc_input = tail, dc_state = ObjectComma, dc_stack = stack\<rparr>)"
  shows "verdict (fresh_members keys depth maxDepth (m # ms)) d1
    (validateObject (Suc n) keys depth maxDepth d)"
proof -
  define d2 where "d2 = \<lparr>dc_input = CHR '':'' # json_marshal (snd m) @ tail, dc_state = ObjectColon, dc_stack = stack\<rparr>"
  have key: "Token d = Inr (TString (fst m), d2)"
    using Token_quoted(2) [OF assms(2,3)] unfolding assms(5)
    by (simp add: Token_def member_def d2_def del: next_token.simps)
  have "Token d2 = Token \<lparr>dc_input = json_marshal (snd m) @ tail, dc_state = ObjectValue, dc_stack = stack\<rparr>"
    by (simp add: d2_def Token_def Token_structure del: next_token.simps)
  from validateValue_cong [OF this, of n depth maxDepth]
  have "verdict (in_limits depth maxDepth (snd m)) \<lparr>dc_input = tail, dc_state = ObjectComma, dc_stack = stack\<rparr>
      (validateValue n depth maxDepth d2)"
    using readsD [OF assms(1) _ assms(7,4), of ObjectValue n stack] assms(8)
    by (simp add: in_limits_def tokenValueAllowed_def member_def)
  with key tail \<open>More d\<close> show ?thesis
    by (auto simp: fresh_members_Cons verdict_def split: if_splits)
qed

lemma object_tail:
  assumes "\<forall>m \<in> set ms. reads (snd m) \<and> utf8_valid (fst m)" "depth \<le> maxDepth"
    and "s = concat (map (\<lambda>m. '','' @ member m) ms) @ CHR ''}'' # rest" "2 * length s + 2 \<le> n"
  shows "verdict (fresh_members keys depth maxDepth ms)
    \<lparr>dc_input = rest, dc_state = tokenValueEnd outer, dc_stack = stack\<rparr>
    (validateObject n keys depth maxDepth \<lparr>dc_input = s, dc_state = ObjectComma, dc_stack = outer # stack\<rparr>)"
  using assms
proof (induction ms arbitrary: n s keys)
  case Nil
  then obtain k where "n = Suc k" by (cases n) auto
  with Nil show ?case by (simp add: verdict_def More_at consumeClosing_at fresh_members_def)
next
  case (Cons m ms)
  define tail where "tail = concat (map (\<lambda>m. '','' @ member m) ms) @ CHR ''}'' # rest"
  have s: "s = CHR '','' # member m @ tail" using Cons.prems(3) by (simp add: tail_def)
  obtain k where n: "n = Suc k" "2 * length (member m @ tail) + 2 \<le> k"
    using Cons.prems(4) s by (cases n) auto
  have "ends_value tail"
    using ends_value_tail(2) [of "map member ms"] by (simp add: tail_def comp_def)
  moreover have "verdict (fresh_members (finsert (fst m) keys) depth maxDepth ms)
      \<lparr>dc_input = rest, dc_state = tokenValueEnd outer, dc_stack = stack\<rparr>
      (validateObject k (finsert (fst m) keys) depth maxDepth
        \<lparr>dc_input = tail, dc_state = ObjectComma, dc_stack = outer # stack\<rparr>)"
    using Cons.prems n by (intro Cons.IH [OF _ _ tail_def]) auto
  moreover have "Token \<lparr>dc_input = s, dc_state = ObjectComma, dc_stack = outer # stack\<rparr>
      = Token \<lparr>dc_input = member m @ tail, dc_state = ObjectKey, dc_stack = outer # stack\<rparr>"
    by (simp add: s Token_def Token_structure del: next_token.simps)
  ultimately show ?case
    using object_member [of m ObjectKey] Cons.prems(1,2) n(2)
    by (simp add: n(1) s More_at del: validateObject.simps)
qed

text \<open>The whole of an array or an object after its opening delimiter.\<close>

lemma array_body:
  assumes "\<forall>v \<in> set vs. reads v \<and> json_plain v" "depth \<le> maxDepth"
    and "s = join_comma (map json_marshal vs) @ CHR '']'' # rest" "2 * length s + 2 \<le> n"
  shows "verdict (list_all (in_limits depth maxDepth) vs)
    \<lparr>dc_input = rest, dc_state = tokenValueEnd outer, dc_stack = stack\<rparr>
    (validateArray n depth maxDepth \<lparr>dc_input = s, dc_state = ArrayStart, dc_stack = outer # stack\<rparr>)"
proof (cases vs)
  case Nil
  with assms obtain k where "n = Suc k" by (cases n) auto
  with Nil assms show ?thesis by (simp add: verdict_def More_at consumeClosing_at)
next
  case (Cons v ws)
  define tail where "tail = concat (map (\<lambda>v. '','' @ json_marshal v) ws) @ CHR '']'' # rest"
  have s: "s = json_marshal v @ tail"
    using assms(3) by (simp add: Cons join_comma_Cons tail_def comp_def)
  have More: "More \<lparr>dc_input = s, dc_state = ArrayStart, dc_stack = outer # stack\<rparr>"
    unfolding s using assms(1) Cons by (intro first_char_More marshal_first) simp
  have "s \<noteq> []" using assms(1) marshal_first [of v tail] by (auto simp: s Cons first_char_ok_def)
  moreover have "length tail < length s"
    using assms(1) marshal_first [of v "[]"] by (cases "json_marshal v") (auto simp: s Cons first_char_ok_def)
  ultimately obtain k where n: "n = Suc k" "2 * length tail + 2 \<le> k" "2 * length s + 1 \<le> k"
    using assms(4) by (cases n) auto
  have "verdict (list_all (in_limits depth maxDepth) ws)
      \<lparr>dc_input = rest, dc_state = tokenValueEnd outer, dc_stack = stack\<rparr>
      (validateArray k depth maxDepth \<lparr>dc_input = tail, dc_state = ArrayComma, dc_stack = outer # stack\<rparr>)"
    using assms Cons n by (intro array_tail [OF _ _ tail_def]) auto
  moreover have "ends_value tail"
    using ends_value_tail(1) [of "map json_marshal ws"] by (simp add: tail_def comp_def)
  ultimately show ?thesis
    using array_element [of v ArrayStart] assms(1,2) More n(3)
    by (simp add: n(1) s Cons tokenValueAllowed_def del: validateArray.simps)
qed

lemma object_body:
  assumes "\<forall>m \<in> set ms. reads (snd m) \<and> utf8_valid (fst m)" "depth \<le> maxDepth"
    and "s = join_comma (map member ms) @ CHR ''}'' # rest" "2 * length s + 2 \<le> n"
  shows "verdict (fresh_members {||} depth maxDepth ms)
    \<lparr>dc_input = rest, dc_state = tokenValueEnd outer, dc_stack = stack\<rparr>
    (validateObject n {||} depth maxDepth \<lparr>dc_input = s, dc_state = ObjectStart, dc_stack = outer # stack\<rparr>)"
proof (cases ms)
  case Nil
  with assms obtain k where "n = Suc k" by (cases n) auto
  with Nil assms show ?thesis by (simp add: verdict_def More_at consumeClosing_at fresh_members_def)
next
  case (Cons m ns)
  define tail where "tail = concat (map (\<lambda>m. '','' @ member m) ns) @ CHR ''}'' # rest"
  have s: "s = member m @ tail"
    using assms(3) by (simp add: Cons join_comma_Cons tail_def comp_def)
  have More: "More \<lparr>dc_input = s, dc_state = ObjectStart, dc_stack = outer # stack\<rparr>"
    by (simp add: s member_def json_quote_def More_def is_space_def byte_val_def)
  obtain k where n: "n = Suc k" "2 * length tail + 2 \<le> k" "2 * length s + 1 \<le> k"
    using assms(4) by (cases n) (auto simp: s member_def)
  have "verdict (fresh_members (finsert (fst m) {||}) depth maxDepth ns)
      \<lparr>dc_input = rest, dc_state = tokenValueEnd outer, dc_stack = stack\<rparr>
      (validateObject k (finsert (fst m) {||}) depth maxDepth
        \<lparr>dc_input = tail, dc_state = ObjectComma, dc_stack = outer # stack\<rparr>)"
    using assms Cons n by (intro object_tail [OF _ _ tail_def]) auto
  moreover have "ends_value tail"
    using ends_value_tail(2) [of "map member ns"] by (simp add: tail_def comp_def)
  ultimately show ?thesis
    using object_member [of m ObjectStart] assms(1,2) More n(3)
    by (simp add: n(1) s Cons del: validateObject.simps)
qed


lemma foldr_max_nonneg: "0 \<le> foldr max xs (0 :: int)"
  by (induction xs) auto

lemma in_limits_JArr:
  "depth < maxDepth \<Longrightarrow>
    in_limits depth maxDepth (JArr vs) \<longleftrightarrow> list_all (in_limits (depth + 1) maxDepth) vs"
  using foldr_max_le [of "maxDepth - depth - 1" "map json_depth vs"]
  by (auto simp: in_limits_def list_all_iff)

lemma in_limits_JObj:
  "depth < maxDepth \<Longrightarrow>
    in_limits depth maxDepth (JObj ms) \<longleftrightarrow> fresh_members {||} (depth + 1) maxDepth ms"
  using foldr_max_le [of "maxDepth - depth - 1" "map (\<lambda>(k, v). json_depth v) ms"]
  by (fastforce simp: in_limits_def fresh_members_def list_all_iff)

lemma too_deep: "\<not> in_limits maxDepth maxDepth (JArr vs)" "\<not> in_limits maxDepth maxDepth (JObj ms)"
  using foldr_max_nonneg [of "map json_depth vs"] foldr_max_nonneg [of "map (\<lambda>(k, v). json_depth v) ms"]
  by (auto simp: in_limits_def)

lemma reads_scalar:
  assumes "\<And>st stack rest. tokenValueAllowed st \<Longrightarrow> ends_value rest \<Longrightarrow>
      \<exists>t. (\<forall>c. t \<noteq> TDelim c) \<and> next_token st stack (json_marshal v @ rest)
        = Inr (t, \<lparr>dc_input = rest, dc_state = tokenValueEnd st, dc_stack = stack\<rparr>)"
    and "json_unique v" "json_depth v = 0"
  shows "reads v"
  unfolding reads_def
proof (intro allI impI)
  fix n depth maxDepth st stack rest
  assume prems: "tokenValueAllowed st" "ends_value rest" "(depth :: int) \<le> maxDepth"
    "2 * length (json_marshal v @ rest) + 1 \<le> n"
  then obtain k where "n = Suc k" by (cases n) auto
  with assms(1) [OF prems(1,2), of stack] prems(3) assms(2,3)
  show "verdict (json_unique v \<and> depth + json_depth v \<le> maxDepth)
      \<lparr>dc_input = rest, dc_state = tokenValueEnd st, dc_stack = stack\<rparr>
      (validateValue n depth maxDepth
        \<lparr>dc_input = json_marshal v @ rest, dc_state = st, dc_stack = stack\<rparr>)"
    by (auto simp: Token_def verdict_def simp del: next_token.simps split: token.splits)
qed

lemma reads_JArr:
  assumes "\<forall>v \<in> set vs. reads v \<and> json_plain v"
  shows "reads (JArr vs)"
  unfolding reads_def in_limits_def [symmetric]
proof (intro allI impI)
  fix n depth maxDepth st stack rest
  assume prems: "tokenValueAllowed st" "ends_value rest" "(depth :: int) \<le> maxDepth"
    "2 * length (json_marshal (JArr vs) @ rest) + 1 \<le> n"
  define s where "s = join_comma (map json_marshal vs) @ CHR '']'' # rest"
  have s: "json_marshal (JArr vs) @ rest = CHR ''['' # s" by (simp add: s_def)
  from prems(4) obtain k where n: "n = Suc k" "2 * length s + 2 \<le> k" unfolding s by (cases n) auto
  show "verdict (in_limits depth maxDepth (JArr vs))
      \<lparr>dc_input = rest, dc_state = tokenValueEnd st, dc_stack = stack\<rparr>
      (validateValue n depth maxDepth
        \<lparr>dc_input = json_marshal (JArr vs) @ rest, dc_state = st, dc_stack = stack\<rparr>)"
  proof (cases "depth = maxDepth")
    case True
    with prems show ?thesis
      unfolding s n(1) by (simp add: too_deep Token_def Token_structure verdict_def del: next_token.simps)
  next
    case False
    with array_body [OF assms _ s_def n(2), of "depth + 1" maxDepth] prems show ?thesis
      unfolding s n(1) by (simp add: in_limits_JArr Token_def Token_structure del: next_token.simps)
  qed
qed

lemma reads_JObj:
  assumes "\<forall>m \<in> set ms. reads (snd m) \<and> utf8_valid (fst m)"
  shows "reads (JObj ms)"
  unfolding reads_def in_limits_def [symmetric]
proof (intro allI impI)
  fix n depth maxDepth st stack rest
  assume prems: "tokenValueAllowed st" "ends_value rest" "(depth :: int) \<le> maxDepth"
    "2 * length (json_marshal (JObj ms) @ rest) + 1 \<le> n"
  define s where "s = join_comma (map member ms) @ CHR ''}'' # rest"
  have s: "json_marshal (JObj ms) @ rest = CHR ''{'' # s"
    unfolding json_marshal_JObj by (simp add: s_def)
  from prems(4) obtain k where n: "n = Suc k" "2 * length s + 2 \<le> k" unfolding s by (cases n) auto
  show "verdict (in_limits depth maxDepth (JObj ms))
      \<lparr>dc_input = rest, dc_state = tokenValueEnd st, dc_stack = stack\<rparr>
      (validateValue n depth maxDepth
        \<lparr>dc_input = json_marshal (JObj ms) @ rest, dc_state = st, dc_stack = stack\<rparr>)"
  proof (cases "depth = maxDepth")
    case True
    with prems show ?thesis
      unfolding s n(1) by (simp add: too_deep Token_def Token_structure verdict_def del: next_token.simps)
  next
    case False
    with object_body [OF assms _ s_def n(2), of "depth + 1" maxDepth] prems show ?thesis
      unfolding s n(1) by (simp add: in_limits_JObj Token_def Token_structure del: next_token.simps)
  qed
qed

lemma reads_plain: "json_plain v \<Longrightarrow> reads v"
proof (induction v)
  case JNull
  show ?case using Token_literal [of _ "''null''"] by (intro reads_scalar) auto
next
  case (JBool b)
  show ?case
    using Token_literal [of _ "''true''"] Token_literal [of _ "''false''"] by (intro reads_scalar) auto
next
  case (JNum n)
  then show ?case using Token_int by (intro reads_scalar) fastforce+
next
  case (JStr s)
  then show ?case using Token_quoted(1) [of s] by (intro reads_scalar) fastforce+
next
  case (JArr vs)
  then show ?case by (intro reads_JArr) (auto simp: list_all_iff)
next
  case (JObj ms)
  then show ?case by (intro reads_JObj) (auto simp: list_all_iff)
qed


subsection \<open>The verdict of \<open>Validate\<close>\<close>

lemma utf8_valid_concat: "(\<forall>x \<in> set xs. utf8_valid x) \<Longrightarrow> utf8_valid (concat xs)"
  by (induction xs) (simp_all add: utf8_valid_append)

lemma utf8_valid_format_int: "json_plain (JNum n) \<Longrightarrow> utf8_valid (format_int n)"
proof (rule utf8_valid_ascii)
  assume "json_plain (JNum n)"
  then have "\<bar>n\<bar> < 10 ^ 20" by simp
  then obtain d ds where "dec_digits 20 \<bar>n\<bar> [] = d # ds" "is_digit d" "list_all is_digit ds"
    using dec_digits_shape [of "\<bar>n\<bar>" 20 "[]"] by (metis abs_ge_zero append_Nil2 zero_less_numeral)
  then have "list_all is_digit (dec_digits 20 \<bar>n\<bar> [])" by simp
  moreover have "is_digit c \<Longrightarrow> byte_val c < 0x80" for c by (simp add: is_digit_def)
  moreover have "byte_val (CHR ''-'') < 0x80" by (simp add: byte_val_def)
  ultimately show "list_all (\<lambda>c. byte_val c < 0x80) (format_int n)"
    by (auto simp: format_int_def list_all_iff split: if_splits)
qed

lemma utf8_valid_quote: "utf8_valid s \<Longrightarrow> utf8_valid (json_quote s)"
  using escapes_json_escape [of s]
  by (simp add: json_quote_def escapes_def utf8_valid_append rune_size.simps byte_val_def)

lemma utf8_valid_join:
  assumes "\<forall>x \<in> set xs. utf8_valid x"
  shows "utf8_valid (join_comma xs)"
proof (cases xs)
  case (Cons x ys)
  have "utf8_valid (CHR '','' # y) = utf8_valid y" for y
    by (simp add: rune_size.simps byte_val_def)
  with assms show ?thesis
    by (auto simp: Cons join_comma_Cons utf8_valid_append simp del: utf8_valid.simps
        intro!: utf8_valid_concat)
qed simp

lemma utf8_valid_marshal: "json_plain v \<Longrightarrow> utf8_valid (json_marshal v)"
proof (induction v)
  case (JArr vs)
  then have "utf8_valid (join_comma (map json_marshal vs))"
    by (intro utf8_valid_join) (auto simp: list_all_iff)
  then show ?case by (simp add: utf8_valid_append rune_size.simps byte_val_def)
next
  case (JObj ms)
  have "utf8_valid (CHR '':'' # y) = utf8_valid y" for y
    by (simp add: rune_size.simps byte_val_def)
  with JObj have "utf8_valid (join_comma (map member ms))"
    by (intro utf8_valid_join)
      (auto simp: list_all_iff member_def utf8_valid_append utf8_valid_quote simp del: utf8_valid.simps)
  then show ?case
    unfolding json_marshal_JObj by (simp add: utf8_valid_append rune_size.simps byte_val_def)
qed (auto simp: utf8_valid_format_int utf8_valid_quote rune_size.simps byte_val_def
    simp del: json_plain.simps(1))

lemma Validate_marshal:
  assumes "json_plain v" "1 \<le> maxDepth"
  shows "strict_Validate (json_marshal v) maxDepth = None \<longleftrightarrow> json_unique v \<and> json_depth v \<le> maxDepth"
  using readsD [OF reads_plain [OF assms(1)], of TopValue "[]" 0 maxDepth "2 * length (json_marshal v) + 1" "[]"]
    assms(2) utf8_valid_marshal [OF assms(1)]
  by (auto simp: strict_Validate_def strict_Validate_fuel_def NewDecoder_def verdict_def
      tokenValueAllowed_def ends_value_def Token_def split: if_splits)

text \<open>More fuel changes nothing, once there was enough.\<close>

lemma validate_fuel_mono:
  "validateValue n depth maxDepth d = Some r \<Longrightarrow> validateValue (n + k) depth maxDepth d = Some r"
  "validateObject n keys depth maxDepth d = Some r \<Longrightarrow> validateObject (n + k) keys depth maxDepth d = Some r"
  "validateArray n depth maxDepth d = Some r \<Longrightarrow> validateArray (n + k) depth maxDepth d = Some r"
proof (induction n depth maxDepth d and n keys depth maxDepth d and n depth maxDepth d
    arbitrary: r and r and r rule: validateValue_validateObject_validateArray.induct)
  case (2 n depth maxDepth d)
  then show ?case
    by (auto split: sum.splits prod.splits token.splits if_splits option.splits)
next
  case (4 n keys depth maxDepth d)
  then show ?case
    by (auto split: sum.splits prod.splits token.splits if_splits option.splits)
next
  case (6 n depth maxDepth d)
  then show ?case
    by (auto split: sum.splits if_splits option.splits)
qed simp_all

text \<open>
  C11: \<^verbatim>\<open>strictjson.Validate\<close> accepts the text that \<^verbatim>\<open>json.Marshal\<close> writes for a value exactly
  if no object of the value, at any depth, repeats a key and the value nests no deeper than the
  limit. The strings of the value are UTF-8 and its numbers have at most twenty digits.
\<close>

theorem strict_validate_marshal:
  assumes "json_plain v" and "1 \<le> maxDepth"
  shows "strict_Validate (json_marshal v) maxDepth = None \<longleftrightarrow> json_unique v \<and> json_depth v \<le> maxDepth"
  using assms by (rule Validate_marshal)

theorem strict_validate_marshal_witness:
  "strict_Validate (json_marshal (JObj [(''a'', JArr [JNum 1, JNull]), (''b'', JStr ''x'')])) 2 = None
   \<and> strict_Validate (json_marshal (JObj [(''a'', JNum 1), (''a'', JNum 2)])) 2 \<noteq> None
   \<and> strict_Validate (json_marshal (JArr [JArr [JArr []]])) 2 \<noteq> None"
proof -
  have "utf8_valid ''a''" "utf8_valid ''b''" "utf8_valid ''x''"
    by (simp_all add: rune_size.simps byte_val_def)
  then show ?thesis
    by (subst (1 2 3) strict_validate_marshal) simp_all
qed

text \<open>
  C35: \<^verbatim>\<open>strictjson.Validate\<close> returns on every input. Its mutual recursion makes at most twice
  as many calls as the input has bytes, plus one: with that much fuel it has a result, and any
  larger amount gives the same.
\<close>

theorem strict_validate_terminates:
  "strict_Validate_fuel (2 * length data + 1 + k) data maxDepth = Some (strict_Validate data maxDepth)"
proof -
  let ?run = "\<lambda>n. validateValue n 0 maxDepth (NewDecoder data)"
  have "ends_within (length data) (?run (2 * length data + 1))"
    using validate_ends(1) [of "NewDecoder data" "2 * length data + 1"]
    by (simp add: NewDecoder_def del: validateValue.simps)
  then obtain r where r: "?run (2 * length data + 1) = Some r"
    by (auto simp: ends_within_def split: option.splits)
  from validate_fuel_mono(1) [OF this, of k] r show ?thesis
    unfolding strict_Validate_def strict_Validate_fuel_def
    by (simp del: validateValue.simps split: sum.split decode_error.split)
qed

end
