(* ===== verification/ControlOperation.thy ===== *)
theory ControlOperation
  imports ControlCatalog StrictJson Digest
begin

text \<open>
  Package \<^verbatim>\<open>internal/controlplane\<close>, file \<^verbatim>\<open>operation.go\<close>: the request digest and the operation
  ledger that makes management operations idempotent. The callback that \<open>CompleteAfter\<close> runs
  belongs to its caller: the operations are polymorphic in the state it changes. Receivers are
  not nil, and neither is the callback of \<open>CompleteAfter\<close>.
\<close>

subsection \<open>Data\<close>

abbreviation DefaultNamespace :: string where "DefaultNamespace \<equiv> ''default''"
abbreviation OperationDigestDomain :: string where "OperationDigestDomain \<equiv> ''control-operation-request''"
abbreviation OperationDigestVersion :: string where "OperationDigestVersion \<equiv> ''v1''"
abbreviation DefaultMaxOperations :: int where "DefaultMaxOperations \<equiv> 100000"
abbreviation hour :: duration where "hour \<equiv> 3600000000000"
abbreviation DefaultOperationTTL :: duration where "DefaultOperationTTL \<equiv> 24 * hour"
abbreviation DefaultOperationTombstoneTTL :: duration where "DefaultOperationTombstoneTTL \<equiv> 7 * 24 * hour"
abbreviation MaxOperationBodyBytes :: nat where "MaxOperationBodyBytes \<equiv> 1048576"
abbreviation MaxOperationPathBytes :: nat where "MaxOperationPathBytes \<equiv> 4096"
abbreviation MaxOperationMessage :: nat where "MaxOperationMessage \<equiv> 512"

record OperationKey =
  ok_Principal :: string
  ok_Namespace :: string
  ok_OperationID :: string

record Preconditions =
  pc_IfNoneMatch :: bool
  pc_ExpectedResourceRevision :: "u64 option"
  pc_ExpectedActiveRouteRevision :: "u64 option"

text \<open>A nil \<open>Body\<close> is \<open>None\<close>: it is marshalled as \<open>null\<close>, an empty one is not.\<close>

record OperationRequest =
  oq_Method :: string
  oq_Path :: string
  oq_Preconditions :: Preconditions
  oq_BodyPresent :: bool
  oq_Body :: "string option"
  oq_ArtifactDigest :: "SHA256 option"

datatype OutcomeStatus = OutcomeSucceeded | OutcomeFailed | OutcomeStatusOther string

record Failure =
  fl_Code :: Code
  fl_Message :: string

record AffectedResource =
  af_Kind :: string
  af_ID :: string
  af_ResourceRevision :: "u64 option"
  af_RouteRevision :: "u64 option"

record Outcome =
  oc_Status :: OutcomeStatus
  oc_Failure :: "Failure option"
  oc_AffectedResources :: "AffectedResource list"
  oc_CredentialIssued :: bool

record Completion =
  cm_Key :: OperationKey
  cm_Request :: OperationRequest
  cm_Outcome :: Outcome
  cm_CompletedAt :: Time
  cm_AppliedIndex :: u64

record OperationRecord =
  or_Key :: OperationKey
  or_Digest :: SHA256
  or_Outcome :: Outcome
  or_CompletedAt :: Time
  or_AppliedIndex :: u64

record Tombstone =
  tb_Key :: OperationKey
  tb_Digest :: SHA256
  tb_TombstonedAt :: Time

datatype CompletionDisposition = CompletionApplied | CompletionReplay | CompletionCredentialNotReplayable

record CompletionResult =
  cr_Disposition :: CompletionDisposition
  cr_Record :: OperationRecord

record GCResult =
  gc_Tombstoned :: nat
  gc_Deleted :: nat

type_synonym operationKey = "string \<times> string \<times> string"

record Ledger =
  led_maxOperations :: int
  led_operationTTL :: duration
  led_tombstoneTTL :: duration
  led_records :: "(operationKey, OperationRecord) fmap"
  led_tombstones :: "(operationKey, Tombstone) fmap"

record LedgerSnapshot =
  ls_Records :: "OperationRecord list"
  ls_Tombstones :: "Tombstone list"

record LedgerStatus =
  lt_Records :: nat
  lt_Tombstones :: nat
  lt_MaxOperations :: int

definition NewLedger :: Ledger where
  "NewLedger =
    \<lparr>led_maxOperations = DefaultMaxOperations, led_operationTTL = DefaultOperationTTL,
     led_tombstoneTTL = DefaultOperationTombstoneTTL, led_records = fmempty, led_tombstones = fmempty\<rparr>"

subsection \<open>Validation\<close>

definition OperationKey_Validate :: "OperationKey \<Rightarrow> error option" where
  "OperationKey_Validate k = first_error
    [fail_if (\<not> idPattern (ok_Principal k)) (Invalid ''principal'' ''must be a valid identifier''),
     fail_if (ok_Namespace k \<noteq> DefaultNamespace) (Invalid ''namespace'' ''only default is supported in v1''),
     fail_if (\<not> idPattern (ok_OperationID k)) (Invalid ''operation_id'' ''must be a valid identifier'')]"

definition Preconditions_validate :: "Preconditions \<Rightarrow> error option" where
  "Preconditions_validate p = first_error
    [fail_if (pc_IfNoneMatch p \<and>
         (pc_ExpectedResourceRevision p \<noteq> None \<or> pc_ExpectedActiveRouteRevision p \<noteq> None))
       (Invalid ''preconditions'' ''if-none-match cannot be combined with expected revisions''),
     fail_if (pc_ExpectedResourceRevision p = Some 0)
       (Invalid ''expected_resource_revision'' ''must be greater than zero'')]"

definition Failure_validate :: "Failure option \<Rightarrow> error option" where
  "Failure_validate failure =
    (case failure of
       None \<Rightarrow> Some (Invalid ''failure'' ''is required for a failed operation'')
     | Some f \<Rightarrow> first_error
         [fail_if (\<not> Known (fl_Code f)) (Invalid ''failure.code'' ''must be a stable v1 error code''),
          fail_if (fl_Message f = '''' \<or> length (fl_Message f) > MaxOperationMessage
              \<or> \<not> utf8_valid (fl_Message f))
            (Invalid ''failure.message'' ''must be valid UTF-8 and within 512 bytes'')])"

definition AffectedResource_validate :: "AffectedResource \<Rightarrow> error option" where
  "AffectedResource_validate r = first_error
    [fail_if (\<not> idPattern (af_Kind r))
       (Invalid ''affected_resources.kind'' ''must be a valid identifier''),
     fail_if (\<not> idPattern (af_ID r))
       (Invalid ''affected_resources.id'' ''must be a valid identifier''),
     fail_if (af_ResourceRevision r = None \<and> af_RouteRevision r = None)
       (Invalid ''affected_resources'' ''must include a resource or route revision''),
     fail_if (af_ResourceRevision r = Some 0)
       (Invalid ''affected_resources.resource_revision'' ''must be greater than zero''),
     fail_if (af_RouteRevision r = Some 0)
       (Invalid ''affected_resources.route_revision'' ''must be greater than zero'')]"

text \<open>The loop over the affected resources, with the set of keys seen.\<close>

fun validate_resources :: "string fset \<Rightarrow> AffectedResource list \<Rightarrow> error option" where
  "validate_resources seen [] = None"
| "validate_resources seen (r # rs) =
    (case AffectedResource_validate r of
       Some e \<Rightarrow> Some e
     | None \<Rightarrow>
         (let key = nul_join (af_Kind r) (af_ID r) in
          if key |\<in>| seen
            then Some (Invalid ''affected_resources'' ''contains a duplicate resource'')
            else validate_resources (finsert key seen) rs))"

definition Outcome_validate :: "Outcome \<Rightarrow> error option" where
  "Outcome_validate o' = first_error
    [fail_if (length (oc_AffectedResources o') > 256)
       (Invalid ''affected_resources'' ''exceeds the v1 operation result limit''),
     fail_if (oc_CredentialIssued o' \<and> oc_Status o' \<noteq> OutcomeSucceeded)
       (Invalid ''credential_issued'' ''is only valid for a successful operation''),
     fail_if (oc_CredentialIssued o' \<and> oc_AffectedResources o' = [])
       (Invalid ''credential_issued'' ''requires at least one affected resource''),
     (case oc_Status o' of
        OutcomeSucceeded \<Rightarrow> fail_if (oc_Failure o' \<noteq> None)
          (Invalid ''failure'' ''is only valid for a failed operation'')
      | OutcomeFailed \<Rightarrow> Failure_validate (oc_Failure o')
      | OutcomeStatusOther _ \<Rightarrow> Some (Invalid ''status'' ''must be a terminal operation status'')),
     validate_resources {||} (oc_AffectedResources o')]"

definition validateForInsert :: "Completion \<Rightarrow> error option" where
  "validateForInsert c = first_error
    [Outcome_validate (cm_Outcome c),
     validateUTC ''completed_at'' (cm_CompletedAt c),
     fail_if (cm_AppliedIndex c = 0) (Invalid ''applied_index'' ''must be greater than zero'')]"

subsection \<open>The request digest\<close>

definition to_upper :: "char \<Rightarrow> char" where
  "to_upper c = (if is_lower c then char_of (byte_val c - 32) else c)"

definition canonicalMethod :: "string \<Rightarrow> error + string" where
  "canonicalMethod value =
    (if \<not> matches_class is_token_char 1 16 value
       then Inl (Invalid ''method'' ''must be a valid HTTP token within 16 bytes'')
     else Inr (map to_upper value))"

text \<open>
  \<^verbatim>\<open>net/url\<close> on a text that starts with a slash and has neither a query nor a fragment:
  \<open>ParseRequestURI\<close> then finds no scheme and no authority, refuses control bytes, and decodes
  the percent escapes into \<open>Path\<close>; \<open>EscapedPath\<close> of that path alone escapes it again.
\<close>

definition path_safe :: "char \<Rightarrow> bool" where
  "path_safe c \<longleftrightarrow> is_upper c \<or> is_lower c \<or> is_digit c \<or> c \<in> set ''-_.~$&+,/:;=@''"

definition hex_digit_upper :: "int \<Rightarrow> char" where
  "hex_digit_upper n = char_of (if n < 10 then 48 + n else 55 + n)"

definition path_escape :: "string \<Rightarrow> string" where
  "path_escape s = concat (map (\<lambda>c.
     if path_safe c then [c]
     else [CHR ''%'', hex_digit_upper (byte_val c div 16), hex_digit_upper (byte_val c mod 16)]) s)"

fun path_unescape :: "string \<Rightarrow> string option" where
  "path_unescape [] = Some []"
| "path_unescape (c # cs) =
    (if c \<noteq> CHR ''%'' then map_option ((#) c) (path_unescape cs)
     else case cs of
         a # b # rest \<Rightarrow>
           (case (hex_val a, hex_val b) of
              (Some x, Some y) \<Rightarrow> map_option ((#) (char_of (16 * x + y))) (path_unescape rest)
            | _ \<Rightarrow> None)
       | _ \<Rightarrow> None)"

definition is_control :: "char \<Rightarrow> bool" where
  "is_control c \<longleftrightarrow> byte_val c < 32 \<or> byte_val c = 127"

definition ParseRequestURI_path :: "string \<Rightarrow> string option" where
  "ParseRequestURI_path s = (if list_ex is_control s then None else path_unescape s)"

definition canonicalPath :: "string \<Rightarrow> error + string" where
  "canonicalPath value =
    (if value = '''' \<or> length value > MaxOperationPathBytes \<or> \<not> utf8_valid value
        \<or> CHR 0x00 \<in> set value \<or> hd value \<noteq> CHR ''/''
       then Inl (Invalid ''path'' ''must be a valid absolute path within 4096 bytes'')
     else if CHR ''?'' \<in> set value \<or> CHR 0x23 \<in> set value
       then Inl (Invalid ''path'' ''must not contain a query or fragment'')
     else case ParseRequestURI_path value of
         None \<Rightarrow> Inl (Invalid ''path'' ''must be a valid absolute URI path'')
       | Some path \<Rightarrow>
           if \<not> utf8_valid path then Inl (Invalid ''path'' ''must be a valid absolute URI path'')
           else if path_escape path \<noteq> value
             then Inl (Invalid ''path'' ''must use canonical percent encoding'')
           else Inr (path_escape path))"

definition validateBody :: "bool \<Rightarrow> string option \<Rightarrow> error option" where
  "validateBody present body =
    (let data = (case body of None \<Rightarrow> '''' | Some b \<Rightarrow> b) in
     if \<not> present then
       fail_if (data \<noteq> '''') (Invalid ''body'' ''must be absent when body_present is false'')
     else first_error
       [fail_if (data = '''' \<or> length data > MaxOperationBodyBytes)
          (Invalid ''body'' ''must be a JSON value within the management body limit''),
        fail_if (strict_Validate data 32 \<noteq> None)
          (Invalid ''body'' ''must be bounded strict JSON'')])"

text \<open>
  The compaction that \<^verbatim>\<open>json.Marshal\<close> applies to a \<^verbatim>\<open>json.RawMessage\<close>, on a text that is JSON:
  spaces outside string literals go, and inside them the characters escaped for HTML and the
  two line separators are written as escapes. The first argument says whether the text
  continues a literal.
\<close>

fun json_compact :: "bool \<Rightarrow> string \<Rightarrow> string" where
  "json_compact quoted [] = []"
| "json_compact False (c # cs) =
    (if is_space c then json_compact False cs
     else c # json_compact (c = quote_char) cs)"
| "json_compact True (c # cs) =
    (if c = backslash then (case cs of [] \<Rightarrow> [c] | d # ds \<Rightarrow> c # d # json_compact True ds)
     else if c = quote_char then c # json_compact False cs
     else if byte_val c \<in> {60, 62, 38} then json_unicode (''00'' @ hex_encode [c]) @ json_compact True cs
     else if c # take 2 cs = [CHR 0xE2, CHR 0x80, CHR 0xA8]
       then json_unicode ''2028'' @ json_compact True (drop 2 cs)
     else if c # take 2 cs = [CHR 0xE2, CHR 0x80, CHR 0xA9]
       then json_unicode ''2029'' @ json_compact True (drop 2 cs)
     else c # json_compact True cs)"

definition canonicalRequest_members :: "string \<Rightarrow> string \<Rightarrow> OperationRequest \<Rightarrow> (string \<times> string) list" where
  "canonicalRequest_members httpMethod path r =
    [(''method'', json_quote httpMethod),
     (''path'', json_quote path),
     (''if_none_match'', json_marshal (JBool (pc_IfNoneMatch (oq_Preconditions r)))),
     (''expected_resource_revision'',
        json_marshal (json_ptr json_uint (pc_ExpectedResourceRevision (oq_Preconditions r)))),
     (''expected_active_route_revision'',
        json_marshal (json_ptr json_uint (pc_ExpectedActiveRouteRevision (oq_Preconditions r)))),
     (''body_present'', json_marshal (JBool (oq_BodyPresent r))),
     (''body'', (case oq_Body r of None \<Rightarrow> ''null'' | Some b \<Rightarrow> json_compact False b)),
     (''artifact_digest'', json_marshal (json_ptr JStr (oq_ArtifactDigest r)))]"

definition marshal_canonicalRequest :: "string \<Rightarrow> string \<Rightarrow> OperationRequest \<Rightarrow> error + string" where
  "marshal_canonicalRequest httpMethod path r =
    (if oq_Body r = Some ''''
       then Inl (Wrapped ''marshaling canonical control operation request''
              (Opaque ''unexpected end of JSON input''))
     else Inr (''{'' @ join_comma (map (\<lambda>(k, v). json_quote k @ '':'' @ v)
            (canonicalRequest_members httpMethod path r)) @ ''}''))"

definition Request_Digest :: "canonicalizer \<Rightarrow> OperationRequest \<Rightarrow> error + SHA256" where
  "Request_Digest jcs r =
    (case canonicalMethod (oq_Method r) of
       Inl e \<Rightarrow> Inl e
     | Inr httpMethod \<Rightarrow>
    (case canonicalPath (oq_Path r) of
       Inl e \<Rightarrow> Inl e
     | Inr path \<Rightarrow>
    (case first_error
       [Preconditions_validate (oq_Preconditions r),
        validateBody (oq_BodyPresent r) (oq_Body r),
        (case oq_ArtifactDigest r of
           None \<Rightarrow> None
         | Some d \<Rightarrow> fail_if (bad_digest d)
             (Invalid ''artifact_digest'' ''must be a lowercase sha-256 digest''))] of
       Some e \<Rightarrow> Inl e
     | None \<Rightarrow>
    (case marshal_canonicalRequest httpMethod path r of
       Inl e \<Rightarrow> Inl e
     | Inr encoded \<Rightarrow> CanonicalJSON jcs OperationDigestDomain OperationDigestVersion encoded))))"

subsection \<open>The ledger\<close>

definition makeOperationKey :: "OperationKey \<Rightarrow> operationKey" where
  "makeOperationKey k = (ok_Principal k, ok_Namespace k, ok_OperationID k)"

definition compareAffectedResource :: "AffectedResource \<Rightarrow> AffectedResource \<Rightarrow> int" where
  "compareAffectedResource left right =
    (if af_Kind left \<noteq> af_Kind right then compare_lin (af_Kind left) (af_Kind right)
     else compare_lin (af_ID left) (af_ID right))"

definition cloneOutcome :: "Outcome \<Rightarrow> Outcome" where
  "cloneOutcome o' = o'\<lparr>oc_AffectedResources := sort_by compareAffectedResource (oc_AffectedResources o')\<rparr>"

definition cloneRecord :: "OperationRecord \<Rightarrow> OperationRecord" where
  "cloneRecord r = r\<lparr>or_Outcome := cloneOutcome (or_Outcome r)\<rparr>"

definition completion_record :: "Completion \<Rightarrow> SHA256 \<Rightarrow> OperationRecord" where
  "completion_record c digest =
    \<lparr>or_Key = cm_Key c, or_Digest = digest, or_Outcome = cloneOutcome (cm_Outcome c),
     or_CompletedAt = cm_CompletedAt c, or_AppliedIndex = cm_AppliedIndex c\<rparr>"

text \<open>The branch for a key that already has a record.\<close>

definition replay :: "OperationRecord \<Rightarrow> SHA256 \<Rightarrow> error + CompletionResult" where
  "replay current digest =
    (if or_Digest current \<noteq> digest
       then Inl (classified CodeConflict ''operation id was already used with a different request'')
     else if oc_CredentialIssued (or_Outcome current)
       then Inr \<lparr>cr_Disposition = CompletionCredentialNotReplayable, cr_Record = cloneRecord current\<rparr>
     else Inr \<lparr>cr_Disposition = CompletionReplay, cr_Record = cloneRecord current\<rparr>)"

text \<open>
  \<open>complete\<close> on the ledger and on the state \<open>r\<close> that the callback changes. A callback that
  fails may have changed it; the ledger then stays as it was.
\<close>

definition Ledger_complete ::
  "canonicalizer \<Rightarrow> Completion \<Rightarrow> ('r \<Rightarrow> error option \<times> 'r) option \<Rightarrow>
     (error, Ledger \<times> 'r, CompletionResult) operation" where
  "Ledger_complete jcs c apply' = (\<lambda>(l, r).
    (let key = makeOperationKey (cm_Key c) in
     check (first_error
       [OperationKey_Validate (cm_Key c),
        fail_if (map_has (led_tombstones l) key)
          (classified CodeOperationExpired ''operation id is retained as an expired tombstone'')]) (l, r)
     (case Request_Digest jcs (cm_Request c) of
        Inl e \<Rightarrow> (Inl e, (l, r))
      | Inr digest \<Rightarrow>
          (case fmlookup (led_records l) key of
             Some current \<Rightarrow> (replay current digest, (l, r))
           | None \<Rightarrow>
               check (first_error
                 [validateForInsert c,
                  fail_if (int (map_len (led_records l)) + int (map_len (led_tombstones l)) \<ge> led_maxOperations l)
                    (classified CodeOverloaded ''control-plane operation ledger is full'')]) (l, r)
               (case (case apply' of None \<Rightarrow> (None, r) | Some f \<Rightarrow> f r) of
                  (Some e, r1) \<Rightarrow> (Inl e, (l, r1))
                | (None, r1) \<Rightarrow>
                    (Inr \<lparr>cr_Disposition = CompletionApplied,
                          cr_Record = cloneRecord (completion_record c digest)\<rparr>,
                     (l\<lparr>led_records := fmupd key (completion_record c digest) (led_records l)\<rparr>, r1)))))))"

definition Ledger_Complete :: "canonicalizer \<Rightarrow> Completion \<Rightarrow> (error, Ledger \<times> 'r, CompletionResult) operation" where
  "Ledger_Complete jcs c = Ledger_complete jcs c None"

definition Ledger_CompleteAfter ::
  "canonicalizer \<Rightarrow> Completion \<Rightarrow> ('r \<Rightarrow> error option \<times> 'r) \<Rightarrow> (error, Ledger \<times> 'r, CompletionResult) operation" where
  "Ledger_CompleteAfter jcs c f = Ledger_complete jcs c (Some f)"

definition Ledger_Lookup :: "Ledger \<Rightarrow> OperationKey \<Rightarrow> error + OperationRecord" where
  "Ledger_Lookup l k =
    (case OperationKey_Validate k of
       Some e \<Rightarrow> Inl e
     | None \<Rightarrow>
         if map_has (led_tombstones l) (makeOperationKey k)
           then Inl (classified CodeOperationExpired ''operation id is retained as an expired tombstone'')
         else case fmlookup (led_records l) (makeOperationKey k) of
             None \<Rightarrow> Inl (classified CodeNotFound ''operation was not found'')
           | Some record \<Rightarrow> Inr (cloneRecord record))"

text \<open>
  The two loops of \<open>GC\<close>. Deleting from the map being visited, and moving an entry to another
  map, do not depend on the order of the visit.
\<close>

definition retained :: "duration \<Rightarrow> Time \<Rightarrow> Time \<Rightarrow> bool" where
  "retained ttl since cutoff \<longleftrightarrow> Time_After (Time_Add since ttl) cutoff"

definition expire :: "Time \<Rightarrow> OperationRecord \<Rightarrow> Tombstone" where
  "expire cutoff record =
    \<lparr>tb_Key = or_Key record, tb_Digest = or_Digest record, tb_TombstonedAt = cutoff\<rparr>"

definition Ledger_GC :: "Time \<Rightarrow> (error, Ledger, GCResult) operation" where
  "Ledger_GC cutoff l =
    check (validateUTC ''cutoff'' cutoff) l
    (let keep = (\<lambda>record. retained (led_operationTTL l) (or_CompletedAt record) cutoff);
         expired = map_select (\<lambda>record. \<not> keep record) (led_records l);
         tombstones = led_tombstones l ++\<^sub>f fmmap (expire cutoff) expired;
         live = (\<lambda>tombstone. retained (led_tombstoneTTL l) (tb_TombstonedAt tombstone) cutoff) in
     (Inr \<lparr>gc_Tombstoned = map_len expired,
           gc_Deleted = map_len (map_select (\<lambda>tombstone. \<not> live tombstone) tombstones)\<rparr>,
      l\<lparr>led_records := map_select keep (led_records l),
        led_tombstones := map_select live tombstones\<rparr>))"

definition compareOperationKey :: "OperationKey \<Rightarrow> OperationKey \<Rightarrow> int" where
  "compareOperationKey left right =
    (if ok_Principal left \<noteq> ok_Principal right then compare_lin (ok_Principal left) (ok_Principal right)
     else if ok_Namespace left \<noteq> ok_Namespace right then compare_lin (ok_Namespace left) (ok_Namespace right)
     else compare_lin (ok_OperationID left) (ok_OperationID right))"

definition Ledger_Snapshot :: "Ledger \<Rightarrow> LedgerSnapshot" where
  "Ledger_Snapshot l =
    \<lparr>ls_Records = sort_by (\<lambda>left right. compareOperationKey (or_Key left) (or_Key right))
       (map cloneRecord (map_values (led_records l))),
     ls_Tombstones = sort_by (\<lambda>left right. compareOperationKey (tb_Key left) (tb_Key right))
       (map_values (led_tombstones l))\<rparr>"

definition Ledger_Status :: "Ledger \<Rightarrow> LedgerStatus" where
  "Ledger_Status l =
    \<lparr>lt_Records = map_len (led_records l), lt_Tombstones = map_len (led_tombstones l),
     lt_MaxOperations = led_maxOperations l\<rparr>"


subsection \<open>Canonical paths\<close>

lemma hex_val_upper: "0 \<le> d \<Longrightarrow> d < 16 \<Longrightarrow> hex_val (hex_digit_upper d) = Some d"
  by (auto simp: hex_val_def hex_digit_upper_def is_digit_def byte_val_def)

lemma path_safe_percent: "path_safe c \<Longrightarrow> c \<noteq> CHR ''%''"
  by (auto simp: path_safe_def is_upper_def is_lower_def is_digit_def byte_val_def)

lemma path_escape_simps [simp]:
  "path_escape [] = []"
  "path_escape (c # cs) =
    (if path_safe c then [c]
     else [CHR ''%'', hex_digit_upper (byte_val c div 16), hex_digit_upper (byte_val c mod 16)]) @ path_escape cs"
  by (simp_all add: path_escape_def)

lemma path_unescape_escape: "path_unescape (path_escape s) = Some s"
proof (induction s)
  case (Cons c s)
  have "hex_val (hex_digit_upper (byte_val c div 16)) = Some (byte_val c div 16)"
      "hex_val (hex_digit_upper (byte_val c mod 16)) = Some (byte_val c mod 16)"
    using byte_val_bounds [of c] by (auto intro!: hex_val_upper)
  with Cons show ?case by (auto simp: path_safe_percent)
qed simp

definition path_char :: "char \<Rightarrow> bool" where
  "path_char c \<longleftrightarrow> path_safe c \<or> c = CHR ''%'' \<or> is_digit c \<or> is_upper c"

lemma hex_digit_upper_char: "0 \<le> d \<Longrightarrow> d < 16 \<Longrightarrow> path_char (hex_digit_upper d)"
  by (auto simp: path_char_def hex_digit_upper_def is_digit_def is_upper_def byte_val_def)

lemma path_escape_chars: "list_all path_char (path_escape s)"
proof (induction s)
  case (Cons c s)
  then show ?case
    using byte_val_bounds [of c] by (auto simp: path_char_def [of c] path_char_def [of "CHR ''%''"] intro!: hex_digit_upper_char)
qed simp

lemma path_char_plain:
  "path_char c \<Longrightarrow> byte_val c < 0x80 \<and> \<not> is_control c \<and> c \<noteq> CHR 0x00 \<and> c \<noteq> CHR ''?'' \<and> c \<noteq> CHR 0x23"
  by (auto simp: path_char_def path_safe_def is_upper_def is_lower_def is_digit_def is_control_def byte_val_def)

lemma path_escape_plain:
  "utf8_valid (path_escape s)" "ParseRequestURI_path (path_escape s) = Some s"
  "CHR 0x00 \<notin> set (path_escape s)" "CHR ''?'' \<notin> set (path_escape s)" "CHR 0x23 \<notin> set (path_escape s)"
proof -
  have plain: "c \<in> set (path_escape s) \<Longrightarrow> byte_val c < 0x80 \<and> \<not> is_control c \<and> c \<noteq> CHR 0x00
      \<and> c \<noteq> CHR ''?'' \<and> c \<noteq> CHR 0x23" for c
    using path_escape_chars [of s] path_char_plain by (auto simp: list_all_iff)
  then show "utf8_valid (path_escape s)"
    by (intro utf8_valid_ascii) (auto simp: list_all_iff)
  from plain show "ParseRequestURI_path (path_escape s) = Some s"
    by (auto simp: ParseRequestURI_path_def path_unescape_escape list_ex_iff)
  from plain show "CHR 0x00 \<notin> set (path_escape s)" "CHR ''?'' \<notin> set (path_escape s)"
      "CHR 0x23 \<notin> set (path_escape s)" by blast+
qed

lemma path_safe_slash: "path_safe (CHR ''/'')"
  by (simp add: path_safe_def)

lemma path_escape_head: "path_escape s \<noteq> [] \<and> hd (path_escape s) = CHR ''/'' \<longleftrightarrow> (\<exists>t. s = CHR ''/'' # t)"
  by (cases s) (auto simp: path_safe_slash)

lemma canonicalPath_iff:
  "canonicalPath value = Inr p \<longleftrightarrow>
     p = value \<and> length value \<le> MaxOperationPathBytes
     \<and> (\<exists>t. utf8_valid (CHR ''/'' # t) \<and> value = path_escape (CHR ''/'' # t))"
proof
  assume ok: "canonicalPath value = Inr p"
  then obtain s where s: "ParseRequestURI_path value = Some s" "utf8_valid s" "value = path_escape s" "p = value"
      "length value \<le> MaxOperationPathBytes" "value \<noteq> []" "hd value = CHR ''/''"
    by (auto simp: canonicalPath_def split: if_splits option.splits)
  then obtain t where "s = CHR ''/'' # t" using path_escape_head [of s] by auto
  with s show "p = value \<and> length value \<le> MaxOperationPathBytes
      \<and> (\<exists>t. utf8_valid (CHR ''/'' # t) \<and> value = path_escape (CHR ''/'' # t))" by blast
next
  assume "p = value \<and> length value \<le> MaxOperationPathBytes
    \<and> (\<exists>t. utf8_valid (CHR ''/'' # t) \<and> value = path_escape (CHR ''/'' # t))"
  then obtain t where t: "p = value" "length value \<le> MaxOperationPathBytes" "utf8_valid (CHR ''/'' # t)"
      "value = path_escape (CHR ''/'' # t)" by blast
  have "value \<noteq> [] \<and> hd value = CHR ''/''" using t(4) by (simp add: path_safe_slash)
  with t path_escape_plain [of "CHR ''/'' # t"] show "canonicalPath value = Inr p"
    by (simp add: canonicalPath_def del: path_escape_simps)
qed


subsection \<open>The ledger as a machine\<close>

datatype 'r ledger_event =
    EvComplete Completion
  | EvCompleteAfter Completion "'r \<Rightarrow> error option \<times> 'r"
  | EvGC Time

definition ledger_exec :: "canonicalizer \<Rightarrow> 'r ledger_event \<Rightarrow> Ledger \<times> 'r \<Rightarrow> Ledger \<times> 'r" where
  "ledger_exec jcs e s =
    (case e of
       EvComplete c \<Rightarrow> snd (Ledger_Complete jcs c s)
     | EvCompleteAfter c f \<Rightarrow> snd (Ledger_CompleteAfter jcs c f s)
     | EvGC cutoff \<Rightarrow> (snd (Ledger_GC cutoff (fst s)), snd s))"

definition ledger_initial :: "Ledger \<times> 'r \<Rightarrow> bool" where
  "ledger_initial s \<longleftrightarrow> fst s = NewLedger"

definition event_key :: "'r ledger_event \<Rightarrow> operationKey option" where
  "event_key e =
    (case e of
       EvComplete c \<Rightarrow> Some (makeOperationKey (cm_Key c))
     | EvCompleteAfter c f \<Rightarrow> Some (makeOperationKey (cm_Key c))
     | EvGC cutoff \<Rightarrow> None)"

text \<open>Every cutoff that the history collects with is before the instant \<open>deadline\<close>.\<close>

definition collects_before :: "int \<Rightarrow> 'r ledger_event list \<Rightarrow> bool" where
  "collects_before deadline es \<longleftrightarrow>
     list_all (\<lambda>e. case e of EvGC cutoff \<Rightarrow> t_nanos cutoff < deadline | _ \<Rightarrow> True) es"

interpretation affected_order:
  key_compare compareAffectedResource "\<lambda>r. (af_Kind r, af_ID r)"
  by unfold_locales (auto simp: compareAffectedResource_def)

interpretation operation_key_order: key_compare compareOperationKey makeOperationKey
  by unfold_locales (auto simp: compareOperationKey_def makeOperationKey_def)

lemma cloneOutcome_idem [simp]: "cloneOutcome (cloneOutcome o') = cloneOutcome o'"
  by (simp add: cloneOutcome_def sort_by_sorted affected_order.sort_by_ascending)

lemma cloneRecord_completion [simp]: "cloneRecord (completion_record c d) = completion_record c d"
  by (simp add: cloneRecord_def completion_record_def)

definition record_ok :: "operationKey \<Rightarrow> OperationRecord \<Rightarrow> bool" where
  "record_ok k r \<longleftrightarrow>
     makeOperationKey (or_Key r) = k \<and> OperationKey_Validate (or_Key r) = None
     \<and> encodedPattern (or_Digest r) \<and> cloneRecord r = r \<and> \<not> Time_IsZero (or_CompletedAt r)
     \<and> or_AppliedIndex r \<noteq> 0"

definition tombstone_ok :: "operationKey \<Rightarrow> Tombstone \<Rightarrow> bool" where
  "tombstone_ok k t \<longleftrightarrow> makeOperationKey (tb_Key t) = k \<and> encodedPattern (tb_Digest t)"

definition ledger_inv :: "Ledger \<Rightarrow> bool" where
  "ledger_inv l \<longleftrightarrow>
     led_maxOperations l = DefaultMaxOperations
     \<and> led_operationTTL l = DefaultOperationTTL \<and> led_tombstoneTTL l = DefaultOperationTombstoneTTL
     \<and> int (map_len (led_records l)) + int (map_len (led_tombstones l)) \<le> DefaultMaxOperations
     \<and> (\<forall>k r. fmlookup (led_records l) k = Some r \<longrightarrow> record_ok k r \<and> fmlookup (led_tombstones l) k = None)
     \<and> (\<forall>k t. fmlookup (led_tombstones l) k = Some t \<longrightarrow> tombstone_ok k t)"

lemma ledger_invD:
  assumes "ledger_inv l"
  shows "led_maxOperations l = DefaultMaxOperations"
    and "led_operationTTL l = DefaultOperationTTL" "led_tombstoneTTL l = DefaultOperationTombstoneTTL"
    and "int (map_len (led_records l)) + int (map_len (led_tombstones l)) \<le> DefaultMaxOperations"
    and "fmlookup (led_records l) k = Some r \<Longrightarrow> record_ok k r"
    and "fmlookup (led_records l) k = Some r \<Longrightarrow> fmlookup (led_tombstones l) k = None"
    and "fmlookup (led_tombstones l) k = Some t \<Longrightarrow> tombstone_ok k t"
  using assms unfolding ledger_inv_def by blast+

lemma Request_Digest_encoded: "Request_Digest jcs r = Inr d \<Longrightarrow> encodedPattern d"
  by (auto simp: Request_Digest_def split: sum.splits option.splits dest: CanonicalJSON_encoded)

text \<open>What a call of \<open>complete\<close> may do: nothing but run a failing callback, or record a new key.\<close>

definition inserts :: "canonicalizer \<Rightarrow> Completion \<Rightarrow> Ledger \<Rightarrow> SHA256 \<Rightarrow> bool" where
  "inserts jcs c l d \<longleftrightarrow>
     OperationKey_Validate (cm_Key c) = None
     \<and> fmlookup (led_tombstones l) (makeOperationKey (cm_Key c)) = None
     \<and> fmlookup (led_records l) (makeOperationKey (cm_Key c)) = None
     \<and> Request_Digest jcs (cm_Request c) = Inr d \<and> validateForInsert c = None
     \<and> int (map_len (led_records l)) + int (map_len (led_tombstones l)) < led_maxOperations l"

definition apply_callback :: "('r \<Rightarrow> error option \<times> 'r) option \<Rightarrow> 'r \<Rightarrow> error option \<times> 'r" where
  "apply_callback f r = (case f of None \<Rightarrow> (None, r) | Some g \<Rightarrow> g r)"

lemma complete_inserts:
  assumes "inserts jcs c l d"
  shows "Ledger_complete jcs c f (l, r) =
    (case apply_callback f r of
       (Some e, r1) \<Rightarrow> (Inl e, (l, r1))
     | (None, r1) \<Rightarrow>
         (Inr \<lparr>cr_Disposition = CompletionApplied, cr_Record = completion_record c d\<rparr>,
          (l\<lparr>led_records := fmupd (makeOperationKey (cm_Key c)) (completion_record c d) (led_records l)\<rparr>, r1)))"
  using assms
  by (simp add: inserts_def Ledger_complete_def Let_def map_has_def apply_callback_def
      split: prod.split option.split)

lemma complete_unchanged:
  assumes "\<nexists>d. inserts jcs c l d"
  shows "snd (Ledger_complete jcs c f (l, r)) = (l, r)"
    and "fst (Ledger_complete jcs c f (l, r)) = Inr res \<Longrightarrow> cr_Disposition res \<noteq> CompletionApplied"
  using assms
  by (auto simp: inserts_def Ledger_complete_def Let_def check_def map_has_def replay_def
      not_less fail_if_def split: option.splits sum.splits if_splits)

lemma Ledger_complete_cases:
  obtains (unchanged) "\<nexists>d. inserts jcs c l d" "snd (Ledger_complete jcs c f (l, r)) = (l, r)"
  | (callback_failed) d e r1 where "inserts jcs c l d" "apply_callback f r = (Some e, r1)"
      "Ledger_complete jcs c f (l, r) = (Inl e, (l, r1))"
  | (applied) d r1 where "inserts jcs c l d" "apply_callback f r = (None, r1)"
      "Ledger_complete jcs c f (l, r) =
        (Inr \<lparr>cr_Disposition = CompletionApplied, cr_Record = completion_record c d\<rparr>,
         (l\<lparr>led_records := fmupd (makeOperationKey (cm_Key c)) (completion_record c d) (led_records l)\<rparr>, r1))"
proof (cases "\<exists>d. inserts jcs c l d")
  case True
  then obtain d where d: "inserts jcs c l d" by blast
  obtain v r1 where "apply_callback f r = (v, r1)" by fastforce
  with complete_inserts [OF d, of f r] d callback_failed applied show thesis
    by (cases v) auto
next
  case False
  then show thesis by (rule unchanged [OF _ complete_unchanged(1) [OF False]])
qed


lemma Ledger_GC_cases:
  obtains (error) e where "validateUTC ''cutoff'' cutoff = Some e" "Ledger_GC cutoff l = (Inl e, l)"
  | (ok) res where "validateUTC ''cutoff'' cutoff = None"
      "Ledger_GC cutoff l = (Inr res, l
        \<lparr>led_records := map_select (\<lambda>record. retained (led_operationTTL l) (or_CompletedAt record) cutoff)
           (led_records l),
         led_tombstones := map_select (\<lambda>t. retained (led_tombstoneTTL l) (tb_TombstonedAt t) cutoff)
           (led_tombstones l ++\<^sub>f fmmap (expire cutoff)
             (map_select (\<lambda>record. \<not> retained (led_operationTTL l) (or_CompletedAt record) cutoff)
               (led_records l)))\<rparr>)"
  by (cases "validateUTC ''cutoff'' cutoff") (auto simp: Ledger_GC_def Let_def)

lemma ledger_inv_insert:
  assumes "ledger_inv l" and "inserts jcs c l d"
  shows "ledger_inv (l\<lparr>led_records := fmupd (makeOperationKey (cm_Key c)) (completion_record c d) (led_records l)\<rparr>)"
proof -
  have "record_ok (makeOperationKey (cm_Key c)) (completion_record c d)"
    using assms(2) Request_Digest_encoded [of jcs "cm_Request c" d]
    by (auto simp: inserts_def record_ok_def validateForInsert_def validateUTC_def)
      (simp_all add: completion_record_def)
  with assms show ?thesis
    unfolding ledger_inv_def inserts_def by (auto simp: map_len_upd)
qed

lemma tombstones_after_GC:
  assumes "ledger_inv l" "Ledger_GC cutoff l = (Inr res, l1)"
  shows "fmlookup (led_tombstones l1) k =
    (case fmlookup (led_records l) k of
       Some r \<Rightarrow> if retained DefaultOperationTTL (or_CompletedAt r) cutoff then None else Some (expire cutoff r)
     | None \<Rightarrow>
         (case fmlookup (led_tombstones l) k of
            None \<Rightarrow> None
          | Some t \<Rightarrow> if retained DefaultOperationTombstoneTTL (tb_TombstonedAt t) cutoff then Some t else None))"
  using assms(2) ledger_invD(2,3) [OF assms(1)]
  by (cases rule: Ledger_GC_cases [of cutoff l])
    (auto simp: fmlookup_dom_iff retained_def expire_def Time_After_def Time_Add_def split: option.splits
      dest: ledger_invD(6) [OF assms(1)])

lemma records_after_GC:
  assumes "ledger_inv l" "Ledger_GC cutoff l = (Inr res, l1)"
  shows "fmlookup (led_records l1) k =
    (case fmlookup (led_records l) k of
       Some r \<Rightarrow> if retained DefaultOperationTTL (or_CompletedAt r) cutoff then Some r else None
     | None \<Rightarrow> None)"
  using assms ledger_invD(2) [OF assms(1)]
  by (cases rule: Ledger_GC_cases [of cutoff l]) (auto split: option.splits)

lemma ledger_size_GC:
  assumes "Ledger_GC cutoff l = (Inr res, l1)"
  shows "map_len (led_records l1) + map_len (led_tombstones l1) \<le> map_len (led_records l) + map_len (led_tombstones l)"
proof -
  let ?keep = "\<lambda>record. retained (led_operationTTL l) (or_CompletedAt record) cutoff"
  have "map_len (led_tombstones l1) \<le> map_len (led_tombstones l) + map_len (map_select (\<lambda>r. \<not> ?keep r) (led_records l))"
    using assms
    by (cases rule: Ledger_GC_cases [of cutoff l])
      (auto intro!: order.trans [OF map_len_select_le] order.trans [OF map_len_add_le])
  moreover have "map_len (led_records l1) = map_len (map_select ?keep (led_records l))"
    using assms by (cases rule: Ledger_GC_cases [of cutoff l]) auto
  ultimately show ?thesis using map_len_select [of ?keep "led_records l"] by linarith
qed

lemma ledger_inv_GC:
  assumes inv: "ledger_inv l"
  shows "ledger_inv (snd (Ledger_GC cutoff l))"
proof (cases rule: Ledger_GC_cases [of cutoff l])
  case (ok res)
  obtain l1 where l1: "Ledger_GC cutoff l = (Inr res, l1)" using ok by simp
  have "led_maxOperations l1 = led_maxOperations l" "led_operationTTL l1 = led_operationTTL l"
      "led_tombstoneTTL l1 = led_tombstoneTTL l" using ok l1 by auto
  then show ?thesis
    using ledger_invD [OF inv] ledger_size_GC [OF l1] tombstones_after_GC [OF inv l1] records_after_GC [OF inv l1]
    unfolding ledger_inv_def l1
    by (auto simp: tombstone_ok_def expire_def record_ok_def split: option.splits if_splits)
qed (use inv in simp)

lemma ledger_inv_complete: "ledger_inv l \<Longrightarrow> ledger_inv (fst (snd (Ledger_complete jcs c f (l, r))))"
  by (cases rule: Ledger_complete_cases [of jcs c l f r]) (auto intro: ledger_inv_insert)

lemma ledger_inv_exec: "ledger_inv (fst s) \<Longrightarrow> ledger_inv (fst (ledger_exec jcs e s))"
  by (cases s; cases e)
    (auto simp: ledger_exec_def Ledger_Complete_def Ledger_CompleteAfter_def
      intro: ledger_inv_complete ledger_inv_GC)

lemma ledger_inv_New: "ledger_inv NewLedger"
  by (simp add: ledger_inv_def NewLedger_def)

interpretation ledger: component ledger_initial "ledger_exec jcs" "\<lambda>s. ledger_inv (fst s)" for jcs
  by unfold_locales (auto simp: ledger_initial_def ledger_inv_New intro: ledger_inv_exec)


subsection \<open>An operation takes effect once\<close>

text \<open>
  The key \<open>k\<close> is reserved until the instant \<open>deadline\<close>: it has a record, or the tombstone of
  one, that no collection with an earlier cutoff removes.
\<close>

definition reserved :: "operationKey \<Rightarrow> int \<Rightarrow> Ledger \<Rightarrow> bool" where
  "reserved k deadline l \<longleftrightarrow>
     (case fmlookup (led_records l) k of
        Some r \<Rightarrow> deadline \<le> t_nanos (or_CompletedAt r) + DefaultOperationTTL + DefaultOperationTombstoneTTL
      | None \<Rightarrow>
          (case fmlookup (led_tombstones l) k of
             Some t \<Rightarrow> deadline \<le> t_nanos (tb_TombstonedAt t) + DefaultOperationTombstoneTTL
           | None \<Rightarrow> False))"

lemma reserved_inserts: "reserved (makeOperationKey (cm_Key c)) deadline l \<Longrightarrow> \<not> inserts jcs c l d"
  by (auto simp: reserved_def inserts_def split: option.splits)

lemma reserved_GC:
  assumes inv: "ledger_inv l" and "reserved k deadline l" "t_nanos cutoff < deadline"
  shows "reserved k deadline (snd (Ledger_GC cutoff l))"
proof (cases rule: Ledger_GC_cases [of cutoff l])
  case (ok res)
  then obtain l1 where l1: "Ledger_GC cutoff l = (Inr res, l1)" by simp
  show ?thesis
    using assms(2,3)
    by (auto simp: l1 reserved_def records_after_GC [OF inv l1] tombstones_after_GC [OF inv l1]
        retained_def expire_def Time_After_def Time_Add_def split: option.splits)
qed (use assms in simp)

lemma reserved_complete:
  assumes "reserved k deadline l"
  shows "reserved k deadline (fst (snd (Ledger_complete jcs c f (l, r))))"
  using assms reserved_inserts [of c deadline l jcs]
  by (cases rule: Ledger_complete_cases [of jcs c l f r]) (auto simp: reserved_def split: option.splits)

lemma reserved_exec:
  assumes "ledger_inv (fst s)" "reserved k deadline (fst s)" "collects_before deadline [e]"
  shows "reserved k deadline (fst (ledger_exec jcs e s))"
    and "event_key e = Some k \<Longrightarrow> ledger_exec jcs e s = s"
proof -
  show "reserved k deadline (fst (ledger_exec jcs e s))"
    using assms
    by (cases s; cases e)
      (auto simp: ledger_exec_def Ledger_Complete_def Ledger_CompleteAfter_def collects_before_def
        intro: reserved_complete reserved_GC)
  have "snd (Ledger_complete jcs c f s) = s" if "makeOperationKey (cm_Key c) = k" for c f
    using complete_unchanged(1) [of jcs c "fst s" f "snd s"] reserved_inserts [of c] assms(2) that by auto
  then show "event_key e = Some k \<Longrightarrow> ledger_exec jcs e s = s"
    by (cases e) (auto simp: event_key_def ledger_exec_def Ledger_Complete_def Ledger_CompleteAfter_def)
qed

lemma reserved_run:
  assumes "ledger_inv (fst s)" "reserved k deadline (fst s)" "collects_before deadline es"
  shows "run (ledger_exec jcs) es s = run (ledger_exec jcs) (filter (\<lambda>e. event_key e \<noteq> Some k) es) s"
  using assms
proof (induction es arbitrary: s)
  case (Cons e es)
  then have "collects_before deadline [e]" "collects_before deadline es"
    by (auto simp: collects_before_def)
  with reserved_exec [of s k deadline e jcs] ledger_inv_exec [of s jcs e] Cons show ?case by auto
qed simp

text \<open>While it is retained, a record stays exactly as it was written.\<close>

lemma record_kept_exec:
  assumes "ledger_inv (fst s)" "fmlookup (led_records (fst s)) k = Some r"
    and "collects_before (t_nanos (or_CompletedAt r) + DefaultOperationTTL) [e]"
  shows "fmlookup (led_records (fst (ledger_exec jcs e s))) k = Some r"
proof -
  have kept: "fmlookup (led_records (fst (snd (Ledger_complete jcs c f s)))) k = Some r" for c f
    using assms(2)
    by (cases s; cases rule: Ledger_complete_cases [of jcs c "fst s" f "snd s"]) (auto simp: inserts_def)
  have "fmlookup (led_records (snd (Ledger_GC cutoff (fst s)))) k = Some r"
    if "t_nanos cutoff < t_nanos (or_CompletedAt r) + DefaultOperationTTL" for cutoff
    using assms(2) that ledger_invD(2) [OF assms(1)]
    by (cases rule: Ledger_GC_cases [of cutoff "fst s"]) (auto simp: retained_def Time_After_def Time_Add_def)
  with kept assms(3) show ?thesis
    by (cases e)
      (auto simp: ledger_exec_def Ledger_Complete_def Ledger_CompleteAfter_def collects_before_def)
qed

lemma record_kept_run:
  assumes "ledger_inv (fst s)" "fmlookup (led_records (fst s)) k = Some r"
    and "collects_before (t_nanos (or_CompletedAt r) + DefaultOperationTTL) es"
  shows "fmlookup (led_records (fst (run (ledger_exec jcs) es s))) k = Some r"
  using assms
proof (induction es arbitrary: s)
  case (Cons e es)
  then have "collects_before (t_nanos (or_CompletedAt r) + DefaultOperationTTL) [e]"
      "collects_before (t_nanos (or_CompletedAt r) + DefaultOperationTTL) es"
    by (auto simp: collects_before_def)
  with record_kept_exec [of s k r e jcs] ledger_inv_exec [of s jcs e] Cons show ?case by auto
qed simp

lemma complete_again:
  assumes inv: "ledger_inv l" and k: "makeOperationKey (cm_Key c) = k"
    and "fmlookup (led_records l) k = Some r" "OperationKey_Validate (cm_Key c) = None"
    and "Request_Digest jcs (cm_Request c) = Inr d"
  shows "Ledger_complete jcs c f (l, x) = (replay r d, (l, x))"
  using assms ledger_invD(6) [OF inv] by (simp add: Ledger_complete_def Let_def map_has_def)

lemma complete_appliedD:
  assumes "Ledger_complete jcs c f (l, x) = (Inr res, (l1, x1))" "cr_Disposition res = CompletionApplied"
  obtains d where "inserts jcs c l d" "cr_Record res = completion_record c d"
    "fmlookup (led_records l1) (makeOperationKey (cm_Key c)) = Some (completion_record c d)"
proof (cases rule: Ledger_complete_cases [of jcs c l f x])
  case unchanged
  with complete_unchanged(2) [OF unchanged(1), of f x res] assms show thesis by simp
qed (use assms that in auto)


subsection \<open>Properties\<close>

text \<open>A request, and the record of its successful completion.\<close>

definition op_demo_request :: OperationRequest where
  "op_demo_request =
    \<lparr>oq_Method = ''put'', oq_Path = ''/v1/functions/f1'',
     oq_Preconditions = \<lparr>pc_IfNoneMatch = True, pc_ExpectedResourceRevision = None,
       pc_ExpectedActiveRouteRevision = None\<rparr>,
     oq_BodyPresent = False, oq_Body = None, oq_ArtifactDigest = None\<rparr>"

definition op_demo_completion :: Completion where
  "op_demo_completion =
    \<lparr>cm_Key = \<lparr>ok_Principal = ''ops'', ok_Namespace = ''default'', ok_OperationID = ''op-1''\<rparr>,
     cm_Request = op_demo_request,
     cm_Outcome = \<lparr>oc_Status = OutcomeSucceeded, oc_Failure = None,
       oc_AffectedResources = [\<lparr>af_Kind = ''function'', af_ID = ''f1'', af_ResourceRevision = Some 1,
         af_RouteRevision = None\<rparr>], oc_CredentialIssued = False\<rparr>,
     cm_CompletedAt = \<lparr>t_nanos = 5, t_offset = 0\<rparr>, cm_AppliedIndex = 7\<rparr>"

definition op_demo_digest :: SHA256 where
  "op_demo_digest = (case Request_Digest Inr op_demo_request of Inl _ \<Rightarrow> '''' | Inr d \<Rightarrow> d)"

lemmas op_demo_text = matches_class_def is_token_char_def is_id_char_def is_upper_def is_lower_def
  is_digit_def byte_val_def rune_size.simps

lemma op_demo_path: "canonicalPath ''/v1/functions/f1'' = Inr ''/v1/functions/f1''"
  unfolding canonicalPath_iff
proof (intro conjI exI)
  show "utf8_valid ''/v1/functions/f1''" by (simp add: op_demo_text)
  show "''/v1/functions/f1'' = path_escape ''/v1/functions/f1''"
    by (simp add: path_safe_def op_demo_text)
qed simp_all

lemma op_demo_digest: "Request_Digest Inr op_demo_request = Inr op_demo_digest"
proof -
  have "\<exists>m. canonicalMethod ''put'' = Inr m" by (simp add: canonicalMethod_def op_demo_text)
  then have "\<exists>d. Request_Digest Inr op_demo_request = Inr d"
    by (auto simp: Request_Digest_def op_demo_request_def op_demo_path Preconditions_validate_def
        validateBody_def marshal_canonicalRequest_def CanonicalJSON_def)
  then show ?thesis by (auto simp: op_demo_digest_def)
qed

lemma op_demo_inserts: "inserts Inr op_demo_completion NewLedger op_demo_digest"
  by (simp add: inserts_def op_demo_digest op_demo_completion_def NewLedger_def OperationKey_Validate_def
      validateForInsert_def Outcome_validate_def AffectedResource_validate_def validateUTC_def
      Time_IsZero_def idPattern_def op_demo_text)

definition op_demo_ledger :: Ledger where
  "op_demo_ledger = NewLedger\<lparr>led_records := fmupd (''ops'', ''default'', ''op-1'')
     (completion_record op_demo_completion op_demo_digest) fmempty\<rparr>"

lemma op_demo_key: "makeOperationKey (cm_Key op_demo_completion) = (''ops'', ''default'', ''op-1'')"
  by (simp add: makeOperationKey_def op_demo_completion_def)

lemma op_demo_complete:
  "Ledger_complete Inr op_demo_completion (Some (\<lambda>n. (None, Suc n))) (NewLedger, 0) =
    (Inr \<lparr>cr_Disposition = CompletionApplied, cr_Record = completion_record op_demo_completion op_demo_digest\<rparr>,
     (op_demo_ledger, 1))"
  by (simp add: complete_inserts [OF op_demo_inserts] apply_callback_def op_demo_key op_demo_ledger_def)
    (simp add: NewLedger_def)

lemma op_demo_reachable:
  "reachable ledger_initial (ledger_exec Inr) (NewLedger, 0 :: nat)"
  "reachable ledger_initial (ledger_exec Inr) (op_demo_ledger, 1 :: nat)"
proof -
  show new: "reachable ledger_initial (ledger_exec Inr) (NewLedger, 0 :: nat)"
    by (rule reachable_initial) (simp add: ledger_initial_def)
  from reachable_exec [OF this, of "EvCompleteAfter op_demo_completion (\<lambda>n. (None, Suc n))"]
  show "reachable ledger_initial (ledger_exec Inr) (op_demo_ledger, 1 :: nat)"
    by (simp add: ledger_exec_def Ledger_CompleteAfter_def op_demo_complete)
qed

lemma op_demo_record:
  "fmlookup (led_records op_demo_ledger) (''ops'', ''default'', ''op-1'')
    = Some (completion_record op_demo_completion op_demo_digest)"
  "or_CompletedAt (completion_record op_demo_completion op_demo_digest) = \<lparr>t_nanos = 5, t_offset = 0\<rparr>"
  by (simp_all add: op_demo_ledger_def completion_record_def op_demo_completion_def)

text \<open>
  C2: an operation takes effect once. After its completion has been recorded, calls of
  \<open>Complete\<close> and \<open>CompleteAfter\<close> for the same key do nothing, whatever request they carry and
  whatever callback they bring: leaving them out of the history leads to the same ledger and
  the same resources. This holds as long as no collection runs with a cutoff that is the
  retention of the record (24 hours) and of its tombstone (7 days) after the completion.
\<close>

theorem operation_applied_once:
  assumes "reachable ledger_initial (ledger_exec jcs) (l, r)"
    and "fmlookup (led_records l) k = Some record"
    and "collects_before
      (t_nanos (or_CompletedAt record) + DefaultOperationTTL + DefaultOperationTombstoneTTL) es"
  shows "run (ledger_exec jcs) es (l, r) =
    run (ledger_exec jcs) (filter (\<lambda>e. event_key e \<noteq> Some k) es) (l, r)"
  using ledger.inv_reachable [OF assms(1)] assms(2,3)
  by (intro reserved_run) (auto simp: reserved_def)

theorem operation_applied_once_witness:
  "snd (run (ledger_exec Inr)
     [EvCompleteAfter op_demo_completion (\<lambda>n. (None, Suc n)),
      EvGC \<lparr>t_nanos = 2 * DefaultOperationTTL, t_offset = 0\<rparr>,
      EvCompleteAfter op_demo_completion (\<lambda>n. (None, Suc n))] (op_demo_ledger, 1 :: nat)) = 1"
  using operation_applied_once [OF op_demo_reachable(2) op_demo_record(1),
      of "[EvCompleteAfter op_demo_completion (\<lambda>n. (None, Suc n)),
        EvGC \<lparr>t_nanos = 2 * DefaultOperationTTL, t_offset = 0\<rparr>,
        EvCompleteAfter op_demo_completion (\<lambda>n. (None, Suc n))]"]
  by (simp add: collects_before_def op_demo_record event_key_def op_demo_key)
    (simp add: ledger_exec_def)

text \<open>
  C27: a retry of a completed operation. Within the retention of its record, a call with the
  same key is answered from the record and changes nothing: with the recorded outcome if its
  request has the recorded digest (marked as not replayable if the outcome carried a
  credential), and with a conflict if it has another digest.
\<close>

theorem retry_replays:
  assumes "reachable ledger_initial (ledger_exec jcs) (l, x)"
    and "Ledger_complete jcs c f (l, x) = (Inr res, s1)" "cr_Disposition res = CompletionApplied"
    and "collects_before (t_nanos (cm_CompletedAt c) + DefaultOperationTTL) es"
    and "cm_Key c' = cm_Key c" "Request_Digest jcs (cm_Request c') = Inr d'"
  shows "Ledger_complete jcs c' f' (run (ledger_exec jcs) es s1) =
    (if d' \<noteq> or_Digest (cr_Record res)
       then Inl (classified CodeConflict ''operation id was already used with a different request'')
     else Inr \<lparr>cr_Disposition = (if oc_CredentialIssued (cm_Outcome c)
                 then CompletionCredentialNotReplayable else CompletionReplay),
               cr_Record = cr_Record res\<rparr>,
     run (ledger_exec jcs) es s1)"
proof -
  obtain l1 x1 where s1: "s1 = (l1, x1)" by fastforce
  from assms(2,3) obtain d where d: "inserts jcs c l d" "cr_Record res = completion_record c d"
      "fmlookup (led_records l1) (makeOperationKey (cm_Key c)) = Some (completion_record c d)"
    unfolding s1 by (rule complete_appliedD)
  have inv: "ledger_inv l1"
    using ledger_inv_complete [of l jcs c f x] ledger.inv_reachable [OF assms(1)] assms(2) s1 by simp
  obtain l2 x2 where s2: "run (ledger_exec jcs) es s1 = (l2, x2)" by fastforce
  have "ledger_inv l2" using ledger.inv_run [of s1 jcs es] inv s1 s2 by simp
  moreover have "fmlookup (led_records l2) (makeOperationKey (cm_Key c')) = Some (completion_record c d)"
    using record_kept_run [of s1 _ "completion_record c d" es jcs] inv d(3) s1 s2 assms(4,5)
    by (simp add: completion_record_def)
  ultimately have "Ledger_complete jcs c' f' (l2, x2) = (replay (completion_record c d) d', (l2, x2))"
    using complete_again [OF _ refl, of l2 c' "completion_record c d"] d(1) assms(5,6)
    by (simp add: inserts_def)
  then show ?thesis
    by (auto simp: s2 d(2) replay_def) (auto simp: completion_record_def cloneOutcome_def)
qed

theorem retry_replays_witness:
  "Ledger_complete Inr op_demo_completion None (op_demo_ledger, 1 :: nat) =
    (Inr \<lparr>cr_Disposition = CompletionReplay, cr_Record = completion_record op_demo_completion op_demo_digest\<rparr>,
     (op_demo_ledger, 1))"
  using retry_replays [OF op_demo_reachable(1) op_demo_complete, of "[]" op_demo_completion op_demo_digest None]
  by (simp add: collects_before_def op_demo_digest)
    (simp add: op_demo_completion_def op_demo_digest completion_record_def)

text \<open>
  The ledger holds at most 100000 records and tombstones together, and no key has both;
  a completion never overwrites another.
\<close>

theorem ledger_bounded:
  assumes "reachable ledger_initial (ledger_exec jcs) (l, r)"
  shows "int (lt_Records (Ledger_Status l)) + int (lt_Tombstones (Ledger_Status l)) \<le> 100000
    \<and> (\<forall>k. \<not> (map_has (led_records l) k \<and> map_has (led_tombstones l) k))"
proof -
  have inv: "ledger_inv l" using ledger.inv_reachable [OF assms] by simp
  have "\<not> (map_has (led_records l) k \<and> map_has (led_tombstones l) k)" for k
    using ledger_invD(6) [OF inv, of k] by (cases "fmlookup (led_records l) k") (simp_all add: map_has_def)
  with ledger_invD(4) [OF inv] show ?thesis by (simp add: Ledger_Status_def)
qed

theorem ledger_bounded_witness:
  "int (lt_Records (Ledger_Status op_demo_ledger)) + int (lt_Tombstones (Ledger_Status op_demo_ledger)) \<le> 100000"
  using ledger_bounded [OF op_demo_reachable(2)] by simp

text \<open>
  \<open>canonicalPath\<close> accepts exactly the texts of at most 4096 bytes that are the percent
  encoding of an absolute path of valid UTF-8, and returns them unchanged. So a path has one
  accepted spelling.
\<close>

theorem canonical_path_exact:
  "canonicalPath value = Inr p \<longleftrightarrow>
     p = value \<and> length value \<le> MaxOperationPathBytes
     \<and> (\<exists>t. utf8_valid (CHR ''/'' # t) \<and> value = path_escape (CHR ''/'' # t)
          \<and> path_unescape value = Some (CHR ''/'' # t))"
  unfolding canonicalPath_iff using path_unescape_escape by metis

end
