(* ===== verification/GoNet.thy ===== *)
theory GoNet
  imports GoText
begin

text \<open>
  The parts of \<^verbatim>\<open>strings\<close>, \<^verbatim>\<open>net\<close>, \<^verbatim>\<open>net/netip\<close> and \<^verbatim>\<open>strconv\<close> that the check of an endpoint
  address uses: trimming, splitting, \<open>SplitHostPort\<close>, \<open>ParseUint\<close> and whether \<open>ParseAddr\<close>
  succeeds.
\<close>

subsection \<open>Strings\<close>

fun split_on :: "char \<Rightarrow> string \<Rightarrow> string list" where
  "split_on sep [] = [[]]"
| "split_on sep (c # cs) =
    (if c = sep then [] # split_on sep cs
     else case split_on sep cs of [] \<Rightarrow> [[c]] | part # parts \<Rightarrow> (c # part) # parts)"

text \<open>The encodings of the characters that \<open>unicode.IsSpace\<close> accepts.\<close>

definition unicode_spaces :: "string list" where
  "unicode_spaces =
    map (\<lambda>b. [b]) [CHR 0x09, CHR 0x0A, CHR 0x0B, CHR 0x0C, CHR 0x0D, CHR 0x20]
    @ [[CHR 0xC2, CHR 0x85], [CHR 0xC2, CHR 0xA0], [CHR 0xE1, CHR 0x9A, CHR 0x80]]
    @ map (\<lambda>b. [CHR 0xE2, CHR 0x80, b])
        [CHR 0x80, CHR 0x81, CHR 0x82, CHR 0x83, CHR 0x84, CHR 0x85, CHR 0x86, CHR 0x87, CHR 0x88,
         CHR 0x89, CHR 0x8A, CHR 0xA8, CHR 0xA9, CHR 0xAF]
    @ [[CHR 0xE2, CHR 0x81, CHR 0x9F], [CHR 0xE3, CHR 0x80, CHR 0x80]]"

text \<open>\<open>strings.TrimSpace(s) != s\<close>, for valid UTF-8.\<close>

definition trims :: "string \<Rightarrow> bool" where
  "trims s \<longleftrightarrow> list_ex (\<lambda>w. take (length w) s = w \<or> drop (length s - length w) s = w) unicode_spaces"

subsection \<open>Hosts and ports\<close>

abbreviation colon :: char where "colon \<equiv> CHR '':''"

text \<open>The text before and after the last colon.\<close>

definition split_last_colon :: "string \<Rightarrow> (string \<times> string) option" where
  "split_last_colon s =
    (case dropWhile (\<lambda>c. c \<noteq> colon) (rev s) of
       [] \<Rightarrow> None
     | _ # front \<Rightarrow> Some (rev front, rev (takeWhile (\<lambda>c. c \<noteq> colon) (rev s))))"

definition SplitHostPort :: "string \<Rightarrow> (string \<times> string) option" where
  "SplitHostPort hostport =
    (case split_last_colon hostport of
       None \<Rightarrow> None
     | Some (front, port) \<Rightarrow>
         if hd hostport = CHR ''['' then
           (let host = takeWhile (\<lambda>c. c \<noteq> CHR '']'') (tl hostport) in
            if CHR '']'' \<notin> set (tl hostport) then None
            else if front \<noteq> [CHR ''[''] @ host @ [CHR '']''] then None
            else if CHR ''['' \<in> set (tl hostport) \<or> CHR '']'' \<in> set port then None
            else Some (host, port))
         else if colon \<in> set front then None
         else if CHR ''['' \<in> set hostport \<or> CHR '']'' \<in> set hostport then None
         else Some (front, port))"

text \<open>\<open>strconv.ParseUint(s, 10, 16)\<close>\<close>

definition ParseUint16 :: "string \<Rightarrow> int option" where
  "ParseUint16 s =
    (if s \<noteq> [] \<and> list_all is_digit s \<and> dec_value s \<le> 65535 then Some (dec_value s) else None)"

subsection \<open>Addresses\<close>

definition is_hex :: "char \<Rightarrow> bool" where
  "is_hex c \<longleftrightarrow> is_digit c \<or> (97 \<le> byte_val c \<and> byte_val c \<le> 102) \<or> (65 \<le> byte_val c \<and> byte_val c \<le> 70)"

definition ipv4_octet :: "string \<Rightarrow> bool" where
  "ipv4_octet s \<longleftrightarrow>
     s \<noteq> [] \<and> list_all is_digit s \<and> (hd s = CHR ''0'' \<longrightarrow> length s = 1) \<and> dec_value s \<le> 255"

definition parseIPv4Fields :: "string \<Rightarrow> bool" where
  "parseIPv4Fields s \<longleftrightarrow> length (split_on (CHR ''.'') s) = 4 \<and> list_all ipv4_octet (split_on (CHR ''.'') s)"

text \<open>
  The loop of \<open>parseIPv6\<close>: the number of 16-bit groups still to fill, whether an ellipsis has
  been seen, and the text left.
\<close>

fun ipv6_loop :: "nat \<Rightarrow> bool \<Rightarrow> string \<Rightarrow> (nat \<times> bool \<times> string) option" where
  "ipv6_loop 0 ellipsis s = Some (0, ellipsis, s)"
| "ipv6_loop (Suc k) ellipsis s =
    (let off = length (takeWhile is_hex s); rest = dropWhile is_hex s in
     if off = 0 \<or> off > 4 then None
     else case rest of
         [] \<Rightarrow> Some (k, ellipsis, [])
       | c # cs \<Rightarrow>
           if c = CHR ''.'' then
             (if \<not> ellipsis \<and> k \<noteq> 1 \<or> k = 0 \<or> \<not> parseIPv4Fields s then None
              else Some (k - 1, ellipsis, []))
           else if c \<noteq> colon then None
           else case cs of
               [] \<Rightarrow> None
             | d # ds \<Rightarrow>
                 if d \<noteq> colon then ipv6_loop k ellipsis cs
                 else if ellipsis then None
                 else if ds = [] then Some (k, True, [])
                 else ipv6_loop k True ds)"

definition parseIPv6 :: "string \<Rightarrow> bool" where
  "parseIPv6 s =
    (let addr = takeWhile (\<lambda>c. c \<noteq> CHR ''%'') s; zone = dropWhile (\<lambda>c. c \<noteq> CHR ''%'') s in
     if zone = ''%'' then False
     else if addr = ''::'' then True
     else case (if take 2 addr = ''::'' then ipv6_loop 8 True (drop 2 addr) else ipv6_loop 8 False addr) of
         None \<Rightarrow> False
       | Some (left, ellipsis, rest) \<Rightarrow> rest = [] \<and> (if left > 0 then ellipsis else \<not> ellipsis))"

definition ParseAddr_ok :: "string \<Rightarrow> bool" where
  "ParseAddr_ok s =
    (case find (\<lambda>c. c \<in> set ''.:%'') s of
       None \<Rightarrow> False
     | Some c \<Rightarrow> if c = CHR ''.'' then parseIPv4Fields s else if c = colon then parseIPv6 s else False)"

end
