(* ===== verification/Discovery.thy ===== *)
theory Discovery
  imports ControlAssignment GoNet
begin

text \<open>
  Package \<^verbatim>\<open>internal/discovery\<close>: the complete, checksummed serving view of one Function, its
  builder, and the publisher that numbers the views of one discovery epoch. The types
  \<^verbatim>\<open>AuthPolicy\<close> and \<^verbatim>\<open>AssignmentDesiredState\<close> of the package have the values of those of the
  control plane and are the same here. Receivers and the builder of a publisher are not nil.
\<close>

subsection \<open>Data (types.go)\<close>

abbreviation ServingSchemaVersion :: string where "ServingSchemaVersion \<equiv> ''minicloud-serving-v1''"
abbreviation ServingChecksumDomain :: string where "ServingChecksumDomain \<equiv> ''serving-snapshot''"
abbreviation ServingChecksumVersion :: string where "ServingChecksumVersion \<equiv> ''v1''"
abbreviation DefaultMaxEndpoints :: int where "DefaultMaxEndpoints \<equiv> 1000"
abbreviation HardMaxEndpoints :: int where "HardMaxEndpoints \<equiv> 1000"
abbreviation maxEndpointAddressBytes :: nat where "maxEndpointAddressBytes \<equiv> 512"

datatype EndpointState = EndpointReady | EndpointStateOther string

datatype ExclusionReason =
    ReasonFunctionNotActive | ReasonTriggerDisabled | ReasonRouteDisabled | ReasonInvalidAssignment
  | ReasonAssignmentNotAssigned | ReasonAuthorizationNotInstalled | ReasonAuthorizationMismatch
  | ReasonAssignmentModeNotNormal | ReasonInvalidWorkerObservation | ReasonWorkerSessionMismatch
  | ReasonWorkerNotSchedulable | ReasonWorkerNotReady | ReasonWorkerDraining | ReasonReplicaNotReady
  | ReasonRouteTargetMissing | ReasonAdmissionEpochMismatch | ReasonDeploymentGenerationMismatch
  | ReasonPolicyDigestMismatch | ReasonInvalidAddress

record DiscoveryFunction =
  df_ID :: string
  df_Name :: string
  df_ResourceRevision :: u64
  df_Lifecycle :: FunctionLifecycle

record DiscoveryTrigger =
  dt_ID :: string
  dt_FunctionID :: string
  dt_ResourceRevision :: u64
  dt_Enabled :: bool
  dt_AuthPolicy :: AuthPolicy
  dt_TokenVerifierDigest :: "SHA256 option"

text \<open>A nil slice of targets or salt bytes becomes an empty one in \<open>cloneRoute\<close>.\<close>

record DiscoveryRoute =
  drt_Present :: bool
  drt_FunctionID :: string
  drt_ResourceRevision :: u64
  drt_RouteRevision :: u64
  drt_Enabled :: bool
  drt_Targets :: "RouteTarget list"
  drt_Affinity :: AffinitySource
  drt_AffinityHeader :: string
  drt_HashVersion :: string
  drt_SaltID :: string
  drt_Salt :: string

record Endpoint =
  en_Assignment :: AssignmentIdentity
  en_Address :: string
  en_State :: EndpointState

record EndpointCandidate =
  cand_Assignment :: AssignmentIdentity
  cand_DesiredState :: AssignmentDesiredState
  cand_Worker :: WorkerSnapshot
  cand_ReplicaReady :: bool
  cand_Authorization :: "Authorization option"
  cand_Address :: string

record CandidateDecision =
  dcn_AssignmentID :: string
  dcn_Included :: bool
  dcn_Reasons :: "ExclusionReason list"

text \<open>A nil slice of endpoints is \<open>None\<close>: \<open>Validate\<close> refuses it.\<close>

record ServingSnapshot =
  sn_SchemaVersion :: string
  sn_FunctionID :: string
  sn_DiscoveryEpoch :: u64
  sn_ServingSequence :: u64
  sn_GeneratedAt :: Time
  sn_Function :: DiscoveryFunction
  sn_Trigger :: DiscoveryTrigger
  sn_Route :: DiscoveryRoute
  sn_Endpoints :: "Endpoint list option"
  sn_Checksum :: SHA256

record DiscoveryInput =
  in_DiscoveryEpoch :: u64
  in_ServingSequence :: u64
  in_GeneratedAt :: Time
  in_Function :: DiscoveryFunction
  in_Trigger :: DiscoveryTrigger
  in_Route :: DiscoveryRoute
  in_Candidates :: "EndpointCandidate list"

record DiscoveryResult =
  dres_Snapshot :: ServingSnapshot
  dres_Candidates :: "CandidateDecision list"

definition snapshot_endpoints :: "ServingSnapshot \<Rightarrow> Endpoint list" where
  "snapshot_endpoints s = (case sn_Endpoints s of None \<Rightarrow> [] | Some es \<Rightarrow> es)"

subsection \<open>Addresses and fences (builder.go)\<close>

text \<open>\<open>^[A-Za-z0-9.-]{1,253}$\<close>\<close>

definition hostnamePattern :: "string \<Rightarrow> bool" where
  "hostnamePattern = matches_class (\<lambda>c. is_upper c \<or> is_lower c \<or> is_digit c \<or> c \<in> set ''.-'') 1 253"

definition validEndpointAddress :: "string \<Rightarrow> bool" where
  "validEndpointAddress address =
    (if address = '''' \<or> length address > maxEndpointAddressBytes \<or> \<not> utf8_valid address \<or> trims address
       then False
     else case SplitHostPort address of
         None \<Rightarrow> False
       | Some (host, portText) \<Rightarrow>
           if host = '''' then False
           else case ParseUint16 portText of
               None \<Rightarrow> False
             | Some port \<Rightarrow>
                 if port = 0 then False
                 else if ParseAddr_ok host then True
                 else if \<not> hostnamePattern host then False
                 else list_all (\<lambda>label. label \<noteq> '''' \<and> length label \<le> 63
                        \<and> hd label \<noteq> CHR ''-'' \<and> last label \<noteq> CHR ''-'') (split_on (CHR ''.'') host))"

definition Endpoint_Validate :: "Endpoint \<Rightarrow> error option" where
  "Endpoint_Validate e = first_error
    [fail_if (AssignmentIdentity_validate (en_Assignment e) \<noteq> None)
       (Invalid ''endpoint.assignment'' ''contains an invalid Assignment fence''),
     fail_if (ai_Mode (en_Assignment e) \<noteq> ModeNormal \<or> en_State e \<noteq> EndpointReady)
       (Invalid ''endpoint'' ''is not a normal ready Endpoint''),
     fail_if (\<not> validEndpointAddress (en_Address e))
       (Invalid ''endpoint.address'' ''is not a valid internal address'')]"

definition routeMismatchReasons :: "RouteTarget list \<Rightarrow> AssignmentIdentity \<Rightarrow> ExclusionReason list" where
  "routeMismatchReasons targets a =
    (if \<not> list_ex (\<lambda>t. rt_VersionID t = ai_VersionID a) targets then [ReasonRouteTargetMissing]
     else case find (\<lambda>t. rt_VersionID t = ai_VersionID a
                     \<and> rt_DeploymentGeneration t = ai_DeploymentGeneration a) targets of
         None \<Rightarrow> [ReasonDeploymentGenerationMismatch]
       | Some target \<Rightarrow>
           (if rt_AdmissionEpoch target \<noteq> ai_AdmissionEpoch a then [ReasonAdmissionEpochMismatch] else [])
           @ (if rt_EffectivePolicyDigest target \<noteq> ai_PolicyDigest a then [ReasonPolicyDigestMismatch] else []))"

definition exclusionReasons :: "ServingSnapshot \<Rightarrow> EndpointCandidate \<Rightarrow> ExclusionReason list" where
  "exclusionReasons s c =
    (let a = cand_Assignment c; w = cand_Worker c in
     (if df_Lifecycle (sn_Function s) \<noteq> FunctionActive then [ReasonFunctionNotActive] else [])
     @ (if \<not> dt_Enabled (sn_Trigger s) then [ReasonTriggerDisabled] else [])
     @ (if \<not> drt_Present (sn_Route s) \<or> \<not> drt_Enabled (sn_Route s) then [ReasonRouteDisabled] else [])
     @ (if AssignmentIdentity_validate a \<noteq> None then [ReasonInvalidAssignment] else [])
     @ (if cand_DesiredState c \<noteq> AssignmentAssigned then [ReasonAssignmentNotAssigned] else [])
     @ (case cand_Authorization c of
          None \<Rightarrow> [ReasonAuthorizationNotInstalled]
        | Some authorization \<Rightarrow>
            if Authorization_validate HardMaxTTL authorization \<noteq> None
               \<or> if_Assignment (au_Fence authorization) \<noteq> a
               \<or> if_DiscoveryEpoch (au_Fence authorization) \<noteq> sn_DiscoveryEpoch s
              then [ReasonAuthorizationMismatch] else [])
     @ (if ai_Mode a \<noteq> ModeNormal then [ReasonAssignmentModeNotNormal] else [])
     @ (if WorkerSnapshot_validate w \<noteq> None then [ReasonInvalidWorkerObservation] else [])
     @ (if wk_Session w \<noteq> ai_Worker a then [ReasonWorkerSessionMismatch] else [])
     @ (if wk_Intent w \<noteq> IntentSchedulable then [ReasonWorkerNotSchedulable] else [])
     @ (if wk_State w \<noteq> SessionReady then [ReasonWorkerNotReady] else [])
     @ (if wk_Drain w \<noteq> DrainNotDraining then [ReasonWorkerDraining] else [])
     @ (if \<not> cand_ReplicaReady c then [ReasonReplicaNotReady] else [])
     @ routeMismatchReasons (drt_Targets (sn_Route s)) a
     @ (if \<not> validEndpointAddress (cand_Address c) then [ReasonInvalidAddress] else []))"

subsection \<open>Validation and checksum (checksum.go)\<close>

definition validateSnapshotHeader :: "ServingSnapshot \<Rightarrow> error option" where
  "validateSnapshotHeader s = first_error
    [fail_if (sn_SchemaVersion s \<noteq> ServingSchemaVersion) (Invalid ''schema_version'' ''is not supported''),
     fail_if (\<not> identifierPattern (sn_FunctionID s)) (Invalid ''function_id'' ''must be a valid identifier''),
     fail_if (sn_DiscoveryEpoch s = 0) (Invalid ''discovery_epoch'' ''must be greater than zero''),
     fail_if (sn_ServingSequence s = 0) (Invalid ''serving_sequence'' ''must be greater than zero''),
     fail_if (Time_IsZero (sn_GeneratedAt s) \<or> \<not> isUTC (sn_GeneratedAt s))
       (Invalid ''generated_at'' ''must be a non-zero UTC time'')]"

definition validateFunction :: "DiscoveryFunction \<Rightarrow> error option" where
  "validateFunction f = first_error
    [fail_if (\<not> identifierPattern (df_ID f) \<or> \<not> functionNamePattern (df_Name f))
       (Invalid ''function'' ''contains an invalid ID or name''),
     fail_if (df_ResourceRevision f = 0) (Invalid ''function.resource_revision'' ''must be greater than zero''),
     fail_if (\<not> FunctionLifecycle_valid (df_Lifecycle f)) (Invalid ''function.lifecycle'' ''is not supported'')]"

definition validateHTTPTrigger :: "DiscoveryTrigger \<Rightarrow> string \<Rightarrow> error option" where
  "validateHTTPTrigger t functionID = first_error
    [fail_if (\<not> identifierPattern (dt_ID t) \<or> dt_FunctionID t \<noteq> functionID)
       (Invalid ''http_trigger'' ''contains an invalid ID or Function reference''),
     fail_if (dt_ResourceRevision t = 0)
       (Invalid ''http_trigger.resource_revision'' ''must be greater than zero''),
     (case dt_AuthPolicy t of
        AuthPolicyPublic \<Rightarrow> fail_if (dt_TokenVerifierDigest t \<noteq> None)
          (Invalid ''http_trigger.token_verifier_digest'' ''must be absent for public auth'')
      | AuthPolicyToken \<Rightarrow>
          (case dt_TokenVerifierDigest t of
             None \<Rightarrow> Some (Invalid ''http_trigger.token_verifier_digest'' ''is required for token auth'')
           | Some d \<Rightarrow> fail_if (bad_digest d)
               (Invalid ''http_trigger.token_verifier_digest'' ''must be a lowercase SHA-256 digest''))
      | AuthPolicyOther _ \<Rightarrow> Some (Invalid ''http_trigger.auth_policy'' ''is not supported''))]"

text \<open>The loop over the targets, with the running 32-bit total and the keys seen.\<close>

fun validateRoute_targets :: "u32 \<Rightarrow> string fset \<Rightarrow> RouteTarget list \<Rightarrow> error + u32" where
  "validateRoute_targets weight seen [] = Inr weight"
| "validateRoute_targets weight seen (t # ts) =
    (if \<not> identifierPattern (rt_VersionID t) \<or> rt_AdmissionEpoch t = 0 \<or> rt_DeploymentGeneration t = 0
        \<or> rt_WeightBasisPoints t = 0 \<or> rt_WeightBasisPoints t > TotalRouteWeightBasisPoints
       then Inl (Invalid ''route.targets'' ''contains an invalid target'')
     else if bad_digest (rt_EffectivePolicyDigest t)
       then Inl (Invalid ''route.targets'' ''contains an invalid policy digest'')
     else if target_key t |\<in>| seen
       then Inl (Invalid ''route.targets'' ''contains a duplicate target'')
     else validateRoute_targets (weight + rt_WeightBasisPoints t) (finsert (target_key t) seen) ts)"

definition validateRoute :: "DiscoveryRoute \<Rightarrow> string \<Rightarrow> error option" where
  "validateRoute r functionID =
    (if drt_FunctionID r \<noteq> functionID
       then Some (Invalid ''route.function_id'' ''must match the snapshot Function'')
     else if \<not> drt_Present r then
       fail_if (drt_ResourceRevision r \<noteq> 0 \<or> drt_RouteRevision r \<noteq> 0 \<or> drt_Enabled r \<or> drt_Targets r \<noteq> []
          \<or> drt_Affinity r \<noteq> AffinitySourceOther '''' \<or> drt_AffinityHeader r \<noteq> '''' \<or> drt_HashVersion r \<noteq> ''''
          \<or> drt_SaltID r \<noteq> '''' \<or> drt_Salt r \<noteq> '''')
         (Invalid ''route'' ''an absent Route must contain only its Function ID'')
     else first_error
       [fail_if (drt_ResourceRevision r = 0 \<or> drt_RouteRevision r = 0)
          (Invalid ''route.revision'' ''resource and Route revisions must be greater than zero''),
        fail_if (length (drt_Targets r) > MaxRouteTargets)
          (Invalid ''route.targets'' ''must not contain more than 32 entries''),
        fail_if (drt_Enabled r = (drt_Targets r = []))
          (Invalid ''route.targets'' ''must be non-empty exactly when the Route is enabled''),
        fail_if (drt_HashVersion r \<noteq> HashVersionSHA256BPSV1 \<or> \<not> identifierPattern (drt_SaltID r)
            \<or> length (drt_Salt r) \<noteq> 16)
          (Invalid ''route.hash'' ''contains an unsupported hash profile or Salt''),
        (case drt_Affinity r of
           AffinityRequestID \<Rightarrow> fail_if (drt_AffinityHeader r \<noteq> '''')
             (Invalid ''route.affinity_header'' ''is only valid for header affinity'')
         | AffinityIdempotencyKey \<Rightarrow> fail_if (drt_AffinityHeader r \<noteq> '''')
             (Invalid ''route.affinity_header'' ''is only valid for header affinity'')
         | AffinityHeader \<Rightarrow>
             fail_if (\<not> utf8_valid (drt_AffinityHeader r) \<or> \<not> httpTokenPattern (drt_AffinityHeader r))
               (Invalid ''route.affinity_header'' ''is required for header affinity'')
         | AffinitySourceOther _ \<Rightarrow> Some (Invalid ''route.affinity'' ''is not supported'')),
        (case validateRoute_targets 0 {||} (drt_Targets r) of
           Inl e \<Rightarrow> Some e
         | Inr weight \<Rightarrow> fail_if (drt_Targets r \<noteq> [] \<and> weight \<noteq> TotalRouteWeightBasisPoints)
             (Invalid ''route.targets'' ''weights must total 10000 basis points''))])"

definition compareRouteTargets :: "RouteTarget \<Rightarrow> RouteTarget \<Rightarrow> int" where
  "compareRouteTargets left right =
    (if compare_lin (rt_VersionID left) (rt_VersionID right) \<noteq> 0
       then compare_lin (rt_VersionID left) (rt_VersionID right)
     else compare_lin (rt_DeploymentGeneration left) (rt_DeploymentGeneration right))"

definition compareEndpointIdentity :: "AssignmentIdentity \<Rightarrow> AssignmentIdentity \<Rightarrow> int" where
  "compareEndpointIdentity left right =
    (if compare_lin (ai_VersionID left) (ai_VersionID right) \<noteq> 0
       then compare_lin (ai_VersionID left) (ai_VersionID right)
     else if compare_lin (ai_DeploymentGeneration left) (ai_DeploymentGeneration right) \<noteq> 0
       then compare_lin (ai_DeploymentGeneration left) (ai_DeploymentGeneration right)
     else if compare_lin (ai_AssignmentID left) (ai_AssignmentID right) \<noteq> 0
       then compare_lin (ai_AssignmentID left) (ai_AssignmentID right)
     else if compare_lin (ws_WorkerID (ai_Worker left)) (ws_WorkerID (ai_Worker right)) \<noteq> 0
       then compare_lin (ws_WorkerID (ai_Worker left)) (ws_WorkerID (ai_Worker right))
     else if compare_lin (ws_BootID (ai_Worker left)) (ws_BootID (ai_Worker right)) \<noteq> 0
       then compare_lin (ws_BootID (ai_Worker left)) (ws_BootID (ai_Worker right))
     else compare_lin (ws_SessionEpoch (ai_Worker left)) (ws_SessionEpoch (ai_Worker right)))"

definition compareEndpoints :: "Endpoint \<Rightarrow> Endpoint \<Rightarrow> int" where
  "compareEndpoints left right = compareEndpointIdentity (en_Assignment left) (en_Assignment right)"

definition compareEndpointCandidates :: "EndpointCandidate \<Rightarrow> EndpointCandidate \<Rightarrow> int" where
  "compareEndpointCandidates left right =
    compareEndpointIdentity (cand_Assignment left) (cand_Assignment right)"

text \<open>\<open>slices.IsSortedFunc\<close>\<close>

fun is_sorted_by :: "('a \<Rightarrow> 'a \<Rightarrow> int) \<Rightarrow> 'a list \<Rightarrow> bool" where
  "is_sorted_by cmp (x # y # rest) = (\<not> cmp y x < 0 \<and> is_sorted_by cmp (y # rest))"
| "is_sorted_by cmp _ = True"


text \<open>\<open>encoding/base64\<close>, as \<^verbatim>\<open>json.Marshal\<close> writes a byte slice.\<close>

definition base64_char :: "int \<Rightarrow> char" where
  "base64_char n = char_of
    (if n < 26 then 65 + n else if n < 52 then 71 + n else if n < 62 then n - 4
     else if n = 62 then 43 else 47)"

fun base64 :: "string \<Rightarrow> string" where
  "base64 [] = []"
| "base64 [a] =
    [base64_char (byte_val a div 4), base64_char (byte_val a mod 4 * 16), CHR ''='', CHR ''='']"
| "base64 [a, b] =
    [base64_char (byte_val a div 4), base64_char (byte_val a mod 4 * 16 + byte_val b div 16),
     base64_char (byte_val b mod 16 * 4), CHR ''='']"
| "base64 (a # b # c # rest) =
    [base64_char (byte_val a div 4), base64_char (byte_val a mod 4 * 16 + byte_val b div 16),
     base64_char (byte_val b mod 16 * 4 + byte_val c div 64), base64_char (byte_val c mod 64)] @ base64 rest"

fun affinity_string :: "AffinitySource \<Rightarrow> string" where
  "affinity_string AffinityRequestID = ''request_id''"
| "affinity_string AffinityIdempotencyKey = ''idempotency_key''"
| "affinity_string AffinityHeader = ''header''"
| "affinity_string (AffinitySourceOther s) = s"

fun mode_string :: "Mode \<Rightarrow> string" where
  "mode_string ModeNormal = ''normal''"
| "mode_string ModeDrainOnly = ''drain-only''"
| "mode_string (ModeOther s) = s"

fun endpoint_state_string :: "EndpointState \<Rightarrow> string" where
  "endpoint_state_string EndpointReady = ''Ready''"
| "endpoint_state_string (EndpointStateOther s) = s"

definition json_DiscoveryFunction :: "DiscoveryFunction \<Rightarrow> json" where
  "json_DiscoveryFunction f = JObj
    [(''id'', JStr (df_ID f)), (''name'', JStr (df_Name f)),
     (''resource_revision'', json_uint (df_ResourceRevision f)),
     (''lifecycle'', JStr (lifecycle_string (df_Lifecycle f)))]"

definition json_DiscoveryTrigger :: "DiscoveryTrigger \<Rightarrow> json" where
  "json_DiscoveryTrigger t = JObj
    ([(''id'', JStr (dt_ID t)), (''function_id'', JStr (dt_FunctionID t)),
      (''resource_revision'', json_uint (dt_ResourceRevision t)), (''enabled'', JBool (dt_Enabled t)),
      (''auth_policy'', JStr (policy_string (dt_AuthPolicy t)))]
     @ (case dt_TokenVerifierDigest t of None \<Rightarrow> [] | Some d \<Rightarrow> [(''token_verifier_digest'', JStr d)]))"

definition json_RouteTarget :: "RouteTarget \<Rightarrow> json" where
  "json_RouteTarget t = JObj
    [(''version_id'', JStr (rt_VersionID t)), (''admission_epoch'', json_uint (rt_AdmissionEpoch t)),
     (''deployment_generation'', json_uint (rt_DeploymentGeneration t)),
     (''effective_policy_digest'', JStr (rt_EffectivePolicyDigest t)),
     (''weight_basis_points'', json_uint (rt_WeightBasisPoints t))]"

definition json_DiscoveryRoute :: "DiscoveryRoute \<Rightarrow> json" where
  "json_DiscoveryRoute r = JObj
    ([(''present'', JBool (drt_Present r)), (''function_id'', JStr (drt_FunctionID r)),
      (''resource_revision'', json_uint (drt_ResourceRevision r)),
      (''route_revision'', json_uint (drt_RouteRevision r)), (''enabled'', JBool (drt_Enabled r)),
      (''targets'', JArr (map json_RouteTarget (drt_Targets r))),
      (''affinity_source'', JStr (affinity_string (drt_Affinity r)))]
     @ (if drt_AffinityHeader r = '''' then [] else [(''affinity_header'', JStr (drt_AffinityHeader r))])
     @ [(''hash_version'', JStr (drt_HashVersion r)), (''salt_id'', JStr (drt_SaltID r)),
        (''salt'', JStr (base64 (drt_Salt r)))])"

definition canonicalEndpointV1 :: "Endpoint \<Rightarrow> json" where
  "canonicalEndpointV1 e =
    (let identity = en_Assignment e in JObj
     [(''assignment_id'', JStr (ai_AssignmentID identity)), (''version_id'', JStr (ai_VersionID identity)),
      (''admission_epoch'', json_uint (ai_AdmissionEpoch identity)),
      (''deployment_generation'', json_uint (ai_DeploymentGeneration identity)),
      (''effective_policy_digest'', JStr (ai_PolicyDigest identity)),
      (''mode'', JStr (mode_string (ai_Mode identity))),
      (''worker_id'', JStr (ws_WorkerID (ai_Worker identity))),
      (''boot_id'', JStr (ws_BootID (ai_Worker identity))),
      (''session_epoch'', json_uint (ws_SessionEpoch (ai_Worker identity))),
      (''address'', JStr (en_Address e)), (''state'', JStr (endpoint_state_string (en_State e)))])"

definition canonicalSnapshotV1 :: "ServingSnapshot \<Rightarrow> json" where
  "canonicalSnapshotV1 s = JObj
    [(''schema_version'', JStr (sn_SchemaVersion s)), (''function_id'', JStr (sn_FunctionID s)),
     (''discovery_epoch'', json_uint (sn_DiscoveryEpoch s)),
     (''serving_sequence'', json_uint (sn_ServingSequence s)),
     (''generated_at'', JStr (RFC3339Nano (sn_GeneratedAt s))),
     (''function'', json_DiscoveryFunction (sn_Function s)),
     (''http_trigger'', json_DiscoveryTrigger (sn_Trigger s)),
     (''route'', json_DiscoveryRoute (sn_Route s)),
     (''endpoints'', JArr (map canonicalEndpointV1 (snapshot_endpoints s)))]"

definition calculateChecksum :: "canonicalizer \<Rightarrow> ServingSnapshot \<Rightarrow> error + SHA256" where
  "calculateChecksum jcs s =
    CanonicalJSON jcs ServingChecksumDomain ServingChecksumVersion (json_marshal (canonicalSnapshotV1 s))"

text \<open>The loop over the endpoints, with the Assignment IDs seen.\<close>

fun validate_endpoints :: "RouteTarget list \<Rightarrow> string fset \<Rightarrow> Endpoint list \<Rightarrow> error option" where
  "validate_endpoints targets seen [] = None"
| "validate_endpoints targets seen (e # es) = first_error
    [Endpoint_Validate e,
     fail_if (ai_AssignmentID (en_Assignment e) |\<in>| seen)
       (Invalid ''endpoints.assignment_id'' ''contains a duplicate Assignment ID''),
     fail_if (routeMismatchReasons targets (en_Assignment e) \<noteq> [])
       (Invalid ''endpoints'' ''contains an Endpoint outside the Route target fence''),
     validate_endpoints targets (finsert (ai_AssignmentID (en_Assignment e)) seen) es]"

definition ServingSnapshot_Validate :: "canonicalizer \<Rightarrow> ServingSnapshot \<Rightarrow> error option" where
  "ServingSnapshot_Validate jcs s = first_error
    [validateSnapshotHeader s,
     validateFunction (sn_Function s),
     fail_if (sn_FunctionID s \<noteq> df_ID (sn_Function s))
       (Invalid ''function_id'' ''must match the Function projection''),
     validateHTTPTrigger (sn_Trigger s) (sn_FunctionID s),
     validateRoute (sn_Route s) (sn_FunctionID s),
     fail_if (int (length (snapshot_endpoints s)) > HardMaxEndpoints)
       (Invalid ''endpoints'' ''exceeds the v1 endpoint limit''),
     fail_if (sn_Endpoints s = None) (Invalid ''endpoints'' ''must be an explicit array''),
     fail_if (\<not> is_sorted_by compareRouteTargets (drt_Targets (sn_Route s)))
       (Invalid ''route.targets'' ''must use canonical target order''),
     fail_if (\<not> is_sorted_by compareEndpoints (snapshot_endpoints s))
       (Invalid ''endpoints'' ''must use canonical endpoint order''),
     fail_if (snapshot_endpoints s \<noteq> [] \<and>
         (df_Lifecycle (sn_Function s) \<noteq> FunctionActive \<or> \<not> dt_Enabled (sn_Trigger s)
          \<or> \<not> drt_Present (sn_Route s) \<or> \<not> drt_Enabled (sn_Route s)))
       (Invalid ''endpoints'' ''must be empty when serving is disabled''),
     validate_endpoints (drt_Targets (sn_Route s)) {||} (snapshot_endpoints s),
     fail_if (bad_digest (sn_Checksum s)) (Invalid ''checksum'' ''must be a lowercase SHA-256 digest''),
     (case calculateChecksum jcs s of
        Inl e \<Rightarrow> Some e
      | Inr want \<Rightarrow> fail_if (sn_Checksum s \<noteq> want)
          (Invalid ''checksum'' ''does not match the complete serving snapshot''))]"

subsection \<open>The builder (builder.go)\<close>

definition NewBuilder :: "int \<Rightarrow> error + int" where
  "NewBuilder configured =
    (let maxEndpoints = (if configured = 0 then DefaultMaxEndpoints else configured) in
     if maxEndpoints < 1 \<or> maxEndpoints > HardMaxEndpoints
       then Inl (Opaque ''discovery endpoint limit is outside v1 bounds'')
     else Inr maxEndpoints)"

definition candidate_endpoint :: "EndpointCandidate \<Rightarrow> Endpoint" where
  "candidate_endpoint c =
    \<lparr>en_Assignment = cand_Assignment c, en_Address = cand_Address c, en_State = EndpointReady\<rparr>"

text \<open>The loop over the sorted candidates, with the decisions and the endpoints so far.\<close>

fun build_loop ::
  "int \<Rightarrow> ServingSnapshot \<Rightarrow> string fset \<Rightarrow> CandidateDecision list \<Rightarrow> Endpoint list \<Rightarrow> EndpointCandidate list \<Rightarrow>
     error + CandidateDecision list \<times> Endpoint list" where
  "build_loop maxEndpoints s seen decisions endpoints [] = Inr (decisions, endpoints)"
| "build_loop maxEndpoints s seen decisions endpoints (c # cs) =
    (let assignmentID = ai_AssignmentID (cand_Assignment c);
         reasons = exclusionReasons s c;
         decision = \<lparr>dcn_AssignmentID = assignmentID, dcn_Included = (reasons = []), dcn_Reasons = reasons\<rparr> in
     if \<not> identifierPattern assignmentID
       then Inl (Invalid ''candidates.assignment_id'' ''must be a valid identifier'')
     else if assignmentID |\<in>| seen
       then Inl (Invalid ''candidates.assignment_id'' ''contains a duplicate Assignment ID'')
     else if reasons \<noteq> []
       then build_loop maxEndpoints s (finsert assignmentID seen) (decisions @ [decision]) endpoints cs
     else if int (length endpoints) \<ge> maxEndpoints
       then Inl (Problem CodeOverloaded ''serving endpoint limit exceeded'' '''')
     else build_loop maxEndpoints s (finsert assignmentID seen) (decisions @ [decision])
            (endpoints @ [candidate_endpoint c]) cs)"

definition input_snapshot :: "DiscoveryInput \<Rightarrow> ServingSnapshot" where
  "input_snapshot i =
    \<lparr>sn_SchemaVersion = ServingSchemaVersion, sn_FunctionID = df_ID (in_Function i),
     sn_DiscoveryEpoch = in_DiscoveryEpoch i, sn_ServingSequence = in_ServingSequence i,
     sn_GeneratedAt = Time_Round0 (in_GeneratedAt i), sn_Function = in_Function i,
     sn_Trigger = in_Trigger i, sn_Route = in_Route i, sn_Endpoints = Some [], sn_Checksum = ''''\<rparr>"

definition sort_snapshot_targets :: "ServingSnapshot \<Rightarrow> ServingSnapshot" where
  "sort_snapshot_targets s = s\<lparr>sn_Route := (sn_Route s)
     \<lparr>drt_Targets := sort_by compareRouteTargets (drt_Targets (sn_Route s))\<rparr>\<rparr>"

definition Builder_Build :: "canonicalizer \<Rightarrow> int \<Rightarrow> DiscoveryInput \<Rightarrow> error + DiscoveryResult" where
  "Builder_Build jcs maxEndpoints i =
    (let s = input_snapshot i in
     case first_error
       [fail_if (int (length (in_Candidates i)) > HardMaxEndpoints)
          (Problem CodeOverloaded ''endpoint candidate limit exceeded'' ''''),
        validateSnapshotHeader s,
        validateFunction (sn_Function s),
        validateHTTPTrigger (sn_Trigger s) (sn_FunctionID s),
        validateRoute (sn_Route s) (sn_FunctionID s)] of
       Some e \<Rightarrow> Inl e
     | None \<Rightarrow>
    (let s1 = sort_snapshot_targets s in
     case build_loop maxEndpoints s1 {||} [] [] (sort_by compareEndpointCandidates (in_Candidates i)) of
       Inl e \<Rightarrow> Inl e
     | Inr (decisions, endpoints) \<Rightarrow>
    (let s2 = s1\<lparr>sn_Endpoints := Some (sort_by compareEndpoints endpoints)\<rparr> in
     case calculateChecksum jcs s2 of
       Inl e \<Rightarrow> Inl e
     | Inr checksum \<Rightarrow>
    (let s3 = s2\<lparr>sn_Checksum := checksum\<rparr> in
     case ServingSnapshot_Validate jcs s3 of
       Some e \<Rightarrow> Inl (Wrapped ''validating built serving snapshot'' e)
     | None \<Rightarrow> Inr \<lparr>dres_Snapshot = s3, dres_Candidates = decisions\<rparr>))))"

subsection \<open>The publisher (publisher.go)\<close>

record Publisher =
  pub_builder :: int
  pub_epoch :: u64
  pub_sequence :: u64

definition NewPublisher :: "u64 \<Rightarrow> int \<Rightarrow> error + Publisher" where
  "NewPublisher epoch builder =
    (if epoch = 0 then Inl (Opaque ''discovery publisher epoch must be greater than zero'')
     else Inr \<lparr>pub_builder = builder, pub_epoch = epoch, pub_sequence = 0\<rparr>)"

definition at_position :: "u64 \<Rightarrow> u64 \<Rightarrow> DiscoveryInput \<Rightarrow> DiscoveryInput" where
  "at_position epoch sequence i = i\<lparr>in_DiscoveryEpoch := epoch, in_ServingSequence := sequence\<rparr>"

definition Publisher_Build :: "canonicalizer \<Rightarrow> DiscoveryInput \<Rightarrow> (error, Publisher, DiscoveryResult) operation" where
  "Publisher_Build jcs i p =
    (if pub_sequence p = - 1
       then (Inl (Opaque ''discovery serving sequence is exhausted; a new epoch is required''), p)
     else case Builder_Build jcs (pub_builder p) (at_position (pub_epoch p) (pub_sequence p + 1) i) of
         Inl e \<Rightarrow> (Inl e, p)
       | Inr result \<Rightarrow> (Inr result, p\<lparr>pub_sequence := pub_sequence p + 1\<rparr>))"

fun BuildFull_loop ::
  "canonicalizer \<Rightarrow> int \<Rightarrow> u64 \<Rightarrow> u64 \<Rightarrow> string fset \<Rightarrow> DiscoveryInput list \<Rightarrow> error + DiscoveryResult list" where
  "BuildFull_loop jcs builder epoch next seen [] = Inr []"
| "BuildFull_loop jcs builder epoch next seen (i # is) =
    (if df_ID (in_Function i) |\<in>| seen
       then Inl (Opaque ''discovery full sync contains a duplicate function id'')
     else case Builder_Build jcs builder (at_position epoch next i) of
         Inl e \<Rightarrow> Inl e
       | Inr result \<Rightarrow>
           (case BuildFull_loop jcs builder epoch next (finsert (df_ID (in_Function i)) seen) is of
              Inl e \<Rightarrow> Inl e
            | Inr results \<Rightarrow> Inr (result # results)))"

definition Publisher_BuildFull ::
  "canonicalizer \<Rightarrow> DiscoveryInput list \<Rightarrow> (error, Publisher, DiscoveryResult list \<times> u64) operation" where
  "Publisher_BuildFull jcs inputs p =
    (if pub_sequence p = - 1
       then (Inl (Opaque ''discovery serving sequence is exhausted; a new epoch is required''), p)
     else case BuildFull_loop jcs (pub_builder p) (pub_epoch p) (pub_sequence p + 1) {||} inputs of
         Inl e \<Rightarrow> (Inl e, p)
       | Inr results \<Rightarrow> (Inr (results, pub_sequence p + 1), p\<lparr>pub_sequence := pub_sequence p + 1\<rparr>))"

definition Publisher_Position :: "Publisher \<Rightarrow> u64 \<times> u64" where
  "Publisher_Position p = (pub_epoch p, pub_sequence p)"

section \<open>Properties of the builder\<close>

subsection \<open>Canonical orders\<close>

definition identity_key :: "AssignmentIdentity \<Rightarrow> string \<times> u64 \<times> string \<times> string \<times> string \<times> u64" where
  "identity_key a =
    (ai_VersionID a, ai_DeploymentGeneration a, ai_AssignmentID a,
     ws_WorkerID (ai_Worker a), ws_BootID (ai_Worker a), ws_SessionEpoch (ai_Worker a))"

lemma compareEndpointIdentity_key:
  "compareEndpointIdentity x y < 0 \<longleftrightarrow> identity_key x < identity_key y"
  "compareEndpointIdentity x y = 0 \<longleftrightarrow> identity_key x = identity_key y"
  by (auto simp: compareEndpointIdentity_def identity_key_def less_prod_simp)

interpretation route_target_order: key_compare compareRouteTargets target_id
  by unfold_locales (auto simp: compareRouteTargets_def target_id_def less_prod_simp)

interpretation endpoint_order: key_compare compareEndpoints "\<lambda>e. identity_key (en_Assignment e)"
  by unfold_locales (simp_all add: compareEndpoints_def compareEndpointIdentity_key)

interpretation endpoint_candidate_order:
  key_compare compareEndpointCandidates "\<lambda>c. identity_key (cand_Assignment c)"
  by unfold_locales (simp_all add: compareEndpointCandidates_def compareEndpointIdentity_key)

text \<open>\<open>slices.IsSortedFunc\<close> looks at neighbours only; for a sorted list that suffices.\<close>

lemma is_sorted_by_neighbours:
  "(\<And>x y. cmp x y \<le> 0 \<Longrightarrow> \<not> cmp y x < 0) \<Longrightarrow> ascending cmp xs \<Longrightarrow> is_sorted_by cmp xs"
  by (induction cmp xs rule: is_sorted_by.induct) auto

lemma is_sorted_by_route_targets: "is_sorted_by compareRouteTargets (sort_by compareRouteTargets ts)"
proof (rule is_sorted_by_neighbours)
  show "ascending compareRouteTargets (sort_by compareRouteTargets ts)"
    by (rule route_target_order.sort_by_ascending) simp
qed (auto simp: route_target_order.cmp_le route_target_order.cmp_less)

lemma is_sorted_by_endpoints: "is_sorted_by compareEndpoints (sort_by compareEndpoints es)"
proof (rule is_sorted_by_neighbours)
  show "ascending compareEndpoints (sort_by compareEndpoints es)"
    by (rule endpoint_order.sort_by_ascending) simp
qed (auto simp: endpoint_order.cmp_le endpoint_order.cmp_less)

subsection \<open>The loops\<close>

lemma validateRoute_targets_Inr:
  "validateRoute_targets weight seen ts = Inr r \<longleftrightarrow>
     (\<forall>t \<in> set ts. target_ok t) \<and> distinct (map target_key ts)
     \<and> (\<forall>t \<in> set ts. target_key t |\<notin>| seen)
     \<and> r = weight + sum_list (map rt_WeightBasisPoints ts)"
proof (induction ts arbitrary: weight seen)
  case (Cons t ts)
  show ?case
    by (cases "target_ok t \<and> target_key t |\<notin>| seen")
       (auto simp: Cons target_ok_def identifierPattern_eq bad_digest_iff add.assoc not_less image_iff)
qed auto

text \<open>A valid Route stays valid when its targets are reordered.\<close>

lemma validateRoute_targets_perm:
  assumes "validateRoute_targets 0 {||} ts = Inr r" and "mset us = mset ts"
  shows "validateRoute_targets 0 {||} us = Inr r"
proof -
  have "set us = set ts" using assms(2) by (rule mset_eq_setD)
  moreover have "distinct (map target_key us) = distinct (map target_key ts)"
    using assms(2) by (metis mset_eq_imp_distinct_iff mset_map)
  moreover have "sum_list (map rt_WeightBasisPoints us) = sum_list (map rt_WeightBasisPoints ts)"
    using assms(2) by (metis mset_map sum_mset_sum_list)
  ultimately show ?thesis using assms(1) by (simp add: validateRoute_targets_Inr)
qed

lemma validateRoute_perm:
  assumes "validateRoute r f = None" and "mset us = mset (drt_Targets r)"
  shows "validateRoute (r\<lparr>drt_Targets := us\<rparr>) f = None"
proof -
  have "length us = length (drt_Targets r)" using assms(2) by (metis size_mset)
  moreover have "us = [] \<longleftrightarrow> drt_Targets r = []" using assms(2) by auto
  moreover have "validateRoute_targets 0 {||} (drt_Targets r) = Inr w \<Longrightarrow>
      validateRoute_targets 0 {||} us = Inr w" for w
    using validateRoute_targets_perm assms(2) by blast
  ultimately show ?thesis
    using assms(1) unfolding validateRoute_def
    by (cases "validateRoute_targets 0 {||} (drt_Targets r)")
       (simp_all split: if_splits AffinitySource.splits)
qed

text \<open>The targets of a valid Route name each Version and generation once.\<close>

lemma validateRoute_distinct:
  assumes "validateRoute r f = None"
  shows "distinct (map target_id (drt_Targets r))"
proof (cases "drt_Present r")
  case True
  then obtain w where "validateRoute_targets 0 {||} (drt_Targets r) = Inr w"
    using assms unfolding validateRoute_def
    by (cases "validateRoute_targets 0 {||} (drt_Targets r)") (simp_all split: if_splits)
  then have ok: "\<forall>t \<in> set (drt_Targets r). target_ok t" and keys: "distinct (map target_key (drt_Targets r))"
    by (simp_all add: validateRoute_targets_Inr)
  then show ?thesis using target_key_inject by (auto simp: distinct_map inj_on_def)
next
  case False
  with assms show ?thesis by (simp add: validateRoute_def split: if_splits)
qed

subsection \<open>What a candidate needs\<close>

definition target_fences :: "RouteTarget \<Rightarrow> AssignmentIdentity \<Rightarrow> bool" where
  "target_fences t a \<longleftrightarrow>
     rt_VersionID t = ai_VersionID a \<and> rt_DeploymentGeneration t = ai_DeploymentGeneration a
     \<and> rt_AdmissionEpoch t = ai_AdmissionEpoch a \<and> rt_EffectivePolicyDigest t = ai_PolicyDigest a"

definition serving_enabled :: "ServingSnapshot \<Rightarrow> bool" where
  "serving_enabled s \<longleftrightarrow>
     df_Lifecycle (sn_Function s) = FunctionActive \<and> dt_Enabled (sn_Trigger s)
     \<and> drt_Present (sn_Route s) \<and> drt_Enabled (sn_Route s)"

definition worker_serves :: "EndpointCandidate \<Rightarrow> bool" where
  "worker_serves c \<longleftrightarrow>
     WorkerSnapshot_validate (cand_Worker c) = None \<and> wk_Session (cand_Worker c) = ai_Worker (cand_Assignment c)
     \<and> wk_Intent (cand_Worker c) = IntentSchedulable \<and> wk_State (cand_Worker c) = SessionReady
     \<and> wk_Drain (cand_Worker c) = DrainNotDraining \<and> cand_ReplicaReady c"

definition authorized_for :: "u64 \<Rightarrow> EndpointCandidate \<Rightarrow> bool" where
  "authorized_for epoch c \<longleftrightarrow>
     (\<exists>au. cand_Authorization c = Some au \<and> Authorization_validate HardMaxTTL au = None
        \<and> if_Assignment (au_Fence au) = cand_Assignment c \<and> if_DiscoveryEpoch (au_Fence au) = epoch)"

text \<open>
  The contract of a published endpoint: serving is enabled, the Assignment is wanted, valid and
  normal, its worker session is ready to serve, it is authorized in the epoch of the view, one
  target of the Route carries its whole fence, and its address can be dialled.
\<close>

definition publishable :: "ServingSnapshot \<Rightarrow> EndpointCandidate \<Rightarrow> bool" where
  "publishable s c \<longleftrightarrow>
     serving_enabled s \<and> AssignmentIdentity_validate (cand_Assignment c) = None
     \<and> cand_DesiredState c = AssignmentAssigned \<and> ai_Mode (cand_Assignment c) = ModeNormal
     \<and> authorized_for (sn_DiscoveryEpoch s) c \<and> worker_serves c
     \<and> (\<exists>t \<in> set (drt_Targets (sn_Route s)). target_fences t (cand_Assignment c))
     \<and> validEndpointAddress (cand_Address c)"

lemma find_unique:
  "distinct (map f xs) \<Longrightarrow> x \<in> set xs \<Longrightarrow> f x = k \<Longrightarrow> find (\<lambda>y. f y = k) xs = Some x"
  by (induction xs) auto

lemma routeMismatchReasons_Nil:
  assumes "distinct (map target_id targets)"
  shows "routeMismatchReasons targets a = [] \<longleftrightarrow> (\<exists>t \<in> set targets. target_fences t a)"
proof -
  let ?k = "(ai_VersionID a, ai_DeploymentGeneration a)"
  have pred: "(\<lambda>t. rt_VersionID t = ai_VersionID a \<and> rt_DeploymentGeneration t = ai_DeploymentGeneration a)
      = (\<lambda>t. target_id t = ?k)"
    by (auto simp: target_id_def)
  show ?thesis
  proof
    assume "routeMismatchReasons targets a = []"
    then obtain t where "find (\<lambda>t. target_id t = ?k) targets = Some t"
        "rt_AdmissionEpoch t = ai_AdmissionEpoch a" "rt_EffectivePolicyDigest t = ai_PolicyDigest a"
      unfolding routeMismatchReasons_def pred by (auto split: if_splits option.splits)
    then show "\<exists>t \<in> set targets. target_fences t a"
      by (auto dest!: find_SomeD simp: target_id_def target_fences_def)
  next
    assume "\<exists>t \<in> set targets. target_fences t a"
    then obtain t where t: "t \<in> set targets" "target_fences t a" by blast
    then have "find (\<lambda>t. target_id t = ?k) targets = Some t"
      by (intro find_unique [OF assms]) (auto simp: target_id_def target_fences_def)
    with t show "routeMismatchReasons targets a = []"
      unfolding routeMismatchReasons_def pred by (auto simp: target_fences_def list_ex_iff)
  qed
qed

lemma exclusionReasons_Nil:
  assumes "distinct (map target_id (drt_Targets (sn_Route s)))"
  shows "exclusionReasons s c = [] \<longleftrightarrow> publishable s c"
proof -
  have auth: "(case cand_Authorization c of None \<Rightarrow> [ReasonAuthorizationNotInstalled]
      | Some au \<Rightarrow> if Authorization_validate HardMaxTTL au \<noteq> None
          \<or> if_Assignment (au_Fence au) \<noteq> cand_Assignment c
          \<or> if_DiscoveryEpoch (au_Fence au) \<noteq> sn_DiscoveryEpoch s
        then [ReasonAuthorizationMismatch] else []) = [] \<longleftrightarrow> authorized_for (sn_DiscoveryEpoch s) c"
    by (auto simp: authorized_for_def split: option.splits)
  have nil: "(if P then [r] else []) = [] \<longleftrightarrow> \<not> P" for P and r :: ExclusionReason by simp
  show ?thesis
    unfolding exclusionReasons_def Let_def append_is_Nil_conv nil auth
      routeMismatchReasons_Nil [OF assms] publishable_def serving_enabled_def worker_serves_def
    by argo
qed

text \<open>The reasons depend on the enabling fields, the epoch and the targets of the view alone.\<close>

lemma publishable_cong:
  "sn_Function s = sn_Function s' \<Longrightarrow> sn_Trigger s = sn_Trigger s' \<Longrightarrow> sn_Route s = sn_Route s' \<Longrightarrow>
   sn_DiscoveryEpoch s = sn_DiscoveryEpoch s' \<Longrightarrow> publishable s c = publishable s' c"
  by (simp add: publishable_def serving_enabled_def)

definition candidate_id :: "EndpointCandidate \<Rightarrow> string" where
  "candidate_id c = ai_AssignmentID (cand_Assignment c)"

definition decision_of :: "ServingSnapshot \<Rightarrow> EndpointCandidate \<Rightarrow> CandidateDecision" where
  "decision_of s c = \<lparr>dcn_AssignmentID = candidate_id c, dcn_Included = (exclusionReasons s c = []),
     dcn_Reasons = exclusionReasons s c\<rparr>"

abbreviation included :: "ServingSnapshot \<Rightarrow> EndpointCandidate list \<Rightarrow> EndpointCandidate list" where
  "included s \<equiv> filter (\<lambda>c. exclusionReasons s c = [])"

lemma build_loop_Inr:
  "build_loop m s seen ds es cs = Inr r \<longleftrightarrow>
     (\<forall>c \<in> set cs. identifierPattern (candidate_id c) \<and> candidate_id c |\<notin>| seen)
     \<and> distinct (map candidate_id cs)
     \<and> (included s cs = [] \<or> int (length es + length (included s cs)) \<le> m)
     \<and> r = (ds @ map (decision_of s) cs, es @ map candidate_endpoint (included s cs))"
proof (induction cs arbitrary: seen ds es)
  case (Cons c cs)
  consider "\<not> identifierPattern (candidate_id c) \<or> candidate_id c |\<in>| seen"
    | "identifierPattern (candidate_id c)" "candidate_id c |\<notin>| seen" "exclusionReasons s c \<noteq> []"
    | "identifierPattern (candidate_id c)" "candidate_id c |\<notin>| seen" "exclusionReasons s c = []"
    by blast
  then show ?case
  proof cases
    case 1
    then show ?thesis by (auto simp: candidate_id_def Let_def)
  next
    case 2
    then show ?thesis by (auto simp: Cons candidate_id_def decision_of_def Let_def image_iff)
  next
    case 3
    then show ?thesis
      by (cases "int (length es) \<ge> m")
         (auto simp: Cons candidate_id_def decision_of_def Let_def image_iff)
  qed
qed auto

subsection \<open>Build\<close>

definition inputs_valid :: "DiscoveryInput \<Rightarrow> bool" where
  "inputs_valid i \<longleftrightarrow>
     validateSnapshotHeader (input_snapshot i) = None \<and> validateFunction (in_Function i) = None
     \<and> validateHTTPTrigger (in_Trigger i) (df_ID (in_Function i)) = None
     \<and> validateRoute (in_Route i) (df_ID (in_Function i)) = None"

definition candidates_valid :: "EndpointCandidate list \<Rightarrow> bool" where
  "candidates_valid cs \<longleftrightarrow>
     length cs \<le> 1000 \<and> (\<forall>c \<in> set cs. identifierPattern (candidate_id c)) \<and> distinct (map candidate_id cs)"

text \<open>The view that a build assembles, before its checksum.\<close>

definition built_view :: "DiscoveryInput \<Rightarrow> ServingSnapshot" where
  "built_view i =
    (let s = sort_snapshot_targets (input_snapshot i) in
     s\<lparr>sn_Endpoints := Some (sort_by compareEndpoints
        (map candidate_endpoint (included s (sort_by compareEndpointCandidates (in_Candidates i)))))\<rparr>)"

lemma sort_snapshot_targets_simps [simp]:
  "sn_Function (sort_snapshot_targets s) = sn_Function s"
  "sn_Trigger (sort_snapshot_targets s) = sn_Trigger s"
  "sn_FunctionID (sort_snapshot_targets s) = sn_FunctionID s"
  "sn_DiscoveryEpoch (sort_snapshot_targets s) = sn_DiscoveryEpoch s"
  "sn_ServingSequence (sort_snapshot_targets s) = sn_ServingSequence s"
  "sn_GeneratedAt (sort_snapshot_targets s) = sn_GeneratedAt s"
  "sn_SchemaVersion (sort_snapshot_targets s) = sn_SchemaVersion s"
  "sn_Route (sort_snapshot_targets s) =
     (sn_Route s)\<lparr>drt_Targets := sort_by compareRouteTargets (drt_Targets (sn_Route s))\<rparr>"
  by (simp_all add: sort_snapshot_targets_def)

lemma built_view_simps [simp]:
  "sn_Function (built_view i) = in_Function i"
  "sn_Trigger (built_view i) = in_Trigger i"
  "sn_FunctionID (built_view i) = df_ID (in_Function i)"
  "sn_DiscoveryEpoch (built_view i) = in_DiscoveryEpoch i"
  "sn_ServingSequence (built_view i) = in_ServingSequence i"
  "sn_Route (built_view i) =
     (in_Route i)\<lparr>drt_Targets := sort_by compareRouteTargets (drt_Targets (in_Route i))\<rparr>"
  by (simp_all add: built_view_def Let_def input_snapshot_def)

lemma validateSnapshotHeader_cong:
  "sn_SchemaVersion s = sn_SchemaVersion s' \<Longrightarrow> sn_FunctionID s = sn_FunctionID s' \<Longrightarrow>
   sn_DiscoveryEpoch s = sn_DiscoveryEpoch s' \<Longrightarrow> sn_ServingSequence s = sn_ServingSequence s' \<Longrightarrow>
   sn_GeneratedAt s = sn_GeneratedAt s' \<Longrightarrow> validateSnapshotHeader s = validateSnapshotHeader s'"
  by (simp add: validateSnapshotHeader_def)

lemma inputs_valid_targets:
  assumes "inputs_valid i"
  shows "distinct (map target_id (drt_Targets (in_Route i)))"
    and "distinct (map target_id (drt_Targets (sn_Route (sort_snapshot_targets (input_snapshot i)))))"
  using assms validateRoute_distinct by (auto simp: inputs_valid_def input_snapshot_def)

text \<open>The endpoints of the view are exactly those of its publishable candidates.\<close>

lemma built_view_endpoints:
  assumes "inputs_valid i"
  shows "set (snapshot_endpoints (built_view i)) =
    candidate_endpoint ` {c \<in> set (in_Candidates i). publishable (built_view i) c}"
proof -
  let ?s = "sort_snapshot_targets (input_snapshot i)"
  have eq: "exclusionReasons ?s c = [] \<longleftrightarrow> publishable (built_view i) c" for c
    unfolding exclusionReasons_Nil [OF inputs_valid_targets(2) [OF assms]]
    by (rule publishable_cong) (simp_all add: input_snapshot_def)
  have "set (snapshot_endpoints (built_view i)) =
      candidate_endpoint ` {c \<in> set (in_Candidates i). exclusionReasons ?s c = []}"
    by (simp add: snapshot_endpoints_def built_view_def Let_def)
  then show ?thesis by (simp only: eq)
qed

lemma validate_endpoints_None:
  "validate_endpoints targets seen es = None \<longleftrightarrow>
     (\<forall>e \<in> set es. Endpoint_Validate e = None \<and> ai_AssignmentID (en_Assignment e) |\<notin>| seen
        \<and> routeMismatchReasons targets (en_Assignment e) = [])
     \<and> distinct (map (\<lambda>e. ai_AssignmentID (en_Assignment e)) es)"
  by (induction es arbitrary: seen) (auto simp: image_iff)

lemma publishable_endpoint:
  assumes "publishable s c" and "distinct (map target_id (drt_Targets (sn_Route s)))"
  shows "Endpoint_Validate (candidate_endpoint c) = None"
    and "routeMismatchReasons (drt_Targets (sn_Route s)) (cand_Assignment c) = []"
  using assms by (simp_all add: publishable_def Endpoint_Validate_def candidate_endpoint_def
      routeMismatchReasons_Nil)

lemma built_view_ids:
  assumes "candidates_valid (in_Candidates i)"
  shows "distinct (map (\<lambda>e. ai_AssignmentID (en_Assignment e)) (snapshot_endpoints (built_view i)))"
proof -
  let ?cs = "included (sort_snapshot_targets (input_snapshot i))
      (sort_by compareEndpointCandidates (in_Candidates i))"
  let ?id = "\<lambda>e. ai_AssignmentID (en_Assignment e)"
  have "distinct (map candidate_id (sort_by compareEndpointCandidates (in_Candidates i)))"
    using assms by (simp add: candidates_valid_def)
  then have "distinct (map candidate_id ?cs)" by (rule distinct_map_filter)
  moreover have "map candidate_id ?cs = map ?id (map candidate_endpoint ?cs)"
    by (simp add: candidate_id_def candidate_endpoint_def)
  ultimately have "distinct (map ?id (sort_by compareEndpoints (map candidate_endpoint ?cs)))"
    by (simp only: distinct_map_sort_by)
  then show ?thesis by (simp add: snapshot_endpoints_def built_view_def Let_def)
qed

lemma built_view_length: "length (snapshot_endpoints (built_view i)) \<le> length (in_Candidates i)"
  by (simp add: snapshot_endpoints_def built_view_def Let_def)
     (metis length_filter_le length_sort_by)

text \<open>The view passes its own validation: the last check of \<open>Build\<close> cannot fail.\<close>

lemma built_view_endpoints_valid:
  assumes "inputs_valid i" and "candidates_valid (in_Candidates i)"
  shows "validate_endpoints (drt_Targets (sn_Route (built_view i))) {||} (snapshot_endpoints (built_view i)) = None"
    and "snapshot_endpoints (built_view i) \<noteq> [] \<Longrightarrow> serving_enabled (built_view i)"
proof -
  have d: "distinct (map target_id (drt_Targets (sn_Route (built_view i))))"
    using inputs_valid_targets(1) [OF assms(1)] by simp
  have origin: "\<exists>c. e = candidate_endpoint c \<and> publishable (built_view i) c"
    if "e \<in> set (snapshot_endpoints (built_view i))" for e
    using that unfolding built_view_endpoints [OF assms(1)] by blast
  have "Endpoint_Validate e = None \<and>
      routeMismatchReasons (drt_Targets (sn_Route (built_view i))) (en_Assignment e) = []"
    if e: "e \<in> set (snapshot_endpoints (built_view i))" for e
  proof -
    obtain c where c: "e = candidate_endpoint c" "publishable (built_view i) c" using origin [OF e] by blast
    show ?thesis using publishable_endpoint [OF c(2) d] c(1) by (simp add: candidate_endpoint_def)
  qed
  then show "validate_endpoints (drt_Targets (sn_Route (built_view i))) {||} (snapshot_endpoints (built_view i)) = None"
    using built_view_ids [OF assms(2)] by (simp only: validate_endpoints_None) blast
  show "serving_enabled (built_view i)" if ne: "snapshot_endpoints (built_view i) \<noteq> []"
  proof -
    obtain e where "e \<in> set (snapshot_endpoints (built_view i))" using ne by (meson list.set_sel(1))
    then show ?thesis using origin by (auto simp: publishable_def)
  qed
qed

lemma calculateChecksum_checksum [simp]:
  "calculateChecksum jcs (s\<lparr>sn_Checksum := d\<rparr>) = calculateChecksum jcs s"
  by (simp add: calculateChecksum_def canonicalSnapshotV1_def snapshot_endpoints_def)

lemma snapshot_endpoints_checksum [simp]: "snapshot_endpoints (s\<lparr>sn_Checksum := d\<rparr>) = snapshot_endpoints s"
  by (simp add: snapshot_endpoints_def)

lemma built_view_valid:
  assumes "inputs_valid i" and "candidates_valid (in_Candidates i)"
    and "calculateChecksum jcs (built_view i) = Inr d"
  shows "ServingSnapshot_Validate jcs ((built_view i)\<lparr>sn_Checksum := d\<rparr>) = None"
proof -
  let ?s = "(built_view i)\<lparr>sn_Checksum := d\<rparr>"
  have "validateSnapshotHeader ?s = validateSnapshotHeader (input_snapshot i)"
    by (rule validateSnapshotHeader_cong) (simp_all add: built_view_def Let_def input_snapshot_def)
  then have header: "validateSnapshotHeader ?s = None" using assms(1) by (simp add: inputs_valid_def)
  have route: "validateRoute (sn_Route ?s) (df_ID (in_Function i)) = None"
    using assms(1) by (simp add: inputs_valid_def validateRoute_perm)
  have few: "\<not> int (length (snapshot_endpoints (built_view i))) > HardMaxEndpoints"
    using built_view_length [of i] assms(2) by (simp add: candidates_valid_def)
  have some: "sn_Endpoints (built_view i) \<noteq> None" by (simp add: built_view_def Let_def)
  have sorted: "is_sorted_by compareEndpoints (snapshot_endpoints (built_view i))"
    by (simp add: built_view_def Let_def snapshot_endpoints_def is_sorted_by_endpoints)
  have good: "\<not> bad_digest d"
    using assms(3) CanonicalJSON_encoded by (auto simp: calculateChecksum_def bad_digest_iff)
  have enabled: "snapshot_endpoints (built_view i) = [] \<or> serving_enabled (built_view i)"
    using built_view_endpoints_valid(2) [OF assms(1,2)] by blast
  have ends: "validate_endpoints (sort_by compareRouteTargets (drt_Targets (in_Route i))) {||}
      (snapshot_endpoints (built_view i)) = None"
    using built_view_endpoints_valid(1) [OF assms(1,2)] by simp
  show ?thesis
    unfolding ServingSnapshot_Validate_def first_error_Cons_None
    using header route few some sorted good enabled ends assms(1,3)
    by (auto simp: inputs_valid_def is_sorted_by_route_targets serving_enabled_def)
qed

lemma Builder_Build_Inr:
  assumes "m \<le> HardMaxEndpoints"
  shows "Builder_Build jcs m i = Inr res \<longleftrightarrow>
    inputs_valid i \<and> candidates_valid (in_Candidates i)
    \<and> (snapshot_endpoints (built_view i) = [] \<or> int (length (snapshot_endpoints (built_view i))) \<le> m)
    \<and> (\<exists>d. calculateChecksum jcs (built_view i) = Inr d
        \<and> res = \<lparr>dres_Snapshot = (built_view i)\<lparr>sn_Checksum := d\<rparr>,
            dres_Candidates = map (decision_of (sort_snapshot_targets (input_snapshot i)))
              (sort_by compareEndpointCandidates (in_Candidates i))\<rparr>)"
    (is "_ \<longleftrightarrow> ?rhs")
proof -
  let ?s = "sort_snapshot_targets (input_snapshot i)"
  let ?cs = "sort_by compareEndpointCandidates (in_Candidates i)"
  let ?r = "(map (decision_of ?s) ?cs, map candidate_endpoint (included ?s ?cs))"
  have ends: "snapshot_endpoints (built_view i) = sort_by compareEndpoints (snd ?r)"
    by (simp add: built_view_def Let_def snapshot_endpoints_def)
  have pre: "first_error
       [fail_if (int (length (in_Candidates i)) > HardMaxEndpoints)
          (Problem CodeOverloaded ''endpoint candidate limit exceeded'' ''''),
        validateSnapshotHeader (input_snapshot i), validateFunction (sn_Function (input_snapshot i)),
        validateHTTPTrigger (sn_Trigger (input_snapshot i)) (sn_FunctionID (input_snapshot i)),
        validateRoute (sn_Route (input_snapshot i)) (sn_FunctionID (input_snapshot i))] = None
      \<longleftrightarrow> length (in_Candidates i) \<le> 1000 \<and> inputs_valid i"
    by (auto simp: inputs_valid_def input_snapshot_def)
  have loop: "build_loop m ?s {||} [] [] ?cs = Inr r \<longleftrightarrow>
      (\<forall>c \<in> set (in_Candidates i). identifierPattern (candidate_id c))
      \<and> distinct (map candidate_id (in_Candidates i))
      \<and> (snapshot_endpoints (built_view i) = [] \<or> int (length (snapshot_endpoints (built_view i))) \<le> m)
      \<and> r = ?r" for r
    by (auto simp: build_loop_Inr ends)
  have view: "?s\<lparr>sn_Endpoints := Some (sort_by compareEndpoints (snd ?r))\<rparr> = built_view i"
    by (simp add: built_view_def Let_def)
  show ?thesis
  proof (cases "length (in_Candidates i) \<le> 1000 \<and> inputs_valid i \<and> build_loop m ?s {||} [] [] ?cs = Inr ?r")
    case True
    then have ok: "inputs_valid i" "candidates_valid (in_Candidates i)"
        "snapshot_endpoints (built_view i) = [] \<or> int (length (snapshot_endpoints (built_view i))) \<le> m"
      using loop by (auto simp: candidates_valid_def)
    have "Builder_Build jcs m i = (case calculateChecksum jcs (built_view i) of Inl e \<Rightarrow> Inl e
        | Inr d \<Rightarrow> Inr \<lparr>dres_Snapshot = (built_view i)\<lparr>sn_Checksum := d\<rparr>, dres_Candidates = fst ?r\<rparr>)"
      using True pre view built_view_valid [OF ok(1,2), of jcs]
      unfolding Builder_Build_def Let_def
      by (simp split: sum.split)
    then show ?thesis using ok by (auto split: sum.splits)
  next
    case False
    have "Builder_Build jcs m i \<noteq> Inr res"
    proof
      assume b: "Builder_Build jcs m i = Inr res"
      then have "length (in_Candidates i) \<le> 1000 \<and> inputs_valid i"
        using pre unfolding Builder_Build_def Let_def by (auto split: option.splits)
      moreover obtain r where "build_loop m ?s {||} [] [] ?cs = Inr r"
        using b unfolding Builder_Build_def Let_def by (auto split: option.splits sum.splits prod.splits)
      ultimately show False using False loop by metis
    qed
    moreover have "\<not> ?rhs" using False loop by (auto simp: candidates_valid_def)
    ultimately show ?thesis by blast
  qed
qed

lemma Builder_Build_view:
  "Builder_Build jcs m i = Inr res \<Longrightarrow> m \<le> HardMaxEndpoints \<Longrightarrow>
   \<exists>d. calculateChecksum jcs (built_view i) = Inr d \<and> dres_Snapshot res = (built_view i)\<lparr>sn_Checksum := d\<rparr>"
  by (auto simp: Builder_Build_Inr)

text \<open>
  C18: what a build publishes is exactly what may serve. If \<open>Build\<close> returns a view, its endpoints
  are those of the candidates that meet the whole contract \<open>publishable\<close> in that view: none is
  missing and no other is there. The view passes the validation that every gateway repeats, its
  endpoints have distinct Assignment IDs, and each candidate has one decision, which includes it
  exactly when it is published.
\<close>

theorem build_publishes_exactly:
  assumes "Builder_Build jcs m i = Inr res" and "m \<le> HardMaxEndpoints"
  shows "set (snapshot_endpoints (dres_Snapshot res)) =
      candidate_endpoint ` {c \<in> set (in_Candidates i). publishable (dres_Snapshot res) c}
    \<and> distinct (map (\<lambda>e. ai_AssignmentID (en_Assignment e)) (snapshot_endpoints (dres_Snapshot res)))
    \<and> ServingSnapshot_Validate jcs (dres_Snapshot res) = None
    \<and> (\<forall>c \<in> set (in_Candidates i). \<exists>!d. d \<in> set (dres_Candidates res) \<and> dcn_AssignmentID d = candidate_id c
      \<and> dcn_Included d = publishable (dres_Snapshot res) c)"
proof (intro conjI)
  let ?s = "sort_snapshot_targets (input_snapshot i)"
  from assms obtain d where ok: "inputs_valid i" "candidates_valid (in_Candidates i)"
      and d: "calculateChecksum jcs (built_view i) = Inr d"
      and res: "res = \<lparr>dres_Snapshot = (built_view i)\<lparr>sn_Checksum := d\<rparr>,
        dres_Candidates = map (decision_of ?s) (sort_by compareEndpointCandidates (in_Candidates i))\<rparr>"
    by (auto simp: Builder_Build_Inr)
  have pub: "publishable (dres_Snapshot res) c = publishable (built_view i) c" for c
    by (rule publishable_cong) (simp_all add: res)
  have dec: "publishable (built_view i) c \<longleftrightarrow> exclusionReasons ?s c = []" for c
    unfolding exclusionReasons_Nil [OF inputs_valid_targets(2) [OF ok(1)]]
    by (rule publishable_cong) (simp_all add: input_snapshot_def)
  show "set (snapshot_endpoints (dres_Snapshot res)) =
      candidate_endpoint ` {c \<in> set (in_Candidates i). publishable (dres_Snapshot res) c}"
    unfolding pub using built_view_endpoints [OF ok(1)] by (simp add: res)
  show "distinct (map (\<lambda>e. ai_AssignmentID (en_Assignment e)) (snapshot_endpoints (dres_Snapshot res)))"
    using built_view_ids [OF ok(2)] by (simp add: res)
  show "ServingSnapshot_Validate jcs (dres_Snapshot res) = None"
    using built_view_valid [OF ok d] by (simp add: res)
  show "\<forall>c \<in> set (in_Candidates i). \<exists>!d. d \<in> set (dres_Candidates res) \<and> dcn_AssignmentID d = candidate_id c
      \<and> dcn_Included d = publishable (dres_Snapshot res) c"
  proof
    fix c assume c: "c \<in> set (in_Candidates i)"
    have inj: "inj_on candidate_id (set (in_Candidates i))"
      using ok(2) by (simp add: candidates_valid_def distinct_map)
    show "\<exists>!d. d \<in> set (dres_Candidates res) \<and> dcn_AssignmentID d = candidate_id c
        \<and> dcn_Included d = publishable (dres_Snapshot res) c"
      unfolding pub dec
    proof (rule ex1I [of _ "decision_of ?s c"])
      show "decision_of ?s c \<in> set (dres_Candidates res) \<and> dcn_AssignmentID (decision_of ?s c) = candidate_id c
          \<and> dcn_Included (decision_of ?s c) = (exclusionReasons ?s c = [])"
        using c by (simp add: res) (simp add: decision_of_def)
    next
      fix d assume "d \<in> set (dres_Candidates res) \<and> dcn_AssignmentID d = candidate_id c
          \<and> dcn_Included d = (exclusionReasons ?s c = [])"
      then obtain c' where "c' \<in> set (in_Candidates i)" "d = decision_of ?s c'" "candidate_id c' = candidate_id c"
        by (auto simp: res decision_of_def)
      with inj c show "d = decision_of ?s c" by (auto dest: inj_onD)
    qed
  qed
qed

text \<open>
  C24: a view does not depend on the order in which its inputs arrive. Two builds whose candidates
  and whose Route targets are permutations of each other return the same view with the same
  checksum and the same decisions.
\<close>

theorem build_order_independent:
  assumes "Builder_Build jcs m i = Inr res" and "m \<le> HardMaxEndpoints"
    and "mset cs = mset (in_Candidates i)" and "mset ts = mset (drt_Targets (in_Route i))"
  shows "Builder_Build jcs m (i\<lparr>in_Candidates := cs, in_Route := (in_Route i)\<lparr>drt_Targets := ts\<rparr>\<rparr>) = Inr res"
proof -
  let ?i = "i\<lparr>in_Candidates := cs, in_Route := (in_Route i)\<lparr>drt_Targets := ts\<rparr>\<rparr>"
  have ok: "inputs_valid i" "candidates_valid (in_Candidates i)"
    using assms(1,2) by (auto simp: Builder_Build_Inr)
  have targets: "sort_by compareRouteTargets ts = sort_by compareRouteTargets (drt_Targets (in_Route i))"
    by (rule route_target_order.sort_by_key_perm [OF assms(4) inputs_valid_targets(1) [OF ok(1)]])
  have "distinct (map (\<lambda>c. identity_key (cand_Assignment c)) (in_Candidates i))"
    using ok(2) by (auto simp: candidates_valid_def distinct_map inj_on_def identity_key_def candidate_id_def)
  then have cands: "sort_by compareEndpointCandidates cs = sort_by compareEndpointCandidates (in_Candidates i)"
    by (rule endpoint_candidate_order.sort_by_key_perm [OF assms(3)])
  have s: "sort_snapshot_targets (input_snapshot ?i) = sort_snapshot_targets (input_snapshot i)"
    by (simp add: sort_snapshot_targets_def input_snapshot_def targets)
  have view: "built_view ?i = built_view i" unfolding built_view_def s by (simp add: cands)
  have "validateSnapshotHeader (input_snapshot ?i) = validateSnapshotHeader (input_snapshot i)"
    by (rule validateSnapshotHeader_cong) (simp_all add: input_snapshot_def)
  then have "inputs_valid ?i"
    using ok(1) validateRoute_perm [OF _ assms(4)] by (simp add: inputs_valid_def)
  moreover have "candidates_valid cs"
  proof -
    have "length cs = length (in_Candidates i)" using assms(3) by (metis size_mset)
    moreover have "set cs = set (in_Candidates i)" using assms(3) by (rule mset_eq_setD)
    moreover have "distinct (map candidate_id cs) = distinct (map candidate_id (in_Candidates i))"
      by (rule mset_eq_imp_distinct_iff) (simp add: assms(3))
    ultimately show ?thesis using ok(2) by (simp add: candidates_valid_def)
  qed
  ultimately show ?thesis
    using assms(1) unfolding Builder_Build_Inr [OF assms(2)] view s by (simp add: cands)
qed

subsection \<open>A sample view\<close>

definition view_worker :: WorkerSnapshot where
  "view_worker =
    \<lparr>wk_Session = ai_Worker sample_identity,
     wk_Runtime = \<lparr>rp_Name = RuntimeName, rp_Version = RuntimeVersion, rp_Engine = EngineCompiler,
       rp_GOOS = ''linux'', rp_GOARCH = ''amd64'', rp_ABI = ABIWASICommandV1,
       rp_HostAPI = HostAPIProfileNone, rp_FeatureProfile = FeatureProfile, rp_MemoryMiB = 128\<rparr>,
     wk_Intent = IntentSchedulable, wk_State = SessionReady, wk_Drain = DrainNotDraining,
     wk_Capacity = \<lparr>cy_MemoryMiB = 1024, cy_AllocatedMemoryMiB = 0, cy_Slots = 8, cy_AllocatedSlots = 1\<rparr>,
     wk_Labels = fmempty, wk_Cache = \<lparr>ch_Artifacts = {||}, ch_Compiled = {||}\<rparr>\<rparr>"

definition view_candidate :: EndpointCandidate where
  "view_candidate =
    \<lparr>cand_Assignment = sample_identity, cand_DesiredState = AssignmentAssigned, cand_Worker = view_worker,
     cand_ReplicaReady = True, cand_Authorization = Some sample_authorization, cand_Address = ''10.0.0.7:8080''\<rparr>"

definition view_unready :: EndpointCandidate where
  "view_unready = view_candidate\<lparr>cand_Assignment := sample_identity\<lparr>ai_AssignmentID := ''a-2''\<rparr>,
     cand_ReplicaReady := False\<rparr>"

definition view_target :: RouteTarget where
  "view_target = \<lparr>rt_VersionID = ''v-1'', rt_AdmissionEpoch = 1, rt_DeploymentGeneration = 1,
     rt_EffectivePolicyDigest = sample_digest, rt_WeightBasisPoints = 10000\<rparr>"

definition view_input :: DiscoveryInput where
  "view_input =
    \<lparr>in_DiscoveryEpoch = 1, in_ServingSequence = 1, in_GeneratedAt = \<lparr>t_nanos = 1000000000, t_offset = 0\<rparr>,
     in_Function = \<lparr>df_ID = ''f-1'', df_Name = ''hello'', df_ResourceRevision = 1, df_Lifecycle = FunctionActive\<rparr>,
     in_Trigger = \<lparr>dt_ID = ''t-1'', dt_FunctionID = ''f-1'', dt_ResourceRevision = 1, dt_Enabled = True,
       dt_AuthPolicy = AuthPolicyPublic, dt_TokenVerifierDigest = None\<rparr>,
     in_Route = \<lparr>drt_Present = True, drt_FunctionID = ''f-1'', drt_ResourceRevision = 1, drt_RouteRevision = 1,
       drt_Enabled = True, drt_Targets = [view_target], drt_Affinity = AffinityRequestID,
       drt_AffinityHeader = '''', drt_HashVersion = HashVersionSHA256BPSV1, drt_SaltID = ''salt-1'',
       drt_Salt = replicate 16 (CHR ''s'')\<rparr>,
     in_Candidates = [view_unready, view_candidate]\<rparr>"

lemma view_input_valid: "inputs_valid view_input"
  by code_simp

lemma view_candidates_valid: "candidates_valid (in_Candidates view_input)"
  by code_simp

lemma view_endpoints: "snapshot_endpoints (built_view view_input) = [candidate_endpoint view_candidate]"
  by code_simp

definition view_result :: DiscoveryResult where
  "view_result = (case Builder_Build Inr 1000 view_input of Inr res \<Rightarrow> res)"

lemma calculateChecksum_total: "\<exists>d. calculateChecksum Inr s = Inr d"
  by (simp add: calculateChecksum_def CanonicalJSON_def)

lemma view_built: "Builder_Build Inr 1000 view_input = Inr view_result"
proof -
  obtain d where "calculateChecksum Inr (built_view view_input) = Inr d"
    using calculateChecksum_total by blast
  then have "\<exists>res. Builder_Build Inr 1000 view_input = Inr res"
    using view_input_valid view_candidates_valid by (simp add: Builder_Build_Inr view_endpoints)
  then show ?thesis by (auto simp: view_result_def)
qed

lemma view_result_endpoints: "snapshot_endpoints (dres_Snapshot view_result) = [candidate_endpoint view_candidate]"
proof -
  obtain d where "dres_Snapshot view_result = (built_view view_input)\<lparr>sn_Checksum := d\<rparr>"
    using Builder_Build_view [OF view_built] by auto
  then show ?thesis by (simp add: view_endpoints)
qed

theorem build_publishes_exactly_witness:
  "{c \<in> {view_unready, view_candidate}. publishable (dres_Snapshot view_result) c} = {view_candidate}"
proof -
  have set_c: "set (in_Candidates view_input) = {view_unready, view_candidate}" by (simp add: view_input_def)
  have "candidate_endpoint ` {c \<in> {view_unready, view_candidate}. publishable (dres_Snapshot view_result) c}
      = {candidate_endpoint view_candidate}"
    using build_publishes_exactly [OF view_built] unfolding set_c view_result_endpoints by simp
  moreover have "candidate_endpoint view_unready \<noteq> candidate_endpoint view_candidate" by code_simp
  ultimately show ?thesis by auto
qed

theorem build_order_independent_witness:
  "Builder_Build Inr 1000 (view_input\<lparr>in_Candidates := [view_candidate, view_unready],
     in_Route := (in_Route view_input)\<lparr>drt_Targets := [view_target]\<rparr>\<rparr>) = Inr view_result"
  by (rule build_order_independent [OF view_built]) (simp_all add: view_input_def)

end
