(* ===== verification/GatewayDiscovery.thy ===== *)
theory GatewayDiscovery
  imports Discovery
begin

text \<open>
  Package \<^verbatim>\<open>internal/gatewaydiscovery\<close>: the gateway's store of the last known good serving
  views, which a watch fills with full and incremental events. The reading of the monotonic
  clock is an argument of the operations that read it. The receiver is not nil.
\<close>

subsection \<open>Data (types.go)\<close>

definition DefaultMaxStale :: duration where "DefaultMaxStale = 5 * minute"
definition HardMaxStale :: duration where "HardMaxStale = 10 * minute"
abbreviation DefaultMaxFunctions :: int where "DefaultMaxFunctions \<equiv> 10000"
abbreviation HardMaxFunctions :: int where "HardMaxFunctions \<equiv> 10000"

record ServingEvent =
  se_Full :: bool
  se_DiscoveryEpoch :: u64
  se_ServingSequence :: u64
  se_Snapshots :: "ServingSnapshot list"

record StoreStatus =
  sst_DiscoveryEpoch :: u64
  sst_ServingSequence :: u64
  sst_Functions :: nat
  sst_FullSynced :: bool
  sst_NeedsFullSync :: bool
  sst_WatchConnected :: bool
  sst_ClockHealthy :: bool

record ServingView =
  vw_Snapshot :: ServingSnapshot
  vw_Endpoints :: "Endpoint list"

record functionRecord =
  fr_snapshot :: ServingSnapshot
  fr_receivedAt :: duration
  fr_suppressed :: "(string, AssignmentIdentity) fmap"

record eventPosition =
  pos_epoch :: u64
  pos_sequence :: u64
  pos_fingerprint :: SHA256

record GatewayStore =
  gst_maxStale :: duration
  gst_maxFunctions :: int
  gst_functions :: "(string, functionRecord) fmap"
  gst_position :: eventPosition
  gst_fullSynced :: bool
  gst_needsFullSync :: bool
  gst_watchConnected :: bool
  gst_lastElapsed :: duration
  gst_clockHealthy :: bool

subsection \<open>Operations (store.go)\<close>

definition NewGatewayStore :: "duration option \<Rightarrow> int \<Rightarrow> duration \<Rightarrow> error + GatewayStore" where
  "NewGatewayStore configuredStale configuredFunctions elapsed =
    (let maxStale = (case configuredStale of None \<Rightarrow> DefaultMaxStale | Some d \<Rightarrow> d);
         maxFunctions = (if configuredFunctions = 0 then DefaultMaxFunctions else configuredFunctions) in
     if maxStale < 0 \<or> maxStale > HardMaxStale
       then Inl (Opaque ''gateway serving max stale is outside v1 bounds'')
     else if maxFunctions < 1 \<or> maxFunctions > HardMaxFunctions
       then Inl (Opaque ''gateway function limit is outside v1 bounds'')
     else if elapsed < 0
       then Inl (Opaque ''gateway monotonic clock returned negative elapsed time'')
     else Inr \<lparr>gst_maxStale = maxStale, gst_maxFunctions = maxFunctions, gst_functions = fmempty,
       gst_position = \<lparr>pos_epoch = 0, pos_sequence = 0, pos_fingerprint = ''''\<rparr>,
       gst_fullSynced = False, gst_needsFullSync = True, gst_watchConnected = False,
       gst_lastElapsed = elapsed, gst_clockHealthy = True\<rparr>)"

definition eventFingerprint :: "canonicalizer \<Rightarrow> ServingEvent \<Rightarrow> error + SHA256" where
  "eventFingerprint jcs e = CanonicalJSON jcs ''serving-watch-event'' ''v1'' (json_marshal (JObj
     [(''full'', JBool (se_Full e)), (''discovery_epoch'', json_uint (se_DiscoveryEpoch e)),
      (''serving_sequence'', json_uint (se_ServingSequence e)),
      (''snapshots'', JArr (map (\<lambda>s. JObj
         [(''function_id'', JStr (sn_FunctionID s)), (''checksum'', JStr (sn_Checksum s))]) (se_Snapshots e)))]))"

text \<open>The loop of \<open>normalizeEvent\<close>, with the Function IDs seen.\<close>

fun normalize_snapshots :: "canonicalizer \<Rightarrow> ServingEvent \<Rightarrow> string fset \<Rightarrow> ServingSnapshot list \<Rightarrow> error option" where
  "normalize_snapshots jcs e seen [] = None"
| "normalize_snapshots jcs e seen (s # ss) = first_error
    [fail_if (sn_DiscoveryEpoch s \<noteq> se_DiscoveryEpoch e \<or> sn_ServingSequence s \<noteq> se_ServingSequence e)
       (Invalid ''serving_event'' ''snapshot position does not match the event''),
     ServingSnapshot_Validate jcs s,
     fail_if (sn_FunctionID s |\<in>| seen)
       (Invalid ''serving_event'' ''contains a duplicate Function snapshot''),
     normalize_snapshots jcs e (finsert (sn_FunctionID s) seen) ss]"

definition compareSnapshots :: "ServingSnapshot \<Rightarrow> ServingSnapshot \<Rightarrow> int" where
  "compareSnapshots left right = compare_lin (sn_FunctionID left) (sn_FunctionID right)"

definition normalizeEvent :: "canonicalizer \<Rightarrow> ServingEvent \<Rightarrow> int \<Rightarrow> error + ServingEvent \<times> SHA256" where
  "normalizeEvent jcs e maxFunctions =
    (case first_error
       [fail_if (se_DiscoveryEpoch e = 0 \<or> se_ServingSequence e = 0)
          (Invalid ''serving_event'' ''epoch and sequence must be greater than zero''),
        fail_if (int (length (se_Snapshots e)) > maxFunctions)
          (Invalid ''serving_event'' ''contains too many Function snapshots''),
        fail_if (\<not> se_Full e \<and> length (se_Snapshots e) \<noteq> 1)
          (Invalid ''serving_event'' ''an incremental event must contain exactly one Function snapshot''),
        normalize_snapshots jcs e {||} (se_Snapshots e)] of
       Some err \<Rightarrow> Inl err
     | None \<Rightarrow>
         (let normalized = e\<lparr>se_Snapshots := sort_by compareSnapshots (se_Snapshots e)\<rparr> in
          case eventFingerprint jcs normalized of
            Inl err \<Rightarrow> Inl err
          | Inr fingerprint \<Rightarrow> Inr (normalized, fingerprint)))"

definition sameFunction :: "DiscoveryFunction \<Rightarrow> DiscoveryFunction \<Rightarrow> bool" where
  "sameFunction left right \<longleftrightarrow> left = right"

definition sameHTTPTrigger :: "DiscoveryTrigger \<Rightarrow> DiscoveryTrigger \<Rightarrow> bool" where
  "sameHTTPTrigger left right \<longleftrightarrow>
     dt_ID left = dt_ID right \<and> dt_FunctionID left = dt_FunctionID right
     \<and> dt_ResourceRevision left = dt_ResourceRevision right \<and> dt_Enabled left = dt_Enabled right
     \<and> dt_AuthPolicy left = dt_AuthPolicy right
     \<and> dt_TokenVerifierDigest left = dt_TokenVerifierDigest right"

definition sameRoute :: "DiscoveryRoute \<Rightarrow> DiscoveryRoute \<Rightarrow> bool" where
  "sameRoute left right \<longleftrightarrow>
     drt_Present left = drt_Present right \<and> drt_FunctionID left = drt_FunctionID right
     \<and> drt_ResourceRevision left = drt_ResourceRevision right
     \<and> drt_RouteRevision left = drt_RouteRevision right \<and> drt_Enabled left = drt_Enabled right
     \<and> drt_Targets left = drt_Targets right \<and> drt_Affinity left = drt_Affinity right
     \<and> drt_AffinityHeader left = drt_AffinityHeader right \<and> drt_HashVersion left = drt_HashVersion right
     \<and> drt_SaltID left = drt_SaltID right \<and> drt_Salt left = drt_Salt right"

definition revisionsDoNotRegress :: "ServingSnapshot \<Rightarrow> ServingSnapshot \<Rightarrow> error option" where
  "revisionsDoNotRegress current next' =
    (let f = sn_Function current; f' = sn_Function next'; t = sn_Trigger current; t' = sn_Trigger next';
         r = sn_Route current; r' = sn_Route next' in first_error
     [fail_if (df_ResourceRevision f' < df_ResourceRevision f \<or> dt_ResourceRevision t' < dt_ResourceRevision t)
        (classified CodeStaleGeneration ''function or trigger resource revision regressed''),
      fail_if (df_ResourceRevision f' = df_ResourceRevision f \<and> \<not> sameFunction f f')
        (classified CodeStaleGeneration ''function content changed without a resource revision''),
      fail_if (dt_ResourceRevision t' = dt_ResourceRevision t \<and> \<not> sameHTTPTrigger t t')
        (classified CodeStaleGeneration ''http trigger content changed without a resource revision''),
      fail_if (drt_Present r \<and> \<not> drt_Present r')
        (classified CodeStaleGeneration ''an existing route cannot disappear from an incremental snapshot''),
      fail_if (drt_Present r \<and> drt_Present r' \<and>
          (drt_ResourceRevision r' < drt_ResourceRevision r \<or> drt_RouteRevision r' < drt_RouteRevision r))
        (classified CodeStaleGeneration ''route revision regressed''),
      fail_if (drt_Present r \<and> drt_Present r' \<and> drt_ResourceRevision r' = drt_ResourceRevision r
          \<and> drt_RouteRevision r' = drt_RouteRevision r \<and> \<not> sameRoute r r')
        (classified CodeStaleGeneration ''route content changed without a resource or route revision'')])"

text \<open>Suppressions survive for endpoints whose whole fence is unchanged.\<close>

definition retainedSuppressions ::
  "(string, AssignmentIdentity) fmap \<Rightarrow> Endpoint list \<Rightarrow> (string, AssignmentIdentity) fmap" where
  "retainedSuppressions previous endpoints =
    fold (\<lambda>e retained.
      if fmlookup previous (ai_AssignmentID (en_Assignment e)) = Some (en_Assignment e)
      then fmupd (ai_AssignmentID (en_Assignment e)) (en_Assignment e) retained else retained)
    endpoints fmempty"

definition visibleSnapshot :: "functionRecord \<Rightarrow> ServingView" where
  "visibleSnapshot record =
    \<lparr>vw_Snapshot = fr_snapshot record,
     vw_Endpoints = filter (\<lambda>e. fmlookup (fr_suppressed record) (ai_AssignmentID (en_Assignment e))
        \<noteq> Some (en_Assignment e)) (snapshot_endpoints (fr_snapshot record))\<rparr>"

definition usableLocked :: "GatewayStore \<Rightarrow> functionRecord \<Rightarrow> duration \<Rightarrow> bool" where
  "usableLocked s record now =
    (if gst_maxStale s = 0 then gst_watchConnected s
     else now \<ge> fr_receivedAt record \<and> now - fr_receivedAt record < gst_maxStale s)"

definition store_elapsedLocked :: "duration \<Rightarrow> (error, GatewayStore, duration) operation" where
  "store_elapsedLocked now s =
    (if \<not> gst_clockHealthy s \<or> now < gst_lastElapsed s
     then (Inl (classified CodeControlPlaneStale ''gateway monotonic clock is unhealthy''),
           s\<lparr>gst_clockHealthy := False, gst_needsFullSync := True\<rparr>)
     else (Inr now, s\<lparr>gst_lastElapsed := now\<rparr>))"

text \<open>The record that replaces the current one of the Function, if any.\<close>

definition replacement :: "GatewayStore \<Rightarrow> duration \<Rightarrow> ServingSnapshot \<Rightarrow> functionRecord" where
  "replacement s now snapshot =
    \<lparr>fr_snapshot = snapshot, fr_receivedAt = now,
     fr_suppressed =
       (case fmlookup (gst_functions s) (sn_FunctionID snapshot) of
          None \<Rightarrow> fmempty
        | Some current \<Rightarrow> retainedSuppressions (fr_suppressed current) (snapshot_endpoints snapshot))\<rparr>"

definition regression :: "GatewayStore \<Rightarrow> ServingSnapshot \<Rightarrow> error option" where
  "regression s snapshot =
    (case fmlookup (gst_functions s) (sn_FunctionID snapshot) of
       None \<Rightarrow> None
     | Some current \<Rightarrow> revisionsDoNotRegress (fr_snapshot current) snapshot)"

definition event_position :: "ServingEvent \<Rightarrow> SHA256 \<Rightarrow> eventPosition" where
  "event_position e fingerprint =
    \<lparr>pos_epoch = se_DiscoveryEpoch e, pos_sequence = se_ServingSequence e, pos_fingerprint = fingerprint\<rparr>"

definition applyFullLocked :: "ServingEvent \<Rightarrow> SHA256 \<Rightarrow> duration \<Rightarrow> (error, GatewayStore, unit) operation" where
  "applyFullLocked e fingerprint clock s =
    check (first_error
      (fail_if (se_DiscoveryEpoch e = pos_epoch (gst_position s)
          \<and> se_ServingSequence e < pos_sequence (gst_position s))
         (classified CodeStaleGeneration ''full sync serving sequence regressed'')
       # map (regression s) (se_Snapshots e))) s
    (case store_elapsedLocked clock s of
       (Inl err, s1) \<Rightarrow> (Inl err, s1)
     | (Inr now, s1) \<Rightarrow>
         (Inr (), s1\<lparr>gst_functions :=
              fmap_of_list (map (\<lambda>snapshot. (sn_FunctionID snapshot, replacement s1 now snapshot)) (se_Snapshots e)),
            gst_position := event_position e fingerprint,
            gst_fullSynced := True, gst_needsFullSync := False, gst_watchConnected := True\<rparr>))"

definition applyIncrementalLocked :: "ServingEvent \<Rightarrow> SHA256 \<Rightarrow> duration \<Rightarrow> (error, GatewayStore, unit) operation" where
  "applyIncrementalLocked e fingerprint clock s =
    (let position = gst_position s in
     if \<not> gst_fullSynced s \<or> gst_needsFullSync s
       then (Inl (classified CodeControlPlaneStale ''gateway requires a complete serving Full Sync''), s)
     else if se_DiscoveryEpoch e > pos_epoch position
       then (Inl (classified CodeControlPlaneStale ''a higher discovery epoch requires Full Sync''),
             s\<lparr>gst_needsFullSync := True\<rparr>)
     else if se_ServingSequence e \<le> pos_sequence position
       then (Inl (classified CodeStaleGeneration ''serving sequence regressed''), s)
     else if pos_sequence position = - 1 \<or> se_ServingSequence e \<noteq> pos_sequence position + 1
       then (Inl (classified CodeControlPlaneStale ''serving sequence gap requires Full Sync''),
             s\<lparr>gst_needsFullSync := True\<rparr>)
     else case se_Snapshots e of
         [] \<Rightarrow> (Inl (Opaque ''index out of range''), s)
       | snapshot # _ \<Rightarrow>
           check (first_error
             [regression s snapshot,
              fail_if (\<not> map_has (gst_functions s) (sn_FunctionID snapshot)
                  \<and> int (map_len (gst_functions s)) \<ge> gst_maxFunctions s)
                (classified CodeOverloaded ''gateway function serving cache is full'')]) s
           (case store_elapsedLocked clock s of
              (Inl err, s1) \<Rightarrow> (Inl err, s1)
            | (Inr now, s1) \<Rightarrow>
                (Inr (), s1\<lparr>gst_functions :=
                     fmupd (sn_FunctionID snapshot) (replacement s1 now snapshot) (gst_functions s1),
                   gst_position := event_position e fingerprint, gst_watchConnected := True\<rparr>)))"

definition samePosition :: "ServingEvent \<Rightarrow> eventPosition \<Rightarrow> bool" where
  "samePosition e position \<longleftrightarrow>
     se_DiscoveryEpoch e = pos_epoch position \<and> se_ServingSequence e = pos_sequence position"

definition Store_Apply :: "canonicalizer \<Rightarrow> ServingEvent \<Rightarrow> duration \<Rightarrow> (error, GatewayStore, unit) operation" where
  "Store_Apply jcs event clock s =
    (case normalizeEvent jcs event (gst_maxFunctions s) of
       Inl e \<Rightarrow> (Inl e, s)
     | Inr (normalized, fingerprint) \<Rightarrow>
         if \<not> gst_clockHealthy s
           then (Inl (classified CodeControlPlaneStale ''gateway monotonic clock is unhealthy''), s)
         else if se_DiscoveryEpoch normalized < pos_epoch (gst_position s)
           then (Inl (classified CodeStaleGeneration ''serving discovery epoch regressed''), s)
         else if samePosition normalized (gst_position s) then
           (if fingerprint = pos_fingerprint (gst_position s) then (Inr (), s)
            else (Inl (classified CodeStaleGeneration
                    ''serving watch position was reused with different content''), s))
         else if se_Full normalized then applyFullLocked normalized fingerprint clock s
         else applyIncrementalLocked normalized fingerprint clock s)"

definition SetWatchConnected :: "bool \<Rightarrow> GatewayStore \<Rightarrow> GatewayStore" where
  "SetWatchConnected connected s = s\<lparr>gst_watchConnected := connected\<rparr>"

definition Store_Lookup :: "string \<Rightarrow> duration \<Rightarrow> (error, GatewayStore, ServingView) operation" where
  "Store_Lookup functionID clock s =
    check (fail_if (\<not> identifierPattern functionID)
      (Invalid ''function_id'' ''must be a valid identifier'')) s
    (case store_elapsedLocked clock s of
       (Inl err, s1) \<Rightarrow> (Inl err, s1)
     | (Inr now, s1) \<Rightarrow>
         if \<not> gst_fullSynced s1 \<or> gst_needsFullSync s1
           then (Inl (classified CodeControlPlaneStale ''gateway serving view requires Full Sync''), s1)
         else case fmlookup (gst_functions s1) functionID of
             None \<Rightarrow> (Inl (classified CodeNotFound ''function serving snapshot was not found''), s1)
           | Some record \<Rightarrow>
               if \<not> usableLocked s1 record now
                 then (Inl (classified CodeControlPlaneStale ''function serving snapshot is stale''), s1)
               else (Inr (visibleSnapshot record), s1))"

definition Store_LookupAll :: "duration \<Rightarrow> (error, GatewayStore, ServingView list) operation" where
  "Store_LookupAll clock s =
    (case store_elapsedLocked clock s of
       (Inl err, s1) \<Rightarrow> (Inl err, s1)
     | (Inr now, s1) \<Rightarrow>
         if \<not> gst_fullSynced s1 \<or> gst_needsFullSync s1
           then (Inl (classified CodeControlPlaneStale ''gateway serving view requires Full Sync''), s1)
         else if list_ex (\<lambda>record. \<not> usableLocked s1 record now) (map_values (gst_functions s1))
           then (Inl (classified CodeControlPlaneStale ''gateway serving view contains a stale function''), s1)
         else (Inr (sort_by (\<lambda>left right. compareSnapshots (vw_Snapshot left) (vw_Snapshot right))
                 (map visibleSnapshot (map_values (gst_functions s1)))), s1))"

definition SuppressEndpoint :: "string \<Rightarrow> AssignmentIdentity \<Rightarrow> (error, GatewayStore, unit) operation" where
  "SuppressEndpoint functionID assignment s =
    check (first_error
      [fail_if (\<not> identifierPattern functionID) (Invalid ''function_id'' ''must be a valid identifier''),
       AssignmentIdentity_validate assignment]) s
    (case fmlookup (gst_functions s) functionID of
       None \<Rightarrow> (Inl (classified CodeNotFound ''function serving snapshot was not found''), s)
     | Some record \<Rightarrow>
         (case find (\<lambda>e. ai_AssignmentID (en_Assignment e) = ai_AssignmentID assignment)
                 (snapshot_endpoints (fr_snapshot record)) of
            None \<Rightarrow> (Inl (classified CodeStaleAssignment
                      ''endpoint failure does not match an authoritative endpoint''), s)
          | Some endpoint \<Rightarrow>
              if en_Assignment endpoint \<noteq> assignment
                then (Inl (classified CodeStaleAssignment ''endpoint failure fence is stale''), s)
              else (Inr (), s\<lparr>gst_functions := fmupd functionID
                     (record\<lparr>fr_suppressed :=
                        fmupd (ai_AssignmentID assignment) assignment (fr_suppressed record)\<rparr>)
                     (gst_functions s)\<rparr>)))"

definition Store_Status :: "GatewayStore \<Rightarrow> StoreStatus" where
  "Store_Status s =
    \<lparr>sst_DiscoveryEpoch = pos_epoch (gst_position s), sst_ServingSequence = pos_sequence (gst_position s),
     sst_Functions = map_len (gst_functions s), sst_FullSynced = gst_fullSynced s,
     sst_NeedsFullSync = gst_needsFullSync s, sst_WatchConnected = gst_watchConnected s,
     sst_ClockHealthy = gst_clockHealthy s\<rparr>"

section \<open>Properties\<close>

subsection \<open>What an accepted event contains\<close>

lemma normalize_snapshots_None:
  "normalize_snapshots jcs e seen ss = None \<longleftrightarrow>
     (\<forall>s \<in> set ss. sn_DiscoveryEpoch s = se_DiscoveryEpoch e \<and> sn_ServingSequence s = se_ServingSequence e
        \<and> ServingSnapshot_Validate jcs s = None \<and> sn_FunctionID s |\<notin>| seen)
     \<and> distinct (map sn_FunctionID ss)"
  by (induction ss arbitrary: seen) (auto simp: image_iff)

lemma normalizeEvent_Inr:
  assumes "normalizeEvent jcs e m = Inr (n, fp)"
  shows "n = e\<lparr>se_Snapshots := sort_by compareSnapshots (se_Snapshots e)\<rparr>"
    and "se_DiscoveryEpoch e \<noteq> 0" and "se_ServingSequence e \<noteq> 0"
    and "int (length (se_Snapshots e)) \<le> m"
    and "\<not> se_Full e \<Longrightarrow> length (se_Snapshots e) = 1"
    and "\<forall>s \<in> set (se_Snapshots e). sn_DiscoveryEpoch s = se_DiscoveryEpoch e
      \<and> sn_ServingSequence s = se_ServingSequence e \<and> ServingSnapshot_Validate jcs s = None"
    and "distinct (map sn_FunctionID (se_Snapshots e))"
    and "eventFingerprint jcs n = Inr fp"
  using assms
  by (auto simp: normalizeEvent_def Let_def normalize_snapshots_None split: option.splits sum.splits)

subsection \<open>The branches of Apply\<close>

definition same_view :: "GatewayStore \<Rightarrow> GatewayStore \<Rightarrow> bool" where
  "same_view s s' \<longleftrightarrow>
     gst_functions s' = gst_functions s \<and> gst_position s' = gst_position s
     \<and> gst_maxStale s' = gst_maxStale s \<and> gst_maxFunctions s' = gst_maxFunctions s
     \<and> gst_fullSynced s' = gst_fullSynced s \<and> (gst_needsFullSync s \<longrightarrow> gst_needsFullSync s')
     \<and> (gst_clockHealthy s' \<longrightarrow> gst_clockHealthy s) \<and> gst_lastElapsed s \<le> gst_lastElapsed s'"

lemma same_view_refl [simp]: "same_view s s" by (simp add: same_view_def)

definition installed_full :: "ServingEvent \<Rightarrow> SHA256 \<Rightarrow> duration \<Rightarrow> GatewayStore \<Rightarrow> GatewayStore" where
  "installed_full n fp now s = s\<lparr>gst_lastElapsed := now,
     gst_functions := fmap_of_list (map (\<lambda>x. (sn_FunctionID x, replacement s now x)) (se_Snapshots n)),
     gst_position := event_position n fp,
     gst_fullSynced := True, gst_needsFullSync := False, gst_watchConnected := True\<rparr>"

definition installed_one :: "ServingEvent \<Rightarrow> ServingSnapshot \<Rightarrow> SHA256 \<Rightarrow> duration \<Rightarrow> GatewayStore \<Rightarrow> GatewayStore" where
  "installed_one n x fp now s = s\<lparr>gst_lastElapsed := now,
     gst_functions := fmupd (sn_FunctionID x) (replacement s now x) (gst_functions s),
     gst_position := event_position n fp, gst_watchConnected := True\<rparr>"

lemma replacement_elapsed [simp]: "replacement (s\<lparr>gst_lastElapsed := now\<rparr>) = replacement s"
  by (intro ext) (simp add: replacement_def)

lemma applyFullLocked_cases:
  assumes "applyFullLocked n fp t s = (r, s')"
  obtains (kept) e where "r = Inl e" "same_view s s'"
  | (full) "r = Inr ()" "gst_clockHealthy s" "gst_lastElapsed s \<le> t" "s' = installed_full n fp t s"
      "\<not> (se_DiscoveryEpoch n = pos_epoch (gst_position s) \<and> se_ServingSequence n < pos_sequence (gst_position s))"
      "\<forall>x \<in> set (se_Snapshots n). regression s x = None"
proof (cases "first_error
      (fail_if (se_DiscoveryEpoch n = pos_epoch (gst_position s) \<and> se_ServingSequence n < pos_sequence (gst_position s))
         (classified CodeStaleGeneration ''full sync serving sequence regressed'')
       # map (regression s) (se_Snapshots n))")
  case None
  then have pre: "\<not> (se_DiscoveryEpoch n = pos_epoch (gst_position s) \<and> se_ServingSequence n < pos_sequence (gst_position s))"
      "\<forall>x \<in> set (se_Snapshots n). regression s x = None"
    by (auto simp: first_error_None_iff)
  show thesis
  proof (cases "gst_clockHealthy s \<and> gst_lastElapsed s \<le> t")
    case True
    then have "r = Inr ()" "s' = installed_full n fp t s"
      using assms None by (auto simp: applyFullLocked_def store_elapsedLocked_def installed_full_def)
    then show thesis using full True pre by blast
  next
    case False
    then have "\<exists>e. r = Inl e" "same_view s s'"
      using assms None by (auto simp: applyFullLocked_def store_elapsedLocked_def same_view_def)
    then show thesis using kept by blast
  qed
next
  case (Some e)
  then have "r = Inl e" "s' = s" using assms by (auto simp: applyFullLocked_def)
  then show thesis using kept by simp
qed

lemma applyIncrementalLocked_cases:
  assumes "applyIncrementalLocked n fp t s = (r, s')"
  obtains (kept) e where "r = Inl e" "same_view s s'"
  | (one) x rest where "r = Inr ()" "gst_clockHealthy s" "gst_lastElapsed s \<le> t" "se_Snapshots n = x # rest"
      "s' = installed_one n x fp t s" "\<not> se_DiscoveryEpoch n > pos_epoch (gst_position s)"
      "pos_sequence (gst_position s) < se_ServingSequence n" "gst_fullSynced s" "\<not> gst_needsFullSync s"
      "regression s x = None"
      "map_has (gst_functions s) (sn_FunctionID x) \<or> int (map_len (gst_functions s)) < gst_maxFunctions s"
proof (cases r)
  case (Inl e)
  then have "same_view s s'"
    using assms
    by (auto simp: applyIncrementalLocked_def Let_def check_def store_elapsedLocked_def same_view_def
        split: if_splits list.splits option.splits)
  then show thesis using kept Inl by blast
next
  case (Inr u)
  then obtain x rest where x: "se_Snapshots n = x # rest"
    using assms by (auto simp: applyIncrementalLocked_def Let_def split: if_splits list.splits)
  show thesis
    by (rule one [OF _ _ _ x])
       (use assms Inr x in \<open>auto simp: applyIncrementalLocked_def Let_def check_eq_Inr store_elapsedLocked_def
         installed_one_def not_le not_less split: if_splits\<close>)
qed


lemma Store_Apply_cases:
  assumes "Store_Apply jcs e t s = (r, s')"
  obtains (kept) "same_view s s'" "gst_watchConnected s' = gst_watchConnected s"
  | (full) n fp where "r = Inr ()" "normalizeEvent jcs e (gst_maxFunctions s) = Inr (n, fp)" "se_Full e"
      "gst_clockHealthy s" "gst_lastElapsed s \<le> t" "s' = installed_full n fp t s"
      "pos_epoch (gst_position s) < se_DiscoveryEpoch e \<or> pos_epoch (gst_position s) = se_DiscoveryEpoch e
        \<and> pos_sequence (gst_position s) < se_ServingSequence e"
      "\<forall>x \<in> set (se_Snapshots e). regression s x = None"
  | (one) n x fp where "r = Inr ()" "normalizeEvent jcs e (gst_maxFunctions s) = Inr (n, fp)"
      "\<not> se_Full e" "se_Snapshots e = [x]" "gst_clockHealthy s" "gst_lastElapsed s \<le> t"
      "s' = installed_one n x fp t s" "pos_epoch (gst_position s) = se_DiscoveryEpoch e"
      "pos_sequence (gst_position s) < se_ServingSequence e" "gst_fullSynced s" "\<not> gst_needsFullSync s"
      "regression s x = None"
      "map_has (gst_functions s) (sn_FunctionID x) \<or> int (map_len (gst_functions s)) < gst_maxFunctions s"
proof (cases "normalizeEvent jcs e (gst_maxFunctions s)")
  case (Inl err)
  then have "s' = s" using assms by (simp add: Store_Apply_def)
  then show thesis using kept by simp
next
  case (Inr nf)
  obtain n fp where nf: "nf = (n, fp)" by (cases nf)
  note norm = normalizeEvent_Inr [OF Inr [unfolded nf]]
  have n: "se_Full n = se_Full e" "se_DiscoveryEpoch n = se_DiscoveryEpoch e"
      "se_ServingSequence n = se_ServingSequence e" "set (se_Snapshots n) = set (se_Snapshots e)"
    by (simp_all add: norm(1))
  consider "s' = s"
    | "pos_epoch (gst_position s) \<le> se_DiscoveryEpoch e" "\<not> samePosition n (gst_position s)" "se_Full e"
        "applyFullLocked n fp t s = (r, s')"
    | "pos_epoch (gst_position s) \<le> se_DiscoveryEpoch e" "\<not> se_Full e"
        "applyIncrementalLocked n fp t s = (r, s')"
    using assms Inr nf n by (auto simp: Store_Apply_def not_less split: if_splits)
  then show thesis
  proof cases
    case 1
    then show thesis using kept by simp
  next
    case 2
    from 2(4) show thesis
    proof (cases rule: applyFullLocked_cases)
      case (kept err)
      moreover have "gst_watchConnected s' = gst_watchConnected s"
        using 2(4) kept(1) by (auto simp: applyFullLocked_def check_def store_elapsedLocked_def split: option.splits if_splits)
      ultimately show thesis using that(1) by blast
    next
      case full
      have "pos_epoch (gst_position s) < se_DiscoveryEpoch e \<or> pos_epoch (gst_position s) = se_DiscoveryEpoch e
          \<and> pos_sequence (gst_position s) < se_ServingSequence e"
        using 2(1,2) full(5) unfolding samePosition_def n
        by (metis linorder_neqE order_le_less)
      then show thesis
        using that(2) [OF full(1) Inr [unfolded nf] 2(3) full(2,3,4)] full(6) n by simp
    qed
  next
    case 3
    from 3(3) show thesis
    proof (cases rule: applyIncrementalLocked_cases)
      case (kept err)
      moreover have "gst_watchConnected s' = gst_watchConnected s"
        using 3(3) kept(1)
        by (auto simp: applyIncrementalLocked_def Let_def check_def store_elapsedLocked_def
            split: if_splits list.splits option.splits)
      ultimately show thesis using that(1) by blast
    next
      case (one x rest)
      obtain y where y: "se_Snapshots e = [y]" using norm(5) [OF 3(2)] by (auto simp: length_Suc_conv)
      then have "y = x" using one(4) by (simp add: norm(1))
      then show thesis
        using that(3) [OF one(1) Inr [unfolded nf] 3(2) _ one(2,3,5)] y one(6-11) 3(1) n by auto
    qed
  qed
qed

subsection \<open>The invariant\<close>

text \<open>
  The record of a Function holds a valid view of that Function, at the epoch of the store and not
  past its position, received at a time the clock has passed; what it suppresses are fences of
  its endpoints.
\<close>

definition view_record_ok :: "canonicalizer \<Rightarrow> GatewayStore \<Rightarrow> string \<Rightarrow> functionRecord \<Rightarrow> bool" where
  "view_record_ok jcs s f r \<longleftrightarrow>
     sn_FunctionID (fr_snapshot r) = f \<and> ServingSnapshot_Validate jcs (fr_snapshot r) = None
     \<and> sn_DiscoveryEpoch (fr_snapshot r) = pos_epoch (gst_position s)
     \<and> sn_ServingSequence (fr_snapshot r) \<le> pos_sequence (gst_position s)
     \<and> fr_receivedAt r \<le> gst_lastElapsed s"

definition store_inv :: "canonicalizer \<Rightarrow> GatewayStore \<Rightarrow> bool" where
  "store_inv jcs s \<longleftrightarrow>
     (\<forall>f r. fmlookup (gst_functions s) f = Some r \<longrightarrow> view_record_ok jcs s f r)
     \<and> int (map_len (gst_functions s)) \<le> gst_maxFunctions s
     \<and> 0 \<le> gst_maxStale s \<and> gst_maxStale s \<le> HardMaxStale
     \<and> 1 \<le> gst_maxFunctions s \<and> gst_maxFunctions s \<le> HardMaxFunctions"

datatype store_event =
    EvStoreApply ServingEvent duration
  | EvWatch bool
  | EvLookup string duration
  | EvLookupAll duration
  | EvSuppress string AssignmentIdentity

definition store_exec :: "canonicalizer \<Rightarrow> store_event \<Rightarrow> GatewayStore \<Rightarrow> GatewayStore" where
  "store_exec jcs ev s =
    (case ev of
       EvStoreApply e t \<Rightarrow> snd (Store_Apply jcs e t s)
     | EvWatch c \<Rightarrow> SetWatchConnected c s
     | EvLookup f t \<Rightarrow> snd (Store_Lookup f t s)
     | EvLookupAll t \<Rightarrow> snd (Store_LookupAll t s)
     | EvSuppress f a \<Rightarrow> snd (SuppressEndpoint f a s))"

definition store_initial :: "GatewayStore \<Rightarrow> bool" where
  "store_initial s \<longleftrightarrow> (\<exists>stale functions elapsed. NewGatewayStore stale functions elapsed = Inr s)"

lemma store_inv_valid:
  "store_inv jcs s \<Longrightarrow> fmlookup (gst_functions s) f = Some r \<Longrightarrow> ServingSnapshot_Validate jcs (fr_snapshot r) = None"
  by (simp add: store_inv_def view_record_ok_def)

lemma same_view_inv: "store_inv jcs s \<Longrightarrow> same_view s s' \<Longrightarrow> store_inv jcs s'"
  by (auto simp: store_inv_def same_view_def view_record_ok_def intro: order.trans)

lemma elapsed_same_view: "same_view s (snd (store_elapsedLocked t s))"
  by (simp add: store_elapsedLocked_def same_view_def)

lemma Lookup_same_view: "same_view s (snd (Store_Lookup f t s))"
  using elapsed_same_view [of s t]
  by (auto simp: Store_Lookup_def check_def split: option.splits prod.splits sum.splits)

lemma LookupAll_same_view: "same_view s (snd (Store_LookupAll t s))"
  using elapsed_same_view [of s t] by (auto simp: Store_LookupAll_def split: prod.splits sum.splits)

lemma SuppressEndpoint_cases:
  obtains (kept) e where "SuppressEndpoint f a s = (Inl e, s)"
  | (hidden) r where "fmlookup (gst_functions s) f = Some r"
      "a \<in> en_Assignment ` set (snapshot_endpoints (fr_snapshot r))"
      "SuppressEndpoint f a s = (Inr (), s\<lparr>gst_functions := fmupd f
         (r\<lparr>fr_suppressed := fmupd (ai_AssignmentID a) a (fr_suppressed r)\<rparr>) (gst_functions s)\<rparr>)"
  by (cases "fst (SuppressEndpoint f a s)")
     (auto simp: SuppressEndpoint_def check_def split: option.splits if_splits dest!: find_SomeD)

lemma fmlookup_full:
  "fmlookup (fmap_of_list (map (\<lambda>x. (sn_FunctionID x, g x)) xs)) f = Some r \<Longrightarrow>
     \<exists>x \<in> set xs. sn_FunctionID x = f \<and> r = g x"
  by (auto simp: fmlookup_of_list dest!: map_of_SomeD)

lemma map_len_of_list: "map_len (fmap_of_list xs) \<le> length xs"
proof -
  have "{k. fmlookup (fmap_of_list xs) k \<noteq> None} \<subseteq> set (map fst xs)"
    by (auto simp: fmlookup_of_list dest!: map_of_SomeD) force
  then have "map_len (fmap_of_list xs) \<le> card (set (map fst xs))"
    unfolding map_len_card by (rule card_mono [OF finite_set])
  also have "\<dots> \<le> length xs" using card_length [of "map fst xs"] by simp
  finally show ?thesis .
qed

lemma replacement_ok:
  assumes "normalizeEvent jcs e m = Inr (n, fp)" and "x \<in> set (se_Snapshots e)"
    and "gst_position s' = event_position n fp" and "gst_lastElapsed s' = t"
  shows "view_record_ok jcs s' (sn_FunctionID x) (replacement s t x)"
  using normalizeEvent_Inr(1,6) [OF assms(1)] assms(2-4)
  by (simp add: view_record_ok_def replacement_def event_position_def)

lemma store_inv_installed_full:
  assumes inv: "store_inv jcs s" and norm: "normalizeEvent jcs e (gst_maxFunctions s) = Inr (n, fp)"
  shows "store_inv jcs (installed_full n fp t s)"
proof -
  let ?s = "installed_full n fp t s"
  have sn: "set (se_Snapshots n) = set (se_Snapshots e)" "length (se_Snapshots n) = length (se_Snapshots e)"
    using normalizeEvent_Inr(1) [OF norm] by simp_all
  have "view_record_ok jcs ?s f r" if r: "fmlookup (gst_functions ?s) f = Some r" for f r
  proof -
    obtain x where x: "x \<in> set (se_Snapshots n)" "sn_FunctionID x = f" "r = replacement s t x"
      using r fmlookup_full [of "\<lambda>x. replacement s t x" "se_Snapshots n" f r] by (auto simp: installed_full_def)
    then show ?thesis
      using replacement_ok [OF norm, of x ?s t s] sn by (simp add: installed_full_def)
  qed
  moreover have "int (map_len (gst_functions ?s)) \<le> gst_maxFunctions ?s"
    using map_len_of_list [of "map (\<lambda>x. (sn_FunctionID x, replacement s t x)) (se_Snapshots n)"]
      normalizeEvent_Inr(4) [OF norm] sn by (simp add: installed_full_def)
  ultimately show ?thesis using inv by (simp add: store_inv_def installed_full_def)
qed

lemma store_inv_installed_one:
  assumes inv: "store_inv jcs s" and norm: "normalizeEvent jcs e (gst_maxFunctions s) = Inr (n, fp)"
    and x: "se_Snapshots e = [x]" and t: "gst_lastElapsed s \<le> t"
    and pos: "pos_epoch (gst_position s) = se_DiscoveryEpoch e" "pos_sequence (gst_position s) < se_ServingSequence e"
    and room: "map_has (gst_functions s) (sn_FunctionID x) \<or> int (map_len (gst_functions s)) < gst_maxFunctions s"
  shows "store_inv jcs (installed_one n x fp t s)"
proof -
  let ?s = "installed_one n x fp t s"
  have "view_record_ok jcs ?s f r" if r: "fmlookup (gst_functions ?s) f = Some r" for f r
  proof (cases "f = sn_FunctionID x")
    case True
    then have "r = replacement s t x" using r by (simp add: installed_one_def)
    then show ?thesis
      using True replacement_ok [OF norm, of x ?s t s] x by (simp add: installed_one_def)
  next
    case False
    then have "view_record_ok jcs s f r" using r inv by (auto simp: installed_one_def store_inv_def)
    then show ?thesis
      using pos t normalizeEvent_Inr(1) [OF norm]
      by (auto simp: view_record_ok_def installed_one_def event_position_def)
  qed
  moreover have "int (map_len (gst_functions ?s)) \<le> gst_maxFunctions ?s"
    using room inv by (auto simp: installed_one_def map_len_upd map_has_def store_inv_def)
  ultimately show ?thesis using inv by (simp add: store_inv_def installed_one_def)
qed

lemma store_inv_Apply: "store_inv jcs s \<Longrightarrow> store_inv jcs (snd (Store_Apply jcs e t s))"
proof -
  assume inv: "store_inv jcs s"
  obtain r s' where a: "Store_Apply jcs e t s = (r, s')" by (cases "Store_Apply jcs e t s")
  from a have "store_inv jcs s'"
  proof (cases rule: Store_Apply_cases)
    case kept
    then show ?thesis using same_view_inv [OF inv] by blast
  next
    case (full n fp)
    then show ?thesis using store_inv_installed_full [OF inv full(2)] by simp
  next
    case (one n x fp)
    then show ?thesis using store_inv_installed_one [OF inv one(2,4,6,8,9,13)] by simp
  qed
  with a show ?thesis by simp
qed

lemma store_inv_Suppress: "store_inv jcs s \<Longrightarrow> store_inv jcs (snd (SuppressEndpoint f a s))"
  by (cases rule: SuppressEndpoint_cases [of f a s])
     (auto simp: store_inv_def view_record_ok_def split: if_splits)

lemma store_inv_initial: "store_initial s \<Longrightarrow> store_inv jcs s"
  by (auto simp: store_initial_def NewGatewayStore_def store_inv_def Let_def HardMaxStale_def
      split: if_splits)

text \<open>The position moves forward lexicographically, and a clock found unhealthy stays so.\<close>

definition store_later :: "GatewayStore \<Rightarrow> GatewayStore \<Rightarrow> bool" where
  "store_later s s' \<longleftrightarrow>
     (pos_epoch (gst_position s), pos_sequence (gst_position s))
       \<le> (pos_epoch (gst_position s'), pos_sequence (gst_position s'))
     \<and> gst_lastElapsed s \<le> gst_lastElapsed s' \<and> (gst_clockHealthy s' \<longrightarrow> gst_clockHealthy s)
     \<and> gst_maxStale s' = gst_maxStale s \<and> gst_maxFunctions s' = gst_maxFunctions s"

lemma same_view_later: "same_view s s' \<Longrightarrow> store_later s s'"
  by (simp add: same_view_def store_later_def)

lemma store_later_Apply: "store_later s (snd (Store_Apply jcs e t s))"
proof -
  obtain r s' where a: "Store_Apply jcs e t s = (r, s')" by (cases "Store_Apply jcs e t s")
  from a have "store_later s s'"
  proof (cases rule: Store_Apply_cases)
    case kept
    then show ?thesis using same_view_later by blast
  next
    case (full n fp)
    then show ?thesis
      using normalizeEvent_Inr(1) [OF full(2)]
      by (auto simp: store_later_def installed_full_def event_position_def less_eq_prod_def)
  next
    case (one n x fp)
    then show ?thesis
      using normalizeEvent_Inr(1) [OF one(2)]
      by (auto simp: store_later_def installed_one_def event_position_def less_eq_prod_def)
  qed
  with a show ?thesis by simp
qed

interpretation gateway_store: evolving store_initial "store_exec jcs" "store_inv jcs" store_later for jcs
proof
  show "store_inv jcs s" if "store_initial s" for s using store_inv_initial [OF that] .
  show "store_inv jcs (store_exec jcs e s)" if inv: "store_inv jcs s" for e s
  proof (cases e)
    case (EvWatch c)
    then show ?thesis using inv by (simp add: store_exec_def SetWatchConnected_def store_inv_def view_record_ok_def)
  qed (use inv in \<open>simp_all add: store_exec_def store_inv_Apply store_inv_Suppress
        same_view_inv [OF inv Lookup_same_view] same_view_inv [OF inv LookupAll_same_view]\<close>)
  show "store_later s s" for s by (simp add: store_later_def)
  show "store_later s u" if "store_later s v" "store_later v u" for s v u
    using that by (auto simp: store_later_def)
  show "store_later s (store_exec jcs e s)" if "store_inv jcs s" for e s
  proof (cases e)
    case (EvSuppress f a)
    then show ?thesis
      by (cases rule: SuppressEndpoint_cases [of f a s]) (auto simp: store_exec_def store_later_def)
  next
    case (EvWatch c)
    then show ?thesis by (simp add: store_exec_def SetWatchConnected_def store_later_def)
  qed (simp_all add: store_exec_def store_later_Apply same_view_later [OF Lookup_same_view]
        same_view_later [OF LookupAll_same_view])
qed

subsection \<open>Where a served view comes from\<close>

lemma record_origin:
  assumes "fmlookup (gst_functions (store_exec jcs ev s)) f = Some r"
  shows "(\<exists>r0. fmlookup (gst_functions s) f = Some r0 \<and> fr_snapshot r0 = fr_snapshot r
        \<and> fr_receivedAt r0 = fr_receivedAt r)
    \<or> (\<exists>e t. ev = EvStoreApply e t \<and> fst (Store_Apply jcs e t s) = Inr ()
        \<and> fr_snapshot r \<in> set (se_Snapshots e) \<and> fr_receivedAt r = t)"
proof (cases ev)
  case (EvStoreApply e t)
  obtain res s' where a: "Store_Apply jcs e t s = (res, s')" by (cases "Store_Apply jcs e t s")
  have r: "fmlookup (gst_functions s') f = Some r" using assms EvStoreApply a by (simp add: store_exec_def)
  from a show ?thesis
  proof (cases rule: Store_Apply_cases)
    case kept
    then show ?thesis using r by (auto simp: same_view_def)
  next
    case (full n fp)
    then obtain x where "x \<in> set (se_Snapshots n)" "r = replacement s t x"
      using r fmlookup_full [of "\<lambda>x. replacement s t x" "se_Snapshots n" f r] by (auto simp: installed_full_def)
    then show ?thesis
      using EvStoreApply a full(1) normalizeEvent_Inr(1) [OF full(2)] by (simp add: replacement_def)
  next
    case (one n x fp)
    then show ?thesis
      using EvStoreApply a r by (cases "f = sn_FunctionID x") (auto simp: installed_one_def replacement_def)
  qed
next
  case (EvSuppress g a)
  then show ?thesis
    using assms by (cases rule: SuppressEndpoint_cases [of g a s]) (auto simp: store_exec_def split: if_splits)
qed (use assms Lookup_same_view LookupAll_same_view in
      \<open>auto simp: store_exec_def same_view_def SetWatchConnected_def\<close>)

lemma record_history:
  assumes "fmlookup (gst_functions (run (store_exec jcs) es s0)) f = Some r" and "gst_functions s0 = fmempty"
  shows "\<exists>pre e t post. es = pre @ EvStoreApply e t # post
    \<and> fst (Store_Apply jcs e t (run (store_exec jcs) pre s0)) = Inr ()
    \<and> fr_snapshot r \<in> set (se_Snapshots e) \<and> fr_receivedAt r = t"
  using assms(1)
proof (induction es arbitrary: r rule: rev_induct)
  case Nil
  then show ?case using assms(2) by simp
next
  case (snoc ev es)
  from snoc.prems have "fmlookup (gst_functions (store_exec jcs ev (run (store_exec jcs) es s0))) f = Some r"
    by simp
  from record_origin [OF this] show ?case
  proof (elim disjE exE conjE)
    fix r0 assume r0: "fmlookup (gst_functions (run (store_exec jcs) es s0)) f = Some r0"
      and same: "fr_snapshot r0 = fr_snapshot r" "fr_receivedAt r0 = fr_receivedAt r"
    from snoc.IH [OF r0] obtain pre e t post where h: "es = pre @ EvStoreApply e t # post"
        "fst (Store_Apply jcs e t (run (store_exec jcs) pre s0)) = Inr ()"
        "fr_snapshot r0 \<in> set (se_Snapshots e)" "fr_receivedAt r0 = t"
      by blast
    then have "es @ [ev] = pre @ EvStoreApply e t # (post @ [ev])" by simp
    with h same show ?thesis by metis
  next
    fix e t assume "ev = EvStoreApply e t" "fst (Store_Apply jcs e t (run (store_exec jcs) es s0)) = Inr ()"
      "fr_snapshot r \<in> set (se_Snapshots e)" "fr_receivedAt r = t"
    then show ?thesis by blast
  qed
qed

lemma Store_Lookup_Inr:
  assumes "Store_Lookup f now s = (Inr v, s')"
  obtains r where "fmlookup (gst_functions s) f = Some r" "v = visibleSnapshot r"
    "usableLocked s r now" "gst_fullSynced s" "\<not> gst_needsFullSync s" "gst_clockHealthy s" "gst_lastElapsed s \<le> now"
  using assms
  by (auto simp: Store_Lookup_def check_eq_Inr store_elapsedLocked_def usableLocked_def not_less
      split: if_splits option.splits)

lemma NewGatewayStore_Inr:
  assumes "NewGatewayStore a b c = Inr s"
  shows "gst_functions s = fmempty \<and> store_initial s"
proof
  show "gst_functions s = fmempty" using assms by (auto simp: NewGatewayStore_def Let_def split: if_splits)
  show "store_initial s" unfolding store_initial_def using assms by blast
qed

text \<open>
  C19: a gateway serves only views that were delivered and are still fresh. Whatever events, failed
  ones included, watch changes, suppressions and reads came before, a view that \<open>Lookup\<close> returns
  for a Function is one that an accepted event carried, validated with its checksum, and not longer
  ago than the configured window, or, where the window is zero, while the watch is connected.
  Its visible endpoints are endpoints of that view.
\<close>

theorem lookup_fresh:
  assumes "NewGatewayStore stale functions elapsed = Inr s0"
    and "Store_Lookup f now (run (store_exec jcs) es s0) = (Inr v, s')"
  shows "\<exists>pre e t post. es = pre @ EvStoreApply e t # post
    \<and> fst (Store_Apply jcs e t (run (store_exec jcs) pre s0)) = Inr ()
    \<and> vw_Snapshot v \<in> set (se_Snapshots e) \<and> sn_FunctionID (vw_Snapshot v) = f
    \<and> ServingSnapshot_Validate jcs (vw_Snapshot v) = None
    \<and> (if gst_maxStale s0 = 0 then gst_watchConnected (run (store_exec jcs) es s0)
       else t \<le> now \<and> now - t < gst_maxStale s0)
    \<and> set (vw_Endpoints v) \<subseteq> set (snapshot_endpoints (vw_Snapshot v))"
proof -
  let ?s = "run (store_exec jcs) es s0"
  note new = NewGatewayStore_Inr [OF assms(1)]
  have inv0: "store_inv jcs s0" using new gateway_store.inv_initial by blast
  obtain r where r: "fmlookup (gst_functions ?s) f = Some r" "v = visibleSnapshot r" "usableLocked ?s r now"
    by (rule Store_Lookup_Inr [OF assms(2)])
  obtain pre e t post where h: "es = pre @ EvStoreApply e t # post"
      "fst (Store_Apply jcs e t (run (store_exec jcs) pre s0)) = Inr ()"
      "fr_snapshot r \<in> set (se_Snapshots e)" "fr_receivedAt r = t"
    using record_history [OF r(1)] new by blast
  have "gst_maxStale ?s = gst_maxStale s0"
    using gateway_store.later_run [OF inv0, of es] by (simp add: store_later_def)
  then have fresh: "if gst_maxStale s0 = 0 then gst_watchConnected ?s else t \<le> now \<and> now - t < gst_maxStale s0"
    using r(3) h(4) by (simp add: usableLocked_def split: if_splits)
  have "view_record_ok jcs ?s f r"
    using gateway_store.inv_run [OF inv0, of es] r(1) by (simp add: store_inv_def)
  then have "sn_FunctionID (fr_snapshot r) = f" "ServingSnapshot_Validate jcs (fr_snapshot r) = None"
    by (simp_all add: view_record_ok_def)
  with h fresh show ?thesis
    by (intro exI [of _ pre] exI [of _ e] exI [of _ t] exI [of _ post]) (auto simp: r(2) visibleSnapshot_def)
qed

text \<open>
  C23: the serving view of a gateway never goes back. Over any sequence of events the position, epoch
  first and sequence second, does not decrease, so an event from before a newer one, or from a
  deposed epoch, is never installed; a clock that went backwards stays untrusted; and the store
  holds at most the configured number of Functions, each at the epoch of the position.
\<close>

theorem position_never_regresses:
  assumes "NewGatewayStore stale functions elapsed = Inr s0"
  shows "let s = run (store_exec jcs) es s0; s' = run (store_exec jcs) es' s in
     (pos_epoch (gst_position s), pos_sequence (gst_position s))
       \<le> (pos_epoch (gst_position s'), pos_sequence (gst_position s'))
     \<and> (gst_clockHealthy s' \<longrightarrow> gst_clockHealthy s)
     \<and> int (map_len (gst_functions s')) \<le> gst_maxFunctions s0
     \<and> (\<forall>f r. fmlookup (gst_functions s') f = Some r \<longrightarrow>
          sn_DiscoveryEpoch (fr_snapshot r) = pos_epoch (gst_position s')
          \<and> sn_ServingSequence (fr_snapshot r) \<le> pos_sequence (gst_position s'))"
proof -
  let ?s = "run (store_exec jcs) es s0" and ?s' = "run (store_exec jcs) es' (run (store_exec jcs) es s0)"
  have inv0: "store_inv jcs s0" using NewGatewayStore_Inr [OF assms] gateway_store.inv_initial by blast
  have inv: "store_inv jcs ?s" by (rule gateway_store.inv_run [OF inv0])
  have inv': "store_inv jcs ?s'" by (rule gateway_store.inv_run [OF inv])
  have "store_later ?s ?s'" by (rule gateway_store.later_run [OF inv])
  moreover have "store_later s0 ?s" by (rule gateway_store.later_run [OF inv0])
  ultimately show ?thesis
    using inv' by (simp add: Let_def store_later_def store_inv_def view_record_ok_def del: less_eq_prod_simp)
qed

subsection \<open>Local suppressions\<close>

lemma retained_fold:
  "fmlookup (fold (\<lambda>e retained.
      if fmlookup previous (ai_AssignmentID (en_Assignment e)) = Some (en_Assignment e)
      then fmupd (ai_AssignmentID (en_Assignment e)) (en_Assignment e) retained else retained) es acc) k =
    (if \<exists>e \<in> set es. ai_AssignmentID (en_Assignment e) = k \<and> fmlookup previous k = Some (en_Assignment e)
     then fmlookup previous k else fmlookup acc k)"
  by (induction es arbitrary: acc) auto

lemma fmlookup_retained:
  "fmlookup (retainedSuppressions previous es) k =
    (if \<exists>e \<in> set es. ai_AssignmentID (en_Assignment e) = k \<and> fmlookup previous k = Some (en_Assignment e)
     then fmlookup previous k else None)"
  unfolding retainedSuppressions_def retained_fold fmempty_lookup by (rule refl)

text \<open>The fence \<open>a\<close> is an endpoint of the Function \<open>f\<close>, and it is suppressed.\<close>

definition suppressed_in :: "string \<Rightarrow> AssignmentIdentity \<Rightarrow> GatewayStore \<Rightarrow> bool" where
  "suppressed_in f a s \<longleftrightarrow> (\<exists>r. fmlookup (gst_functions s) f = Some r
     \<and> a \<in> en_Assignment ` set (snapshot_endpoints (fr_snapshot r))
     \<and> fmlookup (fr_suppressed r) (ai_AssignmentID a) = Some a)"

text \<open>An event that, if it is accepted, leaves the endpoint in the view of its Function.\<close>

definition keeps_endpoint :: "string \<Rightarrow> AssignmentIdentity \<Rightarrow> store_event \<Rightarrow> bool" where
  "keeps_endpoint f a ev \<longleftrightarrow>
    (case ev of
       EvStoreApply e t \<Rightarrow>
         (\<forall>x \<in> set (se_Snapshots e). sn_FunctionID x = f \<longrightarrow> a \<in> en_Assignment ` set (snapshot_endpoints x))
         \<and> (se_Full e \<longrightarrow> f \<in> sn_FunctionID ` set (se_Snapshots e))
     | _ \<Rightarrow> True)"

lemma replacement_suppressed:
  assumes "suppressed_in f a s" and "sn_FunctionID x = f"
    and "a \<in> en_Assignment ` set (snapshot_endpoints x)"
  shows "fmlookup (fr_suppressed (replacement s t x)) (ai_AssignmentID a) = Some a"
proof -
  obtain e where e: "e \<in> set (snapshot_endpoints x)" "en_Assignment e = a" using assms(3) by auto
  obtain r where r: "fmlookup (gst_functions s) f = Some r" "fmlookup (fr_suppressed r) (ai_AssignmentID a) = Some a"
    using assms(1) by (auto simp: suppressed_in_def)
  have "\<exists>e \<in> set (snapshot_endpoints x). ai_AssignmentID (en_Assignment e) = ai_AssignmentID a
      \<and> fmlookup (fr_suppressed r) (ai_AssignmentID a) = Some (en_Assignment e)"
    using e r(2) by (intro bexI [OF _ e(1)]) simp
  then show ?thesis using r assms(2) by (simp add: replacement_def fmlookup_retained)
qed

lemma suppressed_in_Apply:
  assumes sup: "suppressed_in f a s" and keep: "keeps_endpoint f a (EvStoreApply e t)"
  shows "suppressed_in f a (snd (Store_Apply jcs e t s))"
proof -
  obtain res s' where ap: "Store_Apply jcs e t s = (res, s')" by (cases "Store_Apply jcs e t s")
  from ap have "suppressed_in f a s'"
  proof (cases rule: Store_Apply_cases)
    case kept
    then show ?thesis using sup by (simp add: suppressed_in_def same_view_def)
  next
    case (full n fp)
    have n: "set (se_Snapshots n) = set (se_Snapshots e)" "distinct (map sn_FunctionID (se_Snapshots n))"
      using normalizeEvent_Inr(1,7) [OF full(2)] by simp_all
    obtain x where x: "x \<in> set (se_Snapshots n)" "sn_FunctionID x = f"
      using keep full(3) n(1) by (auto simp: keeps_endpoint_def)
    have "map_of (map (\<lambda>x. (sn_FunctionID x, replacement s t x)) (se_Snapshots n)) f = Some (replacement s t x)"
      using x n(2) by (intro map_of_is_SomeI) (auto simp: comp_def)
    then have "fmlookup (gst_functions s') f = Some (replacement s t x)"
      using full(6) by (simp add: installed_full_def fmlookup_of_list)
    moreover have "a \<in> en_Assignment ` set (snapshot_endpoints x)"
      using keep x n(1) by (auto simp: keeps_endpoint_def)
    ultimately show ?thesis
      using replacement_suppressed [OF sup x(2)] by (auto simp: suppressed_in_def replacement_def)
  next
    case (one n x fp)
    show ?thesis
    proof (cases "sn_FunctionID x = f")
      case True
      then have "a \<in> en_Assignment ` set (snapshot_endpoints x)"
        using keep one(4) by (simp add: keeps_endpoint_def)
      then show ?thesis
        using replacement_suppressed [OF sup True] True one(7)
        by (auto simp: suppressed_in_def installed_one_def replacement_def)
    next
      case False
      then show ?thesis using sup one(7) by (simp add: suppressed_in_def installed_one_def)
    qed
  qed
  with ap show ?thesis by simp
qed

lemma validated_ids_distinct:
  "ServingSnapshot_Validate jcs x = None \<Longrightarrow>
   distinct (map (\<lambda>e. ai_AssignmentID (en_Assignment e)) (snapshot_endpoints x))"
  unfolding ServingSnapshot_Validate_def first_error_Cons_None validate_endpoints_None by blast

lemma suppressed_in_Suppress:
  assumes inv: "store_inv jcs s" and sup: "suppressed_in f a s"
  shows "suppressed_in f a (snd (SuppressEndpoint g b s))"
proof (cases rule: SuppressEndpoint_cases [of g b s])
  case (hidden r)
  obtain r0 where r0: "fmlookup (gst_functions s) f = Some r0"
      "a \<in> en_Assignment ` set (snapshot_endpoints (fr_snapshot r0))"
      "fmlookup (fr_suppressed r0) (ai_AssignmentID a) = Some a"
    using sup by (auto simp: suppressed_in_def)
  have "b = a" if "g = f" "ai_AssignmentID b = ai_AssignmentID a"
  proof -
    have "distinct (map (\<lambda>e. ai_AssignmentID (en_Assignment e)) (snapshot_endpoints (fr_snapshot r0)))"
      by (rule validated_ids_distinct [OF store_inv_valid [OF inv r0(1)]])
    then have "inj_on (\<lambda>e. ai_AssignmentID (en_Assignment e)) (set (snapshot_endpoints (fr_snapshot r0)))"
      by (simp add: distinct_map)
    moreover have "r = r0" using hidden(1) r0(1) that(1) by simp
    ultimately show ?thesis using hidden(2) r0(2) that(2) by (auto dest: inj_onD)
  qed
  then show ?thesis
    using r0 hidden by (cases "g = f") (auto simp: suppressed_in_def)
qed (use sup in simp)

lemma suppressed_in_exec:
  assumes "store_inv jcs s" and "suppressed_in f a s" and "keeps_endpoint f a ev"
  shows "suppressed_in f a (store_exec jcs ev s)"
proof (cases ev)
  case (EvStoreApply e t)
  then show ?thesis using assms suppressed_in_Apply by (simp add: store_exec_def)
next
  case (EvSuppress g b)
  then show ?thesis using suppressed_in_Suppress [OF assms(1,2)] by (simp add: store_exec_def)
qed (use assms(2) Lookup_same_view LookupAll_same_view in
      \<open>auto simp: store_exec_def suppressed_in_def same_view_def SetWatchConnected_def\<close>)

lemma suppressed_in_run:
  "store_inv jcs s \<Longrightarrow> suppressed_in f a s \<Longrightarrow> \<forall>ev \<in> set es. keeps_endpoint f a ev \<Longrightarrow>
   suppressed_in f a (run (store_exec jcs) es s)"
  by (induction es arbitrary: s) (auto intro: suppressed_in_exec gateway_store.inv_exec)

text \<open>
  C21: an endpoint that failed locally stays out of use. Once a suppression of a fence has been
  accepted, no later lookup shows an endpoint with that fence, across any full or incremental
  events that still carry it, watch changes, reads and further suppressions; only a view without
  the endpoint, or with a new fence for it, ends the suppression.
\<close>

theorem suppressed_stays_hidden:
  assumes "reachable store_initial (store_exec jcs) s" and "SuppressEndpoint f a s = (Inr (), s1)"
    and "\<forall>ev \<in> set es. keeps_endpoint f a ev"
    and "Store_Lookup f now (run (store_exec jcs) es s1) = (Inr v, s2)"
  shows "a \<notin> en_Assignment ` set (vw_Endpoints v)"
proof -
  have inv: "store_inv jcs s" by (rule gateway_store.inv_reachable [OF assms(1)])
  have inv1: "store_inv jcs s1" using store_inv_Suppress [OF inv, of f a] assms(2) by simp
  have "suppressed_in f a s1"
    using assms(2) by (cases rule: SuppressEndpoint_cases [of f a s]) (auto simp: suppressed_in_def)
  then have "suppressed_in f a (run (store_exec jcs) es s1)" by (rule suppressed_in_run [OF inv1 _ assms(3)])
  moreover obtain r where "fmlookup (gst_functions (run (store_exec jcs) es s1)) f = Some r" "v = visibleSnapshot r"
    by (rule Store_Lookup_Inr [OF assms(4)])
  ultimately show ?thesis by (auto simp: suppressed_in_def visibleSnapshot_def)
qed

subsection \<open>A sample store\<close>

definition gw_store :: GatewayStore where
  "gw_store = (case NewGatewayStore None 0 0 of Inr s \<Rightarrow> s)"

definition gw_event :: ServingEvent where
  "gw_event = \<lparr>se_Full = True, se_DiscoveryEpoch = 1, se_ServingSequence = 1,
     se_Snapshots = [dres_Snapshot view_result]\<rparr>"

abbreviation gw_synced :: GatewayStore where
  "gw_synced \<equiv> run (store_exec Inr) [EvStoreApply gw_event 5] gw_store"

lemma gw_store_new: "NewGatewayStore None 0 0 = Inr gw_store"
  by (simp add: gw_store_def NewGatewayStore_def Let_def DefaultMaxStale_def HardMaxStale_def)

lemma gw_store_state [simp]:
  "gst_maxStale gw_store = 5 * minute" "gst_maxFunctions gw_store = 10000" "gst_functions gw_store = fmempty"
  "gst_position gw_store = \<lparr>pos_epoch = 0, pos_sequence = 0, pos_fingerprint = ''''\<rparr>"
  "gst_clockHealthy gw_store" "gst_lastElapsed gw_store = 0"
  by (simp_all add: gw_store_def NewGatewayStore_def Let_def DefaultMaxStale_def HardMaxStale_def)

lemma view_result_snapshot:
  "sn_FunctionID (dres_Snapshot view_result) = ''f-1''" "sn_DiscoveryEpoch (dres_Snapshot view_result) = 1"
  "sn_ServingSequence (dres_Snapshot view_result) = 1"
  "ServingSnapshot_Validate Inr (dres_Snapshot view_result) = None"
proof -
  obtain d where d: "calculateChecksum Inr (built_view view_input) = Inr d"
      "dres_Snapshot view_result = (built_view view_input)\<lparr>sn_Checksum := d\<rparr>"
    using Builder_Build_view [OF view_built] by auto
  show "sn_FunctionID (dres_Snapshot view_result) = ''f-1''" "sn_DiscoveryEpoch (dres_Snapshot view_result) = 1"
    "sn_ServingSequence (dres_Snapshot view_result) = 1"
    by (simp_all add: d(2)) (simp_all add: view_input_def)
  show "ServingSnapshot_Validate Inr (dres_Snapshot view_result) = None"
    using built_view_valid [OF view_input_valid view_candidates_valid d(1)] by (simp add: d(2))
qed

lemma gw_event_normal: "\<exists>fp. normalizeEvent Inr gw_event 10000 = Inr (gw_event, fp)"
  by (simp add: normalizeEvent_def gw_event_def normalize_snapshots_None view_result_snapshot
      eventFingerprint_def CanonicalJSON_def)

lemma gw_applied:
  "\<exists>fp. Store_Apply Inr gw_event 5 gw_store = (Inr (), installed_full gw_event fp 5 gw_store)"
proof -
  obtain fp where "normalizeEvent Inr gw_event 10000 = Inr (gw_event, fp)" using gw_event_normal by blast
  then have "Store_Apply Inr gw_event 5 gw_store = (Inr (), installed_full gw_event fp 5 gw_store)"
    by (simp add: Store_Apply_def samePosition_def applyFullLocked_def regression_def
        store_elapsedLocked_def installed_full_def) (simp add: gw_event_def regression_def)
  then show ?thesis by blast
qed

lemma gw_synced_record:
  "fmlookup (gst_functions gw_synced) ''f-1'' =
     Some \<lparr>fr_snapshot = dres_Snapshot view_result, fr_receivedAt = 5, fr_suppressed = fmempty\<rparr>"
  "gst_maxStale gw_synced = 5 * minute" "gst_clockHealthy gw_synced" "gst_lastElapsed gw_synced = 5"
  "gst_fullSynced gw_synced" "\<not> gst_needsFullSync gw_synced"
  using gw_applied
  by (auto simp: store_exec_def installed_full_def gw_event_def view_result_snapshot(1) replacement_def)

lemma id_f1: "identifierPattern ''f-1''"
  by code_simp

lemma gw_lookup:
  "\<exists>s'. Store_Lookup ''f-1'' (60 * second) gw_synced =
     (Inr (visibleSnapshot \<lparr>fr_snapshot = dres_Snapshot view_result, fr_receivedAt = 5, fr_suppressed = fmempty\<rparr>), s')"
  using gw_synced_record by (simp add: Store_Lookup_def id_f1 store_elapsedLocked_def usableLocked_def)

theorem lookup_fresh_witness:
  "\<exists>v. fst (Store_Lookup ''f-1'' (60 * second) gw_synced) = Inr v
     \<and> sn_FunctionID (vw_Snapshot v) = ''f-1'' \<and> ServingSnapshot_Validate Inr (vw_Snapshot v) = None"
proof -
  obtain v s' where v: "Store_Lookup ''f-1'' (60 * second) gw_synced = (Inr v, s')" using gw_lookup by blast
  show ?thesis using lookup_fresh [OF gw_store_new v] v by auto
qed

theorem position_never_regresses_witness:
  "(pos_epoch (gst_position gw_store), pos_sequence (gst_position gw_store))
     \<le> (pos_epoch (gst_position gw_synced), pos_sequence (gst_position gw_synced))"
  using position_never_regresses [OF gw_store_new, of Inr "[]" "[EvStoreApply gw_event 5]"]
  by (simp add: Let_def)

lemma gw_suppress: "\<exists>s1. SuppressEndpoint ''f-1'' sample_identity gw_synced = (Inr (), s1)"
proof -
  have "AssignmentIdentity_validate sample_identity = None" by code_simp
  then show ?thesis
    using gw_synced_record(1)
    by (simp add: SuppressEndpoint_def id_f1 view_result_endpoints candidate_endpoint_def view_candidate_def)
qed

theorem suppressed_stays_hidden_witness:
  "\<exists>v s1 s2. SuppressEndpoint ''f-1'' sample_identity gw_synced = (Inr (), s1)
     \<and> Store_Lookup ''f-1'' (60 * second) (run (store_exec Inr) [EvWatch False] s1) = (Inr v, s2)
     \<and> sample_identity \<notin> en_Assignment ` set (vw_Endpoints v)"
proof -
  have reach: "reachable store_initial (store_exec Inr) gw_synced"
    by (rule reachable_run, rule reachable_initial) (use NewGatewayStore_Inr [OF gw_store_new] in blast)
  obtain s1 where s1: "SuppressEndpoint ''f-1'' sample_identity gw_synced = (Inr (), s1)" using gw_suppress by blast
  obtain r where "s1 = gw_synced\<lparr>gst_functions := fmupd ''f-1''
      (r\<lparr>fr_suppressed := fmupd (ai_AssignmentID sample_identity) sample_identity (fr_suppressed r)\<rparr>)
      (gst_functions gw_synced)\<rparr>" "fmlookup (gst_functions gw_synced) ''f-1'' = Some r"
    using s1 by (cases rule: SuppressEndpoint_cases [of "''f-1''" sample_identity gw_synced]) auto
  then have "\<exists>v s2. Store_Lookup ''f-1'' (60 * second) (run (store_exec Inr) [EvWatch False] s1) = (Inr v, s2)"
    using gw_synced_record
    by (simp add: Store_Lookup_def id_f1 store_elapsedLocked_def usableLocked_def store_exec_def SetWatchConnected_def)
  then obtain v s2 where v: "Store_Lookup ''f-1'' (60 * second) (run (store_exec Inr) [EvWatch False] s1) = (Inr v, s2)"
    by blast
  have "\<forall>ev \<in> set [EvWatch False]. keeps_endpoint ''f-1'' sample_identity ev" by (simp add: keeps_endpoint_def)
  then show ?thesis using suppressed_stays_hidden [OF reach s1 _ v] s1 v by blast
qed

end
