(* ===== verification/LocalServing.thy ===== *)
theory LocalServing
  imports ControlPlane GatewayDiscovery
begin

text \<open>
  Package \<^verbatim>\<open>internal/localserving\<close>: the synchronizer that projects one consistent read of the
  control plane into complete serving views and applies them to the local gateway store. The
  mutex of the synchronizer makes a sync one step on the pair of publisher and store. The
  interface values are arguments: the result of \<open>ListServingStates\<close>, the candidate source (\<open>None\<close>
  where it is nil), the wall clock, the monotonic clock, and \<open>ctxErr n\<close>, what the call number \<open>n\<close> of
  \<^verbatim>\<open>ctx.Err()\<close> returns. Nil dependencies are not modelled.
\<close>

subsection \<open>The projection\<close>

definition projectRoute :: "ServingState \<Rightarrow> DiscoveryRoute" where
  "projectRoute state =
    (case ss_Route state of
       None \<Rightarrow>
         \<lparr>drt_Present = False, drt_FunctionID = m_ID (ss_Function state), drt_ResourceRevision = 0,
          drt_RouteRevision = 0, drt_Enabled = False, drt_Targets = [], drt_Affinity = AffinitySourceOther '''',
          drt_AffinityHeader = '''', drt_HashVersion = '''', drt_SaltID = '''', drt_Salt = ''''\<rparr>
     | Some route \<Rightarrow>
         \<lparr>drt_Present = True, drt_FunctionID = r_FunctionID route,
          drt_ResourceRevision = m_ResourceRevision route, drt_RouteRevision = r_RouteRevision route,
          drt_Enabled = r_Enabled route, drt_Targets = r_Targets route, drt_Affinity = r_Affinity route,
          drt_AffinityHeader = r_AffinityHeader route, drt_HashVersion = r_HashVersion route,
          drt_SaltID = r_SaltID route, drt_Salt = r_Salt route\<rparr>)"

definition projectInput :: "ServingState \<Rightarrow> Time \<Rightarrow> DiscoveryInput" where
  "projectInput state generatedAt =
    \<lparr>in_DiscoveryEpoch = 0, in_ServingSequence = 0, in_GeneratedAt = generatedAt,
     in_Function = \<lparr>df_ID = m_ID (ss_Function state), df_Name = f_Name (ss_Function state),
       df_ResourceRevision = m_ResourceRevision (ss_Function state),
       df_Lifecycle = f_Lifecycle (ss_Function state)\<rparr>,
     in_Trigger = \<lparr>dt_ID = m_ID (ss_Trigger state), dt_FunctionID = ht_FunctionID (ss_Trigger state),
       dt_ResourceRevision = m_ResourceRevision (ss_Trigger state), dt_Enabled = ht_Enabled (ss_Trigger state),
       dt_AuthPolicy = ht_AuthPolicy (ss_Trigger state),
       dt_TokenVerifierDigest = ht_TokenVerifierDigest (ss_Trigger state)\<rparr>,
     in_Route = projectRoute state, in_Candidates = []\<rparr>"

subsection \<open>The synchronizer\<close>

type_synonym candidate_source = "ServingState \<Rightarrow> u64 \<Rightarrow> error + EndpointCandidate list"

record Synchronizer =
  syn_publisher :: Publisher
  syn_store :: GatewayStore

definition endpointCandidates :: "candidate_source option \<Rightarrow> ServingState \<Rightarrow> u64 \<Rightarrow> error + EndpointCandidate list" where
  "endpointCandidates source state epoch =
    (case source of None \<Rightarrow> Inr [] | Some candidates \<Rightarrow> candidates state epoch)"

text \<open>The loop over the states; \<open>n\<close> counts the calls of \<^verbatim>\<open>ctx.Err()\<close>.\<close>

fun project_states ::
  "(nat \<Rightarrow> error option) \<Rightarrow> nat \<Rightarrow> candidate_source option \<Rightarrow> u64 \<Rightarrow> Time \<Rightarrow> ServingState list \<Rightarrow> error + DiscoveryInput list" where
  "project_states ctxErr n source epoch generatedAt [] = Inr []"
| "project_states ctxErr n source epoch generatedAt (state # states) =
    (case ctxErr n of
       Some e \<Rightarrow> Inl e
     | None \<Rightarrow>
    (case endpointCandidates source state epoch of
       Inl e \<Rightarrow> Inl (Wrapped (''listing candidates for function '' @ [CHR 0x22] @ m_ID (ss_Function state) @ [CHR 0x22]) e)
     | Inr candidates \<Rightarrow>
    (case project_states ctxErr (Suc n) source epoch generatedAt states of
       Inl e \<Rightarrow> Inl e
     | Inr inputs \<Rightarrow> Inr ((projectInput state generatedAt)\<lparr>in_Candidates := candidates\<rparr> # inputs))))"

definition full_event :: "u64 \<Rightarrow> u64 \<Rightarrow> DiscoveryResult list \<Rightarrow> ServingEvent" where
  "full_event epoch sequence results =
    \<lparr>se_Full = True, se_DiscoveryEpoch = epoch, se_ServingSequence = sequence,
     se_Snapshots = map dres_Snapshot results\<rparr>"

definition FullSync ::
  "canonicalizer \<Rightarrow> (nat \<Rightarrow> error option) \<Rightarrow> error + ServingState list \<Rightarrow> candidate_source option \<Rightarrow> Time \<Rightarrow> duration \<Rightarrow>
     (error, Synchronizer, unit) operation" where
  "FullSync jcs ctxErr listed source now clock s =
    check (first_error [ctxErr 0, ctxErr 1]) s
    (case listed of
       Inl e \<Rightarrow> (Inl (Wrapped ''listing local serving states'' e), s)
     | Inr states \<Rightarrow>
    (let epoch = fst (Publisher_Position (syn_publisher s)) in
     case project_states ctxErr 2 source epoch (Time_Round0 now) states of
       Inl e \<Rightarrow> (Inl e, s)
     | Inr inputs \<Rightarrow>
    (case Publisher_BuildFull jcs inputs (syn_publisher s) of
       (Inl e, p) \<Rightarrow> (Inl (Wrapped ''building local serving Full Sync'' e), s\<lparr>syn_publisher := p\<rparr>)
     | (Inr (results, sequence), p) \<Rightarrow>
    (case Store_Apply jcs (full_event epoch sequence results) clock (syn_store s) of
       (Inl e, st) \<Rightarrow> (Inl (Wrapped ''applying local serving Full Sync'' e), s\<lparr>syn_publisher := p, syn_store := st\<rparr>)
     | (Inr _, st) \<Rightarrow> (Inr (), s\<lparr>syn_publisher := p, syn_store := st\<rparr>)))))"

section \<open>Properties\<close>

subsection \<open>The projection of a serving state is a valid input\<close>

lemma validateRoute_targets_model:
  "validateRouteTargets_loop tot seen ts = Inr w \<Longrightarrow> validateRoute_targets tot seen ts = Inr w"
  unfolding validateRoute_targets_Inr validateRouteTargets_loop_Inr by assumption

text \<open>The header of an affinity is a list of ASCII token characters, hence valid UTF-8.\<close>

lemma token_char_ascii: "is_token_char c \<Longrightarrow> byte_val c < 0x80"
  by (auto simp: is_token_char_def is_digit_def is_upper_def is_lower_def)

lemma httpTokenPattern_utf8: "httpTokenPattern s \<Longrightarrow> utf8_valid s"
  by (rule utf8_valid_ascii) (auto simp: httpTokenPattern_def list_all_iff token_char_ascii)

lemma projectRoute_valid:
  assumes "Route_Validate r = None" and "r_FunctionID r = f" and "ss_Route st = Some r"
  shows "validateRoute (projectRoute st) f = None"
proof -
  have len: "length (r_Targets r) \<le> MaxRouteTargets" and t: "validateRouteTargets (r_Targets r) = None"
    and aff: "validateAffinity r = None"
    using assms(1) by (auto simp: Route_Validate_def)
  obtain w where w: "validateRouteTargets_loop 0 {||} (r_Targets r) = Inr w"
      "r_Targets r \<noteq> [] \<longrightarrow> w = TotalRouteWeightBasisPoints"
    using t by (auto simp: validateRouteTargets_def split: sum.splits)
  note targets = validateRoute_targets_model [OF w(1)]
  have "case r_Affinity r of AffinityRequestID \<Rightarrow> r_AffinityHeader r = ''''
      | AffinityIdempotencyKey \<Rightarrow> r_AffinityHeader r = ''''
      | AffinityHeader \<Rightarrow> httpTokenPattern (r_AffinityHeader r) | AffinitySourceOther _ \<Rightarrow> False"
    using aff by (simp add: validateAffinity_def split: AffinitySource.splits)
  then show ?thesis
    using assms w targets httpTokenPattern_utf8
    by (auto simp: validateRoute_def projectRoute_def Route_Validate_def Metadata_Validate_None identifierPattern_eq
        split: AffinitySource.splits)
qed

lemma projectRoute_absent:
  "ss_Route st = None \<Longrightarrow> validateRoute (projectRoute st) (m_ID (ss_Function st)) = None"
  by (simp add: validateRoute_def projectRoute_def)

text \<open>
  The three validations of discovery accept what the catalog and the routes hold, although the
  packages state their checks separately.
\<close>

lemma projectInput_valid:
  assumes cat: "catalog_inv c" and rou: "route_inv c releases s"
    and entry: "serving_entry jcs c releases s st"
    and time: "\<not> Time_IsZero now" "isUTC now" and position: "epoch \<noteq> 0" "sequence \<noteq> 0"
  shows "inputs_valid (at_position epoch sequence ((projectInput st (Time_Round0 now))\<lparr>in_Candidates := cs\<rparr>))"
proof -
  let ?f = "ss_Function st"
  have f: "fmlookup (cat_functionsByID c) (m_ID ?f) = Some ?f" using entry by (simp add: serving_entry_def)
  have fv: "Function_Validate ?f = None" using catalog_function [OF cat f] by (simp add: function_entry_def)
  obtain t tr where tr: "fmlookup (cat_triggersByID c) t = Some tr" "ht_FunctionID tr = m_ID ?f"
      "function_trigger c (m_ID ?f) = tr"
    using function_trigger_found [OF cat f] by metis
  have trig: "ss_Trigger st = tr" using entry tr(3) by (simp add: serving_entry_def)
  have tv: "HTTPTrigger_Validate tr = None" using catalog_trigger [OF cat tr(1)] by (simp add: trigger_entry_def)
  have route: "validateRoute (projectRoute st) (m_ID ?f) = None"
  proof (cases "ss_Route st")
    case (Some r)
    then have "fmlookup (rou_routes s) (m_ID ?f) = Some r" using entry by (simp add: serving_entry_def)
    then have "r_FunctionID r = m_ID ?f" "Route_Validate r = None"
      using route_found [OF rou] by (auto simp: route_entry_def Route_ValidateCore_def)
    then show ?thesis using projectRoute_valid Some by blast
  qed (rule projectRoute_absent)
  show ?thesis
    using fv tv route time position tr(2)
    by (auto simp: inputs_valid_def validateSnapshotHeader_def input_snapshot_def at_position_def
        projectInput_def validateFunction_def validateHTTPTrigger_def trig identifierPattern_eq
        Function_Validate_def HTTPTrigger_Validate_def Metadata_Validate_None Time_Round0_def
        split: AuthPolicy.splits option.splits)
qed

subsection \<open>The local system\<close>

text \<open>\<open>ListServingStates\<close> of the local controller (route.go); \<open>ctx\<close> is the result of its context check.\<close>

definition ListServingStates :: "error option \<Rightarrow> ControlPlane \<Rightarrow> error + ServingState list" where
  "ListServingStates ctx cp =
    (case ctx of
       Some e \<Rightarrow> Inl e
     | None \<Rightarrow>
         (case ServingStates (cp_catalog cp) (cp_releases cp) (cp_routes cp) of
            Inl e \<Rightarrow> Inl (Wrapped ''listing serving states'' e)
          | Inr states \<Rightarrow> Inr states))"

text \<open>
  The control plane, the synchronizer and the gateway store of one process. Only a Full Sync
  writes to the store's view; invocations read it and suppress endpoints in between.
\<close>

datatype local_event =
    EvControl ControlEvent
  | EvFullSync "nat \<Rightarrow> error option" "error option" "candidate_source option" Time duration
  | EvLocalWatch bool
  | EvLocalLookup string duration
  | EvLocalLookupAll duration
  | EvLocalSuppress string AssignmentIdentity

definition on_store :: "canonicalizer \<Rightarrow> store_event \<Rightarrow> Synchronizer \<Rightarrow> Synchronizer" where
  "on_store jcs e s = s\<lparr>syn_store := store_exec jcs e (syn_store s)\<rparr>"

fun local_exec :: "canonicalizer \<Rightarrow> local_event \<Rightarrow> ControlPlane \<times> Synchronizer \<Rightarrow> ControlPlane \<times> Synchronizer" where
  "local_exec jcs (EvControl e) (cp, s) = (cp_exec jcs e cp, s)"
| "local_exec jcs (EvFullSync ctxErr ctx source now clock) (cp, s) =
     (cp, snd (FullSync jcs ctxErr (ListServingStates ctx cp) source now clock s))"
| "local_exec jcs (EvLocalWatch c) (cp, s) = (cp, on_store jcs (EvWatch c) s)"
| "local_exec jcs (EvLocalLookup f t) (cp, s) = (cp, on_store jcs (EvLookup f t) s)"
| "local_exec jcs (EvLocalLookupAll t) (cp, s) = (cp, on_store jcs (EvLookupAll t) s)"
| "local_exec jcs (EvLocalSuppress f a) (cp, s) = (cp, on_store jcs (EvSuppress f a) s)"

definition local_initial :: "ControlPlane \<times> Synchronizer \<Rightarrow> bool" where
  "local_initial cs \<longleftrightarrow> cp_initial (fst cs)
     \<and> (\<exists>limit builder epoch. NewBuilder limit = Inr builder \<and> NewPublisher epoch builder = Inr (syn_publisher (snd cs)))
     \<and> (\<exists>stale functions elapsed. NewGatewayStore stale functions elapsed = Inr (syn_store (snd cs)))"

subsection \<open>What the control plane keeps of a projection\<close>

definition route_at :: "ControlPlane \<Rightarrow> string \<Rightarrow> Route option" where
  "route_at cp i = fmlookup (rou_routes (cp_routes cp)) i"

definition state_at :: "ControlPlane \<Rightarrow> string \<Rightarrow> Function \<Rightarrow> ServingState" where
  "state_at cp i f = \<lparr>ss_Function = f, ss_Trigger = function_trigger (cp_catalog cp) i, ss_Route = route_at cp i,
     ss_Version = None, ss_Deployment = None\<rparr>"

definition sorted_route :: "DiscoveryRoute \<Rightarrow> DiscoveryRoute" where
  "sorted_route r = r\<lparr>drt_Targets := sort_by compareRouteTargets (drt_Targets r)\<rparr>"

text \<open>
  The view \<open>x\<close> is one of an earlier or of the present state: no revision in it is ahead of the
  control plane, and where a revision is the present one, so is the content.
\<close>

definition view_known :: "ControlPlane \<Rightarrow> ServingSnapshot \<Rightarrow> bool" where
  "view_known cp x \<longleftrightarrow> (\<exists>f. function_at cp (sn_FunctionID x) = Some f \<and>
     (let p = projectInput (state_at cp (sn_FunctionID x) f) zero_time; r = sorted_route (in_Route p) in
       (df_ResourceRevision (sn_Function x) < df_ResourceRevision (in_Function p) \<or> sn_Function x = in_Function p)
       \<and> (dt_ResourceRevision (sn_Trigger x) < dt_ResourceRevision (in_Trigger p) \<or> sn_Trigger x = in_Trigger p)
       \<and> (drt_Present (sn_Route x) \<longrightarrow> drt_Present r \<and> drt_ResourceRevision (sn_Route x) \<le> drt_ResourceRevision r
            \<and> (drt_RouteRevision (sn_Route x) < drt_RouteRevision r \<or> sn_Route x = r))))"

definition routes_first :: "ControlPlane \<Rightarrow> bool" where
  "routes_first cp \<longleftrightarrow> (\<forall>i r. route_at cp i = Some r \<longrightarrow> m_ResourceRevision r = 1)"

lemma trigger_index_exec:
  assumes inv: "cp_inv jcs cp" and t: "fmlookup (cat_triggerIDByFunc (cp_catalog cp)) i = Some t"
  shows "fmlookup (cat_triggerIDByFunc (cp_catalog (cp_exec jcs e cp))) i = Some t"
proof (cases e)
  case (DoCreateFunction command)
  then show ?thesis
    using t by (cases rule: CreateFunction_cases [of "cp_catalog cp" command])
      (auto dest: CreateFunction_checks_None(5))
next
  case (DoSetFunctionLifecycle command)
  then show ?thesis
    using t by (cases rule: SetFunctionLifecycle_cases [of command "cp_catalog cp"]) auto
next
  case (DoRotateInvocationToken command)
  then show ?thesis
    using t by (cases rule: RotateInvocationToken_cases [of command "cp_catalog cp"]) auto
next
  case (DoPublish command)
  then show ?thesis
    using t by (cases rule: Publish_cases [of "cp_releases cp" command "cp_catalog cp" "cp_routes cp"]) simp_all
qed (use t in simp_all)

lemma function_trigger_exec:
  assumes inv: "cp_inv jcs cp" and f: "function_at cp i = Some f"
  shows "function_trigger (cp_catalog (cp_exec jcs e cp)) i = function_trigger (cp_catalog cp) i
    \<or> m_ResourceRevision (function_trigger (cp_catalog cp) i)
        < m_ResourceRevision (function_trigger (cp_catalog (cp_exec jcs e cp)) i)"
proof -
  obtain t tr where t: "fmlookup (cat_triggerIDByFunc (cp_catalog cp)) i = Some t" "trigger_at cp t = Some tr"
      "function_trigger (cp_catalog cp) i = tr"
    using function_trigger_found [OF cp_catalog_inv [OF inv] f] by metis
  obtain tr' where tr': "trigger_at (cp_exec jcs e cp) t = Some tr'"
      "tr' = tr \<or> m_ResourceRevision tr < m_ResourceRevision tr'"
    using trigger_step_exec [OF inv t(2)] by blast
  have "function_trigger (cp_catalog (cp_exec jcs e cp)) i = tr'"
    using trigger_index_exec [OF inv t(1)] tr'(1) by (simp add: function_trigger_def map_get_def)
  with t(3) tr'(2) show ?thesis by auto
qed

text \<open>A Route is replaced only by one of the next route revision.\<close>

lemma route_step_exec:
  assumes inv: "cp_inv jcs cp"
  shows "route_at (cp_exec jcs e cp) i = route_at cp i \<or>
    (\<exists>r'. route_at (cp_exec jcs e cp) i = Some r' \<and> m_ResourceRevision r' = 1
      \<and> (\<forall>r. route_at cp i = Some r \<longrightarrow> r_RouteRevision r < r_RouteRevision r'))"
proof (cases e)
  case (DoPublish command)
  show ?thesis
  proof (cases rule: Publish_cases [of "cp_releases cp" command "cp_catalog cp" "cp_routes cp"])
    case (published f)
    have id: "m_ID f = pc_FunctionID command"
      using catalog_function [OF cp_catalog_inv [OF inv] published(2)] by (simp add: function_entry_def)
    show ?thesis
    proof (cases "i = m_ID f")
      case True
      have "r_RouteRevision r < r_RouteRevision (pc_Route command)" if "route_at cp i = Some r" for r
      proof -
        have "r_RouteRevision r = f_ActiveRouteRevision f"
          using route_found [OF cp_route_inv [OF inv], of i r] that published(2) id True
          by (auto simp: route_entry_def route_at_def)
        then show ?thesis using Publish_checks_None(2,4) [OF published(3)] word_less_inc by simp
      qed
      moreover have "m_ResourceRevision (pc_Route command) = 1"
        using published(1) by (simp add: validatePublishRoute_def Let_def)
      ultimately show ?thesis using DoPublish published(5) True by (simp add: route_at_def)
    qed (use DoPublish published(5) in \<open>simp add: route_at_def\<close>)
  qed (use DoPublish in \<open>simp add: route_at_def\<close>)
qed (simp_all add: route_at_def)

lemma routes_first_exec: "cp_inv jcs cp \<Longrightarrow> routes_first cp \<Longrightarrow> routes_first (cp_exec jcs e cp)"
  unfolding routes_first_def by (metis option.inject route_step_exec)

lemma projectInput_parts:
  "in_Function (projectInput st a) = in_Function (projectInput st b)"
  "in_Trigger (projectInput st a) = in_Trigger (projectInput st b)"
  "in_Route (projectInput st a) = in_Route (projectInput st b)"
  by (simp_all add: projectInput_def)

lemma projectRoute_simps:
  "drt_Present (projectRoute st) \<longleftrightarrow> ss_Route st \<noteq> None"
  "ss_Route st = Some r \<Longrightarrow> drt_ResourceRevision (projectRoute st) = m_ResourceRevision r"
  "ss_Route st = Some r \<Longrightarrow> drt_RouteRevision (projectRoute st) = r_RouteRevision r"
  by (simp_all add: projectRoute_def split: option.split)

lemma sorted_route_simps [simp]:
  "drt_Present (sorted_route r) = drt_Present r" "drt_ResourceRevision (sorted_route r) = drt_ResourceRevision r"
  "drt_RouteRevision (sorted_route r) = drt_RouteRevision r"
  by (simp_all add: sorted_route_def)

text \<open>The Route of a projection depends on the Function only through its identifier.\<close>

lemma projectRoute_state_at:
  "ss_Route st = ss_Route st' \<Longrightarrow> m_ID (ss_Function st) = m_ID (ss_Function st') \<Longrightarrow> projectRoute st = projectRoute st'"
  by (simp add: projectRoute_def split: option.split)

lemma view_known_exec:
  assumes inv: "cp_inv jcs cp" and first: "routes_first cp" and known: "view_known cp x"
  shows "view_known (cp_exec jcs e cp) x"
proof -
  let ?i = "sn_FunctionID x" and ?cp = "cp_exec jcs e cp"
  obtain f where f: "function_at cp ?i = Some f" and old:
      "df_ResourceRevision (sn_Function x) < m_ResourceRevision f \<or> sn_Function x = in_Function (projectInput (state_at cp ?i f) zero_time)"
      "dt_ResourceRevision (sn_Trigger x) < m_ResourceRevision (function_trigger (cp_catalog cp) ?i)
        \<or> sn_Trigger x = in_Trigger (projectInput (state_at cp ?i f) zero_time)"
      "drt_Present (sn_Route x) \<Longrightarrow> drt_Present (projectRoute (state_at cp ?i f))
        \<and> drt_ResourceRevision (sn_Route x) \<le> drt_ResourceRevision (projectRoute (state_at cp ?i f))
        \<and> (drt_RouteRevision (sn_Route x) < drt_RouteRevision (projectRoute (state_at cp ?i f))
           \<or> sn_Route x = sorted_route (projectRoute (state_at cp ?i f)))"
    using known by (auto simp: view_known_def Let_def projectInput_def state_at_def)
  obtain f' where f': "function_at ?cp ?i = Some f'" "f' = f \<or> m_ResourceRevision f < m_ResourceRevision f'"
    using function_step_exec [OF inv f, of e] unfolding function_step_def by blast
  have id: "m_ID f' = m_ID f"
    using function_step_exec [OF inv f, of e] f'(1) unfolding function_step_def by auto
  let ?st = "state_at cp ?i f" and ?st' = "state_at ?cp ?i f'"
  have fun_ok: "df_ResourceRevision (sn_Function x) < m_ResourceRevision f'
      \<or> sn_Function x = in_Function (projectInput ?st' zero_time)"
    using old(1) f'(2) by (auto simp: projectInput_def state_at_def intro: less_trans)
  have trig_ok: "dt_ResourceRevision (sn_Trigger x) < m_ResourceRevision (function_trigger (cp_catalog ?cp) ?i)
      \<or> sn_Trigger x = in_Trigger (projectInput ?st' zero_time)"
    using old(2) function_trigger_exec [OF inv f, of e]
    by (auto simp: projectInput_def state_at_def intro: less_trans)
  have route_ok: "drt_Present (projectRoute ?st') \<and> drt_ResourceRevision (sn_Route x) \<le> drt_ResourceRevision (projectRoute ?st')
      \<and> (drt_RouteRevision (sn_Route x) < drt_RouteRevision (projectRoute ?st') \<or> sn_Route x = sorted_route (projectRoute ?st'))"
    if p: "drt_Present (sn_Route x)"
  proof -
    note o = old(3) [OF p]
    from route_step_exec [OF inv, of e ?i] show ?thesis
    proof (elim disjE exE conjE)
      assume "route_at ?cp ?i = route_at cp ?i"
      then have "projectRoute ?st' = projectRoute ?st"
        by (intro projectRoute_state_at) (simp_all add: state_at_def id)
      then show ?thesis using o by simp
    next
      fix r' assume r': "route_at ?cp ?i = Some r'" "m_ResourceRevision r' = 1"
        "\<forall>r. route_at cp ?i = Some r \<longrightarrow> r_RouteRevision r < r_RouteRevision r'"
      obtain r where r: "route_at cp ?i = Some r" using o by (auto simp: projectRoute_simps state_at_def)
      have "drt_RouteRevision (sn_Route x) \<le> r_RouteRevision r" "drt_ResourceRevision (sn_Route x) \<le> 1"
        using o r first projectRoute_simps(2,3) [of ?st r] by (auto simp: state_at_def routes_first_def)
      then show ?thesis
        using r r' projectRoute_simps [of ?st'] by (auto simp: state_at_def)
    qed
  qed
  show ?thesis
    unfolding view_known_def Let_def using f'(1) fun_ok trig_ok route_ok
    by (intro exI [of _ f']) (simp add: projectInput_def state_at_def)
qed

text \<open>A view that a sync of the present state builds is known, and does not regress from a known one.\<close>

definition sync_input :: "Publisher \<Rightarrow> ServingState \<Rightarrow> Time \<Rightarrow> EndpointCandidate list \<Rightarrow> DiscoveryInput" where
  "sync_input p st now cs =
    at_position (pub_epoch p) (pub_sequence p + 1) ((projectInput st (Time_Round0 now))\<lparr>in_Candidates := cs\<rparr>)"

lemma sync_input_simps [simp]:
  "in_Function (sync_input p st now cs) = in_Function (projectInput st zero_time)"
  "in_Trigger (sync_input p st now cs) = in_Trigger (projectInput st zero_time)"
  "in_Route (sync_input p st now cs) = projectRoute st"
  "in_DiscoveryEpoch (sync_input p st now cs) = pub_epoch p"
  "in_ServingSequence (sync_input p st now cs) = pub_sequence p + 1"
  "in_Candidates (sync_input p st now cs) = cs"
  by (simp_all add: sync_input_def at_position_def projectInput_def)

lemma entry_state_at:
  assumes "serving_entry jcs (cp_catalog cp) (cp_releases cp) (cp_routes cp) st"
  shows "function_at cp (m_ID (ss_Function st)) = Some (ss_Function st)"
    and "in_Function (projectInput st a) = in_Function (projectInput (state_at cp (m_ID (ss_Function st)) (ss_Function st)) a)"
    and "in_Trigger (projectInput st a) = in_Trigger (projectInput (state_at cp (m_ID (ss_Function st)) (ss_Function st)) a)"
    and "projectRoute st = projectRoute (state_at cp (m_ID (ss_Function st)) (ss_Function st))"
  using assms by (auto simp: serving_entry_def state_at_def projectInput_def route_at_def intro: projectRoute_state_at)

lemma synced_view_known:
  assumes "serving_entry jcs (cp_catalog cp) (cp_releases cp) (cp_routes cp) st"
  shows "view_known cp ((built_view (sync_input p st now cs))\<lparr>sn_Checksum := d\<rparr>)"
  unfolding view_known_def Let_def
  using entry_state_at [OF assms]
  by (intro exI [of _ "ss_Function st"])
     (simp add: sorted_route_def, simp add: projectInput_def state_at_def)

lemma known_no_regression:
  assumes "view_known cp x" and "serving_entry jcs (cp_catalog cp) (cp_releases cp) (cp_routes cp) st"
    and "sn_FunctionID x = m_ID (ss_Function st)"
  shows "revisionsDoNotRegress x ((built_view (sync_input p st now cs))\<lparr>sn_Checksum := d\<rparr>) = None"
proof -
  let ?n = "(built_view (sync_input p st now cs))\<lparr>sn_Checksum := d\<rparr>"
  have "df_ResourceRevision (sn_Function x) < df_ResourceRevision (sn_Function ?n) \<or> sn_Function x = sn_Function ?n"
    "dt_ResourceRevision (sn_Trigger x) < dt_ResourceRevision (sn_Trigger ?n) \<or> sn_Trigger x = sn_Trigger ?n"
    "drt_Present (sn_Route x) \<Longrightarrow> drt_Present (sn_Route ?n)
      \<and> drt_ResourceRevision (sn_Route x) \<le> drt_ResourceRevision (sn_Route ?n)
      \<and> (drt_RouteRevision (sn_Route x) < drt_RouteRevision (sn_Route ?n) \<or> sn_Route x = sn_Route ?n)"
    using assms(1) entry_state_at [OF assms(2)]
    by (auto simp: view_known_def Let_def assms(3) sorted_route_def projectInput_parts [of _ zero_time] projectInput_def)
  then show ?thesis
    unfolding revisionsDoNotRegress_def Let_def first_error_Cons_None fail_if_None
    by (auto simp: sameFunction_def sameHTTPTrigger_def sameRoute_def)
qed

subsection \<open>The invariant of the local system\<close>

lemma project_states_Inr:
  "project_states ctxErr n source epoch g sts = Inr is \<Longrightarrow>
   list_all2 (\<lambda>st i. \<exists>cs. endpointCandidates source st epoch = Inr cs \<and> i = (projectInput st g)\<lparr>in_Candidates := cs\<rparr>) sts is"
  by (induction sts arbitrary: n "is") (auto split: option.splits sum.splits)

lemma BuildFull_loop_Inr:
  "BuildFull_loop jcs b epoch sequence seen is = Inr rs \<Longrightarrow>
   list_all2 (\<lambda>i r. Builder_Build jcs b (at_position epoch sequence i) = Inr r) is rs"
  by (induction "is" arbitrary: seen rs) (auto split: if_splits sum.splits)

lemma list_all2_in: "list_all2 P xs ys \<Longrightarrow> y \<in> set ys \<Longrightarrow> \<exists>x \<in> set xs. P x y"
  by (induction rule: list_all2_induct) auto

lemma list_all2_chain:
  "list_all2 P xs ys \<Longrightarrow> list_all2 Q ys zs \<Longrightarrow> z \<in> set zs \<Longrightarrow> \<exists>x \<in> set xs. \<exists>y. P x y \<and> Q y z"
  by (metis in_set_conv_nth list_all2_conv_all_nth)

lemma ListServingStates_Inr:
  assumes inv: "cp_inv jcs cp" and l: "ListServingStates ctx cp = Inr states"
  shows "\<forall>st \<in> set states. serving_entry jcs (cp_catalog cp) (cp_releases cp) (cp_routes cp) st"
    and "map ss_Function states = cs_Functions (snapshotLocked (cp_catalog cp))"
  using ServingStates_complete [OF cp_catalog_inv [OF inv] cp_release_inv [OF inv] cp_route_inv [OF inv]] l
  by (auto simp: ListServingStates_def split: option.splits)

text \<open>What a sync leaves behind: the store as it was, or with a batch of views of the listed states.\<close>

definition batch_of :: "canonicalizer \<Rightarrow> Publisher \<Rightarrow> Time \<Rightarrow> ServingState list \<Rightarrow> ServingSnapshot list \<Rightarrow> bool" where
  "batch_of jcs p now states xs \<longleftrightarrow> (\<forall>x \<in> set xs. \<exists>st \<in> set states. \<exists>cs d.
     x = (built_view (sync_input p st now cs))\<lparr>sn_Checksum := d\<rparr>)"

lemma FullSync_cases:
  assumes "FullSync jcs ctxErr listed source now clock s = (r, s')" and "pub_builder (syn_publisher s) \<le> HardMaxEndpoints"
  obtains (idle) "s' = s"
  | (applied) states xs where "listed = Inr states" "batch_of jcs (syn_publisher s) now states xs"
      "pub_sequence (syn_publisher s) \<noteq> - 1"
      "s' = \<lparr>syn_publisher = (syn_publisher s)\<lparr>pub_sequence := pub_sequence (syn_publisher s) + 1\<rparr>,
        syn_store = snd (Store_Apply jcs \<lparr>se_Full = True, se_DiscoveryEpoch = pub_epoch (syn_publisher s),
          se_ServingSequence = pub_sequence (syn_publisher s) + 1, se_Snapshots = xs\<rparr> clock (syn_store s))\<rparr>"
proof -
  let ?p = "syn_publisher s"
  show thesis
  proof (cases "\<exists>states is rs. listed = Inr states \<and> project_states ctxErr 2 source (pub_epoch ?p) (Time_Round0 now) states = Inr is
      \<and> pub_sequence ?p \<noteq> - 1 \<and> BuildFull_loop jcs (pub_builder ?p) (pub_epoch ?p) (pub_sequence ?p + 1) {||} is = Inr rs
      \<and> first_error [ctxErr 0, ctxErr 1] = None")
    case True
    then obtain states "is" rs where h: "listed = Inr states"
        "project_states ctxErr 2 source (pub_epoch ?p) (Time_Round0 now) states = Inr is" "pub_sequence ?p \<noteq> - 1"
        "BuildFull_loop jcs (pub_builder ?p) (pub_epoch ?p) (pub_sequence ?p + 1) {||} is = Inr rs"
        "first_error [ctxErr 0, ctxErr 1] = None"
      by blast
    have "batch_of jcs ?p now states (map dres_Snapshot rs)"
      unfolding batch_of_def
    proof
      fix x assume "x \<in> set (map dres_Snapshot rs)"
      then obtain res where res: "res \<in> set rs" "x = dres_Snapshot res" by auto
      obtain st cs where st: "st \<in> set states"
          "Builder_Build jcs (pub_builder ?p) (sync_input ?p st now cs) = Inr res"
        using list_all2_chain [OF project_states_Inr [OF h(2)] BuildFull_loop_Inr [OF h(4)] res(1)]
        by (auto simp: sync_input_def)
      then show "\<exists>st \<in> set states. \<exists>cs d. x = (built_view (sync_input ?p st now cs))\<lparr>sn_Checksum := d\<rparr>"
        using Builder_Build_view [OF st(2) assms(2)] res(2) by blast
    qed
    moreover have "s' = \<lparr>syn_publisher = ?p\<lparr>pub_sequence := pub_sequence ?p + 1\<rparr>,
        syn_store = snd (Store_Apply jcs \<lparr>se_Full = True, se_DiscoveryEpoch = pub_epoch ?p,
          se_ServingSequence = pub_sequence ?p + 1, se_Snapshots = map dres_Snapshot rs\<rparr> clock (syn_store s))\<rparr>"
      using assms(1) h
      by (auto simp: FullSync_def Publisher_Position_def Publisher_BuildFull_def full_event_def Let_def
          split: prod.splits sum.splits)
    ultimately show thesis using applied h(1,3) by blast
  next
    case False
    then have "s' = s"
      using assms(1)
      by (auto simp: FullSync_def check_def Publisher_Position_def Publisher_BuildFull_def Let_def
          split: option.splits sum.splits if_splits)
    then show thesis by (rule idle)
  qed
qed

definition local_inv :: "canonicalizer \<Rightarrow> ControlPlane \<times> Synchronizer \<Rightarrow> bool" where
  "local_inv jcs cs \<longleftrightarrow>
    (let cp = fst cs; p = syn_publisher (snd cs); st = syn_store (snd cs) in
     cp_inv jcs cp \<and> routes_first cp \<and> store_inv jcs st
     \<and> pub_epoch p \<noteq> 0 \<and> 1 \<le> pub_builder p \<and> pub_builder p \<le> HardMaxEndpoints
     \<and> pos_epoch (gst_position st) \<le> pub_epoch p \<and> pos_sequence (gst_position st) \<le> pub_sequence p
     \<and> (\<forall>i r. fmlookup (gst_functions st) i = Some r \<longrightarrow> view_known cp (fr_snapshot r)))"

lemma new_parts:
  "NewGatewayStore a b c = Inr s \<Longrightarrow> gst_functions s = fmempty \<and> pos_epoch (gst_position s) = 0 \<and> pos_sequence (gst_position s) = 0"
  "NewPublisher epoch builder = Inr p \<Longrightarrow> pub_epoch p \<noteq> 0 \<and> pub_builder p = builder"
  "NewBuilder limit = Inr builder \<Longrightarrow> 1 \<le> builder \<and> builder \<le> HardMaxEndpoints"
  by (auto simp: NewGatewayStore_def NewPublisher_def NewBuilder_def Let_def split: if_splits)

lemma local_inv_initial: "local_initial cs \<Longrightarrow> local_inv jcs cs"
proof -
  assume i: "local_initial cs"
  have st: "store_initial (syn_store (snd cs))" using i by (auto simp: local_initial_def store_initial_def)
  obtain limit builder epoch where p: "NewBuilder limit = Inr builder" "NewPublisher epoch builder = Inr (syn_publisher (snd cs))"
    using i by (auto simp: local_initial_def)
  obtain a b c where "NewGatewayStore a b c = Inr (syn_store (snd cs))" using i by (auto simp: local_initial_def)
  note new_parts(1) [OF this] new_parts(2) [OF p(2)] new_parts(3) [OF p(1)]
  moreover have "cp_inv jcs (fst cs)" "routes_first (fst cs)"
    using i cp_inv_initial by (auto simp: local_initial_def routes_first_def route_at_def cp_initial_def
        new_control_plane_def NewRouteStore_def)
  ultimately show ?thesis using store_inv_initial [OF st] by (simp add: local_inv_def Let_def)
qed

lemma store_event_views:
  assumes "fmlookup (gst_functions (store_exec jcs ev s)) i = Some r" and "\<And>e t. ev \<noteq> EvStoreApply e t"
  shows "\<exists>r0. fmlookup (gst_functions s) i = Some r0 \<and> fr_snapshot r0 = fr_snapshot r"
  using record_origin [OF assms(1)] assms(2) by blast

lemma store_event_position:
  assumes "\<And>e t. ev \<noteq> EvStoreApply e t"
  shows "gst_position (store_exec jcs ev s) = gst_position s"
proof (cases ev)
  case (EvSuppress f a)
  then show ?thesis by (cases rule: SuppressEndpoint_cases [of f a s]) (simp_all add: store_exec_def)
qed (use assms Lookup_same_view LookupAll_same_view in
      \<open>auto simp: store_exec_def same_view_def SetWatchConnected_def\<close>)

lemma local_inv_on_store:
  assumes inv: "local_inv jcs (cp, s)" and ev: "\<And>e t. ev \<noteq> EvStoreApply e t"
  shows "local_inv jcs (cp, on_store jcs ev s)"
proof -
  have "view_known cp (fr_snapshot r)" if "fmlookup (gst_functions (store_exec jcs ev (syn_store s))) i = Some r" for i r
    using store_event_views [OF that ev] inv unfolding local_inv_def Let_def by (metis fst_conv snd_conv)
  moreover have "store_inv jcs (store_exec jcs ev (syn_store s))"
    using inv by (intro gateway_store.inv_exec) (simp add: local_inv_def Let_def)
  ultimately show ?thesis
    using inv store_event_position [OF ev, of jcs "syn_store s"] by (simp add: local_inv_def Let_def on_store_def)
qed

lemma local_inv_FullSync:
  assumes inv: "local_inv jcs (cp, s)"
  shows "local_inv jcs (cp, snd (FullSync jcs ctxErr (ListServingStates ctx cp) source now clock s))"
proof -
  let ?p = "syn_publisher s" and ?st = "syn_store s"
  note i = inv [unfolded local_inv_def Let_def fst_conv snd_conv]
  obtain r s' where f: "FullSync jcs ctxErr (ListServingStates ctx cp) source now clock s = (r, s')"
    by (cases "FullSync jcs ctxErr (ListServingStates ctx cp) source now clock s")
  have "pub_builder ?p \<le> HardMaxEndpoints" using i by blast
  from f this have "local_inv jcs (cp, s')"
  proof (cases rule: FullSync_cases)
    case idle
    then show ?thesis using inv by simp
  next
    case (applied states xs)
    let ?e = "\<lparr>se_Full = True, se_DiscoveryEpoch = pub_epoch ?p, se_ServingSequence = pub_sequence ?p + 1, se_Snapshots = xs\<rparr>"
    let ?st' = "snd (Store_Apply jcs ?e clock ?st)"
    have cpi: "cp_inv jcs cp" using i by blast
    have up: "pub_sequence ?p < pub_sequence ?p + 1" using applied(3) by (rule word_less_inc)
    have known: "view_known cp (fr_snapshot rc)" if rc: "fmlookup (gst_functions ?st') k = Some rc" for k rc
    proof -
      have "fmlookup (gst_functions (store_exec jcs (EvStoreApply ?e clock) ?st)) k = Some rc"
        using rc by (simp add: store_exec_def)
      from record_origin [OF this] show ?thesis
      proof (elim disjE exE conjE)
        fix r0 assume "fmlookup (gst_functions ?st) k = Some r0" "fr_snapshot r0 = fr_snapshot rc"
        then show ?thesis using i by metis
      next
        fix e t assume "EvStoreApply ?e clock = EvStoreApply e t" "fr_snapshot rc \<in> set (se_Snapshots e)"
        then have "fr_snapshot rc \<in> set xs" by auto
        then show ?thesis
          using applied(2) synced_view_known ListServingStates_Inr(1) [OF cpi applied(1)]
          unfolding batch_of_def by metis
      qed
    qed
    have "pos_epoch (gst_position ?st') \<le> pub_epoch ?p \<and> pos_sequence (gst_position ?st') \<le> pub_sequence ?p + 1"
    proof -
      obtain q u where a: "Store_Apply jcs ?e clock ?st = (q, u)" by (cases "Store_Apply jcs ?e clock ?st")
      from a have "pos_epoch (gst_position u) \<le> pub_epoch ?p \<and> pos_sequence (gst_position u) \<le> pub_sequence ?p + 1"
      proof (cases rule: Store_Apply_cases)
        case kept
        have "pos_sequence (gst_position ?st) \<le> pub_sequence ?p + 1"
          using i up by (meson less_imp_le order_trans)
        then show ?thesis using kept i by (simp add: same_view_def)
      next
        case (full n fp)
        then show ?thesis
          using normalizeEvent_Inr(1) [OF full(2)] by (simp add: installed_full_def event_position_def)
      next
        case (one n x fp)
        then show ?thesis by simp
      qed
      with a show ?thesis by simp
    qed
    moreover have "store_inv jcs ?st'" using i store_inv_Apply by blast
    ultimately show ?thesis
      using i known by (simp add: local_inv_def Let_def applied(4))
  qed
  with f show ?thesis by simp
qed

lemma local_inv_exec: "local_inv jcs cs \<Longrightarrow> local_inv jcs (local_exec jcs e cs)"
proof (cases cs)
  fix cp s assume inv: "local_inv jcs cs" and cs: "cs = (cp, s)"
  show ?thesis
  proof (cases e)
    case (EvControl ce)
    then show ?thesis
      using inv cs control.inv_exec view_known_exec routes_first_exec
      by (simp add: local_inv_def Let_def)
  qed (use inv cs local_inv_FullSync local_inv_on_store in simp_all)
qed

interpretation local_system: component local_initial "local_exec jcs" "local_inv jcs" for jcs
  by unfold_locales (rule local_inv_initial, assumption, rule local_inv_exec)

subsection \<open>A Full Sync of the local system is accepted\<close>

text \<open>
  C17: what the control plane hands to discovery is well formed. In every state the control plane
  reaches, the listing of the serving states succeeds, and the projection of each of them, at any
  position of a publisher and with any candidates, passes the header, Function, trigger and Route
  checks that package discovery states on its own types.
\<close>

theorem projection_well_formed:
  assumes "reachable cp_initial (cp_exec jcs) cp" and "\<not> Time_IsZero now" and "isUTC now"
    and "epoch \<noteq> 0" and "sequence \<noteq> 0"
  shows "\<exists>states. ListServingStates None cp = Inr states
    \<and> map ss_Function states = cs_Functions (snapshotLocked (cp_catalog cp))
    \<and> (\<forall>st \<in> set states. inputs_valid (at_position epoch sequence
         ((projectInput st (Time_Round0 now))\<lparr>in_Candidates := cs\<rparr>)))"
proof -
  have inv: "cp_inv jcs cp" by (rule control.inv_reachable [OF assms(1)])
  obtain states where st: "ServingStates (cp_catalog cp) (cp_releases cp) (cp_routes cp) = Inr states"
    using ServingStates_complete [OF cp_catalog_inv [OF inv] cp_release_inv [OF inv] cp_route_inv [OF inv]] by blast
  then have l: "ListServingStates None cp = Inr states" by (simp add: ListServingStates_def)
  show ?thesis
    using l ListServingStates_Inr [OF inv l]
      projectInput_valid [OF cp_catalog_inv [OF inv] cp_route_inv [OF inv] _ assms(2-5)] by blast
qed

text \<open>The candidate source answers every listed Function within the limits of the publisher.\<close>

definition source_ok :: "candidate_source option \<Rightarrow> Publisher \<Rightarrow> ServingState list \<Rightarrow> bool" where
  "source_ok source p states \<longleftrightarrow> (\<forall>st \<in> set states. \<exists>cs. endpointCandidates source st (pub_epoch p) = Inr cs
     \<and> candidates_valid cs \<and> int (length cs) \<le> pub_builder p)"

text \<open>
  The canonicalizer is a package of its own. What the program relies on is that it accepts the texts
  that \<^verbatim>\<open>json.Marshal\<close> writes for a struct: objects whose keys are ASCII and do not repeat, at any
  depth, and whose numbers are integers of at most 64 bits. (Keys that are not valid UTF-8 could be
  distinct and yet written alike, and such an object is rejected.)
\<close>

fun json_regular :: "json \<Rightarrow> bool" where
  "json_regular (JNum n) = (\<bar>n\<bar> < 2 ^ 64)"
| "json_regular (JArr vs) = list_all json_regular vs"
| "json_regular (JObj ms) =
    (distinct (map fst ms) \<and> list_all (\<lambda>(k, v). list_all (\<lambda>c. byte_val c < 0x80) k \<and> json_regular v) ms)"
| "json_regular v = True"

definition canonicalizes :: "canonicalizer \<Rightarrow> bool" where
  "canonicalizes jcs \<longleftrightarrow> (\<forall>ms. json_regular (JObj ms) \<longrightarrow> (\<exists>y. jcs (json_marshal (JObj ms)) = Inr y))"

lemma CanonicalJSON_total:
  assumes "canonicalizes jcs" and "json_regular (JObj ms)" and "domain \<noteq> ''''" and "version \<noteq> ''''"
  shows "\<exists>d. CanonicalJSON jcs domain version (json_marshal (JObj ms)) = Inr d"
proof -
  obtain y where "jcs (json_marshal (JObj ms)) = Inr y"
    using assms(1,2) unfolding canonicalizes_def by blast
  with assms(3,4) show ?thesis by (simp add: CanonicalJSON_def del: json_marshal.simps)
qed

lemma json_regular_uint [simp]: "json_regular (json_uint (w :: u64))" "json_regular (json_uint (v :: u32))"
  using uint_lt2p [of w] uint_lt2p [of v] by (simp_all add: json_uint_def)

lemma json_regular_parts [simp]:
  "json_regular (json_DiscoveryFunction f)" "json_regular (json_DiscoveryTrigger t)"
  "json_regular (json_RouteTarget g)" "json_regular (canonicalEndpointV1 e)"
  by (simp_all add: json_DiscoveryFunction_def json_DiscoveryTrigger_def json_RouteTarget_def
      canonicalEndpointV1_def Let_def byte_val_def split: option.split)

lemma json_regular_route [simp]: "json_regular (json_DiscoveryRoute r)"
  by (simp add: json_DiscoveryRoute_def list_all_iff byte_val_def)

lemma canonicalSnapshotV1_regular: "json_regular (canonicalSnapshotV1 s)"
  by (simp add: canonicalSnapshotV1_def list_all_iff byte_val_def)

lemma project_states_total:
  assumes "\<forall>n. ctxErr n = None" and "source_ok source p states"
  shows "\<exists>is. project_states ctxErr n source (pub_epoch p) g states = Inr is
    \<and> list_all2 (\<lambda>st i. \<exists>cs. i = (projectInput st g)\<lparr>in_Candidates := cs\<rparr> \<and> candidates_valid cs
        \<and> int (length cs) \<le> pub_builder p \<and> endpointCandidates source st (pub_epoch p) = Inr cs) states is"
  using assms(2)
proof (induction states arbitrary: n)
  case (Cons st states)
  obtain cs where cs: "endpointCandidates source st (pub_epoch p) = Inr cs" "candidates_valid cs"
      "int (length cs) \<le> pub_builder p"
    using Cons.prems by (auto simp: source_ok_def)
  obtain "is" where "project_states ctxErr (Suc n) source (pub_epoch p) g states = Inr is"
      "list_all2 (\<lambda>st i. \<exists>cs. i = (projectInput st g)\<lparr>in_Candidates := cs\<rparr> \<and> candidates_valid cs
        \<and> int (length cs) \<le> pub_builder p \<and> endpointCandidates source st (pub_epoch p) = Inr cs) states is"
    using Cons.IH Cons.prems by (force simp: source_ok_def)
  moreover have "ctxErr n = None" using assms(1) by blast
  ultimately show ?case using cs by auto
qed simp

lemma Builder_Build_total:
  assumes "inputs_valid i" and "candidates_valid (in_Candidates i)" and "int (length (in_Candidates i)) \<le> m"
    and "m \<le> HardMaxEndpoints" and "canonicalizes jcs"
  shows "\<exists>res. Builder_Build jcs m i = Inr res"
proof -
  obtain d where "calculateChecksum jcs (built_view i) = Inr d"
    using CanonicalJSON_total [OF assms(5) canonicalSnapshotV1_regular [unfolded canonicalSnapshotV1_def]]
    unfolding calculateChecksum_def canonicalSnapshotV1_def by blast
  then show ?thesis
    using assms built_view_length [of i] by (auto simp: Builder_Build_Inr)
qed

lemma BuildFull_loop_total:
  assumes "\<forall>i \<in> set is. \<exists>res. Builder_Build jcs b (at_position epoch sequence i) = Inr res"
    and "distinct (map (\<lambda>i. df_ID (in_Function i)) is)"
    and "\<forall>i \<in> set is. df_ID (in_Function i) |\<notin>| seen"
  shows "\<exists>rs. BuildFull_loop jcs b epoch sequence seen is = Inr rs"
  using assms
proof (induction "is" arbitrary: seen)
  case (Cons i "is")
  let ?seen = "finsert (df_ID (in_Function i)) seen"
  have "\<forall>j \<in> set is. df_ID (in_Function j) |\<notin>| ?seen" using Cons.prems by (auto simp: image_iff)
  then obtain rs where "BuildFull_loop jcs b epoch sequence ?seen is = Inr rs"
    using Cons.IH [of ?seen] Cons.prems by auto
  moreover obtain res where "Builder_Build jcs b (at_position epoch sequence i) = Inr res" using Cons.prems by auto
  ultimately show ?case using Cons.prems by simp
qed simp

lemma listed_ids_distinct:
  assumes inv: "cp_inv jcs cp" and l: "ListServingStates ctx cp = Inr states"
  shows "distinct (map (\<lambda>st. m_ID (ss_Function st)) states)" and "length states = map_len (cat_functionsByID (cp_catalog cp))"
proof -
  let ?vs = "map_values (cat_functionsByID (cp_catalog cp))"
  have fs: "map ss_Function states = sort_by compareFunction ?vs"
    using ListServingStates_Inr(2) [OF inv l] by (simp add: snapshotLocked_def Let_def)
  have keys: "map m_ID ?vs = map_keys (cat_functionsByID (cp_catalog cp))"
    unfolding map_values_def map_keys_def list.map_comp
    using catalog_function [OF cp_catalog_inv [OF inv]] by (auto simp: function_entry_def)
  have "distinct (map m_ID (map ss_Function states))" unfolding fs distinct_map_sort_by keys by simp
  then show "distinct (map (\<lambda>st. m_ID (ss_Function st)) states)" by (simp add: comp_def)
  show "length states = map_len (cat_functionsByID (cp_catalog cp))"
    using arg_cong [OF fs, of length] by simp
qed

lemma eventFingerprint_total: "canonicalizes jcs \<Longrightarrow> \<exists>fp. eventFingerprint jcs e = Inr fp"
  unfolding eventFingerprint_def
  by (rule CanonicalJSON_total) (simp_all add: list_all_iff byte_val_def)

text \<open>A full event of valid views at the next position that nothing contradicts is installed.\<close>

lemma Store_Apply_full:
  assumes "canonicalizes jcs" and "se_Full e" and "se_DiscoveryEpoch e \<noteq> 0" and "se_ServingSequence e \<noteq> 0"
    and "int (length (se_Snapshots e)) \<le> gst_maxFunctions s" and "normalize_snapshots jcs e {||} (se_Snapshots e) = None"
    and "gst_clockHealthy s" and "gst_lastElapsed s \<le> t"
    and "pos_epoch (gst_position s) \<le> se_DiscoveryEpoch e" and "pos_sequence (gst_position s) < se_ServingSequence e"
    and "\<forall>x \<in> set (se_Snapshots e). regression s x = None"
  shows "\<exists>n fp. normalizeEvent jcs e (gst_maxFunctions s) = Inr (n, fp) \<and> Store_Apply jcs e t s = (Inr (), installed_full n fp t s)"
proof -
  let ?n = "e\<lparr>se_Snapshots := sort_by compareSnapshots (se_Snapshots e)\<rparr>"
  obtain fp where fp: "eventFingerprint jcs ?n = Inr fp" using eventFingerprint_total [OF assms(1)] by blast
  have norm: "normalizeEvent jcs e (gst_maxFunctions s) = Inr (?n, fp)"
    using assms(2-6) fp by (simp add: normalizeEvent_def Let_def)
  have "first_error (fail_if (se_DiscoveryEpoch ?n = pos_epoch (gst_position s)
          \<and> se_ServingSequence ?n < pos_sequence (gst_position s))
         (classified CodeStaleGeneration ''full sync serving sequence regressed'')
       # map (regression s) (se_Snapshots ?n)) = None"
    using assms(10,11) by (auto simp: first_error_None_iff)
  then have "applyFullLocked ?n fp t s = (Inr (), installed_full ?n fp t s)"
    using assms(7,8) unfolding applyFullLocked_def
    by (simp only: check_simps) (simp add: store_elapsedLocked_def installed_full_def not_less)
  moreover have "\<not> se_DiscoveryEpoch ?n < pos_epoch (gst_position s)" "\<not> samePosition ?n (gst_position s)"
    using assms(9,10) by (auto simp: samePosition_def)
  ultimately have "Store_Apply jcs e t s = (Inr (), installed_full ?n fp t s)"
    using norm assms(2,7) by (simp add: Store_Apply_def)
  with norm show ?thesis by blast
qed

text \<open>The view that a sync builds for a state, from the candidates that the source gives.\<close>

definition synced_view :: "candidate_source option \<Rightarrow> Publisher \<Rightarrow> Time \<Rightarrow> ServingState \<Rightarrow> ServingSnapshot \<Rightarrow> bool" where
  "synced_view source p now st x \<longleftrightarrow> (\<exists>cs d. endpointCandidates source st (pub_epoch p) = Inr cs
     \<and> x = (built_view (sync_input p st now cs))\<lparr>sn_Checksum := d\<rparr>)"

lemma FullSync_build:
  assumes inv: "local_inv jcs (cp, s)" and l: "ListServingStates None cp = Inr states"
    and ctx: "\<forall>n. ctxErr n = None" and jcs: "canonicalizes jcs"
    and src: "source_ok source (syn_publisher s) states" and now: "\<not> Time_IsZero now" "isUTC now"
    and room: "pub_sequence (syn_publisher s) \<noteq> - 1"
  obtains "is" rs where
    "project_states ctxErr 2 source (pub_epoch (syn_publisher s)) (Time_Round0 now) states = Inr is"
    "BuildFull_loop jcs (pub_builder (syn_publisher s)) (pub_epoch (syn_publisher s))
       (pub_sequence (syn_publisher s) + 1) {||} is = Inr rs"
    "list_all2 (\<lambda>st r. synced_view source (syn_publisher s) now st (dres_Snapshot r)
       \<and> ServingSnapshot_Validate jcs (dres_Snapshot r) = None) states rs"
proof -
  let ?p = "syn_publisher s"
  note i = inv [unfolded local_inv_def Let_def fst_conv snd_conv]
  have cpi: "cp_inv jcs cp" and b: "pub_builder ?p \<le> HardMaxEndpoints" and e: "pub_epoch ?p \<noteq> 0" using i by blast+
  have sq: "pub_sequence ?p + 1 \<noteq> 0" using room by (simp add: word_inc_zero_iff)
  obtain "is" where is1: "project_states ctxErr 2 source (pub_epoch ?p) (Time_Round0 now) states = Inr is"
    and is2: "list_all2 (\<lambda>st i. \<exists>cs. i = (projectInput st (Time_Round0 now))\<lparr>in_Candidates := cs\<rparr> \<and> candidates_valid cs
        \<and> int (length cs) \<le> pub_builder ?p \<and> endpointCandidates source st (pub_epoch ?p) = Inr cs) states is"
    using project_states_total [OF ctx src, of 2 "Time_Round0 now"] by blast
  let ?R = "\<lambda>st i. \<exists>cs. at_position (pub_epoch ?p) (pub_sequence ?p + 1) i = sync_input ?p st now cs
      \<and> inputs_valid (sync_input ?p st now cs) \<and> candidates_valid cs \<and> int (length cs) \<le> pub_builder ?p
      \<and> df_ID (in_Function i) = m_ID (ss_Function st) \<and> endpointCandidates source st (pub_epoch ?p) = Inr cs"
  have R: "list_all2 ?R states is"
    unfolding list_all2_conv_all_nth
  proof (intro conjI allI impI)
    show len: "length states = length is" using is2 by (rule list_all2_lengthD)
    fix k assume k: "k < length states"
    then have "serving_entry jcs (cp_catalog cp) (cp_releases cp) (cp_routes cp) (states ! k)"
      using ListServingStates_Inr(1) [OF cpi l] by simp
    note v = projectInput_valid [OF cp_catalog_inv [OF cpi] cp_route_inv [OF cpi] this now e sq]
    obtain cs where "is ! k = (projectInput (states ! k) (Time_Round0 now))\<lparr>in_Candidates := cs\<rparr>"
        "candidates_valid cs" "int (length cs) \<le> pub_builder ?p" "endpointCandidates source (states ! k) (pub_epoch ?p) = Inr cs"
      using list_all2_nthD [OF is2 k] by blast
    then show "?R (states ! k) (is ! k)"
      using v by (intro exI [of _ cs]) (simp add: sync_input_def, simp add: projectInput_def)
  qed
  have total: "\<forall>x \<in> set is. \<exists>res. Builder_Build jcs (pub_builder ?p) (at_position (pub_epoch ?p) (pub_sequence ?p + 1) x) = Inr res"
  proof
    fix x assume "x \<in> set is"
    from list_all2_in [OF R this] obtain st cs where "at_position (pub_epoch ?p) (pub_sequence ?p + 1) x = sync_input ?p st now cs"
        "inputs_valid (sync_input ?p st now cs)" "candidates_valid cs" "int (length cs) \<le> pub_builder ?p"
      by blast
    then show "\<exists>res. Builder_Build jcs (pub_builder ?p) (at_position (pub_epoch ?p) (pub_sequence ?p + 1) x) = Inr res"
      using Builder_Build_total [of "sync_input ?p st now cs", OF _ _ _ b jcs] by simp
  qed
  have "map (\<lambda>x. df_ID (in_Function x)) is = map (\<lambda>st. m_ID (ss_Function st)) states"
    using R by (induction rule: list_all2_induct) auto
  then have "distinct (map (\<lambda>x. df_ID (in_Function x)) is)" using listed_ids_distinct(1) [OF cpi l] by simp
  then obtain rs where rs: "BuildFull_loop jcs (pub_builder ?p) (pub_epoch ?p) (pub_sequence ?p + 1) {||} is = Inr rs"
    using BuildFull_loop_total [OF total, of "{||}"] by auto
  have "list_all2 (\<lambda>st r. synced_view source ?p now st (dres_Snapshot r)
       \<and> ServingSnapshot_Validate jcs (dres_Snapshot r) = None) states rs"
    unfolding list_all2_conv_all_nth
  proof (intro conjI allI impI)
    note B = BuildFull_loop_Inr [OF rs]
    show "length states = length rs" using R B by (simp add: list_all2_lengthD)
    fix k assume k: "k < length states"
    obtain cs where cs: "at_position (pub_epoch ?p) (pub_sequence ?p + 1) (is ! k) = sync_input ?p (states ! k) now cs"
        "inputs_valid (sync_input ?p (states ! k) now cs)" "candidates_valid cs"
        "endpointCandidates source (states ! k) (pub_epoch ?p) = Inr cs"
      using list_all2_nthD [OF R k] by blast
    have "Builder_Build jcs (pub_builder ?p) (sync_input ?p (states ! k) now cs) = Inr (rs ! k)"
      using list_all2_nthD [OF B, of k] k list_all2_lengthD [OF R] cs(1) by simp
    from Builder_Build_view [OF this b] obtain d where
        d: "calculateChecksum jcs (built_view (sync_input ?p (states ! k) now cs)) = Inr d"
        "dres_Snapshot (rs ! k) = (built_view (sync_input ?p (states ! k) now cs))\<lparr>sn_Checksum := d\<rparr>"
      by blast
    moreover have "ServingSnapshot_Validate jcs (dres_Snapshot (rs ! k)) = None"
      using built_view_valid [OF cs(2) _ d(1)] cs(3) d(2) by simp
    ultimately show "synced_view source ?p now (states ! k) (dres_Snapshot (rs ! k))"
      "ServingSnapshot_Validate jcs (dres_Snapshot (rs ! k)) = None"
      using cs(4) unfolding synced_view_def by blast+
  qed
  with is1 rs show thesis by (rule that)
qed

lemma list_all2_in_left: "list_all2 P xs ys \<Longrightarrow> x \<in> set xs \<Longrightarrow> \<exists>y \<in> set ys. P x y"
  by (induction rule: list_all2_induct) auto

lemma installed_full_lookup:
  assumes norm: "normalizeEvent jcs e m = Inr (n, fp)" and x: "x \<in> set (se_Snapshots e)"
  shows "fmlookup (gst_functions (installed_full n fp t s)) (sn_FunctionID x) = Some (replacement s t x)"
proof -
  have d: "distinct (map sn_FunctionID (se_Snapshots n))" "x \<in> set (se_Snapshots n)"
    using normalizeEvent_Inr(1,7) [OF norm] x by simp_all
  have "map_of (map (\<lambda>x. (sn_FunctionID x, replacement s t x)) (se_Snapshots n)) (sn_FunctionID x)
      = Some (replacement s t x)"
    using d by (intro map_of_is_SomeI) (auto simp: comp_def)
  then show ?thesis by (simp add: installed_full_def fmlookup_of_list)
qed

lemma FullSync_applied:
  assumes inv: "local_inv jcs (cp, s)" and l: "ListServingStates None cp = Inr states"
    and ctx: "\<forall>n. ctxErr n = None" and jcs: "canonicalizes jcs"
    and src: "source_ok source (syn_publisher s) states" and now: "\<not> Time_IsZero now" "isUTC now"
    and room: "pub_sequence (syn_publisher s) \<noteq> - 1"
    and clock: "gst_clockHealthy (syn_store s)" "gst_lastElapsed (syn_store s) \<le> clock"
    and cap: "int (map_len (cat_functionsByID (cp_catalog cp))) \<le> gst_maxFunctions (syn_store s)"
  obtains xs n fp e where "se_Snapshots e = xs" "normalizeEvent jcs e (gst_maxFunctions (syn_store s)) = Inr (n, fp)"
    "se_DiscoveryEpoch e = pub_epoch (syn_publisher s)" "se_ServingSequence e = pub_sequence (syn_publisher s) + 1"
    "list_all2 (synced_view source (syn_publisher s) now) states xs"
    "FullSync jcs ctxErr (ListServingStates None cp) source now clock s =
       (Inr (), \<lparr>syn_publisher = (syn_publisher s)\<lparr>pub_sequence := pub_sequence (syn_publisher s) + 1\<rparr>,
          syn_store = installed_full n fp clock (syn_store s)\<rparr>)"
proof -
  let ?p = "syn_publisher s" and ?st = "syn_store s"
  note i = inv [unfolded local_inv_def Let_def fst_conv snd_conv]
  have cpi: "cp_inv jcs cp" using i by blast
  obtain "is" rs where is1: "project_states ctxErr 2 source (pub_epoch ?p) (Time_Round0 now) states = Inr is"
    and rs: "BuildFull_loop jcs (pub_builder ?p) (pub_epoch ?p) (pub_sequence ?p + 1) {||} is = Inr rs"
    and views: "list_all2 (\<lambda>st r. synced_view source ?p now st (dres_Snapshot r)
       \<and> ServingSnapshot_Validate jcs (dres_Snapshot r) = None) states rs"
    by (rule FullSync_build [OF inv l ctx jcs src now room])
  let ?xs = "map dres_Snapshot rs"
  let ?e = "full_event (pub_epoch ?p) (pub_sequence ?p + 1) rs"
  have each: "\<exists>st \<in> set states. \<exists>cs d. x = (built_view (sync_input ?p st now cs))\<lparr>sn_Checksum := d\<rparr>
      \<and> ServingSnapshot_Validate jcs x = None" if x: "x \<in> set ?xs" for x
  proof -
    obtain r where "r \<in> set rs" "x = dres_Snapshot r" using x by auto
    with list_all2_in [OF views, of r] show ?thesis unfolding synced_view_def by blast
  qed
  have ids: "map sn_FunctionID ?xs = map (\<lambda>st. m_ID (ss_Function st)) states"
    using views by (induction rule: list_all2_induct) (auto simp: projectInput_def synced_view_def)
  have "int (length ?xs) \<le> gst_maxFunctions ?st"
    using cap listed_ids_distinct(2) [OF cpi l] list_all2_lengthD [OF views] by simp
  moreover have "normalize_snapshots jcs ?e {||} ?xs = None"
    unfolding normalize_snapshots_None ids
    using each listed_ids_distinct(1) [OF cpi l] by (fastforce simp: full_event_def)
  moreover have "regression ?st x = None" if x: "x \<in> set ?xs" for x
  proof (cases "fmlookup (gst_functions ?st) (sn_FunctionID x)")
    case (Some r)
    obtain st cs d where st: "st \<in> set states" "x = (built_view (sync_input ?p st now cs))\<lparr>sn_Checksum := d\<rparr>"
      using each [OF x] by blast
    have "sn_FunctionID (fr_snapshot r) = sn_FunctionID x" "view_known cp (fr_snapshot r)"
      using i Some by (auto simp: store_inv_def view_record_ok_def)
    then show ?thesis
      using known_no_regression [where cp = cp and x = "fr_snapshot r" and st = st and p = ?p and now = now and cs = cs and d = d and jcs = jcs] Some st
        ListServingStates_Inr(1) [OF cpi l]
      by (simp add: regression_def projectInput_def)
  qed (simp add: regression_def)
  moreover have "pos_epoch (gst_position ?st) \<le> pub_epoch ?p" "pos_sequence (gst_position ?st) < pub_sequence ?p + 1"
      "pub_epoch ?p \<noteq> 0" "pub_sequence ?p + 1 \<noteq> 0"
    using i room word_less_inc [OF room] by (auto simp: word_inc_zero_iff intro: order.strict_trans1)
  ultimately obtain n fp where n: "normalizeEvent jcs ?e (gst_maxFunctions ?st) = Inr (n, fp)"
      "Store_Apply jcs ?e clock ?st = (Inr (), installed_full n fp clock ?st)"
    using Store_Apply_full [OF jcs, of ?e ?st clock] clock by (auto simp: full_event_def)
  have sync: "FullSync jcs ctxErr (ListServingStates None cp) source now clock s =
       (Inr (), \<lparr>syn_publisher = ?p\<lparr>pub_sequence := pub_sequence ?p + 1\<rparr>, syn_store = installed_full n fp clock ?st\<rparr>)"
    using l is1 rs n(2) room ctx
    by (simp add: FullSync_def Publisher_Position_def Publisher_BuildFull_def Let_def)
  have "list_all2 (synced_view source ?p now) states ?xs"
    unfolding list.rel_map by (rule list.rel_mono_strong [OF views]) blast
  then show thesis using that [of ?e ?xs, OF _ n(1) _ _ _ sync] by (simp add: full_event_def)
qed

text \<open>
  C12: a Full Sync of the local system is accepted and brings the gateway up to date. Whatever
  control operations, syncs, lookups and suppressions came before, as long as the monotonic clock of
  the gateway has never run backwards, no context is cancelled, the candidate source answers within
  its limits, the wall clock gives a UTC time, the sequence is not used up and the store has room
  for the Functions of the catalog, the sync succeeds: no revision, position or validation check of
  the gateway store rejects what this control plane has built. The publisher advances by one, and
  the store is at exactly its position, synchronized and connected. It holds one view per Function
  of the catalog and no other, received now, at that position, with the present Function, trigger
  and Route and with the endpoints that discovery builds from the candidates of the source.
\<close>

theorem full_sync_converges:
  assumes "reachable local_initial (local_exec jcs) (cp, s)" and "ListServingStates None cp = Inr states"
    and "\<forall>n. ctxErr n = None" and "canonicalizes jcs" and "source_ok source (syn_publisher s) states"
    and "\<not> Time_IsZero now" and "isUTC now" and "pub_sequence (syn_publisher s) \<noteq> - 1"
    and "gst_clockHealthy (syn_store s)" and "gst_lastElapsed (syn_store s) \<le> clock"
    and "int (map_len (cat_functionsByID (cp_catalog cp))) \<le> gst_maxFunctions (syn_store s)"
  shows "\<exists>s'. FullSync jcs ctxErr (ListServingStates None cp) source now clock s = (Inr (), s')
    \<and> Publisher_Position (syn_publisher s') = (pub_epoch (syn_publisher s), pub_sequence (syn_publisher s) + 1)
    \<and> (pos_epoch (gst_position (syn_store s')), pos_sequence (gst_position (syn_store s'))) = Publisher_Position (syn_publisher s')
    \<and> \<not> gst_needsFullSync (syn_store s') \<and> gst_fullSynced (syn_store s') \<and> gst_watchConnected (syn_store s')
    \<and> (\<forall>i. case function_at cp i of
         None \<Rightarrow> fmlookup (gst_functions (syn_store s')) i = None
       | Some f \<Rightarrow> \<exists>r st. fmlookup (gst_functions (syn_store s')) i = Some r \<and> fr_receivedAt r = clock
           \<and> st \<in> set states \<and> ss_Function st = f \<and> synced_view source (syn_publisher s) now st (fr_snapshot r)
           \<and> (sn_DiscoveryEpoch (fr_snapshot r), sn_ServingSequence (fr_snapshot r)) = Publisher_Position (syn_publisher s')
           \<and> sn_Function (fr_snapshot r) = in_Function (projectInput (state_at cp i f) zero_time)
           \<and> sn_Trigger (fr_snapshot r) = in_Trigger (projectInput (state_at cp i f) zero_time)
           \<and> sn_Route (fr_snapshot r) = sorted_route (projectRoute (state_at cp i f)))"
proof -
  let ?p = "syn_publisher s"
  have inv: "local_inv jcs (cp, s)" by (rule local_system.inv_reachable [OF assms(1)])
  then have cpi: "cp_inv jcs cp" by (simp add: local_inv_def Let_def)
  obtain xs n fp e where e: "se_Snapshots e = xs" and n: "normalizeEvent jcs e (gst_maxFunctions (syn_store s)) = Inr (n, fp)"
    and pos: "se_DiscoveryEpoch e = pub_epoch ?p" "se_ServingSequence e = pub_sequence ?p + 1"
    and views: "list_all2 (synced_view source ?p now) states xs"
    and sync: "FullSync jcs ctxErr (ListServingStates None cp) source now clock s =
       (Inr (), \<lparr>syn_publisher = ?p\<lparr>pub_sequence := pub_sequence ?p + 1\<rparr>, syn_store = installed_full n fp clock (syn_store s)\<rparr>)"
    by (rule FullSync_applied [OF inv assms(2-11)])
  let ?st' = "installed_full n fp clock (syn_store s)"
  have funs: "set (map ss_Function states) = {f. \<exists>k. function_at cp k = Some f}"
    using ListServingStates_Inr(2) [OF cpi assms(2)] by (simp add: snapshotLocked_def Let_def)
  have fid: "m_ID f = i" if "function_at cp i = Some f" for i f
    using catalog_function [OF cp_catalog_inv [OF cpi] that] by (simp add: function_entry_def)
  have none: "fmlookup (gst_functions ?st') i = None" if "function_at cp i = None" for i
  proof (rule ccontr)
    assume "fmlookup (gst_functions ?st') i \<noteq> None"
    then obtain r where "fmlookup (gst_functions ?st') i = Some r" by auto
    then obtain x where "x \<in> set (se_Snapshots n)" "sn_FunctionID x = i"
      using fmlookup_full [of "replacement (syn_store s) clock" "se_Snapshots n" i r] by (auto simp: installed_full_def)
    then have x: "x \<in> set xs" "sn_FunctionID x = i" using normalizeEvent_Inr(1) [OF n] e by simp_all
    obtain st where "st \<in> set states" "m_ID (ss_Function st) = i"
      using list_all2_in [OF views x(1)] x(2) by (auto simp: projectInput_def synced_view_def)
    then obtain k where "function_at cp k = Some (ss_Function st)" "m_ID (ss_Function st) = i"
      using funs by auto
    then show False using that fid by auto
  qed
  have some: "\<exists>r st. fmlookup (gst_functions ?st') i = Some r \<and> fr_receivedAt r = clock
      \<and> st \<in> set states \<and> ss_Function st = f \<and> synced_view source ?p now st (fr_snapshot r)
      \<and> (sn_DiscoveryEpoch (fr_snapshot r), sn_ServingSequence (fr_snapshot r)) = (pub_epoch ?p, pub_sequence ?p + 1)
      \<and> sn_Function (fr_snapshot r) = in_Function (projectInput (state_at cp i f) zero_time)
      \<and> sn_Trigger (fr_snapshot r) = in_Trigger (projectInput (state_at cp i f) zero_time)
      \<and> sn_Route (fr_snapshot r) = sorted_route (projectRoute (state_at cp i f))"
    if f: "function_at cp i = Some f" for i f
  proof -
    have "f \<in> set (map ss_Function states)" unfolding funs using f by blast
    then obtain st where st: "st \<in> set states" "ss_Function st = f" by auto
    obtain x where v: "x \<in> set xs" "synced_view source ?p now st x"
      using list_all2_in_left [OF views st(1)] by blast
    then obtain cs d where x: "x \<in> set xs" "x = (built_view (sync_input ?p st now cs))\<lparr>sn_Checksum := d\<rparr>"
      unfolding synced_view_def by blast
    have "sn_FunctionID x = i" using x(2) st(2) fid [OF f] by (simp add: projectInput_def)
    then have "fmlookup (gst_functions ?st') i = Some (replacement (syn_store s) clock x)"
      using installed_full_lookup [OF n, of x] x(1) e by simp
    moreover have entry: "serving_entry jcs (cp_catalog cp) (cp_releases cp) (cp_routes cp) st"
      using ListServingStates_Inr(1) [OF cpi assms(2)] st(1) by blast
    ultimately show ?thesis
      using entry_state_at(2-4) [OF entry] x(2) st fid [OF f] v(2)
      by (intro exI [of _ "replacement (syn_store s) clock x"] exI [of _ st]) (simp add: replacement_def sorted_route_def)
  qed
  have at: "pos_epoch (gst_position ?st') = pub_epoch ?p" "pos_sequence (gst_position ?st') = pub_sequence ?p + 1"
    using normalizeEvent_Inr(1) [OF n] pos by (simp_all add: installed_full_def event_position_def)
  have flags: "\<not> gst_needsFullSync ?st'" "gst_fullSynced ?st'" "gst_watchConnected ?st'"
    by (simp_all add: installed_full_def)
  let ?s = "\<lparr>syn_publisher = ?p\<lparr>pub_sequence := pub_sequence ?p + 1\<rparr>, syn_store = ?st'\<rparr>"
  have "Publisher_Position (syn_publisher ?s) = (pub_epoch ?p, pub_sequence ?p + 1)"
    by (simp add: Publisher_Position_def)
  then show ?thesis
    using sync none some at flags by (intro exI [of _ ?s]) (auto split: option.split)
qed

subsection \<open>A sample system\<close>

definition sync_demo :: Synchronizer where
  "sync_demo = \<lparr>syn_publisher = \<lparr>pub_builder = 1000, pub_epoch = 1, pub_sequence = 0\<rparr>, syn_store = gw_store\<rparr>"

lemma sync_demo_reachable: "reachable local_initial (local_exec Inr) (demo_plane, sync_demo)"
proof -
  have step: "run (local_exec Inr) (map EvControl es) (cp, s) = (run (cp_exec Inr) es cp, s)" for es cp s
    by (induction es arbitrary: cp) simp_all
  have "local_initial (new_control_plane, sync_demo)"
    unfolding local_initial_def
  proof (intro conjI)
    show "cp_initial (fst (new_control_plane, sync_demo))" by (simp add: cp_initial_def)
    have "NewBuilder 1000 = Inr 1000" "NewPublisher 1 1000 = Inr (syn_publisher sync_demo)"
      by (simp_all add: NewBuilder_def NewPublisher_def sync_demo_def)
    then show "\<exists>limit builder epoch. NewBuilder limit = Inr builder
        \<and> NewPublisher epoch builder = Inr (syn_publisher (snd (new_control_plane, sync_demo)))"
      unfolding snd_conv by blast
    have "NewGatewayStore None 0 0 = Inr (syn_store sync_demo)" using gw_store_new by (simp add: sync_demo_def)
    then show "\<exists>stale functions elapsed. NewGatewayStore stale functions elapsed = Inr (syn_store (snd (new_control_plane, sync_demo)))"
      unfolding snd_conv by blast
  qed
  then have "reachable local_initial (local_exec Inr) (run (local_exec Inr) (map EvControl demo_events) (new_control_plane, sync_demo))"
    by (intro reachable_run reachable_initial)
  then show ?thesis by (simp add: step demo_run)
qed

lemma canonicalizes_Inr: "canonicalizes Inr"
  by (simp add: canonicalizes_def)

lemma demo_listed: "\<exists>states. ListServingStates None demo_plane = Inr states"
  using ServingStates_complete [OF cp_catalog_inv cp_release_inv cp_route_inv, OF control.inv_reachable control.inv_reachable
      control.inv_reachable, OF demo_reachable demo_reachable demo_reachable]
  by (auto simp: ListServingStates_def)

theorem projection_well_formed_witness:
  "\<exists>states. ListServingStates None demo_plane = Inr states \<and> (\<forall>st \<in> set states.
     inputs_valid (at_position 1 1 ((projectInput st (Time_Round0 (at_time 9)))\<lparr>in_Candidates := []\<rparr>)))
   \<and> function_at demo_plane ''fn-1'' = Some demo_routed"
proof -
  have "\<not> Time_IsZero (at_time 9)" "isUTC (at_time 9)" by code_simp+
  then show ?thesis
    using projection_well_formed [OF demo_reachable, of "at_time 9" 1 1 "[]"] demo_plane_state(1) by auto
qed

theorem full_sync_converges_witness:
  "\<exists>s' r. FullSync Inr (\<lambda>_. None) (ListServingStates None demo_plane) None (at_time 9) 5 sync_demo = (Inr (), s')
     \<and> pos_epoch (gst_position (syn_store s')) = 1 \<and> pos_sequence (gst_position (syn_store s')) = 1
     \<and> fmlookup (gst_functions (syn_store s')) ''fn-1'' = Some r
     \<and> df_ResourceRevision (sn_Function (fr_snapshot r)) = m_ResourceRevision demo_routed"
proof -
  obtain states where l: "ListServingStates None demo_plane = Inr states" using demo_listed by blast
  have src: "source_ok None (syn_publisher sync_demo) states"
    by (simp add: source_ok_def endpointCandidates_def candidates_valid_def sync_demo_def)
  have time: "\<not> Time_IsZero (at_time 9)" "isUTC (at_time 9)" by code_simp+
  have cap: "int (map_len (cat_functionsByID (cp_catalog demo_plane))) \<le> gst_maxFunctions (syn_store sync_demo)"
    using catalog_bound [OF cp_catalog_inv [OF control.inv_reachable [OF demo_reachable]]]
    by (simp add: sync_demo_def)
  have rest: "pub_sequence (syn_publisher sync_demo) \<noteq> - 1" "gst_clockHealthy (syn_store sync_demo)"
      "gst_lastElapsed (syn_store sync_demo) \<le> 5" "\<forall>n :: nat. (\<lambda>_. None :: error option) n = None"
    by (simp_all add: sync_demo_def)
  obtain s' where s': "FullSync Inr (\<lambda>_. None) (ListServingStates None demo_plane) None (at_time 9) 5 sync_demo = (Inr (), s')"
    and pos: "Publisher_Position (syn_publisher s') = (pub_epoch (syn_publisher sync_demo), pub_sequence (syn_publisher sync_demo) + 1)"
      "(pos_epoch (gst_position (syn_store s')), pos_sequence (gst_position (syn_store s'))) = Publisher_Position (syn_publisher s')"
    and all: "\<forall>i. case function_at demo_plane i of
         None \<Rightarrow> fmlookup (gst_functions (syn_store s')) i = None
       | Some f \<Rightarrow> \<exists>r st. fmlookup (gst_functions (syn_store s')) i = Some r \<and> fr_receivedAt r = 5
           \<and> st \<in> set states \<and> ss_Function st = f \<and> synced_view None (syn_publisher sync_demo) (at_time 9) st (fr_snapshot r)
           \<and> (sn_DiscoveryEpoch (fr_snapshot r), sn_ServingSequence (fr_snapshot r)) = Publisher_Position (syn_publisher s')
           \<and> sn_Function (fr_snapshot r) = in_Function (projectInput (state_at demo_plane i f) zero_time)
           \<and> sn_Trigger (fr_snapshot r) = in_Trigger (projectInput (state_at demo_plane i f) zero_time)
           \<and> sn_Route (fr_snapshot r) = sorted_route (projectRoute (state_at demo_plane i f))"
    using full_sync_converges [OF sync_demo_reachable l rest(4) canonicalizes_Inr src time rest(1-3) cap] by blast
  from all [rule_format, of "''fn-1''"] obtain r where "fmlookup (gst_functions (syn_store s')) ''fn-1'' = Some r"
      "sn_Function (fr_snapshot r) = in_Function (projectInput (state_at demo_plane ''fn-1'' demo_routed) zero_time)"
    by (auto simp: demo_plane_state(1))
  moreover have "pos_epoch (gst_position (syn_store s')) = 1" "pos_sequence (gst_position (syn_store s')) = 1"
    using pos by (simp_all add: sync_demo_def)
  ultimately show ?thesis using s' by (auto simp: projectInput_def state_at_def)
qed

end
