(* ===== verification/GatewayRoute.thy ===== *)
theory GatewayRoute
  imports Discovery
begin

text \<open>
  Package \<^verbatim>\<open>internal/gatewayroute\<close>: the balancer that picks one endpoint of an already selected
  route target. A lease carries a pointer to a \<^verbatim>\<open>sync.Once\<close> that its copies share; the
  balancer's model keeps the leases that have not been released, under the numbers in which
  they were handed out, and releasing one twice finds it gone. Receivers are not nil, and the zero
  \<^verbatim>\<open>Lease\<close>, whose release does nothing, is not modelled.
\<close>

subsection \<open>Data\<close>

record targetKey =
  tk_functionID :: string
  tk_versionID :: string
  tk_generation :: u64

record Balancer =
  bal_inflight :: "(AssignmentIdentity, u64) fmap"
  bal_roundRobin :: "(targetKey, u64) fmap"
  bal_leases :: "(nat, AssignmentIdentity) fmap"
  bal_issued :: nat

record Lease =
  ls_Endpoint :: Endpoint
  ls_state :: nat

definition NewBalancer :: Balancer where
  "NewBalancer =
    \<lparr>bal_inflight = fmempty, bal_roundRobin = fmempty, bal_leases = fmempty, bal_issued = 0\<rparr>"

subsection \<open>Operations\<close>

definition validateTarget :: "RouteTarget \<Rightarrow> error option" where
  "validateTarget t = first_error
    [fail_if (\<not> identifierPattern (rt_VersionID t))
       (Invalid ''route_target.version_id'' ''must be a valid identifier''),
     fail_if (rt_AdmissionEpoch t = 0 \<or> rt_DeploymentGeneration t = 0 \<or> rt_WeightBasisPoints t = 0
         \<or> rt_WeightBasisPoints t > TotalRouteWeightBasisPoints)
       (Invalid ''route_target'' ''contains an invalid epoch, generation, or weight''),
     fail_if (bad_digest (rt_EffectivePolicyDigest t))
       (Invalid ''route_target.effective_policy_digest'' ''must be a lowercase SHA-256 digest'')]"

definition endpoint_matches :: "RouteTarget \<Rightarrow> Endpoint \<Rightarrow> bool" where
  "endpoint_matches t e \<longleftrightarrow>
     en_State e = EndpointReady \<and> ai_Mode (en_Assignment e) = ModeNormal
     \<and> ai_VersionID (en_Assignment e) = rt_VersionID t
     \<and> ai_AdmissionEpoch (en_Assignment e) = rt_AdmissionEpoch t
     \<and> ai_DeploymentGeneration (en_Assignment e) = rt_DeploymentGeneration t
     \<and> ai_PolicyDigest (en_Assignment e) = rt_EffectivePolicyDigest t"

text \<open>The loop over the endpoints, with the Assignment IDs seen and the eligible ones so far.\<close>

fun eligible_loop :: "RouteTarget \<Rightarrow> string fset \<Rightarrow> Endpoint list \<Rightarrow> Endpoint list \<Rightarrow> error + Endpoint list" where
  "eligible_loop t seen eligible [] = Inr eligible"
| "eligible_loop t seen eligible (e # es) =
    (case Endpoint_Validate e of
       Some err \<Rightarrow> Inl err
     | None \<Rightarrow>
         if \<not> endpoint_matches t e then eligible_loop t seen eligible es
         else if ai_AssignmentID (en_Assignment e) |\<in>| seen
           then Inl (Invalid ''endpoints'' ''contains a duplicate Assignment ID'')
         else eligible_loop t (finsert (ai_AssignmentID (en_Assignment e)) seen) (eligible @ [e]) es)"

definition compareRouteEndpoints :: "Endpoint \<Rightarrow> Endpoint \<Rightarrow> int" where
  "compareRouteEndpoints left right =
    compare_lin (ai_AssignmentID (en_Assignment left)) (ai_AssignmentID (en_Assignment right))"

definition Inflight :: "Balancer \<Rightarrow> AssignmentIdentity \<Rightarrow> u64" where
  "Inflight b identity = map_get 0 (bal_inflight b) identity"

text \<open>The minimum over the eligible endpoints, and those that attain it.\<close>

definition least_inflight :: "Balancer \<Rightarrow> Endpoint list \<Rightarrow> u64" where
  "least_inflight b es =
    (case es of
       [] \<Rightarrow> 0
     | e # rest \<Rightarrow> fold (\<lambda>e m. min m (Inflight b (en_Assignment e))) rest (Inflight b (en_Assignment e)))"

definition tied_endpoints :: "Balancer \<Rightarrow> Endpoint list \<Rightarrow> Endpoint list" where
  "tied_endpoints b es = filter (\<lambda>e. Inflight b (en_Assignment e) = least_inflight b es) es"

definition Acquire ::
  "string \<Rightarrow> RouteTarget \<Rightarrow> Endpoint list \<Rightarrow> (error, Balancer, Lease) operation" where
  "Acquire functionID target endpoints b =
    check (first_error
      [fail_if (\<not> identifierPattern functionID) (Invalid ''function_id'' ''must be a valid identifier''),
       validateTarget target]) b
    (case eligible_loop target {||} [] endpoints of
       Inl e \<Rightarrow> (Inl e, b)
     | Inr [] \<Rightarrow> (Inl (classified CodeNoReadyReplica ''selected Route target has no ready Endpoint''), b)
     | Inr eligible \<Rightarrow>
         (let sorted = sort_by compareRouteEndpoints eligible;
              key = \<lparr>tk_functionID = functionID, tk_versionID = rt_VersionID target,
                     tk_generation = rt_DeploymentGeneration target\<rparr>;
              tied = tied_endpoints b sorted;
              cursor = map_get 0 (bal_roundRobin b) key;
              chosen = tied ! unat (cursor mod of_nat (length tied));
              identity = en_Assignment chosen in
          (Inr \<lparr>ls_Endpoint = chosen, ls_state = bal_issued b\<rparr>,
           b\<lparr>bal_roundRobin := fmupd key (cursor + 1) (bal_roundRobin b),
             bal_inflight := fmupd identity (Inflight b identity + 1) (bal_inflight b),
             bal_leases := fmupd (bal_issued b) identity (bal_leases b),
             bal_issued := Suc (bal_issued b)\<rparr>)))"

definition Release :: "Lease \<Rightarrow> Balancer \<Rightarrow> Balancer" where
  "Release l b =
    (case fmlookup (bal_leases b) (ls_state l) of
       None \<Rightarrow> b
     | Some identity \<Rightarrow>
         (let count = Inflight b identity in
          b\<lparr>bal_leases := fmdrop (ls_state l) (bal_leases b),
            bal_inflight := (if count \<le> 1 then fmdrop identity (bal_inflight b)
              else fmupd identity (count - 1) (bal_inflight b))\<rparr>))"

section \<open>Properties\<close>

subsection \<open>The choice\<close>

lemma eligible_loop_Inr:
  "eligible_loop t seen acc es = Inr r \<Longrightarrow>
     r = acc @ filter (endpoint_matches t) es \<and> (\<forall>e \<in> set es. Endpoint_Validate e = None)
     \<and> distinct (map (\<lambda>e. ai_AssignmentID (en_Assignment e)) (filter (endpoint_matches t) es))
     \<and> (\<forall>e \<in> set (filter (endpoint_matches t) es). ai_AssignmentID (en_Assignment e) |\<notin>| seen)"
proof (induction es arbitrary: seen acc)
  case (Cons e es)
  then show ?case
    by (cases "endpoint_matches t e") (auto split: option.splits if_splits dest!: Cons.IH simp: image_iff)
qed simp

lemma eligible_loop_total:
  assumes "\<forall>e \<in> set es. Endpoint_Validate e = None \<and> ai_AssignmentID (en_Assignment e) |\<notin>| seen"
    and "distinct (map (\<lambda>e. ai_AssignmentID (en_Assignment e)) es)"
  shows "eligible_loop t seen acc es = Inr (acc @ filter (endpoint_matches t) es)"
  using assms
proof (induction es arbitrary: seen acc)
  case (Cons e es)
  let ?seen = "finsert (ai_AssignmentID (en_Assignment e)) seen"
  have "\<forall>x \<in> set es. Endpoint_Validate x = None \<and> ai_AssignmentID (en_Assignment x) |\<notin>| ?seen"
    using Cons.prems by (auto simp: image_iff)
  then have "eligible_loop t ?seen acc' es = Inr (acc' @ filter (endpoint_matches t) es)" for acc'
    using Cons.IH [of ?seen acc'] Cons.prems by simp
  with Cons show ?case by simp
qed simp

lemma fold_min_le:
  fixes f :: "'a \<Rightarrow> 'b :: linorder"
  shows "fold (\<lambda>e m. min m (f e)) es z \<le> z \<and> (\<forall>e \<in> set es. fold (\<lambda>e m. min m (f e)) es z \<le> f e)
    \<and> (fold (\<lambda>e m. min m (f e)) es z = z \<or> (\<exists>e \<in> set es. fold (\<lambda>e m. min m (f e)) es z = f e))"
proof (induction es arbitrary: z)
  case (Cons e es)
  show ?case using Cons [of "min z (f e)"] by (auto simp: min_def split: if_splits)
qed simp

lemma least_inflight_least:
  assumes "es \<noteq> []"
  shows "\<forall>e \<in> set es. least_inflight b es \<le> Inflight b (en_Assignment e)"
    and "\<exists>e \<in> set es. least_inflight b es = Inflight b (en_Assignment e)"
proof -
  obtain e es' where es: "es = e # es'" using assms by (cases es) auto
  note m = fold_min_le [of "\<lambda>e. Inflight b (en_Assignment e)" es' "Inflight b (en_Assignment e)"]
  show "\<forall>e \<in> set es. least_inflight b es \<le> Inflight b (en_Assignment e)"
    using m by (simp add: es least_inflight_def)
  show "\<exists>e \<in> set es. least_inflight b es = Inflight b (en_Assignment e)"
    using m by (auto simp: es least_inflight_def)
qed

text \<open>The cursor always falls inside the tied endpoints, also when it has wrapped around.\<close>

lemma cursor_in_range:
  assumes "xs \<noteq> []" and "length xs < 2 ^ 64"
  shows "unat ((cursor :: u64) mod of_nat (length xs)) < length xs"
proof -
  have "unat (of_nat (length xs) :: u64) = length xs" using assms(2) by (simp add: unat_of_nat)
  then show ?thesis using assms(1) by (simp add: unat_mod)
qed

lemma tied_endpoints_least:
  assumes "es \<noteq> []"
  shows "tied_endpoints b es \<noteq> []"
    and "e \<in> set (tied_endpoints b es) \<Longrightarrow> e \<in> set es \<and> (\<forall>e' \<in> set es.
      Inflight b (en_Assignment e) \<le> Inflight b (en_Assignment e'))"
  using least_inflight_least [OF assms, of b] by (auto simp: tied_endpoints_def filter_empty_conv)

text \<open>What a successful acquisition leaves behind and what it returns.\<close>

lemma Acquire_state:
  assumes "Acquire f t es b = (Inr l, b')"
  shows "ls_state l = bal_issued b" and "bal_issued b' = Suc (bal_issued b)"
    and "bal_leases b' = fmupd (bal_issued b) (en_Assignment (ls_Endpoint l)) (bal_leases b)"
    and "bal_inflight b' = fmupd (en_Assignment (ls_Endpoint l))
      (Inflight b (en_Assignment (ls_Endpoint l)) + 1) (bal_inflight b)"
  using assms by (auto simp: Acquire_def check_eq_Inr Let_def split: sum.splits list.splits)

lemma Acquire_Inr:
  assumes "Acquire f t es b = (Inr l, b')" and "length es < 2 ^ 64"
  shows "ls_Endpoint l \<in> set es" and "endpoint_matches t (ls_Endpoint l)"
    and "\<forall>e \<in> set es. Endpoint_Validate e = None"
    and "\<forall>e \<in> set es. endpoint_matches t e \<longrightarrow>
      Inflight b (en_Assignment (ls_Endpoint l)) \<le> Inflight b (en_Assignment e)"
proof -
  obtain eligible where loop: "eligible_loop t {||} [] es = Inr eligible" and ne: "eligible \<noteq> []"
    using assms(1) by (auto simp: Acquire_def check_eq_Inr split: sum.splits list.splits)
  have el: "eligible = filter (endpoint_matches t) es" and val: "\<forall>e \<in> set es. Endpoint_Validate e = None"
    using eligible_loop_Inr [OF loop] by auto
  let ?sorted = "sort_by compareRouteEndpoints eligible"
  let ?tied = "tied_endpoints b ?sorted"
  obtain cursor where
      l: "l = \<lparr>ls_Endpoint = ?tied ! unat ((cursor :: u64) mod of_nat (length ?tied)), ls_state = bal_issued b\<rparr>"
    using assms(1) loop ne by (cases eligible) (auto simp: Acquire_def check_eq_Inr Let_def)
  have sne: "?sorted \<noteq> []" using ne by simp
  have "length ?tied \<le> length es"
    unfolding tied_endpoints_def by (rule order.trans [OF length_filter_le]) (simp add: el)
  then have "ls_Endpoint l \<in> set ?tied"
    using cursor_in_range [OF tied_endpoints_least(1) [OF sne], of b cursor] assms(2) by (simp add: l)
  note least = tied_endpoints_least(2) [OF sne this]
  show "ls_Endpoint l \<in> set es" "endpoint_matches t (ls_Endpoint l)" using least by (auto simp: el)
  show "\<forall>e \<in> set es. Endpoint_Validate e = None" by (rule val)
  show "\<forall>e \<in> set es. endpoint_matches t e \<longrightarrow>
      Inflight b (en_Assignment (ls_Endpoint l)) \<le> Inflight b (en_Assignment e)"
    using least by (auto simp: el)
qed

lemma Acquire_Inl: "Acquire f t es b = (Inl e, b') \<Longrightarrow> b' = b"
  by (auto simp: Acquire_def Let_def elim!: check_eq_cases split: sum.splits list.splits)

subsection \<open>The occupancy\<close>

text \<open>The leases on an Assignment that have not been released.\<close>

definition outstanding :: "Balancer \<Rightarrow> AssignmentIdentity \<Rightarrow> nat" where
  "outstanding b a = map_count (\<lambda>x. x = a) (bal_leases b)"

text \<open>
  The 64-bit counters are exact while fewer than \<open>2^64\<close> leases have been handed out; a counter
  that reached \<open>2^64\<close> would wrap.
\<close>

definition balancer_inv :: "Balancer \<Rightarrow> bool" where
  "balancer_inv b \<longleftrightarrow>
     (\<forall>n. bal_issued b \<le> n \<longrightarrow> fmlookup (bal_leases b) n = None)
     \<and> (bal_issued b < 2 ^ 64 \<longrightarrow> (\<forall>a. unat (Inflight b a) = outstanding b a))"

datatype balancer_event = EvAcquire string RouteTarget "Endpoint list" | EvRelease Lease

definition balancer_exec :: "balancer_event \<Rightarrow> Balancer \<Rightarrow> Balancer" where
  "balancer_exec e b =
    (case e of
       EvAcquire f t es \<Rightarrow> snd (Acquire f t es b)
     | EvRelease l \<Rightarrow> Release l b)"

definition balancer_initial :: "Balancer \<Rightarrow> bool" where
  "balancer_initial b \<longleftrightarrow> b = NewBalancer"

lemma outstanding_le_issued:
  assumes "balancer_inv b"
  shows "outstanding b a \<le> bal_issued b"
proof -
  have "{n. \<exists>v. fmlookup (bal_leases b) n = Some v \<and> v = a} \<subseteq> {..<bal_issued b}"
  proof
    fix n assume "n \<in> {n. \<exists>v. fmlookup (bal_leases b) n = Some v \<and> v = a}"
    then have "fmlookup (bal_leases b) n \<noteq> None" by auto
    then show "n \<in> {..<bal_issued b}" using assms unfolding balancer_inv_def by (metis lessThan_iff not_le)
  qed
  then show ?thesis
    unfolding outstanding_def map_count_def by (metis card_lessThan card_mono finite_lessThan)
qed

lemma map_count_drop:
  assumes "fmlookup m k = Some v"
  shows "map_count P m = map_count P (fmdrop k m) + (if P v then 1 else 0)"
proof -
  have "m = fmupd k v (fmdrop k m)" using assms by (auto intro: fmap_ext)
  then show ?thesis using map_count_upd_new [of "fmdrop k m" k P v] by simp
qed

lemma balancer_inv_Acquire:
  assumes inv: "balancer_inv b"
  shows "balancer_inv (snd (Acquire f t es b))"
proof (cases "Acquire f t es b")
  case (Pair r b')
  show ?thesis
  proof (cases r)
    case (Inl e)
    then have "b' = b" using Acquire_Inl [of f t es b e b'] Pair by simp
    then show ?thesis using Pair inv by simp
  next
    case (Inr l)
    note acq = Acquire_state [OF Pair [unfolded Inr]]
    let ?a = "en_Assignment (ls_Endpoint l)"
    have new: "fmlookup (bal_leases b) (bal_issued b) = None" using inv by (simp add: balancer_inv_def)
    have out: "outstanding b' x = outstanding b x + (if x = ?a then 1 else 0)" for x
      unfolding outstanding_def acq(3) using map_count_upd_new [OF new, of "\<lambda>y. y = x" ?a] by auto
    have "unat (Inflight b' x) = outstanding b' x" if lt: "bal_issued b' < 2 ^ 64" for x
    proof -
      have exact: "unat (Inflight b x) = outstanding b x" using inv lt acq(2) by (simp add: balancer_inv_def)
      have "outstanding b x < 2 ^ 64 - 1"
        using outstanding_le_issued [OF inv, of x] lt acq(2) by simp
      moreover have "unat (- 1 :: u64) = 2 ^ 64 - 1" by (simp add: unsigned_minus_1_eq_mask mask_eq_exp_minus_1)
      ultimately have "Inflight b x \<noteq> - 1" using exact by (metis less_irrefl)
      then show ?thesis
        using exact out unat_inc [of "Inflight b x"] by (auto simp: Inflight_def acq(4))
    qed
    then show ?thesis using inv acq(2,3) Pair by (simp add: balancer_inv_def)
  qed
qed

lemma balancer_inv_Release:
  assumes inv: "balancer_inv b"
  shows "balancer_inv (Release l b)"
proof (cases "fmlookup (bal_leases b) (ls_state l)")
  case (Some a)
  let ?b = "Release l b"
  have out: "outstanding b x = outstanding ?b x + (if a = x then 1 else 0)" for x
    using map_count_drop [OF Some, of "\<lambda>y. y = x"] by (simp add: outstanding_def Release_def Some Let_def)
  have "unat (Inflight ?b x) = outstanding ?b x" if "bal_issued ?b < 2 ^ 64" for x
  proof -
    have exact: "unat (Inflight b y) = outstanding b y" for y
      using inv that by (simp add: balancer_inv_def Release_def Some Let_def)
    have pos: "Inflight b a \<noteq> 0" using exact [of a] out [of a] by auto
    show ?thesis
    proof (cases "x = a")
      case True
      have "unat (Inflight ?b a) = unat (Inflight b a) - 1"
        using pos unat_dec [OF pos]
        by (auto simp: Release_def Some Let_def Inflight_def map_get_def word_le_nat_alt)
      then show ?thesis using True exact [of a] out [of a] by simp
    next
      case False
      then have "Inflight ?b x = Inflight b x" by (auto simp: Release_def Some Let_def Inflight_def map_get_def)
      then show ?thesis using False exact [of x] out [of x] by simp
    qed
  qed
  moreover have "fmlookup (bal_leases ?b) n = None" if "bal_issued ?b \<le> n" for n
    using inv that by (simp add: balancer_inv_def Release_def Some Let_def)
  ultimately show ?thesis by (simp add: balancer_inv_def)
qed (use inv in \<open>simp add: Release_def\<close>)

interpretation balancer: component balancer_initial balancer_exec balancer_inv
proof
  show "balancer_inv b" if "balancer_initial b" for b
    using that by (simp add: balancer_initial_def NewBalancer_def balancer_inv_def Inflight_def outstanding_def)
  show "balancer_inv (balancer_exec e b)" if "balancer_inv b" for e b
    using that by (cases e) (simp_all add: balancer_exec_def balancer_inv_Acquire balancer_inv_Release)
qed

text \<open>
  C22: the occupancy the balancer compares is exact. After any sequence of acquisitions, failed
  ones included, and releases, of any lease in any order and any number of times, the counter of
  an Assignment is the number of its leases that have not been released, as long as fewer than
  \<open>2^64\<close> leases have been handed out.
\<close>

theorem inflight_exact:
  assumes "bal_issued (run balancer_exec es NewBalancer) < 2 ^ 64"
  shows "unat (Inflight (run balancer_exec es NewBalancer) a) = outstanding (run balancer_exec es NewBalancer) a"
proof -
  have "balancer_inv (run balancer_exec es NewBalancer)"
    by (rule balancer.inv_run) (rule balancer.inv_initial, simp add: balancer_initial_def)
  with assms show ?thesis by (simp add: balancer_inv_def)
qed

text \<open>
  C20: a lease is on one of the given endpoints that carries the whole fence of the selected target,
  and no endpoint of that target is less occupied. The balancer never falls back to another
  target: where no endpoint matches, it reports \<^verbatim>\<open>NO_READY_REPLICA\<close> and changes nothing.
\<close>

theorem acquire_least_inflight:
  assumes "length es < 2 ^ 64" and "identifierPattern f" and "validateTarget t = None"
    and "\<forall>e \<in> set es. Endpoint_Validate e = None"
    and "distinct (map (\<lambda>e. ai_AssignmentID (en_Assignment e)) es)"
  shows "if filter (endpoint_matches t) es = []
    then Acquire f t es b = (Inl (classified CodeNoReadyReplica ''selected Route target has no ready Endpoint''), b)
    else \<exists>l b'. Acquire f t es b = (Inr l, b') \<and> ls_Endpoint l \<in> set es \<and> endpoint_matches t (ls_Endpoint l)
      \<and> (\<forall>e \<in> set es. endpoint_matches t e \<longrightarrow>
          Inflight b (en_Assignment (ls_Endpoint l)) \<le> Inflight b (en_Assignment e))"
proof -
  have loop: "eligible_loop t {||} [] es = Inr (filter (endpoint_matches t) es)"
    using eligible_loop_total [of es "{||}" t "[]"] assms(4,5) by simp
  show ?thesis
  proof (cases "filter (endpoint_matches t) es")
    case Nil
    then show ?thesis using assms(2,3) loop by (simp add: Acquire_def)
  next
    case (Cons e rest)
    then obtain l b' where acq: "Acquire f t es b = (Inr l, b')"
      using assms(2,3) loop by (simp add: Acquire_def Let_def)
    show ?thesis using Acquire_Inr(1,2,4) [OF acq assms(1)] acq Cons by auto
  qed
qed

definition route_endpoints :: "Endpoint list" where
  "route_endpoints =
    (let e = candidate_endpoint view_candidate in
     [e, e\<lparr>en_Assignment := sample_identity\<lparr>ai_AssignmentID := ''a-2''\<rparr>\<rparr>,
      e\<lparr>en_Assignment := sample_identity\<lparr>ai_AssignmentID := ''a-3'', ai_VersionID := ''v-2''\<rparr>\<rparr>])"

definition route_events :: "balancer_event list" where
  "route_events =
    (let lease = \<lparr>ls_Endpoint = candidate_endpoint view_candidate, ls_state = 0\<rparr> in
     [EvAcquire ''f-1'' view_target route_endpoints, EvAcquire ''f-1'' view_target route_endpoints,
      EvAcquire ''f-1'' view_target route_endpoints, EvRelease lease, EvRelease lease])"

lemma route_events_issued: "bal_issued (run balancer_exec route_events NewBalancer) = 3"
  by code_simp

theorem inflight_exact_witness:
  "outstanding (run balancer_exec route_events NewBalancer) sample_identity = 1"
proof -
  have "unat (Inflight (run balancer_exec route_events NewBalancer) sample_identity) = 1" by code_simp
  then show ?thesis using inflight_exact [of route_events sample_identity] by (simp add: route_events_issued)
qed

theorem acquire_least_inflight_witness:
  "\<exists>l b'. Acquire ''f-1'' view_target route_endpoints NewBalancer = (Inr l, b') \<and>
     ls_Endpoint l \<in> set route_endpoints \<and> endpoint_matches view_target (ls_Endpoint l)"
proof -
  have ne: "filter (endpoint_matches view_target) route_endpoints \<noteq> []" by code_simp
  have "length route_endpoints < 2 ^ 64" by (simp add: route_endpoints_def Let_def)
  moreover have "identifierPattern ''f-1''" by code_simp
  moreover have "validateTarget view_target = None" by code_simp
  moreover have "\<forall>e \<in> set route_endpoints. Endpoint_Validate e = None" by code_simp
  moreover have "distinct (map (\<lambda>e. ai_AssignmentID (en_Assignment e)) route_endpoints)" by code_simp
  ultimately show ?thesis
    using acquire_least_inflight [of route_endpoints "''f-1''" view_target NewBalancer] ne by auto
qed

end
