(* ===== verification/WorkerCache.thy ===== *)
theory WorkerCache
  imports Scheduler "HOL-Library.Multiset"
begin

text \<open>
  Package \<^verbatim>\<open>internal/workercache\<close>: the bounded cache of compiled modules. One mutex guards its
  state, and the goroutines that acquire, load, release and close run between its critical
  sections in any order. Each critical section is a function on the record of the cache; the
  pointers to entries and flights are addresses of two stores, a channel that is only ever closed
  is a number, and the number is in \<open>c_closed\<close> once it is. A \<^verbatim>\<open>*wasmexec.Program\<close> is a number too:
  the runtime that compiles and closes it is a package of its own, so both are outcomes that the
  step relation leaves open. The counters of type \<^verbatim>\<open>int\<close> are integers.
\<close>

subsection \<open>Keys\<close>

record ModuleSpec =
  mo_ArtifactDigest :: SHA256
  mo_ArtifactSize :: int
  mo_ABI :: string
  mo_HostAPIProfile :: string
  mo_RuntimeFeatureProfile :: string

definition newProfile :: "WasmProfile \<Rightarrow> error + WasmProfile" where
  "newProfile p =
    (case NewWasmProfile (wp_Engine p) (wp_MemoryLimitMiB p) of
       Inl _ \<Rightarrow> Inl (Opaque ''worker cache compiler profile is invalid'')
     | Inr validated \<Rightarrow> Inr validated)"

text \<open>The platform, \<^verbatim>\<open>runtime.GOOS\<close> and \<^verbatim>\<open>runtime.GOARCH\<close>, is an argument.\<close>

definition profile_key :: "string \<times> string \<Rightarrow> WasmProfile \<Rightarrow> ModuleSpec \<Rightarrow> error + CacheKey" where
  "profile_key platform p spec =
    (case first_error
       [fail_if (bad_digest (mo_ArtifactDigest spec)) (Opaque ''worker cache artifact digest is invalid''),
        fail_if (mo_ArtifactSize spec < 1 \<or> mo_ArtifactSize spec > MaxArtifactBytes)
          (Opaque ''worker cache artifact size is outside v1 bounds''),
        fail_if (mo_ABI spec \<noteq> ABIWASICommandV1) (Opaque ''worker cache abi is unsupported''),
        fail_if (mo_HostAPIProfile spec \<noteq> HostAPIProfileNone)
          (Opaque ''worker cache host api profile is unsupported''),
        fail_if (mo_RuntimeFeatureProfile spec \<noteq> FeatureProfile)
          (Opaque ''worker cache runtime feature profile is unsupported'')] of
       Some e \<Rightarrow> Inl e
     | None \<Rightarrow> Inr
         \<lparr>ck_ArtifactDigest = mo_ArtifactDigest spec, ck_ArtifactSize = mo_ArtifactSize spec,
          ck_RuntimeName = RuntimeName, ck_RuntimeVersion = RuntimeVersion, ck_ABI = mo_ABI spec,
          ck_HostAPIProfile = mo_HostAPIProfile spec,
          ck_RuntimeFeatureProfile = mo_RuntimeFeatureProfile spec, ck_Engine = wp_Engine p,
          ck_MemoryLimitMiB = wp_MemoryLimitMiB p, ck_GOOS = fst platform, ck_GOARCH = snd platform\<rparr>)"

subsection \<open>The load gate\<close>

text \<open>
  Two buffered channels, each a capacity and the number of values in it. A reservation is held by
  the goroutine of one flight: it occupies the active channel, the queue, or neither.
\<close>

record channel =
  ch_capacity :: int
  ch_length :: int

definition has_room :: "channel \<Rightarrow> bool" where
  "has_room ch \<longleftrightarrow> ch_length ch < ch_capacity ch"

definition send :: "channel \<Rightarrow> channel" where
  "send ch = ch\<lparr>ch_length := ch_length ch + 1\<rparr>"

definition receive :: "channel \<Rightarrow> channel" where
  "receive ch = ch\<lparr>ch_length := ch_length ch - 1\<rparr>"

record loadGate =
  lg_active :: channel
  lg_queued :: channel

datatype reservation = ReservedActive | ReservedQueue | ReservedNone

definition newLoadGate :: "int \<Rightarrow> int \<Rightarrow> loadGate" where
  "newLoadGate maxConcurrent maxQueued =
    \<lparr>lg_active = \<lparr>ch_capacity = maxConcurrent, ch_length = 0\<rparr>,
     lg_queued = \<lparr>ch_capacity = maxQueued, ch_length = 0\<rparr>\<rparr>"

definition ErrClosed :: error where "ErrClosed = Opaque ''worker compiled cache is closed''"
definition ErrFull :: error where "ErrFull = Opaque ''worker compiled cache has no evictable capacity''"
definition ErrEntryTooLarge :: error where
  "ErrEntryTooLarge = Opaque ''compiled cache entry exceeds configured capacity''"
definition ErrLoadQueueFull :: error where
  "ErrLoadQueueFull = Opaque ''worker compiled cache load queue is full''"
definition context_Canceled :: error where "context_Canceled = Opaque ''context canceled''"

definition gate_reserve :: "(error, loadGate, reservation) operation" where
  "gate_reserve g =
    (if has_room (lg_active g) then (Inr ReservedActive, g\<lparr>lg_active := send (lg_active g)\<rparr>)
     else if has_room (lg_queued g) then (Inr ReservedQueue, g\<lparr>lg_queued := send (lg_queued g)\<rparr>)
     else (Inl ErrLoadQueueFull, g))"

text \<open>
  The two cases of the \<^verbatim>\<open>select\<close> in \<open>wait\<close>, for a queued reservation: an active slot is free, and
  after taking it the goroutine leaves the queue in a second step; or the context is done.
\<close>

definition wait_admitted :: "loadGate \<Rightarrow> loadGate" where
  "wait_admitted g = g\<lparr>lg_active := send (lg_active g)\<rparr>"

definition wait_dequeued :: "loadGate \<Rightarrow> loadGate" where
  "wait_dequeued g = g\<lparr>lg_queued := receive (lg_queued g)\<rparr>"

definition wait_cancelled :: "loadGate \<Rightarrow> loadGate" where
  "wait_cancelled g = g\<lparr>lg_queued := receive (lg_queued g)\<rparr>"

definition reservation_release :: "reservation \<Rightarrow> loadGate \<Rightarrow> loadGate" where
  "reservation_release r g =
    (case r of
       ReservedActive \<Rightarrow> g\<lparr>lg_active := receive (lg_active g)\<rparr>
     | ReservedQueue \<Rightarrow> g\<lparr>lg_queued := receive (lg_queued g)\<rparr>
     | ReservedNone \<Rightarrow> g)"

subsection \<open>Data\<close>

datatype EvictionReason = EvictionCapacityBytes | EvictionCapacityEntries

record CacheResult =
  cr_Key :: CacheKey
  cr_Hit :: bool
  cr_Coalesced :: bool
  cr_ArtifactLoad :: duration
  cr_Compile :: duration
  cr_Evicted :: int

definition key_result :: "CacheKey \<Rightarrow> CacheResult" where
  "key_result key = \<lparr>cr_Key = key, cr_Hit = False, cr_Coalesced = False, cr_ArtifactLoad = 0,
     cr_Compile = 0, cr_Evicted = 0\<rparr>"

record CacheStats =
  st_Hits :: u64
  st_Misses :: u64
  st_Coalesced :: u64
  st_EvictionsCapacity :: u64
  st_EvictionsBytes :: u64
  st_EvictionsEntries :: u64
  st_RejectionsFull :: u64
  st_RejectionsLoadQueue :: u64
  st_CloseErrors :: u64
  st_Entries :: int
  st_CurrentWeight :: int
  st_Inflight :: int

record cache_entry =
  ce_key :: CacheKey
  ce_program :: nat
  ce_weight :: int
  ce_refs :: int

record flight =
  fl_key :: CacheKey
  fl_cancelled :: bool
  fl_waiters :: int
  fl_finished :: bool
  fl_entry :: "nat option"
  fl_result :: CacheResult
  fl_err :: "error option"

text \<open>
  The list \<open>c_lru\<close> has the most recently used entry first. \<open>done\<close> of a flight is closed in the
  section that sets \<open>finished\<close>, so the flag stands for it; \<open>cancel\<close> sets \<open>fl_cancelled\<close>.
\<close>

record Cache =
  c_profile :: WasmProfile
  c_maxWeightBytes :: int
  c_maxEntries :: int
  c_loadGate :: loadGate
  c_entries :: "(CacheKey, nat) fmap"
  c_lru :: "nat list"
  c_flights :: "(CacheKey, nat) fmap"
  c_currentWeight :: int
  c_active :: int
  c_drained :: nat
  c_closing :: bool
  c_releasing :: bool
  c_released :: bool
  c_releaseDone :: nat
  c_closePending :: "nat list"
  c_stats :: CacheStats
  c_entryStore :: "(nat, cache_entry) fmap"
  c_flightStore :: "(nat, flight) fmap"
  c_nextAddress :: nat
  c_nextChannel :: nat
  c_closed :: "nat fset"

record CacheConfig =
  cc_MaxWeightBytes :: int
  cc_MaxEntries :: int
  cc_MaxConcurrentLoads :: int
  cc_MaxQueuedLoads :: int

abbreviation DefaultMaxWeightBytes :: int where "DefaultMaxWeightBytes \<equiv> 10737418240"
abbreviation DefaultMaxEntries :: int where "DefaultMaxEntries \<equiv> 4096"

definition zero_stats :: CacheStats where
  "zero_stats = \<lparr>st_Hits = 0, st_Misses = 0, st_Coalesced = 0, st_EvictionsCapacity = 0,
     st_EvictionsBytes = 0, st_EvictionsEntries = 0, st_RejectionsFull = 0, st_RejectionsLoadQueue = 0,
     st_CloseErrors = 0, st_Entries = 0, st_CurrentWeight = 0, st_Inflight = 0\<rparr>"

definition default_to :: "int \<Rightarrow> int \<Rightarrow> int" where
  "default_to d v = (if v = 0 then d else v)"

definition NewCache :: "CacheConfig \<Rightarrow> WasmProfile \<Rightarrow> error + Cache" where
  "NewCache config profile =
    (let weight = default_to DefaultMaxWeightBytes (cc_MaxWeightBytes config);
         entries = default_to DefaultMaxEntries (cc_MaxEntries config);
         loads = default_to 2 (cc_MaxConcurrentLoads config);
         queued = default_to 64 (cc_MaxQueuedLoads config) in
     if weight < 1 \<or> weight > DefaultMaxWeightBytes
       then Inl (Opaque ''worker cache weight limit is outside v1 bounds'')
     else if entries < 1 \<or> entries > DefaultMaxEntries
       then Inl (Opaque ''worker cache entry limit is outside v1 bounds'')
     else if loads < 1 \<or> loads > 64
       then Inl (Opaque ''worker cache concurrent load limit is outside v1 bounds'')
     else if queued < 1 \<or> queued > 4096
       then Inl (Opaque ''worker cache queued load limit is outside v1 bounds'')
     else case newProfile profile of
         Inl e \<Rightarrow> Inl e
       | Inr p \<Rightarrow> Inr
           \<lparr>c_profile = p, c_maxWeightBytes = weight, c_maxEntries = entries,
            c_loadGate = newLoadGate loads queued, c_entries = fmempty, c_lru = [],
            c_flights = fmempty, c_currentWeight = 0, c_active = 0, c_drained = 0,
            c_closing = False, c_releasing = False, c_released = False, c_releaseDone = 0,
            c_closePending = [], c_stats = zero_stats, c_entryStore = fmempty,
            c_flightStore = fmempty, c_nextAddress = 0, c_nextChannel = 1, c_closed = {|0|}\<rparr>)"

subsection \<open>Counting the work in progress\<close>

definition startLocked :: "Cache \<Rightarrow> Cache" where
  "startLocked c =
    (let c1 = (if c_active c = 0
               then c\<lparr>c_drained := c_nextChannel c, c_nextChannel := Suc (c_nextChannel c)\<rparr> else c)
     in c1\<lparr>c_active := c_active c1 + 1\<rparr>)"

definition endLocked :: "Cache \<Rightarrow> Cache" where
  "endLocked c =
    (let c1 = c\<lparr>c_active := c_active c - 1\<rparr> in
     if c_active c1 = 0 then c1\<lparr>c_closed := finsert (c_drained c1) (c_closed c1)\<rparr> else c1)"

definition begin_work :: "Cache \<Rightarrow> bool \<times> Cache" where
  "begin_work c = (if c_closing c then (False, c) else (True, startLocked c))"

text \<open>Writes through a pointer to an entry or a flight.\<close>

definition upd_entry :: "nat \<Rightarrow> (cache_entry \<Rightarrow> cache_entry) \<Rightarrow> Cache \<Rightarrow> Cache" where
  "upd_entry a g c =
    (case fmlookup (c_entryStore c) a of
       None \<Rightarrow> c
     | Some e \<Rightarrow> c\<lparr>c_entryStore := fmupd a (g e) (c_entryStore c)\<rparr>)"

definition upd_flight :: "nat \<Rightarrow> (flight \<Rightarrow> flight) \<Rightarrow> Cache \<Rightarrow> Cache" where
  "upd_flight a g c =
    (case fmlookup (c_flightStore c) a of
       None \<Rightarrow> c
     | Some fl \<Rightarrow> c\<lparr>c_flightStore := fmupd a (g fl) (c_flightStore c)\<rparr>)"

definition add_refs :: "int \<Rightarrow> cache_entry \<Rightarrow> cache_entry" where
  "add_refs n e = e\<lparr>ce_refs := ce_refs e + n\<rparr>"

definition bump_stats :: "(CacheStats \<Rightarrow> CacheStats) \<Rightarrow> Cache \<Rightarrow> Cache" where
  "bump_stats g c = c\<lparr>c_stats := g (c_stats c)\<rparr>"

subsection \<open>\<open>Acquire\<close>\<close>

text \<open>The checks before the lock, and \<open>begin\<close>.\<close>

definition Acquire_begin ::
  "string \<times> string \<Rightarrow> error option \<Rightarrow> ModuleSpec \<Rightarrow> (error, Cache, CacheKey) operation" where
  "Acquire_begin platform ctxErr spec c =
    check ctxErr c
    (case profile_key platform (c_profile c) spec of
       Inl e \<Rightarrow> (Inl e, c)
     | Inr key \<Rightarrow>
         if mo_ArtifactSize spec > c_maxWeightBytes c then (Inl ErrEntryTooLarge, c)
         else case begin_work c of
             (False, c') \<Rightarrow> (Inl ErrClosed, c')
           | (True, c') \<Rightarrow> (Inr key, c'))"

text \<open>
  The critical section that follows: a hit pins the entry, a running flight is joined, and a miss
  reserves a load and starts a flight.
\<close>

datatype lookup =
    LookupHit nat
  | LookupJoin nat
  | LookupStart nat reservation

definition Acquire_lookup :: "CacheKey \<Rightarrow> (error, Cache, lookup) operation" where
  "Acquire_lookup key c =
    (if c_closing c then (Inl ErrClosed, c)
     else case fmlookup (c_entries c) key of
       Some a \<Rightarrow>
         (Inr (LookupHit a),
          bump_stats (\<lambda>s. s\<lparr>st_Hits := st_Hits s + 1\<rparr>)
            ((upd_entry a (add_refs 1) c)\<lparr>c_lru := a # remove1 a (c_lru c)\<rparr>))
     | None \<Rightarrow>
       (case fmlookup (c_flights c) key of
          Some f \<Rightarrow>
            (Inr (LookupJoin f),
             bump_stats (\<lambda>s. s\<lparr>st_Coalesced := st_Coalesced s + 1\<rparr>)
               (upd_flight f (\<lambda>fl. fl\<lparr>fl_waiters := fl_waiters fl + 1\<rparr>) c))
        | None \<Rightarrow>
            (let c1 = bump_stats (\<lambda>s. s\<lparr>st_Misses := st_Misses s + 1\<rparr>) c in
             case gate_reserve (c_loadGate c) of
               (Inl e, g) \<Rightarrow>
                 (Inl e, bump_stats (\<lambda>s. s\<lparr>st_RejectionsLoadQueue := st_RejectionsLoadQueue s + 1\<rparr>)
                           (c1\<lparr>c_loadGate := g\<rparr>))
             | (Inr r, g) \<Rightarrow>
                 (let f = c_nextAddress c in
                  (Inr (LookupStart f r), startLocked
                     (c1\<lparr>c_loadGate := g, c_nextAddress := Suc f,
                         c_flights := fmupd key f (c_flights c),
                         c_flightStore := fmupd f
                           \<lparr>fl_key = key, fl_cancelled = False, fl_waiters = 1, fl_finished = False,
                            fl_entry = None, fl_result = key_result key, fl_err = None\<rparr>
                           (c_flightStore c)\<rparr>))))))"

text \<open>
  \<open>awaitFlight\<close> after \<open>done\<close> is closed and the context is not: what it reads under the lock.
\<close>

definition awaitFlight_done :: "nat \<Rightarrow> bool \<Rightarrow> Cache \<Rightarrow> ((error + nat) \<times> CacheResult) option" where
  "awaitFlight_done f coalesced c =
    (case fmlookup (c_flightStore c) f of
       None \<Rightarrow> None
     | Some fl \<Rightarrow>
         if \<not> fl_finished fl then None
         else let result = (fl_result fl)\<lparr>cr_Coalesced := coalesced\<rparr> in
           (case (fl_err fl, fl_entry fl) of
              (Some e, _) \<Rightarrow> Some (Inl e, result)
            | (None, Some a) \<Rightarrow> Some (Inr a, result)
            | (None, None) \<Rightarrow> None))"

definition abandonFlight :: "nat \<Rightarrow> Cache \<Rightarrow> Cache" where
  "abandonFlight f c =
    (case fmlookup (c_flightStore c) f of
       None \<Rightarrow> c
     | Some fl \<Rightarrow>
         if fl_waiters fl = 0 then c
         else let w = fl_waiters fl - 1;
                  c1 = upd_flight f (\<lambda>fl. fl\<lparr>fl_waiters := w,
                         fl_cancelled := fl_cancelled fl \<or> (\<not> fl_finished fl \<and> w = 0)\<rparr>) c in
           (case fl_entry fl of
              Some a \<Rightarrow> if fl_finished fl then upd_entry a (add_refs (- 1)) c1 else c1
            | None \<Rightarrow> c1))"

subsection \<open>Loading\<close>

text \<open>
  The loop of \<open>selectVictimsLocked\<close>, from the least recently used entry on. Every address of
  the list is an entry of the store.
\<close>

fun victims_loop ::
  "Cache \<Rightarrow> int \<Rightarrow> int \<Rightarrow> int \<Rightarrow> nat list \<Rightarrow> (nat \<times> EvictionReason) list \<Rightarrow>
   int \<times> int \<times> (nat \<times> EvictionReason) list" where
  "victims_loop c weight remainingWeight remainingEntries [] victims =
     (remainingWeight, remainingEntries, victims)"
| "victims_loop c weight remainingWeight remainingEntries (a # as) victims =
    (let overBytes = remainingWeight + weight > c_maxWeightBytes c;
         overEntries = remainingEntries + 1 > c_maxEntries c in
     if \<not> overBytes \<and> \<not> overEntries then (remainingWeight, remainingEntries, victims)
     else case fmlookup (c_entryStore c) a of
         None \<Rightarrow> victims_loop c weight remainingWeight remainingEntries as victims
       | Some candidate \<Rightarrow>
           if ce_refs candidate \<noteq> 0
             then victims_loop c weight remainingWeight remainingEntries as victims
           else victims_loop c weight (remainingWeight - ce_weight candidate) (remainingEntries - 1) as
                  (victims @ [(a, if overBytes then EvictionCapacityBytes else EvictionCapacityEntries)]))"

definition selectVictimsLocked :: "int \<Rightarrow> Cache \<Rightarrow> error + (nat \<times> EvictionReason) list" where
  "selectVictimsLocked weight c =
    (case victims_loop c weight (c_currentWeight c) (int (map_len (c_entries c))) (rev (c_lru c)) [] of
       (remainingWeight, remainingEntries, victims) \<Rightarrow>
         if remainingWeight + weight > c_maxWeightBytes c \<or> remainingEntries + 1 > c_maxEntries c
           then Inl ErrFull
         else Inr victims)"

text \<open>The body of the loop over the victims; the programs are collected for closing.\<close>

definition evict :: "nat \<times> EvictionReason \<Rightarrow> nat list \<times> Cache \<Rightarrow> nat list \<times> Cache" where
  "evict victim st =
    (case (victim, st) of ((a, reason), (programs, c)) \<Rightarrow>
       (case fmlookup (c_entryStore c) a of
          None \<Rightarrow> st
        | Some e \<Rightarrow>
            (programs @ [ce_program e],
             bump_stats (\<lambda>s. case reason of
                 EvictionCapacityBytes \<Rightarrow> s\<lparr>st_EvictionsBytes := st_EvictionsBytes s + 1\<rparr>
               | EvictionCapacityEntries \<Rightarrow> s\<lparr>st_EvictionsEntries := st_EvictionsEntries s + 1\<rparr>)
             (c\<lparr>c_entries := fmdrop (ce_key e) (c_entries c), c_lru := remove1 a (c_lru c),
                c_currentWeight := c_currentWeight c - ce_weight e\<rparr>))))"

definition insert_entry :: "CacheKey \<Rightarrow> int \<Rightarrow> nat \<Rightarrow> int \<Rightarrow> Cache \<Rightarrow> Cache" where
  "insert_entry key weight program refs c =
    (let a = c_nextAddress c in
     c\<lparr>c_nextAddress := Suc a,
       c_entryStore := fmupd a
         \<lparr>ce_key = key, ce_program = program, ce_weight = weight, ce_refs = refs\<rparr> (c_entryStore c),
       c_lru := a # c_lru c, c_entries := fmupd key a (c_entries c),
       c_currentWeight := c_currentWeight c + weight\<rparr>)"

text \<open>
  The critical section of \<open>completeFlight\<close>, with the programs to close after it. A load gives a
  program or an error, never both.
\<close>

definition finish_flight ::
  "nat \<Rightarrow> CacheResult \<Rightarrow> error option \<Rightarrow> nat option \<Rightarrow> int \<Rightarrow> Cache \<Rightarrow> Cache" where
  "finish_flight f result err entry evicted c = upd_flight f (\<lambda>fl. fl
    \<lparr>fl_result := result\<lparr>cr_Evicted := evicted\<rparr>, fl_err := err, fl_entry := entry,
     fl_finished := True, fl_cancelled := True\<rparr>) c"

definition completeFlight ::
  "CacheKey \<Rightarrow> int \<Rightarrow> error + nat \<Rightarrow> CacheResult \<Rightarrow> nat \<Rightarrow> Cache \<Rightarrow> nat list \<times> Cache" where
  "completeFlight key weight load result f c =
    (let c0 = c\<lparr>c_flights := fmdrop key (c_flights c)\<rparr>;
         loaded = (case load of Inl _ \<Rightarrow> [] | Inr p \<Rightarrow> [p]);
         waiters = (case fmlookup (c_flightStore c) f of None \<Rightarrow> 0 | Some fl \<Rightarrow> fl_waiters fl);
         failed = (\<lambda>e c1. (loaded, finish_flight f result (Some e) None (cr_Evicted result) c1)) in
     if c_closing c then failed ErrClosed c0
     else case load of
         Inl e \<Rightarrow> failed e c0
       | Inr program \<Rightarrow>
           if waiters = 0 then failed context_Canceled c0
           else (case selectVictimsLocked weight c0 of
               Inl e \<Rightarrow> failed e (bump_stats (\<lambda>s. s\<lparr>st_RejectionsFull := st_RejectionsFull s + 1\<rparr>) c0)
             | Inr victims \<Rightarrow>
                 (case fold evict victims ([], c0) of (programs, c1) \<Rightarrow>
                    (let c2 = bump_stats (\<lambda>s. s\<lparr>st_EvictionsCapacity :=
                                st_EvictionsCapacity s + of_nat (length victims)\<rparr>) c1 in
                     (programs,
                      finish_flight f result None (Some (c_nextAddress c2)) (int (length victims))
                        (insert_entry key weight program waiters c2))))))"

definition cancelFlightsLocked :: "Cache \<Rightarrow> Cache" where
  "cancelFlightsLocked c = c\<lparr>c_flightStore :=
     fmmap_keys (\<lambda>f fl. if f |\<in>| fmran (c_flights c) then fl\<lparr>fl_cancelled := True\<rparr> else fl) (c_flightStore c)\<rparr>"

text \<open>The critical section of \<open>closeEvicted\<close>, entered only where some program did not close.\<close>

definition closeEvicted_failed :: "nat list \<Rightarrow> Cache \<Rightarrow> Cache" where
  "closeEvicted_failed failed c =
    (if failed = [] then c
     else cancelFlightsLocked (bump_stats
       (\<lambda>s. s\<lparr>st_CloseErrors := st_CloseErrors s + of_nat (length failed)\<rparr>)
       (c\<lparr>c_closePending := c_closePending c @ failed, c_closing := True\<rparr>)))"

subsection \<open>Releasing and closing\<close>

definition Lease_Release :: "nat \<Rightarrow> Cache \<Rightarrow> Cache" where
  "Lease_Release a c = endLocked (upd_entry a (add_refs (- 1)) c)"

definition Snapshot_of_cache :: "Cache \<Rightarrow> CacheStats" where
  "Snapshot_of_cache c = (c_stats c)
    \<lparr>st_Entries := int (map_len (c_entries c)), st_CurrentWeight := c_currentWeight c,
     st_Inflight := int (map_len (c_flights c))\<rparr>"

text \<open>
  The first critical section of the loop in \<open>Close\<close> and where it goes: it is done, it waits for
  another caller that is releasing and starts over, or it waits for the channel \<open>drained\<close>.
\<close>

datatype close_next = CloseDone | CloseAwaitRelease nat | CloseAwaitDrained nat

definition Close_enter :: "Cache \<Rightarrow> close_next \<times> Cache" where
  "Close_enter c =
    (if c_released c then (CloseDone, c)
     else let c1 = (if c_closing c then c else cancelFlightsLocked (c\<lparr>c_closing := True\<rparr>)) in
       if c_releasing c1 then (CloseAwaitRelease (c_releaseDone c1), c1)
       else (CloseAwaitDrained (c_drained c1), c1))"

text \<open>
  The second one, once the channel is closed and nobody else is releasing. \<open>order\<close> is the order
  in which the range over the map \<open>entries\<close> visits its keys, which the language leaves open.
\<close>

definition visits :: "'k list \<Rightarrow> ('k, 'v) fmap \<Rightarrow> bool" where
  "visits order m \<longleftrightarrow> distinct order \<and> set order = {k. fmlookup m k \<noteq> None}"

definition detachProgramsLocked :: "CacheKey list \<Rightarrow> Cache \<Rightarrow> nat list \<times> Cache" where
  "detachProgramsLocked order c =
    (List.map_filter (\<lambda>k. case fmlookup (c_entries c) k of None \<Rightarrow> None
        | Some a \<Rightarrow> map_option ce_program (fmlookup (c_entryStore c) a)) order,
     c\<lparr>c_entries := fmempty, c_lru := [], c_currentWeight := 0\<rparr>)"

definition Close_detach :: "CacheKey list \<Rightarrow> Cache \<Rightarrow> nat list \<times> Cache" where
  "Close_detach order c =
    (case detachProgramsLocked order c of (programs, c1) \<Rightarrow>
       (programs @ c_closePending c1,
        c1\<lparr>c_closePending := [], c_releasing := True, c_releaseDone := c_nextChannel c1,
           c_nextChannel := Suc (c_nextChannel c1)\<rparr>))"

definition Close_finish :: "nat list \<Rightarrow> nat \<Rightarrow> Cache \<Rightarrow> Cache" where
  "Close_finish failed done_channel c =
    (let c1 = c\<lparr>c_closePending := failed, c_releasing := False\<rparr>;
         c2 = (if failed = [] then c1\<lparr>c_released := True\<rparr>
               else bump_stats (\<lambda>s. s\<lparr>st_CloseErrors := st_CloseErrors s + of_nat (length failed)\<rparr>) c1) in
     c2\<lparr>c_closed := finsert done_channel (c_closed c2)\<rparr>)"

subsection \<open>\<open>loadAndCompile\<close>\<close>

text \<open>
  The artifact store and the compiler are other components. \<open>source n\<close> is what the \<open>n\<close>-th
  \<open>OpenVerified\<close> returns: a file or nil, the metadata, and an error or nil. A file is the bytes that
  reading it yields, the error that ends the reading in place of the end of the file (also a
  cancelled context, which \<open>contextReader\<close> checks), and what closing it returns. \<open>compile\<close> is what
  \<open>Compile\<close> returns for the bytes: a program or nil, an error or nil, and the time. \<open>close\<close> is what
  closing a program returns. \<open>ErrCorrupt\<close> is compared with \<^verbatim>\<open>errors.Is\<close>.
\<close>

record ArtifactInfo =
  ai_Digest :: SHA256
  ai_Size :: int

record artifact_file =
  af_contents :: string
  af_readErr :: "error option"
  af_closeErr :: "error option"

type_synonym artifact_source = "nat \<Rightarrow> artifact_file option \<times> ArtifactInfo \<times> error option"

definition ErrCorrupt :: error where
  "ErrCorrupt = Opaque ''artifact content is corrupt''"

fun errors_Is :: "error \<Rightarrow> error \<Rightarrow> bool" where
  "errors_Is (Wrapped context e) target = (Wrapped context e = target \<or> errors_Is e target)"
| "errors_Is (Joined es) target = (Joined es = target \<or> list_ex (\<lambda>e. errors_Is e target) es)"
| "errors_Is e target = (e = target)"

text \<open>\<^verbatim>\<open>io.ReadAll\<close> of \<^verbatim>\<open>io.LimitReader\<close>: once the limit is reached the source is not read again.\<close>

definition read_limited :: "artifact_file \<Rightarrow> int \<Rightarrow> string \<times> error option" where
  "read_limited file limit =
    (if limit \<le> int (length (af_contents file)) then (take (nat limit) (af_contents file), None)
     else (af_contents file, af_readErr file))"

definition readVerifiedArtifact :: "artifact_source \<Rightarrow> nat \<Rightarrow> ModuleSpec \<Rightarrow> error + string" where
  "readVerifiedArtifact source n spec =
    (case source n of
       (None, info, Some e) \<Rightarrow> Inl e
     | (Some file, info, Some e) \<Rightarrow> Inl (the (errors_Join [Some e, af_closeErr file]))
     | (None, info, None) \<Rightarrow> Inl (Opaque ''worker cache artifact source returned no file'')
     | (Some file, info, None) \<Rightarrow>
         (case read_limited file (mo_ArtifactSize spec + 1) of
            (wasm, readErr) \<Rightarrow>
              (case errors_Join [readErr, af_closeErr file] of
                 Some e \<Rightarrow> Inl e
               | None \<Rightarrow>
                   (let metadataMatches =
                          ai_Digest info = mo_ArtifactDigest spec \<and> ai_Size info = mo_ArtifactSize spec;
                        bytesMatch =
                          int (length wasm) = mo_ArtifactSize spec \<and> Sum wasm = mo_ArtifactDigest spec in
                    if \<not> metadataMatches \<or> \<not> bytesMatch then Inl ErrCorrupt else Inr wasm))))"

definition read_with_retry :: "artifact_source \<Rightarrow> ModuleSpec \<Rightarrow> error + string" where
  "read_with_retry source spec =
    (case readVerifiedArtifact source 0 spec of
       Inl e \<Rightarrow> if errors_Is e ErrCorrupt then readVerifiedArtifact source 1 spec else Inl e
     | Inr wasm \<Rightarrow> Inr wasm)"

text \<open>
  A program that \<open>Compile\<close> returns together with an error is closed here, once: the third component
  is that program and what closing it returned, which is joined to the error.
\<close>

definition loadAndCompile ::
  "artifact_source \<Rightarrow> (string \<Rightarrow> nat option \<times> duration \<times> error option) \<Rightarrow> (nat \<Rightarrow> error option) \<Rightarrow> duration \<Rightarrow>
   CacheKey \<Rightarrow> ModuleSpec \<Rightarrow> (error + nat) \<times> CacheResult \<times> (nat \<times> error option) option" where
  "loadAndCompile source compile close loadTime key spec =
    (let result = (key_result key)\<lparr>cr_ArtifactLoad := loadTime\<rparr> in
     case read_with_retry source spec of
       Inl e \<Rightarrow> (Inl e, result, None)
     | Inr wasm \<Rightarrow>
         (case compile wasm of
            (program, t, err) \<Rightarrow>
              (let result = result\<lparr>cr_Compile := t\<rparr> in
               case (program, err) of
                 (Some p, Some e) \<Rightarrow> (Inl (the (errors_Join [Some e, close p])), result, Some (p, close p))
               | (None, Some e) \<Rightarrow> (Inl e, result, None)
               | (None, None) \<Rightarrow> (Inl (Opaque ''worker cache compiler returned no program''), result, None)
               | (Some p, None) \<Rightarrow> (Inr p, result, None))))"

subsection \<open>The goroutines\<close>

text \<open>
  Where a goroutine stands between two critical sections. A lease counts the invocations that
  hold its read lock; \<open>Release\<close> takes the write lock, so it waits for them.
\<close>

datatype thread =
    ThBegun CacheKey ModuleSpec
  | ThAwait nat bool
  | ThLease nat nat
  | ThFlight nat ModuleSpec reservation
  | ThAdmitted nat ModuleSpec
  | ThEvicted "nat list" reservation
  | ThUnload reservation
  | ThEnd
  | ThClose nat
  | ThRelease "nat list" nat

text \<open>
  The whole system: the cache, its goroutines, and a history of the programs: how many were compiled
  (they are numbered in that order), which of them were closed, which came together with an error
  of the compiler, and which of those were given up because closing them failed too.
\<close>

record world =
  w_cache :: Cache
  w_threads :: "thread multiset"
  w_compiled :: nat
  w_closed :: "nat list"
  w_faulted :: "nat list"
  w_lost :: "nat list"

abbreviation move :: "world \<Rightarrow> Cache \<Rightarrow> thread multiset \<Rightarrow> world" where
  "move w c ths \<equiv> w\<lparr>w_cache := c, w_threads := ths\<rparr>"

text \<open>What the history records of a load.\<close>

definition record_load :: "error + nat \<Rightarrow> (nat \<times> error option) option \<Rightarrow> world \<Rightarrow> world" where
  "record_load load discarded w =
    (case discarded of
       None \<Rightarrow> w\<lparr>w_compiled := (case load of Inl _ \<Rightarrow> w_compiled w | Inr _ \<Rightarrow> Suc (w_compiled w))\<rparr>
     | Some (p, closeErr) \<Rightarrow>
         w\<lparr>w_compiled := Suc (w_compiled w), w_faulted := w_faulted w @ [p],
           w_closed := (if closeErr = None then w_closed w @ [p] else w_closed w),
           w_lost := (if closeErr = None then w_lost w else w_lost w @ [p])\<rparr>)"

text \<open>\<open>Acquire\<close> and \<open>awaitFlight\<close>; the deferred \<open>end\<close> is also the last step of a flight.\<close>

inductive acquire_step :: "string \<times> string \<Rightarrow> world \<Rightarrow> world \<Rightarrow> bool" for platform where
  step_begin:
    "Acquire_begin platform ctxErr spec (w_cache w) = (Inr key, c) \<Longrightarrow>
     acquire_step platform w (move w c (add_mset (ThBegun key spec) (w_threads w)))"
| step_refused:
    "w_threads w = add_mset (ThBegun key spec) ths \<Longrightarrow>
     Acquire_lookup key (w_cache w) = (Inl e, c) \<Longrightarrow>
     acquire_step platform w (move w c (add_mset ThEnd ths))"
| step_hit:
    "w_threads w = add_mset (ThBegun key spec) ths \<Longrightarrow>
     Acquire_lookup key (w_cache w) = (Inr (LookupHit a), c) \<Longrightarrow>
     acquire_step platform w (move w c (add_mset (ThLease a 0) ths))"
| step_join:
    "w_threads w = add_mset (ThBegun key spec) ths \<Longrightarrow>
     Acquire_lookup key (w_cache w) = (Inr (LookupJoin f), c) \<Longrightarrow>
     acquire_step platform w (move w c (add_mset (ThAwait f True) ths))"
| step_start:
    "w_threads w = add_mset (ThBegun key spec) ths \<Longrightarrow>
     Acquire_lookup key (w_cache w) = (Inr (LookupStart f r), c) \<Longrightarrow>
     acquire_step platform w (move w c (add_mset (ThFlight f spec r) (add_mset (ThAwait f False) ths)))"
| step_served:
    "w_threads w = add_mset (ThAwait f coalesced) ths \<Longrightarrow>
     awaitFlight_done f coalesced (w_cache w) = Some (Inr a, result) \<Longrightarrow>
     acquire_step platform w (w\<lparr>w_threads := add_mset (ThLease a 0) ths\<rparr>)"
| step_failed:
    "w_threads w = add_mset (ThAwait f coalesced) ths \<Longrightarrow>
     awaitFlight_done f coalesced (w_cache w) = Some (Inl e, result) \<Longrightarrow>
     acquire_step platform w (w\<lparr>w_threads := add_mset ThEnd ths\<rparr>)"
| step_abandon:
    "w_threads w = add_mset (ThAwait f coalesced) ths \<Longrightarrow>
     acquire_step platform w (move w (abandonFlight f (w_cache w)) (add_mset ThEnd ths))"
| step_end:
    "w_threads w = add_mset ThEnd ths \<Longrightarrow>
     acquire_step platform w (move w (endLocked (w_cache w)) ths)"

text \<open>\<open>runFlight\<close>, the goroutine of one load.\<close>

inductive flight_step :: "world \<Rightarrow> world \<Rightarrow> bool" where
  step_admitted:
    "w_threads w = add_mset (ThFlight f spec ReservedQueue) ths \<Longrightarrow>
     has_room (lg_active (c_loadGate (w_cache w))) \<Longrightarrow>
     flight_step w (move w
       ((w_cache w)\<lparr>c_loadGate := wait_admitted (c_loadGate (w_cache w))\<rparr>)
       (add_mset (ThAdmitted f spec) ths))"
| step_dequeued:
    "w_threads w = add_mset (ThAdmitted f spec) ths \<Longrightarrow>
     flight_step w (move w
       ((w_cache w)\<lparr>c_loadGate := wait_dequeued (c_loadGate (w_cache w))\<rparr>)
       (add_mset (ThFlight f spec ReservedActive) ths))"
| step_unqueued:
    "w_threads w = add_mset (ThFlight f spec ReservedQueue) ths \<Longrightarrow>
     fmlookup (c_flightStore (w_cache w)) f = Some fl \<Longrightarrow> fl_cancelled fl \<Longrightarrow>
     flight_step w (move w
       ((w_cache w)\<lparr>c_loadGate := wait_cancelled (c_loadGate (w_cache w))\<rparr>)
       (add_mset (ThFlight f spec ReservedNone) ths))"
| step_unloaded:
    "w_threads w = add_mset (ThFlight f spec ReservedNone) ths \<Longrightarrow>
     fmlookup (c_flightStore (w_cache w)) f = Some fl \<Longrightarrow>
     completeFlight (fl_key fl) (mo_ArtifactSize spec) (Inl context_Canceled) (key_result (fl_key fl)) f
       (w_cache w) = (programs, c) \<Longrightarrow>
     flight_step w (move w c (add_mset (ThEvicted programs ReservedNone) ths))"
| step_loaded:
    "w_threads w = add_mset (ThFlight f spec ReservedActive) ths \<Longrightarrow>
     fmlookup (c_flightStore (w_cache w)) f = Some fl \<Longrightarrow>
     (\<forall>wasm p. fst (compile wasm) = Some p \<longrightarrow> p = w_compiled w) \<Longrightarrow>
     loadAndCompile source compile close loadTime (fl_key fl) spec = (load, result, discarded) \<Longrightarrow>
     completeFlight (fl_key fl) (mo_ArtifactSize spec) load result f (w_cache w) = (programs, c) \<Longrightarrow>
     flight_step w
       (record_load load discarded (move w c (add_mset (ThEvicted programs ReservedActive) ths)))"
| step_evicted:
    "w_threads w = add_mset (ThEvicted programs r) ths \<Longrightarrow>
     flight_step w
       ((move w (closeEvicted_failed (filter bad programs) (w_cache w)) (add_mset (ThUnload r) ths))
         \<lparr>w_closed := w_closed w @ filter (\<lambda>p. \<not> bad p) programs\<rparr>)"
| step_unload:
    "w_threads w = add_mset (ThUnload r) ths \<Longrightarrow>
     flight_step w (move w
       ((w_cache w)\<lparr>c_loadGate := reservation_release r (c_loadGate (w_cache w))\<rparr>) (add_mset ThEnd ths))"

text \<open>The owner of a lease: an invocation begins and returns, and \<open>Release\<close>.\<close>

inductive lease_step :: "world \<Rightarrow> world \<Rightarrow> bool" where
  step_invoke:
    "w_threads w = add_mset (ThLease a n) ths \<Longrightarrow>
     lease_step w (w\<lparr>w_threads := add_mset (ThLease a (Suc n)) ths\<rparr>)"
| step_returned:
    "w_threads w = add_mset (ThLease a (Suc n)) ths \<Longrightarrow>
     lease_step w (w\<lparr>w_threads := add_mset (ThLease a n) ths\<rparr>)"
| step_release:
    "w_threads w = add_mset (ThLease a 0) ths \<Longrightarrow>
     lease_step w (move w (Lease_Release a (w_cache w)) ths)"

text \<open>\<open>Close\<close>.\<close>

inductive close_step :: "world \<Rightarrow> world \<Rightarrow> bool" where
  step_close:
    "Close_enter (w_cache w) = (CloseAwaitDrained ch, c) \<Longrightarrow>
     close_step w (move w c (add_mset (ThClose ch) (w_threads w)))"
| step_close_waits:
    "Close_enter (w_cache w) = (next, c) \<Longrightarrow> next = CloseDone \<or> next = CloseAwaitRelease ch \<Longrightarrow>
     close_step w (w\<lparr>w_cache := c\<rparr>)"
| step_close_leaves:
    "w_threads w = add_mset (ThClose ch) ths \<Longrightarrow>
     close_step w (w\<lparr>w_threads := ths\<rparr>)"
| step_detach:
    "w_threads w = add_mset (ThClose ch) ths \<Longrightarrow> ch |\<in>| c_closed (w_cache w) \<Longrightarrow>
     \<not> c_releasing (w_cache w) \<Longrightarrow> visits order (c_entries (w_cache w)) \<Longrightarrow>
     Close_detach order (w_cache w) = (programs, c) \<Longrightarrow>
     close_step w (move w c (add_mset (ThRelease programs (c_releaseDone c)) ths))"
| step_closed:
    "w_threads w = add_mset (ThRelease programs ch) ths \<Longrightarrow>
     close_step w
       ((move w (Close_finish (filter bad programs) ch (w_cache w)) ths)
         \<lparr>w_closed := w_closed w @ filter (\<lambda>p. \<not> bad p) programs\<rparr>)"

text \<open>All goroutines, in any order.\<close>

inductive cache_step :: "string \<times> string \<Rightarrow> world \<Rightarrow> world \<Rightarrow> bool" for platform where
  by_acquire: "acquire_step platform w w' \<Longrightarrow> cache_step platform w w'"
| by_flight: "flight_step w w' \<Longrightarrow> cache_step platform w w'"
| by_lease: "lease_step w w' \<Longrightarrow> cache_step platform w w'"
| by_close: "close_step w w' \<Longrightarrow> cache_step platform w w'"

inductive cache_reachable :: "string \<times> string \<Rightarrow> world \<Rightarrow> bool" for platform where
  reachable_new:
    "NewCache config profile = Inr c \<Longrightarrow>
     cache_reachable platform \<lparr>w_cache = c, w_threads = {#}, w_compiled = 0, w_closed = [], w_faulted = [], w_lost = []\<rparr>"
| reachable_step:
    "cache_reachable platform w \<Longrightarrow> cache_step platform w w' \<Longrightarrow> cache_reachable platform w'"

section \<open>Properties\<close>

subsection \<open>Entries\<close>

definition program_of :: "Cache \<Rightarrow> nat \<Rightarrow> nat" where
  "program_of c a = (case fmlookup (c_entryStore c) a of None \<Rightarrow> 0 | Some e \<Rightarrow> ce_program e)"

definition weight_of :: "Cache \<Rightarrow> nat \<Rightarrow> int" where
  "weight_of c a = (case fmlookup (c_entryStore c) a of None \<Rightarrow> 0 | Some e \<Rightarrow> ce_weight e)"

text \<open>The map, the list and the weight describe the same set of entries.\<close>

definition entries_agree :: "Cache \<Rightarrow> bool" where
  "entries_agree c \<longleftrightarrow>
     (\<forall>k a. fmlookup (c_entries c) k = Some a \<longrightarrow> (\<exists>e. fmlookup (c_entryStore c) a = Some e \<and> ce_key e = k))
     \<and> distinct (c_lru c) \<and> set (c_lru c) = {a. \<exists>k. fmlookup (c_entries c) k = Some a}
     \<and> c_currentWeight c = sum_list (map (weight_of c) (c_lru c))
     \<and> (\<forall>a. fmlookup (c_entryStore c) a \<noteq> None \<longrightarrow> a < c_nextAddress c)"

definition within_limits :: "Cache \<Rightarrow> bool" where
  "within_limits c \<longleftrightarrow> c_currentWeight c \<le> c_maxWeightBytes c \<and> int (length (c_lru c)) \<le> c_maxEntries c
     \<and> 0 \<le> c_maxWeightBytes c \<and> 0 \<le> c_maxEntries c"

lemma lru_entry:
  assumes "entries_agree c" and "a \<in> set (c_lru c)"
  obtains e where "fmlookup (c_entryStore c) a = Some e" and "fmlookup (c_entries c) (ce_key e) = Some a"
  using assms unfolding entries_agree_def by blast

lemma entries_inj:
  "entries_agree c \<Longrightarrow> fmlookup (c_entries c) k = Some a \<Longrightarrow> fmlookup (c_entries c) l = Some a \<Longrightarrow> k = l"
  unfolding entries_agree_def by (metis option.inject)

lemma length_lru: "entries_agree c \<Longrightarrow> map_len (c_entries c) = length (c_lru c)"
proof -
  assume c: "entries_agree c"
  let ?D = "{k. fmlookup (c_entries c) k \<noteq> None}" and ?g = "\<lambda>k. the (fmlookup (c_entries c) k)"
  have "inj_on ?g ?D" using entries_inj [OF c] by (intro inj_onI) auto
  moreover have "?g ` ?D = {a. \<exists>k. fmlookup (c_entries c) k = Some a}" by (force simp: image_iff)
  then have "?g ` ?D = set (c_lru c)" using c by (simp add: entries_agree_def)
  ultimately have "card ?D = card (set (c_lru c))" using card_image by metis
  also have "\<dots> = length (c_lru c)" using c unfolding entries_agree_def by (blast intro: distinct_card)
  finally show ?thesis by (simp only: map_len_card)
qed

text \<open>Eviction touches the map, the list, the weight and the statistics only.\<close>

definition only_entries :: "Cache \<Rightarrow> Cache \<Rightarrow> bool" where
  "only_entries c c' \<longleftrightarrow> c' = c\<lparr>c_entries := c_entries c', c_lru := c_lru c',
     c_currentWeight := c_currentWeight c', c_stats := c_stats c'\<rparr>"

lemma only_entriesD:
  assumes "only_entries c c'"
  shows "c_entryStore c' = c_entryStore c" "c_nextAddress c' = c_nextAddress c"
    "c_flights c' = c_flights c" "c_flightStore c' = c_flightStore c" "c_loadGate c' = c_loadGate c"
    "c_active c' = c_active c" "c_drained c' = c_drained c" "c_closing c' = c_closing c"
    "c_releasing c' = c_releasing c" "c_released c' = c_released c" "c_closePending c' = c_closePending c"
    "c_nextChannel c' = c_nextChannel c" "c_closed c' = c_closed c"
    "c_maxWeightBytes c' = c_maxWeightBytes c" "c_maxEntries c' = c_maxEntries c"
    "c_releaseDone c' = c_releaseDone c"
    "weight_of c' = weight_of c" "program_of c' = program_of c"
  by (subst assms [unfolded only_entries_def], simp add: weight_of_def program_of_def fun_eq_iff)+

lemma only_entries_refl: "only_entries c c"
  by (simp add: only_entries_def)

lemma only_entries_trans: "only_entries a b \<Longrightarrow> only_entries b c \<Longrightarrow> only_entries a c"
  unfolding only_entries_def by (cases a, cases b, cases c) simp

lemma evict_one:
  assumes agree: "entries_agree c" and a: "a \<in> set (c_lru c)"
  shows "\<exists>c'. evict (a, r) (programs, c) = (programs @ [program_of c a], c') \<and> only_entries c c'
    \<and> entries_agree c' \<and> c_lru c' = remove1 a (c_lru c) \<and> c_currentWeight c' = c_currentWeight c - weight_of c a
    \<and> (\<forall>k. fmlookup (c_entries c') k = (if fmlookup (c_entries c) k = Some a then None else fmlookup (c_entries c) k))"
proof -
  obtain e where e: "fmlookup (c_entryStore c) a = Some e" "fmlookup (c_entries c) (ce_key e) = Some a"
    by (rule lru_entry [OF agree a])
  let ?c = "snd (evict (a, r) (programs, c))"
  have fields: "evict (a, r) (programs, c) = (programs @ [program_of c a], ?c)" "only_entries c ?c"
    "c_lru ?c = remove1 a (c_lru c)" "c_currentWeight ?c = c_currentWeight c - weight_of c a"
    "c_entries ?c = fmdrop (ce_key e) (c_entries c)"
    using e by (simp_all add: evict_def bump_stats_def program_of_def weight_of_def only_entries_def)
  have look: "fmlookup (c_entries ?c) k = (if fmlookup (c_entries c) k = Some a then None else fmlookup (c_entries c) k)" for k
    using e(2) entries_inj [OF agree] by (auto simp: fields(5))
  have some: "fmlookup (c_entries ?c) k = Some b \<longleftrightarrow> fmlookup (c_entries c) k = Some b \<and> b \<noteq> a" for k b
    by (auto simp: look)
  have "entries_agree ?c"
    using agree a unfolding entries_agree_def fields(3,4) only_entriesD [OF fields(2)] some
    by (auto simp: sum_list_map_remove1 [of a "c_lru c"])
  then show ?thesis using fields look by blast
qed

lemma evict_all:
  assumes "entries_agree c" and "distinct (map fst victims)" and "set (map fst victims) \<subseteq> set (c_lru c)"
  shows "\<exists>c'. fold evict victims (programs, c) = (programs @ map (program_of c) (map fst victims), c') \<and> only_entries c c'
    \<and> entries_agree c' \<and> c_lru c' = filter (\<lambda>a. a \<notin> set (map fst victims)) (c_lru c)
    \<and> c_currentWeight c' = c_currentWeight c - sum_list (map (weight_of c) (map fst victims))
    \<and> (\<forall>k. fmlookup (c_entries c') k = (case fmlookup (c_entries c) k of None \<Rightarrow> None
          | Some a \<Rightarrow> if a \<in> set (map fst victims) then None else Some a))"
  using assms
proof (induction victims arbitrary: c programs)
  case Nil
  then show ?case by (auto simp: only_entries_refl split: option.splits)
next
  case (Cons v vs)
  obtain a r where v: "v = (a, r)" by (cases v)
  obtain c1 where c1: "evict (a, r) (programs, c) = (programs @ [program_of c a], c1)" "only_entries c c1"
      "entries_agree c1" "c_lru c1 = remove1 a (c_lru c)" "c_currentWeight c1 = c_currentWeight c - weight_of c a"
      "\<forall>k. fmlookup (c_entries c1) k = (if fmlookup (c_entries c) k = Some a then None else fmlookup (c_entries c) k)"
    using evict_one [OF Cons.prems(1), of a r programs] Cons.prems(3) v by auto
  have lru: "distinct (c_lru c)" using Cons.prems(1) by (simp add: entries_agree_def)
  have sub: "set (map fst vs) \<subseteq> set (c_lru c1)" using Cons.prems(2,3) c1(4) lru v by auto
  have dist: "distinct (map fst vs)" using Cons.prems(2) by simp
  obtain c2 where "fold evict vs (programs @ [program_of c a], c1) = ((programs @ [program_of c a]) @ map (program_of c1) (map fst vs), c2)"
      "only_entries c1 c2" "entries_agree c2" "c_lru c2 = filter (\<lambda>a. a \<notin> set (map fst vs)) (c_lru c1)"
      "c_currentWeight c2 = c_currentWeight c1 - sum_list (map (weight_of c1) (map fst vs))"
      "\<forall>k. fmlookup (c_entries c2) k = (case fmlookup (c_entries c1) k of None \<Rightarrow> None
          | Some a \<Rightarrow> if a \<in> set (map fst vs) then None else Some a)"
    using Cons.IH [OF c1(3) dist sub, of "programs @ [program_of c a]"] by blast
  moreover have "filter (\<lambda>x. x \<notin> set (map fst vs)) (remove1 a (c_lru c)) = filter (\<lambda>x. x \<notin> set (map fst (v # vs))) (c_lru c)"
    using lru v by (simp add: distinct_remove1_removeAll removeAll_filter_not_eq filter_filter conj_commute eq_commute)
  ultimately show ?case
    using c1 v only_entriesD(17,18) [OF c1(2)] only_entries_trans [OF c1(2)]
    by (auto split: option.splits)
qed

lemma victims_loop_spec:
  assumes "victims_loop c weight rw re as vs = (rw', re', vs')" and "distinct as"
  shows "\<exists>new. vs' = vs @ new \<and> distinct (map fst new) \<and> set (map fst new) \<subseteq> set as
    \<and> (\<forall>a \<in> set (map fst new). \<exists>e. fmlookup (c_entryStore c) a = Some e \<and> ce_refs e = 0)
    \<and> rw' = rw - sum_list (map (weight_of c) (map fst new)) \<and> re' = re - int (length new)"
  using assms
proof (induction as arbitrary: rw re vs)
  case (Cons a as)
  let ?over = "rw + weight > c_maxWeightBytes c \<or> re + 1 > c_maxEntries c"
  let ?free = "\<lambda>e. fmlookup (c_entryStore c) a = Some e \<and> ce_refs e = 0"
  consider (stop) "\<not> ?over" | (skip) "?over" "\<nexists>e. ?free e" | (take) e where "?over" "?free e" by blast
  then show ?case
  proof cases
    case stop
    with Cons.prems show ?thesis by (intro exI [of _ "[]"]) (simp add: Let_def)
  next
    case skip
    with Cons.prems have "victims_loop c weight rw re as vs = (rw', re', vs')"
      by (auto simp: Let_def split: option.splits if_splits)
    from Cons.IH [OF this] Cons.prems(2) show ?thesis by auto
  next
    case take
    then obtain r where "victims_loop c weight (rw - ce_weight e) (re - 1) as (vs @ [(a, r)]) = (rw', re', vs')"
      using Cons.prems by (auto simp: Let_def split: if_splits)
    from Cons.IH [OF this] Cons.prems(2) obtain new where
      "vs' = vs @ (a, r) # new" "distinct (map fst new)" "set (map fst new) \<subseteq> set as"
      "\<forall>a \<in> set (map fst new). \<exists>e. fmlookup (c_entryStore c) a = Some e \<and> ce_refs e = 0"
      "rw' = rw - ce_weight e - sum_list (map (weight_of c) (map fst new))" "re' = re - 1 - int (length new)"
      by auto
    moreover have "weight_of c a = ce_weight e" using take(2) by (simp add: weight_of_def)
    ultimately show ?thesis
      using take(2) Cons.prems(2) by (intro exI [of _ "(a, r) # new"]) auto
  qed
qed simp

text \<open>
  The victims are unpinned entries, and without them the new entry fits.
\<close>

lemma selectVictimsLocked_Inr:
  assumes "selectVictimsLocked weight c = Inr victims" and "entries_agree c"
  shows "distinct (map fst victims)" "set (map fst victims) \<subseteq> set (c_lru c)"
    "\<forall>a \<in> set (map fst victims). \<exists>e. fmlookup (c_entryStore c) a = Some e \<and> ce_refs e = 0"
    "c_currentWeight c - sum_list (map (weight_of c) (map fst victims)) + weight \<le> c_maxWeightBytes c"
    "int (length (c_lru c)) - int (length victims) + 1 \<le> c_maxEntries c"
proof -
  obtain rw re where l: "victims_loop c weight (c_currentWeight c) (int (map_len (c_entries c))) (rev (c_lru c)) [] = (rw, re, victims)"
    and fits: "rw + weight \<le> c_maxWeightBytes c" "re + 1 \<le> c_maxEntries c"
    using assms(1) by (auto simp: selectVictimsLocked_def split: prod.splits if_splits)
  have "distinct (rev (c_lru c))" using assms(2) by (simp add: entries_agree_def)
  from victims_loop_spec [OF l this] fits length_lru [OF assms(2)]
  show "distinct (map fst victims)" "set (map fst victims) \<subseteq> set (c_lru c)"
    "\<forall>a \<in> set (map fst victims). \<exists>e. fmlookup (c_entryStore c) a = Some e \<and> ce_refs e = 0"
    "c_currentWeight c - sum_list (map (weight_of c) (map fst victims)) + weight \<le> c_maxWeightBytes c"
    "int (length (c_lru c)) - int (length victims) + 1 \<le> c_maxEntries c"
    by auto
qed

subsection \<open>The invariant\<close>

definition tally :: "(thread \<Rightarrow> bool) \<Rightarrow> thread multiset \<Rightarrow> int" where
  "tally P ths = int (size (filter_mset P ths))"

lemma tally_simps [simp]:
  "tally P {#} = 0"
  "tally P (add_mset th ths) = of_bool (P th) + tally P ths"
  by (simp_all add: tally_def)

lemma tally_nonneg: "0 \<le> tally P ths"
  by (simp add: tally_def)

lemma tally_zero: "tally P ths = 0 \<longleftrightarrow> (\<forall>th. th \<in># ths \<longrightarrow> \<not> P th)"
proof (induction ths)
  case (add th ths)
  then show ?case using tally_nonneg [of P ths] by auto
qed simp

lemma tally_disjoint:
  "\<forall>th. th \<in># ths \<longrightarrow> P th \<longrightarrow> \<not> Q th \<Longrightarrow> tally (\<lambda>th. P th \<or> Q th) ths = tally P ths + tally Q ths"
  by (induction ths) auto

lemma tally_cong: "\<forall>th. th \<in># ths \<longrightarrow> P th = Q th \<Longrightarrow> tally P ths = tally Q ths"
  by (induction ths) auto

lemma tally_mono: "\<forall>th. P th \<longrightarrow> Q th \<Longrightarrow> tally P ths \<le> tally Q ths"
  by (induction ths) auto

fun counted :: "thread \<Rightarrow> bool" where
  "counted (ThClose ch) = False"
| "counted (ThRelease programs ch) = False"
| "counted _ = True"

fun pins :: "(nat, flight) fmap \<Rightarrow> nat \<Rightarrow> thread \<Rightarrow> bool" where
  "pins fs a (ThLease b n) = (b = a)"
| "pins fs a (ThAwait f coalesced) =
    (case fmlookup fs f of None \<Rightarrow> False | Some fl \<Rightarrow> fl_finished fl \<and> fl_entry fl = Some a)"
| "pins fs a _ = False"

fun awaits :: "nat \<Rightarrow> thread \<Rightarrow> bool" where
  "awaits f (ThAwait g coalesced) = (g = f)"
| "awaits f _ = False"

fun flies :: "nat \<Rightarrow> thread \<Rightarrow> bool" where
  "flies f (ThFlight g spec r) = (g = f)"
| "flies f (ThAdmitted g spec) = (g = f)"
| "flies f _ = False"

fun releases :: "thread \<Rightarrow> bool" where
  "releases (ThRelease programs ch) = True"
| "releases _ = False"

fun reserves :: "reservation \<Rightarrow> thread \<Rightarrow> bool" where
  "reserves r (ThFlight f spec r') = (r' = r)"
| "reserves r (ThAdmitted f spec) = (r \<noteq> ReservedNone)"
| "reserves r (ThEvicted programs r') = (r' = r)"
| "reserves r (ThUnload r') = (r' = r)"
| "reserves r _ = False"

fun held :: "thread \<Rightarrow> nat multiset" where
  "held (ThEvicted programs r) = mset programs"
| "held (ThRelease programs ch) = mset programs"
| "held _ = {#}"

text \<open>
  \<open>active\<close> counts the goroutines that have begun, \<open>drained\<close> is closed exactly while there are
  none, and whoever waits for it in \<open>Close\<close> waits for the present channel.
\<close>

definition count_inv :: "Cache \<Rightarrow> thread multiset \<Rightarrow> bool" where
  "count_inv c ths \<longleftrightarrow>
     c_active c = tally counted (ths)
     \<and> (c_drained c |\<in>| c_closed c \<longleftrightarrow> c_active c = 0)
     \<and> (\<forall>ch. ch |\<in>| c_closed c \<longrightarrow> ch < c_nextChannel c) \<and> c_drained c < c_nextChannel c
     \<and> (\<forall>ch. ThClose ch \<in># ths \<longrightarrow> c_closing c \<and> ch = c_drained c)
     \<and> (\<forall>ps ch. ThRelease ps ch \<in># ths \<longrightarrow> ch < c_nextChannel c)"

text \<open>One caller at a time releases, when nothing is active any more.\<close>

definition close_inv :: "Cache \<Rightarrow> thread multiset \<Rightarrow> bool" where
  "close_inv c ths \<longleftrightarrow>
     tally releases (ths) = of_bool (c_releasing c)
     \<and> (c_releasing c \<or> c_released c \<longrightarrow> c_closing c \<and> c_active c = 0 \<and> c_entries c = fmempty \<and> c_lru c = [])
     \<and> (c_releasing c \<longrightarrow> c_closePending c = [])
     \<and> (c_released c \<longrightarrow> c_closePending c = [] \<and> (\<forall>ps ch. ThRelease ps ch \<in># ths \<longrightarrow> ps = []))"

text \<open>
  A flight is in the map until it finishes, one goroutine runs it, \<open>waiters\<close> counts those who
  wait for it, and no entry has its key. A finished flight has an entry or an error.
\<close>

definition waiters_of :: "(nat, flight) fmap \<Rightarrow> nat \<Rightarrow> int" where
  "waiters_of fs f = (case fmlookup fs f of None \<Rightarrow> 0 | Some fl \<Rightarrow> fl_waiters fl)"

definition flying :: "(nat, flight) fmap \<Rightarrow> nat \<Rightarrow> bool" where
  "flying fs f \<longleftrightarrow> (case fmlookup fs f of None \<Rightarrow> False | Some fl \<Rightarrow> \<not> fl_finished fl)"

definition flight_inv :: "Cache \<Rightarrow> thread multiset \<Rightarrow> bool" where
  "flight_inv c ths \<longleftrightarrow> (let fs = c_flightStore c in
     (\<forall>k f. fmlookup (c_flights c) k = Some f \<longrightarrow> fmlookup (c_entries c) k = None
        \<and> (\<exists>fl. fmlookup fs f = Some fl \<and> fl_key fl = k \<and> \<not> fl_finished fl))
     \<and> (\<forall>f. tally (flies f) (ths) = of_bool (flying fs f))
     \<and> (\<forall>f. tally (awaits f) (ths) \<le> waiters_of fs f)
     \<and> (\<forall>f fl. fmlookup fs f = Some fl \<longrightarrow> f < c_nextAddress c)
     \<and> (\<forall>f fl. fmlookup fs f = Some fl \<and> \<not> fl_finished fl \<longrightarrow>
          fl_waiters fl = tally (awaits f) (ths) \<and> fmlookup (c_flights c) (fl_key fl) = Some f
          \<and> fl_entry fl = None)
     \<and> (\<forall>f fl. fmlookup fs f = Some fl \<and> fl_finished fl \<longrightarrow>
          (fl_err fl = None \<longleftrightarrow> fl_entry fl \<noteq> None)
          \<and> (\<forall>a. fl_entry fl = Some a \<longrightarrow> fmlookup (c_entryStore c) a \<noteq> None)))"

text \<open>The references of an entry are the leases on it and the waiters that will get one.\<close>

definition refs_of :: "(nat, cache_entry) fmap \<Rightarrow> nat \<Rightarrow> int" where
  "refs_of es a = (case fmlookup es a of None \<Rightarrow> 0 | Some e \<Rightarrow> ce_refs e)"

definition ref_inv :: "Cache \<Rightarrow> thread multiset \<Rightarrow> bool" where
  "ref_inv c ths \<longleftrightarrow>
     (\<forall>a. refs_of (c_entryStore c) a = tally (pins (c_flightStore c) a) (ths))
     \<and> (\<forall>a. refs_of (c_entryStore c) a \<noteq> 0 \<longrightarrow> a \<in> set (c_lru c))"

text \<open>Every program that was compiled is in exactly one place.\<close>

definition program_inv :: "Cache \<Rightarrow> thread multiset \<Rightarrow> nat \<Rightarrow> nat list \<Rightarrow> bool" where
  "program_inv c ths compiled closed \<longleftrightarrow>
     mset (map (program_of c) (c_lru c)) + (\<Sum>th \<in># ths. held th) + mset (c_closePending c)
       + mset (closed) = mset [0..<compiled]"

definition load_inv :: "Cache \<Rightarrow> thread multiset \<Rightarrow> bool" where
  "load_inv c ths \<longleftrightarrow> (let g = c_loadGate c in
     ch_length (lg_active g) = tally (reserves ReservedActive) (ths)
     \<and> ch_length (lg_queued g) = tally (reserves ReservedQueue) (ths)
     \<and> ch_length (lg_active g) \<le> ch_capacity (lg_active g)
     \<and> ch_length (lg_queued g) \<le> ch_capacity (lg_queued g))"

definition world_inv :: "world \<Rightarrow> bool" where
  "world_inv w \<longleftrightarrow> (let c = w_cache w; ths = w_threads w in
     count_inv c ths \<and> close_inv c ths \<and> entries_agree c \<and> within_limits c \<and> flight_inv c ths
     \<and> ref_inv c ths \<and> program_inv c ths (w_compiled w) (w_closed w @ w_lost w) \<and> load_inv c ths)"

lemma world_inv_new:
  assumes "NewCache config profile = Inr c"
  shows "world_inv \<lparr>w_cache = c, w_threads = {#}, w_compiled = 0, w_closed = [], w_faulted = [], w_lost = []\<rparr>"
  using assms
  by (auto simp: NewCache_def Let_def newLoadGate_def world_inv_def count_inv_def close_inv_def
      entries_agree_def within_limits_def flight_inv_def ref_inv_def program_inv_def load_inv_def
      waiters_of_def flying_def refs_of_def split: if_splits sum.splits)

subsection \<open>Every step keeps the invariant\<close>

text \<open>What the helpers leave alone.\<close>

lemma bump_stats_fields [simp]:
  "c_profile (bump_stats g c) = c_profile c"
  "c_maxWeightBytes (bump_stats g c) = c_maxWeightBytes c"
  "c_maxEntries (bump_stats g c) = c_maxEntries c" "c_loadGate (bump_stats g c) = c_loadGate c"
  "c_entries (bump_stats g c) = c_entries c" "c_lru (bump_stats g c) = c_lru c"
  "c_flights (bump_stats g c) = c_flights c" "c_currentWeight (bump_stats g c) = c_currentWeight c"
  "c_active (bump_stats g c) = c_active c" "c_drained (bump_stats g c) = c_drained c"
  "c_closing (bump_stats g c) = c_closing c" "c_releasing (bump_stats g c) = c_releasing c"
  "c_released (bump_stats g c) = c_released c" "c_releaseDone (bump_stats g c) = c_releaseDone c"
  "c_closePending (bump_stats g c) = c_closePending c"
  "c_entryStore (bump_stats g c) = c_entryStore c"
  "c_flightStore (bump_stats g c) = c_flightStore c"
  "c_nextAddress (bump_stats g c) = c_nextAddress c"
  "c_nextChannel (bump_stats g c) = c_nextChannel c" "c_closed (bump_stats g c) = c_closed c"
  by (simp_all add: bump_stats_def)

lemma upd_entry_fields [simp]:
  "c_profile (upd_entry a g c) = c_profile c"
  "c_maxWeightBytes (upd_entry a g c) = c_maxWeightBytes c"
  "c_maxEntries (upd_entry a g c) = c_maxEntries c" "c_loadGate (upd_entry a g c) = c_loadGate c"
  "c_entries (upd_entry a g c) = c_entries c" "c_lru (upd_entry a g c) = c_lru c"
  "c_flights (upd_entry a g c) = c_flights c"
  "c_currentWeight (upd_entry a g c) = c_currentWeight c" "c_active (upd_entry a g c) = c_active c"
  "c_drained (upd_entry a g c) = c_drained c" "c_closing (upd_entry a g c) = c_closing c"
  "c_releasing (upd_entry a g c) = c_releasing c" "c_released (upd_entry a g c) = c_released c"
  "c_releaseDone (upd_entry a g c) = c_releaseDone c"
  "c_closePending (upd_entry a g c) = c_closePending c" "c_stats (upd_entry a g c) = c_stats c"
  "c_flightStore (upd_entry a g c) = c_flightStore c"
  "c_nextAddress (upd_entry a g c) = c_nextAddress c"
  "c_nextChannel (upd_entry a g c) = c_nextChannel c" "c_closed (upd_entry a g c) = c_closed c"
  by (simp_all add: upd_entry_def split: option.split)

lemma upd_flight_fields [simp]:
  "c_profile (upd_flight f g c) = c_profile c"
  "c_maxWeightBytes (upd_flight f g c) = c_maxWeightBytes c"
  "c_maxEntries (upd_flight f g c) = c_maxEntries c" "c_loadGate (upd_flight f g c) = c_loadGate c"
  "c_entries (upd_flight f g c) = c_entries c" "c_lru (upd_flight f g c) = c_lru c"
  "c_flights (upd_flight f g c) = c_flights c"
  "c_currentWeight (upd_flight f g c) = c_currentWeight c"
  "c_active (upd_flight f g c) = c_active c" "c_drained (upd_flight f g c) = c_drained c"
  "c_closing (upd_flight f g c) = c_closing c" "c_releasing (upd_flight f g c) = c_releasing c"
  "c_released (upd_flight f g c) = c_released c"
  "c_releaseDone (upd_flight f g c) = c_releaseDone c"
  "c_closePending (upd_flight f g c) = c_closePending c" "c_stats (upd_flight f g c) = c_stats c"
  "c_entryStore (upd_flight f g c) = c_entryStore c"
  "c_nextAddress (upd_flight f g c) = c_nextAddress c"
  "c_nextChannel (upd_flight f g c) = c_nextChannel c" "c_closed (upd_flight f g c) = c_closed c"
  by (simp_all add: upd_flight_def split: option.split)

lemma startLocked_fields [simp]:
  "c_profile (startLocked c) = c_profile c" "c_maxWeightBytes (startLocked c) = c_maxWeightBytes c"
  "c_maxEntries (startLocked c) = c_maxEntries c" "c_loadGate (startLocked c) = c_loadGate c"
  "c_entries (startLocked c) = c_entries c" "c_lru (startLocked c) = c_lru c"
  "c_flights (startLocked c) = c_flights c" "c_currentWeight (startLocked c) = c_currentWeight c"
  "c_closing (startLocked c) = c_closing c" "c_releasing (startLocked c) = c_releasing c"
  "c_released (startLocked c) = c_released c" "c_releaseDone (startLocked c) = c_releaseDone c"
  "c_closePending (startLocked c) = c_closePending c" "c_stats (startLocked c) = c_stats c"
  "c_entryStore (startLocked c) = c_entryStore c" "c_flightStore (startLocked c) = c_flightStore c"
  "c_nextAddress (startLocked c) = c_nextAddress c" "c_closed (startLocked c) = c_closed c"
  by (simp_all add: startLocked_def Let_def)

lemma endLocked_fields [simp]:
  "c_profile (endLocked c) = c_profile c" "c_maxWeightBytes (endLocked c) = c_maxWeightBytes c"
  "c_maxEntries (endLocked c) = c_maxEntries c" "c_loadGate (endLocked c) = c_loadGate c"
  "c_entries (endLocked c) = c_entries c" "c_lru (endLocked c) = c_lru c"
  "c_flights (endLocked c) = c_flights c" "c_currentWeight (endLocked c) = c_currentWeight c"
  "c_drained (endLocked c) = c_drained c" "c_closing (endLocked c) = c_closing c"
  "c_releasing (endLocked c) = c_releasing c" "c_released (endLocked c) = c_released c"
  "c_releaseDone (endLocked c) = c_releaseDone c" "c_closePending (endLocked c) = c_closePending c"
  "c_stats (endLocked c) = c_stats c" "c_entryStore (endLocked c) = c_entryStore c"
  "c_flightStore (endLocked c) = c_flightStore c" "c_nextAddress (endLocked c) = c_nextAddress c"
  "c_nextChannel (endLocked c) = c_nextChannel c"
  by (simp_all add: endLocked_def Let_def)

lemma cancelFlightsLocked_fields [simp]:
  "c_profile (cancelFlightsLocked c) = c_profile c"
  "c_maxWeightBytes (cancelFlightsLocked c) = c_maxWeightBytes c"
  "c_maxEntries (cancelFlightsLocked c) = c_maxEntries c"
  "c_loadGate (cancelFlightsLocked c) = c_loadGate c"
  "c_entries (cancelFlightsLocked c) = c_entries c" "c_lru (cancelFlightsLocked c) = c_lru c"
  "c_flights (cancelFlightsLocked c) = c_flights c"
  "c_currentWeight (cancelFlightsLocked c) = c_currentWeight c"
  "c_active (cancelFlightsLocked c) = c_active c" "c_drained (cancelFlightsLocked c) = c_drained c"
  "c_closing (cancelFlightsLocked c) = c_closing c"
  "c_releasing (cancelFlightsLocked c) = c_releasing c"
  "c_released (cancelFlightsLocked c) = c_released c"
  "c_releaseDone (cancelFlightsLocked c) = c_releaseDone c"
  "c_closePending (cancelFlightsLocked c) = c_closePending c"
  "c_stats (cancelFlightsLocked c) = c_stats c"
  "c_entryStore (cancelFlightsLocked c) = c_entryStore c"
  "c_nextAddress (cancelFlightsLocked c) = c_nextAddress c"
  "c_nextChannel (cancelFlightsLocked c) = c_nextChannel c"
  "c_closed (cancelFlightsLocked c) = c_closed c"
  by (simp_all add: cancelFlightsLocked_def)

lemma fmlookup_upd_entry [simp]:
  "fmlookup (c_entryStore (upd_entry a g c)) b =
    (if a = b then map_option g (fmlookup (c_entryStore c) b) else fmlookup (c_entryStore c) b)"
  by (simp add: upd_entry_def split: option.split)

lemma fmlookup_upd_flight [simp]:
  "fmlookup (c_flightStore (upd_flight f g c)) h =
    (if f = h then map_option g (fmlookup (c_flightStore c) h) else fmlookup (c_flightStore c) h)"
  by (simp add: upd_flight_def split: option.split)

lemma add_refs_simps [simp]:
  "ce_key (add_refs n e) = ce_key e" "ce_program (add_refs n e) = ce_program e"
  "ce_weight (add_refs n e) = ce_weight e" "ce_refs (add_refs n e) = ce_refs e + n"
  by (simp_all add: add_refs_def)

lemma refs_of_upd_entry [simp]:
  "refs_of (c_entryStore (upd_entry a (add_refs n) c)) b =
    refs_of (c_entryStore c) b + (if a = b \<and> fmlookup (c_entryStore c) a \<noteq> None then n else 0)"
  by (auto simp: refs_of_def split: option.split)

lemma of_upd_entry [simp]:
  "weight_of (upd_entry a (add_refs n) c) = weight_of c" "program_of (upd_entry a (add_refs n) c) = program_of c"
  by (auto simp: weight_of_def program_of_def fun_eq_iff split: option.split)

lemma entries_agree_refs:
  assumes "entries_agree c"
  shows "entries_agree (upd_entry a (add_refs n) c)"
proof -
  have "\<exists>e. fmlookup (c_entryStore (upd_entry a (add_refs n) c)) b = Some e \<and> ce_key e = k"
    if "fmlookup (c_entries c) k = Some b" for k b
    using assms that unfolding entries_agree_def by fastforce
  with assms show ?thesis unfolding entries_agree_def by auto
qed

lemma of_bool_le: "of_bool b + (x :: int) \<le> y \<Longrightarrow> x \<le> y"
  by (cases b) auto

lemmas inv_defs = count_inv_def close_inv_def flight_inv_def ref_inv_def program_inv_def load_inv_def Let_def

lemma world_invD:
  assumes "world_inv w" and "c = w_cache w" and "ths = w_threads w"
  shows "count_inv c ths" "close_inv c ths" "entries_agree c" "within_limits c" "flight_inv c ths"
    "ref_inv c ths" "program_inv c ths (w_compiled w) (w_closed w @ w_lost w)" "load_inv c ths"
  using assms by (simp_all add: world_inv_def Let_def)

lemma flight_invD:
  assumes "flight_inv c ths"
  shows "fmlookup (c_flights c) k = Some f \<Longrightarrow> fmlookup (c_entries c) k = None
      \<and> (\<exists>fl. fmlookup (c_flightStore c) f = Some fl \<and> fl_key fl = k \<and> \<not> fl_finished fl)"
    "tally (flies f) ths = of_bool (flying (c_flightStore c) f)"
    "tally (awaits f) ths \<le> waiters_of (c_flightStore c) f"
    "fmlookup (c_flightStore c) f = Some fl \<Longrightarrow> f < c_nextAddress c"
    "fmlookup (c_flightStore c) f = Some fl \<Longrightarrow> \<not> fl_finished fl \<Longrightarrow>
       fl_waiters fl = tally (awaits f) ths \<and> fmlookup (c_flights c) (fl_key fl) = Some f \<and> fl_entry fl = None"
    "fmlookup (c_flightStore c) f = Some fl \<Longrightarrow> fl_finished fl \<Longrightarrow> (fl_err fl = None \<longleftrightarrow> fl_entry fl \<noteq> None)
       \<and> (\<forall>a. fl_entry fl = Some a \<longrightarrow> fmlookup (c_entryStore c) a \<noteq> None)"
  using assms by (simp_all add: flight_inv_def Let_def)

lemma flight_invI:
  assumes "\<And>k f. fmlookup (c_flights c) k = Some f \<Longrightarrow> fmlookup (c_entries c) k = None
      \<and> (\<exists>fl. fmlookup (c_flightStore c) f = Some fl \<and> fl_key fl = k \<and> \<not> fl_finished fl)"
    and "\<And>f. tally (flies f) ths = of_bool (flying (c_flightStore c) f)"
    and "\<And>f. tally (awaits f) ths \<le> waiters_of (c_flightStore c) f"
    and "\<And>f fl. fmlookup (c_flightStore c) f = Some fl \<Longrightarrow> f < c_nextAddress c"
    and "\<And>f fl. fmlookup (c_flightStore c) f = Some fl \<Longrightarrow> \<not> fl_finished fl \<Longrightarrow>
       fl_waiters fl = tally (awaits f) ths \<and> fmlookup (c_flights c) (fl_key fl) = Some f \<and> fl_entry fl = None"
    and "\<And>f fl. fmlookup (c_flightStore c) f = Some fl \<Longrightarrow> fl_finished fl \<Longrightarrow> (fl_err fl = None \<longleftrightarrow> fl_entry fl \<noteq> None)
       \<and> (\<forall>a. fl_entry fl = Some a \<longrightarrow> fmlookup (c_entryStore c) a \<noteq> None)"
  shows "flight_inv c ths"
  unfolding flight_inv_def Let_def
  by (intro conjI allI impI) (use assms in auto)

lemma flight_inv_mono:
  assumes inv: "flight_inv c ths" and same: "c_flights c' = c_flights c" "c_flightStore c' = c_flightStore c"
    and "c_nextAddress c \<le> c_nextAddress c'"
    and "\<And>k. fmlookup (c_entries c) k = None \<Longrightarrow> fmlookup (c_entries c') k = None"
    and "\<And>a. fmlookup (c_entryStore c) a \<noteq> None \<Longrightarrow> fmlookup (c_entryStore c') a \<noteq> None"
    and tallies: "\<And>f. tally (flies f) ths' = tally (flies f) ths" "\<And>f. tally (awaits f) ths' = tally (awaits f) ths"
  shows "flight_inv c' ths'"
proof (rule flight_invI, unfold same tallies)
  note F = flight_invD [OF inv]
  show "f < c_nextAddress c'" if "fmlookup (c_flightStore c) f = Some fl" for f fl
    using F(4) [OF that] assms(4) by simp
  show "fmlookup (c_entries c') k = None
      \<and> (\<exists>fl. fmlookup (c_flightStore c) f = Some fl \<and> fl_key fl = k \<and> \<not> fl_finished fl)"
    if "fmlookup (c_flights c) k = Some f" for k f
    using F(1) [OF that] assms(5) [of k] by simp
  show "(fl_err fl = None \<longleftrightarrow> fl_entry fl \<noteq> None) \<and> (\<forall>a. fl_entry fl = Some a \<longrightarrow> fmlookup (c_entryStore c') a \<noteq> None)"
    if "fmlookup (c_flightStore c) f = Some fl" "fl_finished fl" for f fl
    using F(6) [OF that] assms(6) by simp
qed (rule flight_invD [OF inv], assumption?, assumption?)+

text \<open>Where a goroutine moves on and only some parts of the invariant look at it.\<close>

lemma world_inv_returned:
  assumes "world_inv w" and ths: "w_threads w = add_mset (ThLease a n) ths"
  shows "world_inv (w\<lparr>w_threads := add_mset (ThLease a m) ths\<rparr>)" (is "world_inv ?w")
proof -
  have "world_inv ?w = world_inv w" by (simp add: world_inv_def inv_defs ths)
  with assms(1) show ?thesis by blast
qed

text \<open>A waiter that leaves a finished flight.\<close>

lemma flight_inv_awaited:
  assumes inv: "flight_inv c (add_mset (ThAwait f co) ths)"
    and fl: "fmlookup (c_flightStore c) f = Some fl" "fl_finished fl"
    and th: "\<And>g. \<not> flies g th \<and> \<not> awaits g th"
  shows "flight_inv c (add_mset th ths)"
proof (rule flight_invI)
  note F = flight_invD [OF inv, unfolded tally_simps]
  show "tally (awaits g) (add_mset th ths) \<le> waiters_of (c_flightStore c) g" for g
    using of_bool_le [OF F(3) [of g]] th by simp
  show "tally (flies g) (add_mset th ths) = of_bool (flying (c_flightStore c) g)" for g
    using F(2) [of g] th by simp
  show "fl_waiters gl = tally (awaits g) (add_mset th ths)
      \<and> fmlookup (c_flights c) (fl_key gl) = Some g \<and> fl_entry gl = None"
    if "fmlookup (c_flightStore c) g = Some gl" "\<not> fl_finished gl" for g gl
    using F(5) [of g gl] that fl th by (cases "f = g") auto
qed (rule flight_invD [OF inv], assumption+)+

lemma world_inv_served:
  assumes inv: "world_inv w" and ths: "w_threads w = add_mset (ThAwait f co) ths"
    and d: "awaitFlight_done f co (w_cache w) = Some (Inr a, result)"
  shows "world_inv (w\<lparr>w_threads := add_mset (ThLease a 0) ths\<rparr>)"
proof -
  let ?c = "w_cache w" and ?o = "add_mset (ThAwait f co) ths" and ?n = "add_mset (ThLease a 0) ths"
  note old = world_invD [OF inv refl ths [symmetric]]
  obtain fl where fl: "fmlookup (c_flightStore ?c) f = Some fl" "fl_finished fl" "fl_entry fl = Some a"
    using d by (auto simp: awaitFlight_done_def Let_def split: option.splits if_splits)
  have "count_inv ?c ?n = count_inv ?c ?o" "close_inv ?c ?n = close_inv ?c ?o" "ref_inv ?c ?n = ref_inv ?c ?o"
      "program_inv ?c ?n (w_compiled w) (w_closed w @ w_lost w) = program_inv ?c ?o (w_compiled w) (w_closed w @ w_lost w)"
      "load_inv ?c ?n = load_inv ?c ?o"
    using fl by (simp_all add: inv_defs)
  moreover have "flight_inv ?c ?n" by (rule flight_inv_awaited [OF old(5) fl(1,2)]) simp
  ultimately show ?thesis using old by (simp add: world_inv_def)
qed

lemma world_inv_failed:
  assumes inv: "world_inv w" and ths: "w_threads w = add_mset (ThAwait f co) ths"
    and d: "awaitFlight_done f co (w_cache w) = Some (Inl e, result)"
  shows "world_inv (w\<lparr>w_threads := add_mset ThEnd ths\<rparr>)"
proof -
  let ?c = "w_cache w" and ?o = "add_mset (ThAwait f co) ths" and ?n = "add_mset ThEnd ths"
  note old = world_invD [OF inv refl ths [symmetric]]
  obtain fl where fl: "fmlookup (c_flightStore ?c) f = Some fl" "fl_finished fl" "fl_err fl = Some e"
    using d by (auto simp: awaitFlight_done_def Let_def split: option.splits if_splits)
  then have "fl_entry fl = None" using flight_invD(6) [OF old(5) fl(1,2)] by auto
  then have "count_inv ?c ?n = count_inv ?c ?o" "close_inv ?c ?n = close_inv ?c ?o" "ref_inv ?c ?n = ref_inv ?c ?o"
      "program_inv ?c ?n (w_compiled w) (w_closed w @ w_lost w) = program_inv ?c ?o (w_compiled w) (w_closed w @ w_lost w)"
      "load_inv ?c ?n = load_inv ?c ?o"
    using fl by (simp_all add: inv_defs)
  moreover have "flight_inv ?c ?n" by (rule flight_inv_awaited [OF old(5) fl(1,2)]) simp
  ultimately show ?thesis using old by (simp add: world_inv_def)
qed

lemma world_inv_close_leaves:
  assumes inv: "world_inv w" and ths: "w_threads w = add_mset (ThClose ch) ths"
  shows "world_inv (w\<lparr>w_threads := ths\<rparr>)"
proof -
  let ?c = "w_cache w" and ?o = "add_mset (ThClose ch) ths"
  note old = world_invD [OF inv refl ths [symmetric]]
  have "close_inv ?c ths = close_inv ?c ?o" "ref_inv ?c ths = ref_inv ?c ?o" "flight_inv ?c ths = flight_inv ?c ?o"
      "program_inv ?c ths (w_compiled w) (w_closed w @ w_lost w) = program_inv ?c ?o (w_compiled w) (w_closed w @ w_lost w)"
      "load_inv ?c ths = load_inv ?c ?o"
    by (simp_all add: inv_defs)
  moreover have "count_inv ?c ths" using old(1) by (auto simp: count_inv_def)
  ultimately show ?thesis using old by (simp add: world_inv_def)
qed

lemma active_positive: "count_inv c (add_mset th ths) \<Longrightarrow> counted th \<Longrightarrow> 1 \<le> c_active c"
  using tally_nonneg [of counted ths] by (simp add: count_inv_def)

text \<open>Groups that a change of the count does not concern.\<close>

lemma unconcerned:
  "entries_agree (startLocked c) = entries_agree c" "entries_agree (endLocked c) = entries_agree c"
  "within_limits (startLocked c) = within_limits c" "within_limits (endLocked c) = within_limits c"
  "flight_inv (startLocked c) ths = flight_inv c ths" "flight_inv (endLocked c) ths = flight_inv c ths"
  "ref_inv (startLocked c) ths = ref_inv c ths" "ref_inv (endLocked c) ths = ref_inv c ths"
  "program_inv (startLocked c) ths n ps = program_inv c ths n ps"
  "program_inv (endLocked c) ths n ps = program_inv c ths n ps"
  "load_inv (startLocked c) ths = load_inv c ths" "load_inv (endLocked c) ths = load_inv c ths"
  by (simp_all add: entries_agree_def within_limits_def weight_of_def [abs_def] program_of_def [abs_def] inv_defs)

lemma count_inv_start:
  assumes "count_inv c ths" and "\<not> c_closing c" and "counted th"
  shows "count_inv (startLocked c) (add_mset th ths)"
proof -
  have "ThClose ch \<notin># add_mset th ths" "ThRelease ps ch \<in># add_mset th ths \<longleftrightarrow> ThRelease ps ch \<in># ths" for ps ch
    using assms by (auto simp: count_inv_def)
  then show ?thesis
    using assms tally_nonneg [of counted ths]
    unfolding count_inv_def startLocked_def Let_def by (auto intro: less_SucI)
qed

lemma count_inv_end:
  assumes "count_inv c (add_mset th ths)" and "counted th"
  shows "count_inv (endLocked c) ths"
  using assms tally_nonneg [of counted ths] active_positive [OF assms]
  by (cases th) (auto simp: count_inv_def endLocked_def Let_def)

lemma close_inv_open: "\<not> c_closing c \<Longrightarrow> close_inv c ths \<Longrightarrow> \<not> releases th \<Longrightarrow> close_inv (startLocked c) (add_mset th ths)"
  by (cases th) (auto simp: close_inv_def)

lemma close_inv_end:
  assumes "close_inv c (add_mset th ths)" and "count_inv c (add_mset th ths)" and "counted th"
  shows "close_inv (endLocked c) ths"
  using assms active_positive [OF assms(2,3)] by (cases th) (auto simp: close_inv_def)

lemma world_inv_begin:
  assumes inv: "world_inv w" and "Acquire_begin platform ctxErr spec (w_cache w) = (Inr key, c)"
  shows "world_inv (move w c (add_mset (ThBegun key spec) (w_threads w)))"
proof -
  let ?c = "w_cache w" and ?n = "add_mset (ThBegun key spec) (w_threads w)"
  note old = world_invD [OF inv refl refl]
  have c: "c = startLocked ?c" "\<not> c_closing ?c"
    using assms(2) by (auto simp: Acquire_begin_def check_eq_Inr begin_work_def split: sum.splits if_splits)
  have "flight_inv ?c ?n = flight_inv ?c (w_threads w)" "ref_inv ?c ?n = ref_inv ?c (w_threads w)"
      "program_inv ?c ?n (w_compiled w) (w_closed w @ w_lost w) = program_inv ?c (w_threads w) (w_compiled w) (w_closed w @ w_lost w)"
      "load_inv ?c ?n = load_inv ?c (w_threads w)"
    by (simp_all add: inv_defs)
  moreover have "count_inv c ?n" unfolding c(1) by (rule count_inv_start [OF old(1) c(2)]) simp
  moreover have "close_inv c ?n" unfolding c(1) by (rule close_inv_open [OF c(2) old(2)]) simp
  ultimately show ?thesis using old by (simp add: world_inv_def c(1) unconcerned)
qed

lemma world_inv_end:
  assumes inv: "world_inv w" and ths: "w_threads w = add_mset ThEnd ths"
  shows "world_inv (move w (endLocked (w_cache w)) ths)"
proof -
  let ?c = "w_cache w" and ?o = "add_mset ThEnd ths"
  note old = world_invD [OF inv refl ths [symmetric]]
  have "flight_inv ?c ths = flight_inv ?c ?o" "ref_inv ?c ths = ref_inv ?c ?o"
      "program_inv ?c ths (w_compiled w) (w_closed w @ w_lost w) = program_inv ?c ?o (w_compiled w) (w_closed w @ w_lost w)"
      "load_inv ?c ths = load_inv ?c ?o"
    by (simp_all add: inv_defs)
  moreover have "count_inv (endLocked ?c) ths" by (rule count_inv_end [OF old(1)]) simp
  moreover have "close_inv (endLocked ?c) ths" by (rule close_inv_end [OF old(2,1)]) simp
  ultimately show ?thesis using old by (simp add: world_inv_def unconcerned)
qed

lemma pinned_entry:
  assumes "ref_inv c ths" and "th \<in># ths" and "pins (c_flightStore c) a th"
  shows "fmlookup (c_entryStore c) a \<noteq> None" and "a \<in> set (c_lru c)"
proof -
  have "tally (pins (c_flightStore c) a) ths \<noteq> 0" using assms(2,3) by (auto simp: tally_zero)
  then have refs: "refs_of (c_entryStore c) a \<noteq> 0" using assms(1) by (simp add: ref_inv_def)
  then show "fmlookup (c_entryStore c) a \<noteq> None" by (auto simp: refs_of_def split: option.splits)
  show "a \<in> set (c_lru c)" using assms(1) refs by (simp add: ref_inv_def)
qed

lemma world_inv_release:
  assumes inv: "world_inv w" and ths: "w_threads w = add_mset (ThLease a 0) ths"
  shows "world_inv (move w (Lease_Release a (w_cache w)) ths)"
proof -
  let ?c = "w_cache w" and ?o = "add_mset (ThLease a 0) ths" and ?d = "upd_entry a (add_refs (- 1)) (w_cache w)"
  note old = world_invD [OF inv refl ths [symmetric]]
  have some: "fmlookup (c_entryStore ?c) a \<noteq> None" "a \<in> set (c_lru ?c)"
    using pinned_entry [OF old(6), of "ThLease a 0" a] by simp_all
  have "ref_inv ?d ths" using old(6) some by (auto simp: ref_inv_def)
  moreover have "flight_inv ?d ths" by (rule flight_inv_mono [OF old(5)]) simp_all
  moreover have "program_inv ?d ths (w_compiled w) (w_closed w @ w_lost w) = program_inv ?c ?o (w_compiled w) (w_closed w @ w_lost w)"
      "load_inv ?d ths = load_inv ?c ?o" "count_inv ?d ?o = count_inv ?c ?o" "close_inv ?d ?o = close_inv ?c ?o"
      "within_limits ?d = within_limits ?c"
    by (simp_all add: inv_defs within_limits_def)
  moreover have "count_inv (endLocked ?d) ths"
    by (rule count_inv_end [of _ "ThLease a 0"]) (use calculation old in simp_all)
  moreover have "close_inv (endLocked ?d) ths"
    by (rule close_inv_end [of _ "ThLease a 0"]) (use calculation old in simp_all)
  ultimately show ?thesis
    using old entries_agree_refs [OF old(3)] by (simp add: world_inv_def Lease_Release_def unconcerned)
qed

lemmas frame_defs = inv_defs entries_agree_def within_limits_def weight_of_def [abs_def] program_of_def [abs_def]

lemma world_inv_admitted:
  assumes inv: "world_inv w" and ths: "w_threads w = add_mset (ThFlight f spec ReservedQueue) ths"
    and room: "has_room (lg_active (c_loadGate (w_cache w)))"
  shows "world_inv (move w ((w_cache w)\<lparr>c_loadGate := wait_admitted (c_loadGate (w_cache w))\<rparr>)
     (add_mset (ThAdmitted f spec) ths))"
proof -
  let ?c = "w_cache w" and ?d = "(w_cache w)\<lparr>c_loadGate := wait_admitted (c_loadGate (w_cache w))\<rparr>"
    and ?o = "add_mset (ThFlight f spec ReservedQueue) ths" and ?n = "add_mset (ThAdmitted f spec) ths"
  note old = world_invD [OF inv refl ths [symmetric]]
  have "count_inv ?d ?n = count_inv ?c ?o" "close_inv ?d ?n = close_inv ?c ?o" "entries_agree ?d = entries_agree ?c"
      "within_limits ?d = within_limits ?c" "flight_inv ?d ?n = flight_inv ?c ?o" "ref_inv ?d ?n = ref_inv ?c ?o"
      "program_inv ?d ?n (w_compiled w) (w_closed w @ w_lost w) = program_inv ?c ?o (w_compiled w) (w_closed w @ w_lost w)"
    by (simp_all add: frame_defs)
  moreover have "load_inv ?d ?n"
    using old(8) room by (simp add: load_inv_def wait_admitted_def has_room_def send_def Let_def)
  ultimately show ?thesis using old by (simp add: world_inv_def)
qed

lemma world_inv_dequeued:
  assumes inv: "world_inv w" and ths: "w_threads w = add_mset (ThAdmitted f spec) ths"
  shows "world_inv (move w ((w_cache w)\<lparr>c_loadGate := wait_dequeued (c_loadGate (w_cache w))\<rparr>)
     (add_mset (ThFlight f spec ReservedActive) ths))"
proof -
  let ?c = "w_cache w" and ?d = "(w_cache w)\<lparr>c_loadGate := wait_dequeued (c_loadGate (w_cache w))\<rparr>"
    and ?o = "add_mset (ThAdmitted f spec) ths" and ?n = "add_mset (ThFlight f spec ReservedActive) ths"
  note old = world_invD [OF inv refl ths [symmetric]]
  have "count_inv ?d ?n = count_inv ?c ?o" "close_inv ?d ?n = close_inv ?c ?o" "entries_agree ?d = entries_agree ?c"
      "within_limits ?d = within_limits ?c" "flight_inv ?d ?n = flight_inv ?c ?o" "ref_inv ?d ?n = ref_inv ?c ?o"
      "program_inv ?d ?n (w_compiled w) (w_closed w @ w_lost w) = program_inv ?c ?o (w_compiled w) (w_closed w @ w_lost w)"
    by (simp_all add: frame_defs)
  moreover have "load_inv ?d ?n"
    using old(8) by (simp add: load_inv_def wait_dequeued_def receive_def Let_def)
  ultimately show ?thesis using old by (simp add: world_inv_def)
qed

lemma world_inv_unqueued:
  assumes inv: "world_inv w" and ths: "w_threads w = add_mset (ThFlight f spec ReservedQueue) ths"
  shows "world_inv (move w ((w_cache w)\<lparr>c_loadGate := wait_cancelled (c_loadGate (w_cache w))\<rparr>)
     (add_mset (ThFlight f spec ReservedNone) ths))"
proof -
  let ?c = "w_cache w" and ?d = "(w_cache w)\<lparr>c_loadGate := wait_cancelled (c_loadGate (w_cache w))\<rparr>"
    and ?o = "add_mset (ThFlight f spec ReservedQueue) ths" and ?n = "add_mset (ThFlight f spec ReservedNone) ths"
  note old = world_invD [OF inv refl ths [symmetric]]
  have "count_inv ?d ?n = count_inv ?c ?o" "close_inv ?d ?n = close_inv ?c ?o" "entries_agree ?d = entries_agree ?c"
      "within_limits ?d = within_limits ?c" "flight_inv ?d ?n = flight_inv ?c ?o" "ref_inv ?d ?n = ref_inv ?c ?o"
      "program_inv ?d ?n (w_compiled w) (w_closed w @ w_lost w) = program_inv ?c ?o (w_compiled w) (w_closed w @ w_lost w)"
    by (simp_all add: frame_defs)
  moreover have "load_inv ?d ?n"
    using old(8) by (simp add: load_inv_def wait_cancelled_def receive_def Let_def)
  ultimately show ?thesis using old by (simp add: world_inv_def)
qed

lemma world_inv_unload:
  assumes inv: "world_inv w" and ths: "w_threads w = add_mset (ThUnload r) ths"
  shows "world_inv (move w ((w_cache w)\<lparr>c_loadGate := reservation_release r (c_loadGate (w_cache w))\<rparr>) (add_mset ThEnd ths))"
proof -
  let ?c = "w_cache w" and ?d = "(w_cache w)\<lparr>c_loadGate := reservation_release r (c_loadGate (w_cache w))\<rparr>"
    and ?o = "add_mset (ThUnload r) ths" and ?n = "add_mset ThEnd ths"
  note old = world_invD [OF inv refl ths [symmetric]]
  have "count_inv ?d ?n = count_inv ?c ?o" "close_inv ?d ?n = close_inv ?c ?o" "entries_agree ?d = entries_agree ?c"
      "within_limits ?d = within_limits ?c" "flight_inv ?d ?n = flight_inv ?c ?o" "ref_inv ?d ?n = ref_inv ?c ?o"
      "program_inv ?d ?n (w_compiled w) (w_closed w @ w_lost w) = program_inv ?c ?o (w_compiled w) (w_closed w @ w_lost w)"
    by (simp_all add: frame_defs)
  moreover have "load_inv ?d ?n"
    using old(8) by (cases r) (simp_all add: load_inv_def reservation_release_def receive_def Let_def)
  ultimately show ?thesis using old by (simp add: world_inv_def)
qed

lemma world_inv_refused:
  assumes inv: "world_inv w" and ths: "w_threads w = add_mset (ThBegun key spec) ths"
    and l: "Acquire_lookup key (w_cache w) = (Inl e, c)"
  shows "world_inv (move w c (add_mset ThEnd ths))"
proof -
  let ?c = "w_cache w" and ?o = "add_mset (ThBegun key spec) ths" and ?n = "add_mset ThEnd ths"
  note old = world_invD [OF inv refl ths [symmetric]]
  obtain s where c: "c = ?c\<lparr>c_stats := s\<rparr>"
  proof -
    have "\<exists>s. c = ?c\<lparr>c_stats := s\<rparr>"
      using l by (auto simp: Acquire_lookup_def gate_reserve_def bump_stats_def Let_def
          split: if_splits option.splits intro: exI [of _ "c_stats ?c"])
    then show ?thesis using that by blast
  qed
  have "count_inv c ?n = count_inv ?c ?o" "close_inv c ?n = close_inv ?c ?o" "entries_agree c = entries_agree ?c"
      "within_limits c = within_limits ?c" "flight_inv c ?n = flight_inv ?c ?o" "ref_inv c ?n = ref_inv ?c ?o"
      "program_inv c ?n (w_compiled w) (w_closed w @ w_lost w) = program_inv ?c ?o (w_compiled w) (w_closed w @ w_lost w)"
      "load_inv c ?n = load_inv ?c ?o"
    unfolding c by (simp_all add: frame_defs)
  with old show ?thesis by (simp add: world_inv_def)
qed

lemma bump_stats_inv [simp]:
  "count_inv (bump_stats g c) = count_inv c" "close_inv (bump_stats g c) = close_inv c"
  "entries_agree (bump_stats g c) = entries_agree c" "within_limits (bump_stats g c) = within_limits c"
  "flight_inv (bump_stats g c) = flight_inv c" "ref_inv (bump_stats g c) = ref_inv c"
  "program_inv (bump_stats g c) = program_inv c" "load_inv (bump_stats g c) = load_inv c"
  by (simp_all add: frame_defs fun_eq_iff)

lemma world_inv_stats: "world_inv (move w (bump_stats g c) ths) = world_inv (move w c ths)"
  by (simp add: world_inv_def)

lemma not_closing_open: "close_inv c ths \<Longrightarrow> \<not> c_closing c \<Longrightarrow> \<not> c_releasing c \<and> \<not> c_released c"
  by (auto simp: close_inv_def)

lemma world_inv_hit:
  assumes inv: "world_inv w" and ths: "w_threads w = add_mset (ThBegun key spec) ths"
    and l: "Acquire_lookup key (w_cache w) = (Inr (LookupHit a), c)"
  shows "world_inv (move w c (add_mset (ThLease a 0) ths))"
proof -
  let ?c = "w_cache w" and ?o = "add_mset (ThBegun key spec) ths" and ?n = "add_mset (ThLease a 0) ths"
  let ?u = "upd_entry a (add_refs 1) ?c"
  note old = world_invD [OF inv refl ths [symmetric]]
  have key: "\<not> c_closing ?c" "fmlookup (c_entries ?c) key = Some a"
    and c: "c = bump_stats (\<lambda>s. s\<lparr>st_Hits := st_Hits s + 1\<rparr>) (?u\<lparr>c_lru := a # remove1 a (c_lru ?c)\<rparr>)"
    using l by (auto simp: Acquire_lookup_def Let_def split: if_splits option.splits prod.splits sum.splits)
  have a: "a \<in> set (c_lru ?c)" "fmlookup (c_entryStore ?c) a \<noteq> None" "distinct (c_lru ?c)"
    using old(3) key(2) unfolding entries_agree_def by blast+
  have lru: "mset (c_lru c) = mset (c_lru ?c)" using a(1) by (simp add: c)
  then have "set (c_lru c) = set (c_lru ?c)" "length (c_lru c) = length (c_lru ?c)" "distinct (c_lru c)"
    using a(3) mset_eq_setD mset_eq_length mset_eq_imp_distinct_iff by blast+
  note lru = lru this
  have fields: "c_entries c = c_entries ?c" "c_entryStore c = c_entryStore ?u" "c_currentWeight c = c_currentWeight ?c"
      "c_nextAddress c = c_nextAddress ?c" "weight_of c = weight_of ?c" "program_of c = program_of ?c"
    using of_upd_entry [of a 1 ?c] by (simp_all add: c weight_of_def [abs_def] program_of_def [abs_def])
  have sum: "sum_list (map (weight_of ?c) (c_lru c)) = sum_list (map (weight_of ?c) (c_lru ?c))"
    using arg_cong [OF lru(1), of "\<lambda>m. sum_mset (image_mset (weight_of ?c) m)"] by (simp flip: sum_mset_sum_list)
  have "entries_agree c"
    using entries_agree_refs [OF old(3), of a 1] unfolding entries_agree_def fields lru(2) sum by (simp add: lru(4))
  moreover have "within_limits c" using old(4) unfolding within_limits_def fields lru(3) by (simp add: c)
  moreover have "count_inv c ?n = count_inv ?c ?o" "load_inv c ?n = load_inv ?c ?o" by (simp_all add: inv_defs c)
  moreover have "close_inv c ?n" using old(2) not_closing_open [OF old(2) key(1)] by (simp add: close_inv_def c)
  moreover have "flight_inv c ?n" by (rule flight_inv_mono [OF old(5)]) (simp_all add: c)
  moreover have "ref_inv c ?n" using old(6) a(1,2) by (auto simp: ref_inv_def fields lru) (simp_all add: c)
  moreover have "program_inv c ?n (w_compiled w) (w_closed w @ w_lost w)"
    using old(7) lru(1) by (simp add: program_inv_def fields) (simp add: c)
  ultimately show ?thesis using old by (simp add: world_inv_def)
qed

text \<open>A change of a flight that is not its end.\<close>

lemma pins_upd_flight:
  assumes "\<And>fl. fl_finished (g fl) = fl_finished fl \<and> fl_entry (g fl) = fl_entry fl"
  shows "pins (c_flightStore (upd_flight f g c)) = pins (c_flightStore c)"
proof (intro ext)
  show "pins (c_flightStore (upd_flight f g c)) a th = pins (c_flightStore c) a th" for a th
    using assms by (cases th) (auto split: option.splits)
qed

lemma flight_inv_upd:
  assumes inv: "flight_inv c ths" and fl: "fmlookup (c_flightStore c) f = Some fl"
    and g: "\<And>fl. fl_key (g fl) = fl_key fl \<and> fl_finished (g fl) = fl_finished fl \<and> fl_entry (g fl) = fl_entry fl \<and> fl_err (g fl) = fl_err fl"
    and flies: "\<And>h. tally (flies h) ths' = tally (flies h) ths"
    and others: "\<And>h. h \<noteq> f \<Longrightarrow> tally (awaits h) ths' = tally (awaits h) ths"
    and waiters: "tally (awaits f) ths' \<le> fl_waiters (g fl)" "\<not> fl_finished fl \<Longrightarrow> fl_waiters (g fl) = tally (awaits f) ths'"
  shows "flight_inv (upd_flight f g c) ths'"
proof (rule flight_invI, unfold upd_flight_fields fmlookup_upd_flight flies)
  note F = flight_invD [OF inv]
  let ?look = "\<lambda>h. if f = h then map_option g (fmlookup (c_flightStore c) h) else fmlookup (c_flightStore c) h"
  show "fmlookup (c_entries c) k = None \<and> (\<exists>fl. ?look h = Some fl \<and> fl_key fl = k \<and> \<not> fl_finished fl)"
    if "fmlookup (c_flights c) k = Some h" for k h
    using F(1) [OF that] g by auto
  show "tally (flies h) ths = of_bool (flying (c_flightStore (upd_flight f g c)) h)" for h
    using F(2) [of h] g fl by (cases "h = f") (simp_all add: flying_def)
  show "tally (awaits h) ths' \<le> waiters_of (c_flightStore (upd_flight f g c)) h" for h
    using F(3) [of h] others [of h] waiters(1) fl by (cases "h = f") (simp_all add: waiters_of_def)
  show "h < c_nextAddress c" if "?look h = Some hl" for h hl
    using F(4) [of h] that fl by (auto split: if_splits)
  show "fl_waiters hl = tally (awaits h) ths' \<and> fmlookup (c_flights c) (fl_key hl) = Some h \<and> fl_entry hl = None"
    if "?look h = Some hl" "\<not> fl_finished hl" for h hl
  proof (cases "h = f")
    case True
    with that(1) fl have "hl = g fl" by simp
    then show ?thesis using F(5) [OF fl] that(2) g [of fl] waiters(2) True by simp
  next
    case False
    with that(1) have "fmlookup (c_flightStore c) h = Some hl" by simp
    then show ?thesis using F(5) [OF _ that(2)] others [OF False] by simp
  qed
  show "(fl_err hl = None \<longleftrightarrow> fl_entry hl \<noteq> None) \<and> (\<forall>a. fl_entry hl = Some a \<longrightarrow> fmlookup (c_entryStore c) a \<noteq> None)"
    if "?look h = Some hl" "fl_finished hl" for h hl
  proof (cases "h = f")
    case True
    with that(1) fl have "hl = g fl" by simp
    then show ?thesis using F(6) [OF fl] that(2) g [of fl] by simp
  next
    case False
    with that(1) have "fmlookup (c_flightStore c) h = Some hl" by simp
    then show ?thesis using F(6) [OF _ that(2)] by simp
  qed
qed

lemma world_inv_join:
  assumes inv: "world_inv w" and ths: "w_threads w = add_mset (ThBegun key spec) ths"
    and l: "Acquire_lookup key (w_cache w) = (Inr (LookupJoin f), c)"
  shows "world_inv (move w c (add_mset (ThAwait f True) ths))"
proof -
  let ?c = "w_cache w" and ?o = "add_mset (ThBegun key spec) ths" and ?n = "add_mset (ThAwait f True) ths"
  let ?g = "\<lambda>fl. fl\<lparr>fl_waiters := fl_waiters fl + 1\<rparr>"
  let ?u = "upd_flight f ?g ?c"
  note old = world_invD [OF inv refl ths [symmetric]]
  have key: "fmlookup (c_flights ?c) key = Some f"
    and c: "c = bump_stats (\<lambda>s. s\<lparr>st_Coalesced := st_Coalesced s + 1\<rparr>) ?u"
    using l by (auto simp: Acquire_lookup_def Let_def split: if_splits option.splits prod.splits sum.splits)
  obtain fl where fl: "fmlookup (c_flightStore ?c) f = Some fl" "\<not> fl_finished fl"
    using flight_invD(1) [OF old(5) key] by blast
  have w: "fl_waiters fl = tally (awaits f) ths" using flight_invD(5) [OF old(5) fl] by simp
  have "flight_inv ?u ?n" by (rule flight_inv_upd [OF old(5) fl(1)]) (use w in simp_all)
  moreover have "ref_inv ?u ?n"
    using old(6) fl pins_upd_flight [of ?g f ?c] by (simp add: ref_inv_def)
  moreover have "count_inv ?u ?n = count_inv ?c ?o" "close_inv ?u ?n = close_inv ?c ?o" "entries_agree ?u = entries_agree ?c"
      "within_limits ?u = within_limits ?c" "load_inv ?u ?n = load_inv ?c ?o"
      "program_inv ?u ?n (w_compiled w) (w_closed w @ w_lost w) = program_inv ?c ?o (w_compiled w) (w_closed w @ w_lost w)"
    by (simp_all add: frame_defs)
  ultimately have "world_inv (move w ?u ?n)" using old by (simp add: world_inv_def)
  then show ?thesis by (simp only: c world_inv_stats)
qed

lemma awaited_flight:
  assumes inv: "flight_inv c (add_mset (ThAwait f co) ths)"
  obtains fl where "fmlookup (c_flightStore c) f = Some fl" "tally (awaits f) ths \<le> fl_waiters fl - 1" "fl_waiters fl \<noteq> 0"
proof -
  have le: "1 + tally (awaits f) ths \<le> waiters_of (c_flightStore c) f" using flight_invD(3) [OF inv, of f] by simp
  with tally_nonneg [of "awaits f" ths] obtain fl where "fmlookup (c_flightStore c) f = Some fl"
    by (auto simp: waiters_of_def split: option.splits)
  with le tally_nonneg [of "awaits f" ths] that show thesis by (auto simp: waiters_of_def)
qed

lemma world_inv_abandon:
  assumes inv: "world_inv w" and ths: "w_threads w = add_mset (ThAwait f co) ths"
  shows "world_inv (move w (abandonFlight f (w_cache w)) (add_mset ThEnd ths))"
proof -
  let ?c = "w_cache w" and ?o = "add_mset (ThAwait f co) ths" and ?n = "add_mset ThEnd ths"
  note old = world_invD [OF inv refl ths [symmetric]]
  obtain fl where fl: "fmlookup (c_flightStore ?c) f = Some fl" "tally (awaits f) ths \<le> fl_waiters fl - 1" "fl_waiters fl \<noteq> 0"
    by (rule awaited_flight [OF old(5)])
  define g where "g = (\<lambda>x :: flight. x\<lparr>fl_waiters := fl_waiters fl - 1,
      fl_cancelled := fl_cancelled x \<or> (\<not> fl_finished x \<and> fl_waiters fl - 1 = 0)\<rparr>)"
  let ?u = "upd_flight f g ?c"
  have g: "fl_key (g x) = fl_key x \<and> fl_finished (g x) = fl_finished x \<and> fl_entry (g x) = fl_entry x \<and> fl_err (g x) = fl_err x"
    "fl_waiters (g x) = fl_waiters fl - 1" for x
    by (simp_all add: g_def)
  have flights: "flight_inv ?u ?n"
    by (rule flight_inv_upd [OF old(5) fl(1) g(1)])
      (use fl(2) flight_invD(5) [OF old(5) fl(1)] in \<open>auto simp: g(2)\<close>)
  have pins: "pins (c_flightStore ?u) = pins (c_flightStore ?c)" using g(1) by (intro pins_upd_flight) simp
  have same: "count_inv ?u ?n = count_inv ?c ?o" "close_inv ?u ?n = close_inv ?c ?o" "entries_agree ?u = entries_agree ?c"
      "within_limits ?u = within_limits ?c" "load_inv ?u ?n = load_inv ?c ?o"
      "program_inv ?u ?n (w_compiled w) (w_closed w @ w_lost w) = program_inv ?c ?o (w_compiled w) (w_closed w @ w_lost w)"
    by (simp_all add: frame_defs)
  show ?thesis
  proof (cases "fl_finished fl \<and> fl_entry fl \<noteq> None")
    case True
    then obtain a where a: "fl_finished fl" "fl_entry fl = Some a" by blast
    let ?v = "upd_entry a (add_refs (- 1)) ?u"
    have some: "fmlookup (c_entryStore ?c) a \<noteq> None" "a \<in> set (c_lru ?c)"
      using pinned_entry [OF old(6), of "ThAwait f co" a] a fl(1) by simp_all
    have "ref_inv ?v ?n" using old(6) some a fl(1) by (auto simp: ref_inv_def pins)
    moreover have "flight_inv ?v ?n" by (rule flight_inv_mono [OF flights]) simp_all
    moreover have "count_inv ?v ?n = count_inv ?u ?n" "close_inv ?v ?n = close_inv ?u ?n" "load_inv ?v ?n = load_inv ?u ?n"
        "within_limits ?v = within_limits ?u"
        "program_inv ?v ?n (w_compiled w) (w_closed w @ w_lost w) = program_inv ?u ?n (w_compiled w) (w_closed w @ w_lost w)"
      by (simp_all add: inv_defs within_limits_def)
    moreover have "entries_agree ?v" by (rule entries_agree_refs) (use same old in simp)
    ultimately have "world_inv (move w ?v ?n)" using same old by (simp add: world_inv_def)
    then show ?thesis using fl a by (simp add: abandonFlight_def Let_def g_def)
  next
    case False
    then have "pins (c_flightStore ?c) a (ThAwait f co) = False" for a using fl(1) by auto
    then have "ref_inv ?u ?n" using old(6) by (simp add: ref_inv_def pins)
    then have "world_inv (move w ?u ?n)" using flights same old by (simp add: world_inv_def)
    then show ?thesis using fl False by (auto simp: abandonFlight_def Let_def g_def split: option.split)
  qed
qed

lemma pins_new_flight: "fmlookup fs f = None \<Longrightarrow> \<not> fl_finished fl \<Longrightarrow> pins (fmupd f fl fs) = pins fs"
proof (intro ext)
  show "pins (fmupd f fl fs) a th = pins fs a th" if "fmlookup fs f = None" "\<not> fl_finished fl" for a th
    using that by (cases th) (auto split: option.splits)
qed

lemma world_inv_start:
  assumes inv: "world_inv w" and ths: "w_threads w = add_mset (ThBegun key spec) ths"
    and l: "Acquire_lookup key (w_cache w) = (Inr (LookupStart f r), c)"
  shows "world_inv (move w c (add_mset (ThFlight f spec r) (add_mset (ThAwait f False) ths)))"
proof -
  let ?c = "w_cache w" and ?o = "add_mset (ThBegun key spec) ths"
    and ?m = "add_mset (ThAwait f False) ths" and ?n = "add_mset (ThFlight f spec r) (add_mset (ThAwait f False) ths)"
  note old = world_invD [OF inv refl ths [symmetric]]
  define fl where "fl = \<lparr>fl_key = key, fl_cancelled = False, fl_waiters = 1, fl_finished = False,
      fl_entry = None, fl_result = key_result key, fl_err = None\<rparr>"
  define d where "d = ?c\<lparr>c_loadGate := snd (gate_reserve (c_loadGate ?c)), c_nextAddress := Suc f,
      c_flights := fmupd key f (c_flights ?c), c_flightStore := fmupd f fl (c_flightStore ?c)\<rparr>"
  have open_c: "\<not> c_closing ?c" "fmlookup (c_entries ?c) key = None" "fmlookup (c_flights ?c) key = None"
      "f = c_nextAddress ?c" "fst (gate_reserve (c_loadGate ?c)) = Inr r"
    and c: "c = bump_stats (\<lambda>s. s\<lparr>st_Misses := st_Misses s + 1\<rparr>) (startLocked d)"
    using l by (auto simp: Acquire_lookup_def Let_def d_def fl_def startLocked_def bump_stats_def
        split: if_splits option.splits prod.splits sum.splits)
  have new: "fmlookup (c_flightStore ?c) f = None" using flight_invD(4) [OF old(5), of f] open_c(4) by (metis less_irrefl not_Some_eq)
  have none: "tally (flies f) ths = 0" "tally (awaits f) ths = 0"
    using flight_invD(2,3) [OF old(5), of f] tally_nonneg [of "awaits f" ths] new by (simp_all add: flying_def waiters_of_def)
  have "flight_inv d ?n"
  proof (rule flight_invI)
    note F = flight_invD [OF old(5)]
    show "fmlookup (c_entries d) k = None \<and> (\<exists>fl. fmlookup (c_flightStore d) h = Some fl \<and> fl_key fl = k \<and> \<not> fl_finished fl)"
      if "fmlookup (c_flights d) k = Some h" for k h
      using F(1) [of k h] that open_c new by (cases "k = key") (auto simp: d_def fl_def)
    show "tally (flies h) ?n = of_bool (flying (c_flightStore d) h)" for h
      using F(2) [of h] none by (cases "h = f") (simp_all add: d_def fl_def flying_def)
    show "tally (awaits h) ?n \<le> waiters_of (c_flightStore d) h" for h
      using F(3) [of h] none by (cases "h = f") (simp_all add: d_def fl_def waiters_of_def)
    show "h < c_nextAddress d" if "fmlookup (c_flightStore d) h = Some hl" for h hl
      using F(4) [of h hl] that open_c(4) by (cases "h = f") (simp_all add: d_def)
    show "fl_waiters hl = tally (awaits h) ?n \<and> fmlookup (c_flights d) (fl_key hl) = Some h \<and> fl_entry hl = None"
      if "fmlookup (c_flightStore d) h = Some hl" "\<not> fl_finished hl" for h hl
      using F(5) [of h hl] that none open_c(3) by (cases "h = f") (auto simp: d_def fl_def)
    show "(fl_err hl = None \<longleftrightarrow> fl_entry hl \<noteq> None) \<and> (\<forall>a. fl_entry hl = Some a \<longrightarrow> fmlookup (c_entryStore d) a \<noteq> None)"
      if "fmlookup (c_flightStore d) h = Some hl" "fl_finished hl" for h hl
      using F(6) [of h hl] that by (cases "h = f") (auto simp: d_def fl_def)
  qed
  moreover have "ref_inv d ?n"
    using old(6) new pins_new_flight [OF new, of fl] by (simp add: ref_inv_def d_def fl_def)
  moreover have "load_inv d ?n"
    using old(8) open_c(5) by (auto simp: load_inv_def d_def gate_reserve_def has_room_def send_def Let_def split: if_splits)
  moreover have "program_inv d ?n (w_compiled w) (w_closed w @ w_lost w)" using old(7) by (simp add: program_inv_def d_def program_of_def [abs_def])
  moreover have "entries_agree d"
    using old(3) open_c(4) unfolding entries_agree_def by (auto simp: d_def weight_of_def [abs_def] intro: less_SucI)
  moreover have "within_limits d" using old(4) by (simp add: within_limits_def d_def)
  moreover have "count_inv d ?m = count_inv ?c ?o" "close_inv d ?m = close_inv ?c ?o" by (simp_all add: inv_defs d_def)
  moreover have "count_inv (startLocked d) ?n"
    by (rule count_inv_start) (use calculation old open_c(1) in \<open>simp_all add: d_def\<close>)
  moreover have "close_inv (startLocked d) ?n"
    by (rule close_inv_open) (use calculation old open_c(1) in \<open>simp_all add: d_def\<close>)
  ultimately have "world_inv (move w (startLocked d) ?n)" by (simp add: world_inv_def unconcerned)
  then show ?thesis by (simp only: c world_inv_stats)
qed

text \<open>Cancelling the flights changes nothing the invariant speaks of.\<close>

lemma fmlookup_cancel:
  "\<exists>b. fmlookup (c_flightStore (cancelFlightsLocked c)) f =
     map_option (\<lambda>fl. fl\<lparr>fl_cancelled := fl_cancelled fl \<or> b\<rparr>) (fmlookup (c_flightStore c) f)"
  by (rule exI [of _ "f |\<in>| fmran (c_flights c)"])
    (cases "fmlookup (c_flightStore c) f"; simp add: cancelFlightsLocked_def)

lemma cancel_same:
  "pins (c_flightStore (cancelFlightsLocked c)) = pins (c_flightStore c)"
  "waiters_of (c_flightStore (cancelFlightsLocked c)) = waiters_of (c_flightStore c)"
  "flying (c_flightStore (cancelFlightsLocked c)) = flying (c_flightStore c)"
proof -
  have look: "\<exists>b. fmlookup (c_flightStore (cancelFlightsLocked c)) f =
     map_option (\<lambda>fl. fl\<lparr>fl_cancelled := fl_cancelled fl \<or> b\<rparr>) (fmlookup (c_flightStore c) f)" for f
    by (rule fmlookup_cancel)
  show "pins (c_flightStore (cancelFlightsLocked c)) = pins (c_flightStore c)"
  proof (intro ext)
    show "pins (c_flightStore (cancelFlightsLocked c)) a th = pins (c_flightStore c) a th" for a th
    proof (cases th)
      case (ThAwait f co)
      then show ?thesis using look [of f] by (auto split: option.splits)
    qed simp_all
  qed
  show "waiters_of (c_flightStore (cancelFlightsLocked c)) = waiters_of (c_flightStore c)"
  proof
    show "waiters_of (c_flightStore (cancelFlightsLocked c)) f = waiters_of (c_flightStore c) f" for f
      using look [of f] by (auto simp: waiters_of_def split: option.splits)
  qed
  show "flying (c_flightStore (cancelFlightsLocked c)) = flying (c_flightStore c)"
  proof
    show "flying (c_flightStore (cancelFlightsLocked c)) f = flying (c_flightStore c) f" for f
      using look [of f] by (auto simp: flying_def split: option.splits)
  qed
qed

lemma flight_inv_cancel:
  assumes inv: "flight_inv c ths"
  shows "flight_inv (cancelFlightsLocked c) ths"
proof (rule flight_invI, unfold cancelFlightsLocked_fields cancel_same)
  note F = flight_invD [OF inv]
  have some: "\<exists>gl. fmlookup (c_flightStore c) f = Some gl \<and> fl_key fl = fl_key gl \<and> fl_finished fl = fl_finished gl
      \<and> fl_waiters fl = fl_waiters gl \<and> fl_entry fl = fl_entry gl \<and> fl_err fl = fl_err gl"
    if "fmlookup (c_flightStore (cancelFlightsLocked c)) f = Some fl" for f fl
    using fmlookup_cancel [of c f] that by (cases "fmlookup (c_flightStore c) f") auto
  show "fmlookup (c_entries c) k = None \<and>
      (\<exists>fl. fmlookup (c_flightStore (cancelFlightsLocked c)) f = Some fl \<and> fl_key fl = k \<and> \<not> fl_finished fl)"
    if "fmlookup (c_flights c) k = Some f" for k f
    using F(1) [OF that] fmlookup_cancel [of c f] by auto
  show "f < c_nextAddress c" if "fmlookup (c_flightStore (cancelFlightsLocked c)) f = Some fl" for f fl
    using some [OF that] F(4) by blast
  show "fl_waiters fl = tally (awaits f) ths \<and> fmlookup (c_flights c) (fl_key fl) = Some f \<and> fl_entry fl = None"
    if "fmlookup (c_flightStore (cancelFlightsLocked c)) f = Some fl" "\<not> fl_finished fl" for f fl
    using some [OF that(1)] F(5) that(2) by fastforce
  show "(fl_err fl = None \<longleftrightarrow> fl_entry fl \<noteq> None) \<and> (\<forall>a. fl_entry fl = Some a \<longrightarrow> fmlookup (c_entryStore c) a \<noteq> None)"
    if "fmlookup (c_flightStore (cancelFlightsLocked c)) f = Some fl" "fl_finished fl" for f fl
    using some [OF that(1)] F(6) that(2) by fastforce
qed (rule flight_invD [OF inv])+

text \<open>Setting \<open>closing\<close>, with programs that did not close handed back.\<close>

lemma world_inv_closing:
  assumes inv: "count_inv c ths" "close_inv c ths" "entries_agree c" "within_limits c" "flight_inv c ths" "ref_inv c ths" "load_inv c ths"
    and pending: "pending = c_closePending c \<or> \<not> c_releasing c \<and> \<not> c_released c"
    and d: "d = cancelFlightsLocked (c\<lparr>c_closePending := pending, c_closing := True\<rparr>)"
  shows "count_inv d ths" "close_inv d ths" "entries_agree d" "within_limits d" "flight_inv d ths" "ref_inv d ths" "load_inv d ths"
proof -
  let ?c = "c\<lparr>c_closePending := pending, c_closing := True\<rparr>"
  have "flight_inv ?c ths" using inv(5) by (rule flight_inv_mono) simp_all
  then show "flight_inv d ths" unfolding d by (rule flight_inv_cancel)
  show "ref_inv d ths" using inv(6) by (simp add: d ref_inv_def cancel_same)
  show "count_inv d ths" using inv(1) by (auto simp: d count_inv_def)
  show "close_inv d ths" using inv(2) pending by (auto simp: d close_inv_def)
  show "entries_agree d" "within_limits d" "load_inv d ths"
    using inv(3,4,7) by (simp_all add: d entries_agree_def within_limits_def weight_of_def [abs_def] load_inv_def)
qed

lemma world_inv_evicted:
  assumes inv: "world_inv w" and ths: "w_threads w = add_mset (ThEvicted programs r) ths"
  shows "world_inv ((move w (closeEvicted_failed (filter bad programs) (w_cache w)) (add_mset (ThUnload r) ths))
     \<lparr>w_closed := w_closed w @ filter (\<lambda>p. \<not> bad p) programs\<rparr>)"
proof -
  let ?c = "w_cache w" and ?o = "add_mset (ThEvicted programs r) ths" and ?n = "add_mset (ThUnload r) ths"
  let ?good = "w_closed w @ filter (\<lambda>p. \<not> bad p) programs" and ?bad = "filter bad programs"
  note old = world_invD [OF inv refl ths [symmetric]]
  have same: "count_inv ?c ?n = count_inv ?c ?o" "close_inv ?c ?n = close_inv ?c ?o" "flight_inv ?c ?n = flight_inv ?c ?o"
      "ref_inv ?c ?n = ref_inv ?c ?o" "load_inv ?c ?n = load_inv ?c ?o"
    by (simp_all add: inv_defs)
  have open_c: "\<not> c_releasing ?c \<and> \<not> c_released ?c" using old(2) active_positive [OF old(1)] by (auto simp: close_inv_def)
  define B G where "B = mset ?bad" and "G = mset (filter (\<lambda>p. \<not> bad p) programs)"
  have parts: "mset programs = B + G" by (simp add: B_def G_def)
  show ?thesis
  proof (cases "?bad = []")
    case True
    then have "B = {#}" by (simp add: B_def)
    then have "program_inv ?c ?n (w_compiled w) (?good @ w_lost w)"
      using old(7) by (simp add: program_inv_def parts G_def [symmetric] ac_simps del: mset_filter)
    then show ?thesis using True same old by (simp add: world_inv_def closeEvicted_failed_def)
  next
    case False
    define d where "d = cancelFlightsLocked (?c\<lparr>c_closePending := c_closePending ?c @ ?bad, c_closing := True\<rparr>)"
    have e: "closeEvicted_failed ?bad ?c = bump_stats
        (\<lambda>s. s\<lparr>st_CloseErrors := st_CloseErrors s + of_nat (length ?bad)\<rparr>) d"
      using False by (simp add: closeEvicted_failed_def d_def bump_stats_def cancelFlightsLocked_def)
    have "program_inv d ?n (w_compiled w) (?good @ w_lost w)"
      using old(7) by (simp add: program_inv_def d_def program_of_def [abs_def] parts B_def [symmetric] G_def [symmetric] ac_simps del: mset_filter)
    moreover note world_inv_closing [OF same(1) [THEN iffD2, OF old(1)] same(2) [THEN iffD2, OF old(2)] old(3,4)
        same(3) [THEN iffD2, OF old(5)] same(4) [THEN iffD2, OF old(6)] same(5) [THEN iffD2, OF old(8)] _ d_def]
    ultimately have "world_inv ((move w d ?n)\<lparr>w_closed := ?good\<rparr>)" using open_c by (simp add: world_inv_def)
    then show ?thesis by (simp add: e world_inv_def)
  qed
qed

lemma world_inv_set_closing:
  assumes inv: "world_inv w"
  shows "world_inv (w\<lparr>w_cache := cancelFlightsLocked ((w_cache w)\<lparr>c_closing := True\<rparr>)\<rparr>)"
proof -
  let ?c = "w_cache w"
  define d where "d = cancelFlightsLocked (?c\<lparr>c_closePending := c_closePending ?c, c_closing := True\<rparr>)"
  note old = world_invD [OF inv refl refl]
  have "program_inv d (w_threads w) (w_compiled w) (w_closed w @ w_lost w)"
    using old(7) by (simp add: program_inv_def d_def program_of_def [abs_def])
  with world_inv_closing [OF old(1-6,8) _ d_def] have "world_inv (w\<lparr>w_cache := d\<rparr>)" by (simp add: world_inv_def)
  then show ?thesis by (simp add: d_def)
qed

lemma Close_enter_cache:
  "snd (Close_enter c) = c \<and> (c_released c \<or> c_closing c) \<or> snd (Close_enter c) = cancelFlightsLocked (c\<lparr>c_closing := True\<rparr>)"
  by (auto simp: Close_enter_def Let_def)

lemma world_inv_close_waits:
  assumes inv: "world_inv w" and "Close_enter (w_cache w) = (next, c)"
  shows "world_inv (w\<lparr>w_cache := c\<rparr>)"
  using Close_enter_cache [of "w_cache w"] world_inv_set_closing [OF inv] inv assms(2) by auto

lemma world_inv_close:
  assumes inv: "world_inv w" and e: "Close_enter (w_cache w) = (CloseAwaitDrained ch, c)"
  shows "world_inv (move w c (add_mset (ThClose ch) (w_threads w)))"
proof -
  let ?n = "add_mset (ThClose ch) (w_threads w)"
  have ch: "ch = c_drained c" "c_closing c" using e by (auto simp: Close_enter_def Let_def split: if_splits)
  note old = world_invD [OF world_inv_close_waits [OF inv e] refl refl, simplified]
  have "close_inv c ?n = close_inv c (w_threads w)" "flight_inv c ?n = flight_inv c (w_threads w)"
      "ref_inv c ?n = ref_inv c (w_threads w)" "load_inv c ?n = load_inv c (w_threads w)"
      "program_inv c ?n (w_compiled w) (w_closed w @ w_lost w) = program_inv c (w_threads w) (w_compiled w) (w_closed w @ w_lost w)"
    by (simp_all add: inv_defs)
  moreover have "count_inv c ?n" using old(1) ch by (auto simp: count_inv_def)
  ultimately show ?thesis using old by (simp add: world_inv_def)
qed

text \<open>What \<open>Close\<close> detaches are the programs of all entries.\<close>

lemma detached_programs:
  assumes agree: "entries_agree c" and order: "visits order (c_entries c)"
  shows "mset (fst (detachProgramsLocked order c)) = mset (map (program_of c) (c_lru c))"
proof -
  let ?at = "\<lambda>k. the (fmlookup (c_entries c) k)"
  have entry: "\<exists>a e. fmlookup (c_entries c) k = Some a \<and> fmlookup (c_entryStore c) a = Some e" if "k \<in> set order" for k
    using that order agree unfolding visits_def entries_agree_def by fastforce
  have "fst (detachProgramsLocked order c) = map (\<lambda>k. program_of c (?at k)) order"
    using entry unfolding detachProgramsLocked_def
    by (induction order) (force simp: map_filter_simps program_of_def)+
  also have "\<dots> = map (program_of c) (map ?at order)" by simp
  also have "mset \<dots> = mset (map (program_of c) (c_lru c))"
  proof -
    have "distinct (map ?at order)"
      using order entries_inj [OF agree] entry by (auto simp: visits_def distinct_map inj_on_def)
    moreover have "set (map ?at order) = set (c_lru c)"
      using order agree unfolding visits_def entries_agree_def by (force simp: image_iff)
    moreover have "distinct (c_lru c)" using agree by (simp add: entries_agree_def)
    ultimately have "mset (map ?at order) = mset (c_lru c)" using set_eq_iff_mset_eq_distinct by blast
    then show ?thesis by (metis mset_map)
  qed
  finally show ?thesis .
qed

lemma pins_counted: "pins fs a th \<Longrightarrow> counted th"
  by (cases th) auto

lemma idle_refs:
  assumes "count_inv c ths" and "c_active c = 0" and "ref_inv c ths"
  shows "refs_of (c_entryStore c) a = 0"
proof -
  have "tally (pins (c_flightStore c) a) ths \<le> tally counted ths" by (rule tally_mono) (simp add: pins_counted)
  then show ?thesis
    using assms tally_nonneg [of "pins (c_flightStore c) a" ths] by (simp add: count_inv_def ref_inv_def)
qed

lemma world_inv_detach:
  assumes inv: "world_inv w" and ths: "w_threads w = add_mset (ThClose ch) ths"
    and drained: "ch |\<in>| c_closed (w_cache w)" and idle: "\<not> c_releasing (w_cache w)"
    and order: "visits order (c_entries (w_cache w))" and d: "Close_detach order (w_cache w) = (programs, c)"
  shows "world_inv (move w c (add_mset (ThRelease programs (c_releaseDone c)) ths))"
proof -
  let ?c = "w_cache w" and ?o = "add_mset (ThClose ch) ths" and ?n = "add_mset (ThRelease programs (c_releaseDone c)) ths"
  note old = world_invD [OF inv refl ths [symmetric]]
  have c: "c = ?c\<lparr>c_entries := fmempty, c_lru := [], c_currentWeight := 0, c_closePending := [], c_releasing := True,
      c_releaseDone := c_nextChannel ?c, c_nextChannel := Suc (c_nextChannel ?c)\<rparr>"
    and programs: "programs = fst (detachProgramsLocked order ?c) @ c_closePending ?c"
    using d by (auto simp: Close_detach_def detachProgramsLocked_def)
  have zero: "c_active ?c = 0" "c_closing ?c" using old(1) drained by (auto simp: count_inv_def)
  have empty: "programs = []" if "c_released ?c"
    using old(2) that order by (auto simp: programs close_inv_def visits_def detachProgramsLocked_def)
  have "count_inv c ?n" using old(1) by (auto simp: count_inv_def c intro: less_SucI)
  moreover have "close_inv c ?n"
    using old(2) idle zero empty by (auto simp: close_inv_def c)
  moreover have "entries_agree c" using old(3) by (simp add: entries_agree_def c)
  moreover have "within_limits c" using old(4) by (simp add: within_limits_def c)
  moreover have "flight_inv c ?n" by (rule flight_inv_mono [OF old(5)]) (simp_all add: c)
  moreover have "ref_inv c ?n" using old(6) idle_refs [OF old(1) zero(1) old(6)] by (simp add: ref_inv_def c)
  moreover have "program_inv c ?n (w_compiled w) (w_closed w @ w_lost w)"
    using old(7) detached_programs [OF old(3) order] by (simp add: program_inv_def programs ac_simps) (simp add: c)
  moreover have "load_inv c ?n" using old(8) by (simp add: load_inv_def c)
  ultimately show ?thesis by (simp add: world_inv_def)
qed

lemma world_inv_closed:
  assumes inv: "world_inv w" and ths: "w_threads w = add_mset (ThRelease programs ch) ths"
  shows "world_inv ((move w (Close_finish (filter bad programs) ch (w_cache w)) ths)
     \<lparr>w_closed := w_closed w @ filter (\<lambda>p. \<not> bad p) programs\<rparr>)"
proof -
  let ?c = "w_cache w" and ?o = "add_mset (ThRelease programs ch) ths"
  let ?good = "w_closed w @ filter (\<lambda>p. \<not> bad p) programs" and ?bad = "filter bad programs"
  note old = world_invD [OF inv refl ths [symmetric]]
  define d where "d = ?c\<lparr>c_closePending := ?bad, c_releasing := False, c_released := c_released ?c \<or> ?bad = [],
      c_closed := finsert ch (c_closed ?c)\<rparr>"
  have fin: "\<exists>g. Close_finish ?bad ch ?c = bump_stats g d"
    by (rule exI [of _ "if ?bad = [] then id else (\<lambda>s. s\<lparr>st_CloseErrors := st_CloseErrors s + of_nat (length ?bad)\<rparr>)"])
      (simp add: Close_finish_def d_def bump_stats_def Let_def)
  have rel: "c_releasing ?c" "tally releases ths = 0"
    using old(2) tally_nonneg [of releases ths] by (cases "c_releasing ?c"; simp add: close_inv_def)+
  then have none: "ThRelease ps k \<notin># ths" for ps k by (auto simp: tally_zero)
  have zero: "c_active ?c = 0" "c_closing ?c" "c_entries ?c = fmempty" "c_lru ?c = []" "c_closePending ?c = []"
    using old(2) rel(1) by (simp_all add: close_inv_def)
  have empty: "c_released ?c \<Longrightarrow> programs = []" using old(2) by (auto simp: close_inv_def)
  define B G where "B = mset ?bad" and "G = mset (filter (\<lambda>p. \<not> bad p) programs)"
  have parts: "mset programs = B + G" by (simp add: B_def G_def)
  have "count_inv d ths" using old(1) zero(1) by (auto simp: count_inv_def d_def)
  moreover have "close_inv d ths" using zero rel(2) none empty by (auto simp: close_inv_def d_def)
  moreover have "entries_agree d = entries_agree ?c" "within_limits d = within_limits ?c" "flight_inv d ths = flight_inv ?c ?o"
      "ref_inv d ths = ref_inv ?c ?o" "load_inv d ths = load_inv ?c ?o"
    by (simp_all add: frame_defs d_def)
  moreover have "program_inv d ths (w_compiled w) (?good @ w_lost w)"
    using old(7) zero(4,5) by (simp add: program_inv_def d_def parts B_def [symmetric] G_def [symmetric] ac_simps del: mset_filter)
  ultimately show ?thesis using old fin by (auto simp: world_inv_def)
qed

text \<open>The end of a flight.\<close>

lemma pins_finished:
  assumes "fmlookup fs f = Some fl" and "\<not> fl_finished fl" and "fl_finished fl'"
  shows "pins (fmupd f fl' fs) a th \<longleftrightarrow> pins fs a th \<or> (awaits f th \<and> fl_entry fl' = Some a)"
  using assms by (cases th) (auto split: option.splits)

lemma flight_inv_finish:
  assumes inv: "flight_inv c (add_mset (ThFlight f spec r) ths)"
    and fl: "fmlookup (c_flightStore c) f = Some fl" "\<not> fl_finished fl"
    and fl': "fl_finished fl'" "fl_waiters fl' = fl_waiters fl" "fl_err fl' = None \<longleftrightarrow> fl_entry fl' \<noteq> None"
      "\<And>a. fl_entry fl' = Some a \<Longrightarrow> fmlookup (c_entryStore d) a \<noteq> None"
    and d: "c_flights d = fmdrop (fl_key fl) (c_flights c)" "c_flightStore d = fmupd f fl' (c_flightStore c)"
      "c_nextAddress c \<le> c_nextAddress d"
      "\<And>k. k \<noteq> fl_key fl \<Longrightarrow> fmlookup (c_entries c) k = None \<Longrightarrow> fmlookup (c_entries d) k = None"
      "\<And>a. fmlookup (c_entryStore c) a \<noteq> None \<Longrightarrow> fmlookup (c_entryStore d) a \<noteq> None"
  shows "flight_inv d (add_mset (ThEvicted programs r') ths)" (is "flight_inv d ?n")
proof (rule flight_invI)
  note F = flight_invD [OF inv]
  have own: "h = f" if "fmlookup (c_flights c) (fl_key fl) = Some h" for h using F(5) [OF fl] that by simp
  show "fmlookup (c_entries d) k = None \<and> (\<exists>fl. fmlookup (c_flightStore d) h = Some fl \<and> fl_key fl = k \<and> \<not> fl_finished fl)"
    if "fmlookup (c_flights d) k = Some h" for k h
  proof -
    have k: "k \<noteq> fl_key fl" "fmlookup (c_flights c) k = Some h" using that by (auto simp: d(1) split: if_splits)
    then have "h \<noteq> f" using F(1) [OF k(2)] fl by auto
    then show ?thesis using F(1) [OF k(2)] d(4) [OF k(1)] by (simp add: d(2))
  qed
  show "tally (flies h) ?n = of_bool (flying (c_flightStore d) h)" for h
    using F(2) [of h] fl fl'(1) by (cases "h = f") (simp_all add: flying_def d(2))
  show "tally (awaits h) ?n \<le> waiters_of (c_flightStore d) h" for h
    using F(3) [of h] fl fl'(2) by (cases "h = f") (simp_all add: waiters_of_def d(2))
  show "h < c_nextAddress d" if "fmlookup (c_flightStore d) h = Some hl" for h hl
    using F(4) [of h] F(4) [OF fl(1)] that d(3) by (cases "h = f") (auto simp: d(2))
  show "fl_waiters hl = tally (awaits h) ?n \<and> fmlookup (c_flights d) (fl_key hl) = Some h \<and> fl_entry hl = None"
    if "fmlookup (c_flightStore d) h = Some hl" "\<not> fl_finished hl" for h hl
  proof -
    have h: "h \<noteq> f" "fmlookup (c_flightStore c) h = Some hl" using that fl'(1) by (auto simp: d(2) split: if_splits)
    then have "fl_key hl \<noteq> fl_key fl" using F(5) [OF h(2) that(2)] own by auto
    then show ?thesis using F(5) [OF h(2) that(2)] by (simp add: d(1))
  qed
  show "(fl_err hl = None \<longleftrightarrow> fl_entry hl \<noteq> None) \<and> (\<forall>a. fl_entry hl = Some a \<longrightarrow> fmlookup (c_entryStore d) a \<noteq> None)"
    if "fmlookup (c_flightStore d) h = Some hl" "fl_finished hl" for h hl
  proof (cases "h = f")
    case True
    with that have "hl = fl'" by (simp add: d(2))
    with fl'(3,4) show ?thesis by simp
  next
    case False
    with that(1) have "fmlookup (c_flightStore c) h = Some hl" by (simp add: d(2))
    from F(6) [OF this that(2)] d(5) show ?thesis by simp
  qed
qed

lemma flying_flight:
  assumes inv: "flight_inv c (add_mset (ThFlight f spec r) ths)" and fl: "fmlookup (c_flightStore c) f = Some fl"
  shows "\<not> fl_finished fl" "fl_waiters fl = tally (awaits f) ths" "fmlookup (c_flights c) (fl_key fl) = Some f"
    "fmlookup (c_entries c) (fl_key fl) = None"
proof -
  have "of_bool (flying (c_flightStore c) f) = 1 + tally (flies f) ths" using flight_invD(2) [OF inv, of f] by simp
  then show "\<not> fl_finished fl" using tally_nonneg [of "flies f" ths] fl by (auto simp: flying_def split: if_splits)
  from flight_invD(5) [OF inv fl this]
  show "fl_waiters fl = tally (awaits f) ths" and key: "fmlookup (c_flights c) (fl_key fl) = Some f" by simp_all
  from flight_invD(1) [OF inv key] show "fmlookup (c_entries c) (fl_key fl) = None" by blast
qed

lemma idle_close:
  assumes "count_inv c (add_mset th ths)" and "close_inv c (add_mset th ths)" and "counted th"
  shows "\<not> c_releasing c \<and> \<not> c_released c"
  using assms(2) active_positive [OF assms(1,3)] by (auto simp: close_inv_def)

lemma world_inv_complete_failed:
  assumes inv: "world_inv w" and ths: "w_threads w = add_mset (ThFlight f spec r) ths"
    and fl: "fmlookup (c_flightStore (w_cache w)) f = Some fl"
    and c: "c = finish_flight f result (Some e) None n ((w_cache w)\<lparr>c_flights := fmdrop (fl_key fl) (c_flights (w_cache w))\<rparr>)"
    and loaded: "loaded = [] \<and> compiled = w_compiled w \<or> loaded = [w_compiled w] \<and> compiled = Suc (w_compiled w)"
  shows "world_inv ((move w c (add_mset (ThEvicted loaded r) ths))\<lparr>w_compiled := compiled\<rparr>)"
proof -
  let ?c = "w_cache w" and ?o = "add_mset (ThFlight f spec r) ths" and ?n = "add_mset (ThEvicted loaded r) ths"
  note old = world_invD [OF inv refl ths [symmetric]]
  note flying = flying_flight [OF old(5) fl]
  define fl' where "fl' = fl\<lparr>fl_result := result\<lparr>cr_Evicted := n\<rparr>, fl_err := Some e, fl_entry := None,
      fl_finished := True, fl_cancelled := True\<rparr>"
  have c': "c = ?c\<lparr>c_flights := fmdrop (fl_key fl) (c_flights ?c), c_flightStore := fmupd f fl' (c_flightStore ?c)\<rparr>"
    using fl by (simp add: c finish_flight_def upd_flight_def fl'_def)
  have "flight_inv c ?n"
    by (rule flight_inv_finish [OF old(5) fl flying(1), of fl']) (simp_all add: c' fl'_def)
  moreover have "pins (c_flightStore c) = pins (c_flightStore ?c)"
    using pins_finished [OF fl flying(1), of fl'] by (intro ext) (simp add: c' fl'_def)
  then have "ref_inv c ?n" using old(6) by (simp add: ref_inv_def) (simp add: c')
  moreover have "count_inv c ?n = count_inv ?c ?o" "load_inv c ?n = load_inv ?c ?o" "close_inv c ?n = close_inv ?c ?o"
      "entries_agree c = entries_agree ?c" "within_limits c = within_limits ?c"
    by (simp_all add: frame_defs c')
  moreover have "program_inv c ?n compiled (w_closed w @ w_lost w)"
    using old(7) loaded by (auto simp: program_inv_def c' program_of_def [abs_def] atLeastLessThanSuc)
  ultimately show ?thesis using old by (simp add: world_inv_def)
qed

text \<open>The new entry after the victims have gone.\<close>

lemma insert_entry_agree:
  assumes "entries_agree c" and "fmlookup (c_entries c) key = None"
  shows "entries_agree (insert_entry key weight program refs c)"
proof -
  let ?d = "insert_entry key weight program refs c" and ?a = "c_nextAddress c"
  have new: "fmlookup (c_entryStore c) ?a = None" using assms(1) unfolding entries_agree_def by (metis less_irrefl)
  have old: "b \<noteq> ?a" if "b \<in> set (c_lru c)" for b
    by (rule lru_entry [OF assms(1) that]) (use new in auto)
  have weights: "map (weight_of ?d) (c_lru c) = map (weight_of c) (c_lru c)"
    using old by (auto simp: weight_of_def insert_entry_def Let_def)
  have own: "weight_of ?d ?a = weight" by (simp add: weight_of_def insert_entry_def Let_def)
  have fields: "c_lru ?d = ?a # c_lru c" "c_currentWeight ?d = c_currentWeight c + weight"
    "c_nextAddress ?d = Suc ?a" "c_entries ?d = fmupd key ?a (c_entries c)"
    "c_entryStore ?d = fmupd ?a \<lparr>ce_key = key, ce_program = program, ce_weight = weight, ce_refs = refs\<rparr> (c_entryStore c)"
    by (simp_all add: insert_entry_def Let_def)
  have some: "fmlookup (c_entries ?d) k = Some b \<longleftrightarrow> k = key \<and> b = ?a \<or> fmlookup (c_entries c) k = Some b" for k b
    using assms(2) by (auto simp: fields)
  have "\<exists>e. fmlookup (c_entryStore ?d) b = Some e \<and> ce_key e = k" if "fmlookup (c_entries ?d) k = Some b" for k b
  proof (cases "k = key \<and> b = ?a")
    case False
    with that have "fmlookup (c_entries c) k = Some b" by (simp add: some)
    then obtain e where "fmlookup (c_entryStore c) b = Some e" "ce_key e = k"
      using assms(1) unfolding entries_agree_def by blast
    then show ?thesis using new by (auto simp: fields(5))
  qed (simp add: fields(5))
  moreover have "set (c_lru ?d) = {b. \<exists>k. fmlookup (c_entries ?d) k = Some b}"
    using assms(1) unfolding some entries_agree_def by (auto simp: fields(1))
  moreover have "distinct (c_lru ?d)" using assms(1) old by (auto simp: fields(1) entries_agree_def)
  moreover have "c_currentWeight ?d = sum_list (map (weight_of ?d) (c_lru ?d))"
    using assms(1) by (simp add: fields(1,2) own weights entries_agree_def)
  moreover have "b < c_nextAddress ?d" if "fmlookup (c_entryStore ?d) b \<noteq> None" for b
    using that assms(1) by (auto simp: fields entries_agree_def split: if_splits intro: less_SucI)
  ultimately show ?thesis unfolding entries_agree_def by blast
qed

lemma evicted_programs:
  assumes "distinct xs" and "distinct vs" and "set vs \<subseteq> set xs"
  shows "mset (map p (filter (\<lambda>a. a \<notin> set vs) xs)) + mset (map p vs) = mset (map p xs)"
proof -
  have "mset (filter (\<lambda>a. a \<in> set vs) xs) = mset vs"
    using assms by (intro set_eq_iff_mset_eq_distinct [THEN iffD1]) auto
  then have "mset (filter (\<lambda>a. a \<notin> set vs) xs) + mset vs = mset xs"
    by (metis add.commute mset_filter multiset_partition)
  then show ?thesis by (metis image_mset_union mset_map)
qed

lemma ref_inv_cached:
  assumes inv: "ref_inv c (add_mset (ThFlight f spec r) ths)" and new: "fmlookup (c_entryStore c) a = None"
    and unpinned: "\<And>b. b \<in> set vs \<Longrightarrow> refs_of (c_entryStore c) b = 0"
    and store: "c_entryStore d = fmupd a e (c_entryStore c)" "ce_refs e = tally (awaits f) ths"
    and lru: "c_lru d = a # filter (\<lambda>b. b \<notin> set vs) (c_lru c)"
    and pins: "\<And>b th. pins (c_flightStore d) b th \<longleftrightarrow> pins (c_flightStore c) b th \<or> (awaits f th \<and> a = b)"
  shows "ref_inv d (add_mset (ThEvicted programs r') ths)"
proof -
  have old: "refs_of (c_entryStore c) b = tally (pins (c_flightStore c) b) ths" for b
    using inv by (simp add: ref_inv_def)
  have "tally (pins (c_flightStore c) a) ths = 0" using old [of a] new by (simp add: refs_of_def)
  then have "tally (pins (c_flightStore d) a) ths = tally (awaits f) ths"
    by (intro tally_cong) (simp add: pins tally_zero)
  moreover have "tally (pins (c_flightStore d) b) ths = tally (pins (c_flightStore c) b) ths" if "b \<noteq> a" for b
    using that by (intro tally_cong) (simp add: pins)
  moreover have "refs_of (c_entryStore d) b = (if b = a then tally (awaits f) ths else refs_of (c_entryStore c) b)" for b
    by (simp add: refs_of_def store)
  moreover have "b \<in> set (c_lru d)" if "b \<noteq> a" "refs_of (c_entryStore c) b \<noteq> 0" for b
    using inv that unpinned by (auto simp: ref_inv_def lru)
  ultimately show ?thesis using old lru by (auto simp: ref_inv_def)
qed

lemma evicted_length:
  assumes "distinct xs" and "distinct vs" and "set vs \<subseteq> set xs"
  shows "length (filter (\<lambda>a. a \<notin> set vs) xs) + length vs = length xs"
  using arg_cong [OF evicted_programs [OF assms, of id], of size] by (simp only: size_union size_mset length_map)

lemma world_inv_complete_cached:
  assumes inv: "world_inv w" and ths: "w_threads w = add_mset (ThFlight f spec r) ths"
    and fl: "fmlookup (c_flightStore (w_cache w)) f = Some fl"
    and c0: "c0 = (w_cache w)\<lparr>c_flights := fmdrop (fl_key fl) (c_flights (w_cache w))\<rparr>"
    and victims: "selectVictimsLocked weight c0 = Inr victims"
    and evicted: "fold evict victims ([], c0) = (programs, c1)"
    and c: "c = finish_flight f result None (Some (c_nextAddress c1)) n
      (insert_entry (fl_key fl) weight (w_compiled w) (fl_waiters fl) c1)"
  shows "world_inv ((move w c (add_mset (ThEvicted programs r) ths))\<lparr>w_compiled := Suc (w_compiled w)\<rparr>)"
proof -
  let ?c = "w_cache w" and ?o = "add_mset (ThFlight f spec r) ths" and ?n = "add_mset (ThEvicted programs r) ths"
    and ?vs = "map fst victims" and ?a = "c_nextAddress (w_cache w)"
  note old = world_invD [OF inv refl ths [symmetric]]
  note flying = flying_flight [OF old(5) fl]
  have agree0: "entries_agree c0" using old(3) by (simp add: entries_agree_def c0 weight_of_def [abs_def])
  note sel = selectVictimsLocked_Inr [OF victims agree0]
  have ev: "programs = map (program_of c0) ?vs" "only_entries c0 c1" "entries_agree c1"
      "c_lru c1 = filter (\<lambda>a. a \<notin> set ?vs) (c_lru c0)"
      "c_currentWeight c1 = c_currentWeight c0 - sum_list (map (weight_of c0) ?vs)"
      "\<forall>k. fmlookup (c_entries c1) k = (case fmlookup (c_entries c0) k of None \<Rightarrow> None
          | Some a \<Rightarrow> if a \<in> set ?vs then None else Some a)"
    using evict_all [OF agree0 sel(1,2), of "[]"] evicted by auto
  note same = only_entriesD [OF ev(2)]
  define i where "i = insert_entry (fl_key fl) weight (w_compiled w) (fl_waiters fl) c1"
  define fl' where "fl' = fl\<lparr>fl_result := result\<lparr>cr_Evicted := n\<rparr>, fl_err := None, fl_entry := Some ?a,
      fl_finished := True, fl_cancelled := True\<rparr>"
  have cf: "c = i\<lparr>c_flightStore := fmupd f fl' (c_flightStore ?c)\<rparr>"
    using fl by (simp add: c finish_flight_def upd_flight_def fl'_def i_def insert_entry_def Let_def same c0)
  have new: "fmlookup (c_entryStore ?c) ?a = None" using old(3) unfolding entries_agree_def by (metis less_irrefl)
  have store: "c_entryStore c = fmupd ?a \<lparr>ce_key = fl_key fl, ce_program = w_compiled w, ce_weight = weight, ce_refs = fl_waiters fl\<rparr> (c_entryStore ?c)"
    and lru: "c_lru c = ?a # filter (\<lambda>a. a \<notin> set ?vs) (c_lru ?c)"
    and entries: "c_entries c = fmupd (fl_key fl) ?a (c_entries c1)"
    and flights: "c_flights c = fmdrop (fl_key fl) (c_flights ?c)" "c_flightStore c = fmupd f fl' (c_flightStore ?c)"
    and rest: "c_nextAddress c = Suc ?a" "c_loadGate c = c_loadGate ?c" "c_active c = c_active ?c" "c_drained c = c_drained ?c"
      "c_closing c = c_closing ?c" "c_releasing c = c_releasing ?c" "c_released c = c_released ?c"
      "c_closePending c = c_closePending ?c" "c_nextChannel c = c_nextChannel ?c" "c_closed c = c_closed ?c"
    by (simp_all add: cf i_def insert_entry_def Let_def same ev(4) c0)
  have "fmlookup (c_entries c1) (fl_key fl) = None" using ev(6) flying(4) by (simp add: c0)
  then have agree: "entries_agree i" unfolding i_def by (rule insert_entry_agree [OF ev(3)])
  then have "entries_agree c" by (simp add: cf entries_agree_def weight_of_def [abs_def])
  moreover have dist: "distinct (c_lru c0)" using agree0 by (simp add: entries_agree_def)
  have "length (c_lru c1) + length victims = length (c_lru c0)"
    using evicted_length [OF dist sel(1,2)] by (simp only: ev(4) length_map)
  then have "within_limits c"
    using old(4) sel(4,5) ev(5) by (simp add: within_limits_def cf i_def insert_entry_def Let_def same c0)
  moreover have "flight_inv c ?n"
    by (rule flight_inv_finish [OF old(5) fl flying(1), of fl']) (use ev(6) in \<open>simp_all add: fl'_def flights store entries rest c0\<close>)
  moreover have "ref_inv c ?n"
  proof (rule ref_inv_cached [OF old(6) new _ store _ lru])
    show "refs_of (c_entryStore ?c) b = 0" if "b \<in> set ?vs" for b
      using bspec [OF sel(3) that] by (auto simp: c0 refs_of_def)
    show "pins (c_flightStore c) b th \<longleftrightarrow> pins (c_flightStore ?c) b th \<or> (awaits f th \<and> ?a = b)" for b th
      unfolding flights(2) using pins_finished [OF fl flying(1), of fl' b th] by (simp add: fl'_def)
  qed (use flying(2) in simp)
  moreover have "program_inv c ?n (Suc (w_compiled w)) (w_closed w @ w_lost w)"
  proof -
    have "program_of c ?a = w_compiled w" "b \<noteq> ?a \<Longrightarrow> program_of c b = program_of ?c b" for b
      by (simp_all add: program_of_def store)
    moreover have "b \<noteq> ?a" if "b \<in> set (c_lru ?c)" for b
      by (rule lru_entry [OF old(3) that]) (use new in auto)
    ultimately have "map (program_of c) (c_lru c) = w_compiled w # map (program_of ?c) (filter (\<lambda>a. a \<notin> set ?vs) (c_lru ?c))"
      by (simp add: lru)
    moreover have "program_of c0 = program_of ?c" by (simp add: c0 program_of_def [abs_def])
    ultimately show ?thesis
      using old(7) evicted_programs [OF dist sel(1,2), of "program_of ?c"]
      unfolding program_inv_def by (simp add: ev(1) rest c0 ac_simps atLeastLessThanSuc)
  qed
  moreover have "count_inv c ?n = count_inv ?c ?o" "load_inv c ?n = load_inv ?c ?o" by (simp_all add: inv_defs rest)
  moreover have "close_inv c ?n" using idle_close [OF old(1,2)] old(2) by (simp add: close_inv_def rest)
  ultimately show ?thesis using old by (simp add: world_inv_def)
qed

lemma finish_flight_stats: "finish_flight f result e en n (bump_stats g c) = bump_stats g (finish_flight f result e en n c)"
  by (simp add: finish_flight_def upd_flight_def bump_stats_def split: option.split)

lemma insert_entry_stats: "insert_entry key weight p refs (bump_stats g c) = bump_stats g (insert_entry key weight p refs c)"
  by (simp add: insert_entry_def bump_stats_def Let_def)

lemma world_inv_complete:
  assumes inv: "world_inv w" and ths: "w_threads w = add_mset (ThFlight f spec r) ths"
    and fl: "fmlookup (c_flightStore (w_cache w)) f = Some fl"
    and load: "load = Inr (w_compiled w) \<or> (\<exists>e. load = Inl e)"
    and complete: "completeFlight (fl_key fl) weight load result f (w_cache w) = (programs, c)"
  shows "world_inv ((move w c (add_mset (ThEvicted programs r) ths))
    \<lparr>w_compiled := (case load of Inl _ \<Rightarrow> w_compiled w | Inr _ \<Rightarrow> Suc (w_compiled w))\<rparr>)" (is "world_inv (?w programs c)")
proof -
  define c0 where "c0 = (w_cache w)\<lparr>c_flights := fmdrop (fl_key fl) (c_flights (w_cache w))\<rparr>"
  let ?loaded = "case load of Inl _ \<Rightarrow> [] | Inr p \<Rightarrow> [p]"
  have plain: "world_inv (?w ?loaded (finish_flight f result (Some e) None n c0))" for e n
    by (rule world_inv_complete_failed [OF inv ths fl]) (use load in \<open>auto simp: c0_def\<close>)
  have stats: "world_inv (?w ?loaded (finish_flight f result (Some e) None n (bump_stats g c0)))" for e n g
    using plain [of e n] by (simp add: finish_flight_stats world_inv_def Let_def)
  note def = complete [unfolded completeFlight_def c0_def [symmetric] Let_def, symmetric]
  show ?thesis
  proof (cases "c_closing (w_cache w) \<or> load \<noteq> Inr (w_compiled w) \<or> fl_waiters fl = 0")
    case True
    then obtain e where "programs = ?loaded" "c = finish_flight f result (Some e) None (cr_Evicted result) c0"
      using def load fl by (auto split: if_splits)
    with plain show ?thesis by simp
  next
    case False
    then have l: "load = Inr (w_compiled w)" by blast
    show ?thesis
    proof (cases "selectVictimsLocked weight c0")
      case (Inl e)
      then have "programs = ?loaded" "c = finish_flight f result (Some e) None (cr_Evicted result)
          (bump_stats (\<lambda>s. s\<lparr>st_RejectionsFull := st_RejectionsFull s + 1\<rparr>) c0)"
        using def fl False l by simp_all
      with stats show ?thesis by simp
    next
      case (Inr victims)
      obtain ps c1 where ev: "fold evict victims ([], c0) = (ps, c1)" by (cases "fold evict victims ([], c0)")
      then have "programs = ps" "\<exists>g. c = bump_stats g (finish_flight f result None (Some (c_nextAddress c1)) (int (length victims))
           (insert_entry (fl_key fl) weight (w_compiled w) (fl_waiters fl) c1))"
        using def fl False l Inr by (auto simp: finish_flight_stats insert_entry_stats)
      with world_inv_complete_cached [OF inv ths fl c0_def Inr ev refl] l
      show ?thesis by (auto simp: world_inv_def Let_def)
    qed
  qed
qed

text \<open>A load: the program it returns is new, and so is one that is closed at once.\<close>

lemma loaded_programs:
  assumes "loadAndCompile source compile close t key spec = (load, result, discarded)"
    and "\<forall>wasm p. fst (compile wasm) = Some p \<longrightarrow> p = n"
  shows "discarded = None \<and> (load = Inr n \<or> (\<exists>e. load = Inl e))
    \<or> (\<exists>e closeErr. load = Inl e \<and> discarded = Some (n, closeErr))"
proof (cases "read_with_retry source spec")
  case (Inl e)
  then show ?thesis using assms(1) by (auto simp: loadAndCompile_def Let_def)
next
  case (Inr wasm)
  obtain program d err where c: "compile wasm = (program, d, err)" by (cases "compile wasm")
  have "p = n" if "program = Some p" for p using assms(2) [rule_format, of wasm p] c that by simp
  then show ?thesis
    using assms(1) Inr c by (cases program; cases err) (auto simp: loadAndCompile_def Let_def)
qed

lemma world_inv_discard:
  assumes "world_inv w"
  shows "world_inv (record_load load (Some (w_compiled w, closeErr)) w)"
  using assms by (auto simp: world_inv_def record_load_def program_inv_def Let_def)

lemma world_inv_loaded:
  assumes inv: "world_inv w" and ths: "w_threads w = add_mset (ThFlight f spec r) ths"
    and fl: "fmlookup (c_flightStore (w_cache w)) f = Some fl"
    and fresh: "\<forall>wasm p. fst (compile wasm) = Some p \<longrightarrow> p = w_compiled w"
    and load: "loadAndCompile source compile close t (fl_key fl) spec = (load, result, discarded)"
    and complete: "completeFlight (fl_key fl) weight load result f (w_cache w) = (programs, c)"
  shows "world_inv (record_load load discarded (move w c (add_mset (ThEvicted programs r) ths)))"
  using loaded_programs [OF load fresh]
proof (elim disjE exE conjE)
  fix e closeErr assume d: "load = Inl e" "discarded = Some (w_compiled w, closeErr)"
  let ?w = "move w c (add_mset (ThEvicted programs r) ths)"
  have "world_inv ?w" using world_inv_complete [OF inv ths fl _ complete] d(1) by simp
  from world_inv_discard [OF this, of load closeErr] d(2) show ?thesis by simp
qed (use world_inv_complete [OF inv ths fl _ complete] in \<open>auto simp: record_load_def\<close>)

lemma world_inv_acquire_step: "acquire_step platform w w' \<Longrightarrow> world_inv w \<Longrightarrow> world_inv w'"
  by (erule acquire_step.cases) (simp_all add: world_inv_begin world_inv_refused world_inv_hit world_inv_join
    world_inv_start world_inv_served world_inv_failed world_inv_abandon world_inv_end)

lemma world_inv_flight_step:
  assumes "flight_step w w'" and inv: "world_inv w"
  shows "world_inv w'"
  using assms(1)
proof cases
  case (step_loaded f spec ths fl compile source close loadTime load result discarded programs c)
  then show ?thesis using world_inv_loaded [OF inv] by blast
next
  case (step_unloaded f spec ths fl programs c)
  then show ?thesis using world_inv_complete [OF inv, of f spec ReservedNone ths fl "Inl context_Canceled"] by simp
qed (use inv in \<open>simp_all add: world_inv_admitted world_inv_dequeued world_inv_unqueued world_inv_evicted world_inv_unload\<close>)

lemma world_inv_lease_step: "lease_step w w' \<Longrightarrow> world_inv w \<Longrightarrow> world_inv w'"
  by (erule lease_step.cases) (simp_all add: world_inv_returned world_inv_release)

lemma world_inv_close_step: "close_step w w' \<Longrightarrow> world_inv w \<Longrightarrow> world_inv w'"
  by (erule close_step.cases) (simp_all add: world_inv_close world_inv_close_waits world_inv_close_leaves
    world_inv_detach world_inv_closed)

lemma world_inv_step: "cache_step platform w w' \<Longrightarrow> world_inv w \<Longrightarrow> world_inv w'"
  by (erule cache_step.cases)
    (simp_all add: world_inv_acquire_step world_inv_flight_step world_inv_lease_step world_inv_close_step)

lemma world_inv_reachable: "cache_reachable platform w \<Longrightarrow> world_inv w"
  by (induction rule: cache_reachable.induct) (auto intro: world_inv_new world_inv_step)

text \<open>Only a program that came with an error of the compiler is ever given up.\<close>

lemma lost_faulted_load:
  "set (w_lost w) \<subseteq> set (w_faulted w) \<Longrightarrow>
     set (w_lost (record_load load discarded w)) \<subseteq> set (w_faulted (record_load load discarded w))"
  by (auto simp: record_load_def split: option.split)

lemma lost_faulted_step:
  "cache_step platform w w' \<Longrightarrow> set (w_lost w) \<subseteq> set (w_faulted w) \<Longrightarrow> set (w_lost w') \<subseteq> set (w_faulted w')"
  by (elim cache_step.cases acquire_step.cases flight_step.cases lease_step.cases close_step.cases)
    (simp_all add: lost_faulted_load)

lemma lost_faulted: "cache_reachable platform w \<Longrightarrow> set (w_lost w) \<subseteq> set (w_faulted w)"
  by (induction rule: cache_reachable.induct) (simp, rule lost_faulted_step)

subsection \<open>What holds in every interleaving\<close>

lemma one_place:
  assumes "mset xs + M = mset [0..<n]" and "x \<in> set xs"
  shows "x \<notin># M"
proof
  assume "x \<in># M"
  then have "0 < count M x" "0 < count (mset xs) x" using assms(2) by (simp_all add: count_greater_zero_iff)
  then have "2 \<le> count (mset xs + M) x" unfolding count_union by linarith
  moreover have "count (mset [0..<n]) x \<le> 1" by (simp add: count_mset_set')
  ultimately show False using assms(1) by simp
qed

text \<open>
  C13: no program is closed while it is in use. In every interleaving of acquisitions, loads,
  evictions, releases and shutdowns, also after closes that failed, the entry under a lease is in
  the cache, its program has not been closed, and no goroutine holds it to close it.
\<close>

theorem leased_program_open:
  assumes "cache_reachable platform w" and "ThLease a n \<in># w_threads w"
  shows "\<exists>e. fmlookup (c_entryStore (w_cache w)) a = Some e
    \<and> fmlookup (c_entries (w_cache w)) (ce_key e) = Some a
    \<and> ce_program e \<notin> set (w_closed w) \<and> ce_program e \<notin> set (c_closePending (w_cache w))
    \<and> ce_program e \<notin> set (w_lost w)
    \<and> (\<forall>th. th \<in># w_threads w \<longrightarrow> ce_program e \<notin># held th)"
proof -
  let ?c = "w_cache w"
  note inv = world_invD [OF world_inv_reachable [OF assms(1)] refl refl]
  have a: "a \<in> set (c_lru ?c)" using pinned_entry(2) [OF inv(6) assms(2)] by simp
  obtain e where e: "fmlookup (c_entryStore ?c) a = Some e" "fmlookup (c_entries ?c) (ce_key e) = Some a"
    by (rule lru_entry [OF inv(3) a])
  let ?M = "(\<Sum>th \<in># w_threads w. held th) + mset (c_closePending ?c) + mset (w_closed w @ w_lost w)"
  have "ce_program e \<in> set (map (program_of ?c) (c_lru ?c))"
    using a e(1) by (force simp: program_of_def)
  then have "ce_program e \<notin># ?M"
    using inv(7) one_place [of "map (program_of ?c) (c_lru ?c)" ?M] by (simp add: program_inv_def add.assoc del: mset_map set_map)
  with e show ?thesis by (auto simp: in_Union_mset_iff)
qed

text \<open>
  C16: the cache stays within its bounds. In every interleaving, the weight that the statistics
  report is the sum of the weights of the entries and at most the configured limit, the number of
  entries is at most the configured limit, and at most the configured numbers of loads run and wait.
\<close>

theorem cache_bounded:
  assumes "cache_reachable platform w"
  shows "let c = w_cache w; s = Snapshot_of_cache c; g = c_loadGate c in
    st_CurrentWeight s = sum_list (map (weight_of c) (c_lru c)) \<and> set (c_lru c) = {a. \<exists>k. fmlookup (c_entries c) k = Some a}
    \<and> st_CurrentWeight s \<le> c_maxWeightBytes c \<and> st_Entries s \<le> c_maxEntries c
    \<and> tally (reserves ReservedActive) (w_threads w) \<le> ch_capacity (lg_active g)
    \<and> tally (reserves ReservedQueue) (w_threads w) \<le> ch_capacity (lg_queued g)"
proof -
  note inv = world_invD [OF world_inv_reachable [OF assms] refl refl]
  have "map_len (c_entries (w_cache w)) = length (c_lru (w_cache w))" by (rule length_lru [OF inv(3)])
  moreover have "set (c_lru (w_cache w)) = {a. \<exists>k. fmlookup (c_entries (w_cache w)) k = Some a}"
      "c_currentWeight (w_cache w) = sum_list (map (weight_of (w_cache w)) (c_lru (w_cache w)))"
    using inv(3) unfolding entries_agree_def by blast+
  ultimately show ?thesis
    using inv(4,8) by (simp add: Snapshot_of_cache_def within_limits_def load_inv_def Let_def)
qed

text \<open>
  C14: a completed shutdown leaks nothing and frees nothing twice. Once \<open>Close\<close> has succeeded, no
  lease is left, the cache is empty, and every program that was compiled without an error, whether
  it was cached, evicted, rejected or abandoned, and also if closing it failed at first, has been
  closed exactly once. A program that the compiler returned together with an error is closed at
  once and not retried: the programs that were never closed are among these, and every program was
  either closed once or given up once.
\<close>

theorem close_releases_all:
  assumes "cache_reachable platform w" and "c_released (w_cache w)"
  shows "mset (w_closed w) + mset (w_lost w) = mset [0..<w_compiled w] \<and> set (w_lost w) \<subseteq> set (w_faulted w)
    \<and> (\<forall>p < w_compiled w. p \<notin> set (w_faulted w) \<longrightarrow> count (mset (w_closed w)) p = 1)
    \<and> c_entries (w_cache w) = fmempty \<and> (\<forall>a n. ThLease a n \<notin># w_threads w)"
proof -
  let ?c = "w_cache w"
  note inv = world_invD [OF world_inv_reachable [OF assms(1)] refl refl]
  have c: "c_active ?c = 0" "c_entries ?c = fmempty" "c_lru ?c = []" "c_closePending ?c = []"
    and rel: "\<forall>ps ch. ThRelease ps ch \<in># w_threads w \<longrightarrow> ps = []"
    using inv(2) assms(2) by (simp_all add: close_inv_def)
  have idle: "\<forall>th. th \<in># w_threads w \<longrightarrow> \<not> counted th" using inv(1) c(1) by (simp add: count_inv_def tally_zero)
  have "held th = {#}" if "th \<in># w_threads w" for th
    using idle rel that by (cases th) auto
  then have "(\<Sum>th \<in># w_threads w. held th) = {#}" by (simp add: sum_mset.neutral)
  then have all: "mset (w_closed w) + mset (w_lost w) = mset [0..<w_compiled w]"
    using inv(7) unfolding program_inv_def c by (simp only:) simp
  note lost = lost_faulted [OF assms(1)]
  have "count (mset (w_closed w)) p = 1" if "p < w_compiled w" "p \<notin> set (w_faulted w)" for p
  proof -
    have "p \<notin># mset (w_lost w)" using that(2) lost by auto
    then have "count (mset (w_lost w)) p = 0" unfolding not_in_iff .
    moreover have "count (mset (w_closed w)) p + count (mset (w_lost w)) p = 1"
      using that(1) arg_cong [OF all, of "\<lambda>M. count M p"] by (simp add: count_mset_set')
    ultimately show ?thesis by linarith
  qed
  with all lost c(2) idle show ?thesis by auto
qed

text \<open>A run of \<open>Close\<close> in a cache that nothing else uses compiles no program.\<close>

definition same_programs :: "world \<Rightarrow> world \<Rightarrow> bool" where
  "same_programs w w' \<longleftrightarrow> w_compiled w' = w_compiled w \<and> w_faulted w' = w_faulted w \<and> w_lost w' = w_lost w"

lemma close_run:
  assumes "world_inv w" and idle: "\<forall>th. th \<in># w_threads w \<longrightarrow> \<not> counted th"
  shows "\<exists>w'. (cache_step platform)\<^sup>*\<^sup>* w w' \<and> c_released (w_cache w') \<and> same_programs w w'"
proof -
  have finish: "\<exists>w'. (cache_step platform)\<^sup>*\<^sup>* v w' \<and> c_released (w_cache w') \<and> same_programs v w'"
    if "w_threads v = add_mset (ThRelease ps ch) ths" for v :: world and ps ch ths
    by (intro exI conjI, rule r_into_rtranclp, rule by_close, rule step_closed [OF that, where bad = "\<lambda>_. False"])
      (simp_all add: Close_finish_def same_programs_def Let_def)
  let ?c = "w_cache w"
  note inv = world_invD [OF assms(1) refl refl]
  consider (released) "c_released ?c" | (releasing) "\<not> c_released ?c" "c_releasing ?c" | (neither) "\<not> c_released ?c" "\<not> c_releasing ?c" by blast
  then show ?thesis
  proof cases
    case releasing
    then have "tally releases (w_threads w) \<noteq> 0" using inv(2) by (simp add: close_inv_def)
    then obtain th where "th \<in># w_threads w" "releases th" by (auto simp: tally_zero)
    then obtain ps ch ths where "w_threads w = add_mset (ThRelease ps ch) ths" by (cases th) (auto dest: multi_member_split)
    then show ?thesis by (rule finish)
  next
    case neither
    define c where "c = (if c_closing ?c then ?c else cancelFlightsLocked (?c\<lparr>c_closing := True\<rparr>))"
    have enter: "Close_enter ?c = (CloseAwaitDrained (c_drained ?c), c)"
        "\<not> c_releasing c" "c_closed c = c_closed ?c" "c_entries c = c_entries ?c"
      using neither by (simp_all add: Close_enter_def c_def Let_def)
    let ?w1 = "move w c (add_mset (ThClose (c_drained ?c)) (w_threads w))"
    have "c_active ?c = 0" using inv(1) idle by (simp add: count_inv_def tally_zero)
    then have drained: "c_drained ?c |\<in>| c_closed (w_cache ?w1)" using inv(1) enter(3) by (simp add: count_inv_def)
    obtain order where order: "visits order (c_entries (w_cache ?w1))"
      using finite_distinct_list [OF finite_map_dom [of "c_entries c"]] by (auto simp: visits_def)
    obtain ps d where detach: "Close_detach order (w_cache ?w1) = (ps, d)" by (cases "Close_detach order (w_cache ?w1)")
    let ?w2 = "move ?w1 d (add_mset (ThRelease ps (c_releaseDone d)) (w_threads w))"
    have "cache_step platform w ?w1" by (rule by_close [OF step_close [OF enter(1)]])
    moreover have "cache_step platform ?w1 ?w2"
      by (rule by_close, rule step_detach [OF _ drained _ order detach]) (use enter(2) in simp_all)
    moreover obtain w' where "(cache_step platform)\<^sup>*\<^sup>* ?w2 w'" "c_released (w_cache w')" "same_programs w w'"
      using finish [of ?w2 ps "c_releaseDone d" "w_threads w"] by (auto simp: same_programs_def)
    ultimately show ?thesis by (meson converse_rtranclp_into_rtranclp)
  qed (auto simp: same_programs_def)
qed

text \<open>
  C15: shutdown is never stuck. Once all leases are released and no acquisition or load is under way,
  \<open>Close\<close> can run to completion: a sequence of its steps leads to the released cache, from
  every reachable state, also after earlier attempts that gave up or failed to close a program.
\<close>

theorem close_completes:
  assumes "cache_reachable platform w" and "\<forall>th. th \<in># w_threads w \<longrightarrow> \<not> counted th"
  shows "\<exists>w'. (cache_step platform)\<^sup>*\<^sup>* w w' \<and> c_released (w_cache w')"
  using close_run [OF world_inv_reachable [OF assms(1)] assms(2)] by blast

text \<open>
  What is compiled is exactly the artifact: bytes of the stated length with the stated digest.
\<close>

lemma compiled_bytes_verified:
  assumes "loadAndCompile source compile close t key spec = (Inr p, result, discarded)"
  shows "\<exists>wasm d. compile wasm = (Some p, d, None) \<and> Sum wasm = mo_ArtifactDigest spec \<and> int (length wasm) = mo_ArtifactSize spec"
  using assms unfolding loadAndCompile_def read_with_retry_def readVerifiedArtifact_def
  by (auto simp: Let_def split: sum.splits if_splits prod.splits option.splits)

subsection \<open>A run\<close>

definition demo_config :: CacheConfig where
  "demo_config = \<lparr>cc_MaxWeightBytes = 0, cc_MaxEntries = 0, cc_MaxConcurrentLoads = 0, cc_MaxQueuedLoads = 0\<rparr>"

definition demo_cache :: Cache where
  "demo_cache = \<lparr>c_profile = \<lparr>wp_Engine = EngineCompiler, wp_MemoryLimitMiB = 128\<rparr>,
     c_maxWeightBytes = DefaultMaxWeightBytes, c_maxEntries = DefaultMaxEntries, c_loadGate = newLoadGate 2 64,
     c_entries = fmempty, c_lru = [], c_flights = fmempty, c_currentWeight = 0, c_active = 0, c_drained = 0,
     c_closing = False, c_releasing = False, c_released = False, c_releaseDone = 0, c_closePending = [],
     c_stats = zero_stats, c_entryStore = fmempty, c_flightStore = fmempty, c_nextAddress = 0,
     c_nextChannel = 1, c_closed = {|0|}\<rparr>"

definition demo_spec :: ModuleSpec where
  "demo_spec = \<lparr>mo_ArtifactDigest = Sum ''wasm'', mo_ArtifactSize = 4, mo_ABI = ABIWASICommandV1,
     mo_HostAPIProfile = HostAPIProfileNone, mo_RuntimeFeatureProfile = FeatureProfile\<rparr>"

definition demo_source :: artifact_source where
  "demo_source n = (Some \<lparr>af_contents = ''wasm'', af_readErr = None, af_closeErr = None\<rparr>,
     \<lparr>ai_Digest = Sum ''wasm'', ai_Size = 4\<rparr>, None)"

lemma demo_read: "read_with_retry demo_source demo_spec = Inr ''wasm''"
proof -
  have "readVerifiedArtifact demo_source 0 demo_spec = Inr ''wasm''"
    by (simp add: readVerifiedArtifact_def demo_source_def read_limited_def errors_Join_def demo_spec_def)
  then show ?thesis by (simp add: read_with_retry_def)
qed

abbreviation demo_platform :: "string \<times> string" where "demo_platform \<equiv> (''linux'', ''amd64'')"

definition demo_new :: world where
  "demo_new = \<lparr>w_cache = demo_cache, w_threads = {#}, w_compiled = 0, w_closed = [], w_faulted = [], w_lost = []\<rparr>"

lemma demo_new_reachable: "cache_reachable demo_platform demo_new"
proof -
  have "NewCache demo_config \<lparr>wp_Engine = EngineCompiler, wp_MemoryLimitMiB = 128\<rparr> = Inr demo_cache"
    by (simp add: NewCache_def demo_config_def default_to_def newProfile_def NewWasmProfile_def ValidMemoryTier_def
        memoryTiersMiB_def demo_cache_def)
  then show ?thesis unfolding demo_new_def by (rule reachable_new)
qed

text \<open>One goroutine acquires the module and starts a flight, which may run at once.\<close>

lemma demo_flying:
  "\<exists>w f fl. cache_reachable demo_platform w \<and> w_compiled w = 0 \<and> w_faulted w = [] \<and> w_lost w = []
     \<and> w_threads w = {#ThFlight f demo_spec ReservedActive, ThAwait f False#}
     \<and> fmlookup (c_flightStore (w_cache w)) f = Some fl \<and> fl_waiters fl = 1 \<and> \<not> c_closing (w_cache w)
     \<and> c_lru (w_cache w) = [] \<and> c_currentWeight (w_cache w) = 0 \<and> c_entries (w_cache w) = fmempty
     \<and> c_maxWeightBytes (w_cache w) = DefaultMaxWeightBytes \<and> c_maxEntries (w_cache w) = DefaultMaxEntries"
proof -
  have "\<exists>key. profile_key demo_platform (c_profile demo_cache) demo_spec = Inr key"
    by (simp add: profile_key_def demo_spec_def bad_digest_iff MaxArtifactBytes_def)
  then obtain key where key: "profile_key demo_platform (c_profile demo_cache) demo_spec = Inr key" ..
  define f where "f = c_nextAddress demo_cache"
  define c1 where "c1 = startLocked demo_cache"
  define w1 where "w1 = move demo_new c1 {#ThBegun key demo_spec#}"
  have b: "Acquire_begin demo_platform None demo_spec (w_cache demo_new) = (Inr key, c1)"
    using key by (simp add: Acquire_begin_def demo_new_def begin_work_def c1_def) (simp add: demo_cache_def demo_spec_def)
  have r1: "cache_reachable demo_platform w1"
    using reachable_step [OF demo_new_reachable by_acquire [OF step_begin [OF b]]] by (simp add: w1_def demo_new_def)
  have "\<exists>c. Acquire_lookup key c1 = (Inr (LookupStart f ReservedActive), c) \<and>
      (\<exists>fl. fmlookup (c_flightStore c) f = Some fl \<and> fl_waiters fl = 1) \<and> \<not> c_closing c
      \<and> c_lru c = [] \<and> c_currentWeight c = 0 \<and> c_entries c = fmempty \<and> c_maxWeightBytes c = DefaultMaxWeightBytes
      \<and> c_maxEntries c = DefaultMaxEntries"
    by (simp add: Acquire_lookup_def c1_def) (simp add: demo_cache_def gate_reserve_def newLoadGate_def has_room_def f_def bump_stats_def Let_def)
  then obtain c2 fl where c2: "Acquire_lookup key c1 = (Inr (LookupStart f ReservedActive), c2)"
      "fmlookup (c_flightStore c2) f = Some fl" "fl_waiters fl = 1" "\<not> c_closing c2" "c_lru c2 = []"
      "c_currentWeight c2 = 0" "c_entries c2 = fmempty" "c_maxWeightBytes c2 = DefaultMaxWeightBytes" "c_maxEntries c2 = DefaultMaxEntries"
    by blast
  have "cache_reachable demo_platform (move w1 c2 {#ThFlight f demo_spec ReservedActive, ThAwait f False#})"
    by (rule reachable_step [OF r1 by_acquire [OF step_start]]) (use c2(1) in \<open>simp_all add: w1_def\<close>)
  then show ?thesis
    by (intro exI conjI) (assumption, use c2 in \<open>simp_all add: w1_def demo_new_def\<close>)
qed

text \<open>The module is compiled and cached, and the goroutine gets a lease.\<close>

lemma demo_leased:
  "\<exists>w a programs. cache_reachable demo_platform w \<and> w_compiled w = 1 \<and> w_faulted w = []
     \<and> w_threads w = {#ThLease a 0, ThEvicted programs ReservedActive#}"
proof -
  obtain w f fl where w: "cache_reachable demo_platform w" "w_compiled w = 0" "w_faulted w = []"
      "w_threads w = {#ThFlight f demo_spec ReservedActive, ThAwait f False#}"
    and c: "fmlookup (c_flightStore (w_cache w)) f = Some fl" "fl_waiters fl = 1" "\<not> c_closing (w_cache w)"
      "c_lru (w_cache w) = []" "c_currentWeight (w_cache w) = 0" "c_entries (w_cache w) = fmempty"
      "c_maxWeightBytes (w_cache w) = DefaultMaxWeightBytes" "c_maxEntries (w_cache w) = DefaultMaxEntries"
    using demo_flying by blast
  let ?compile = "\<lambda>_ :: string. (Some 0, 0, None) :: nat option \<times> duration \<times> error option"
  obtain result where load: "loadAndCompile demo_source ?compile (\<lambda>_. None) 0 (fl_key fl) demo_spec = (Inr 0, result, None)"
    by (simp add: loadAndCompile_def demo_read Let_def)
  obtain programs d where d: "completeFlight (fl_key fl) (mo_ArtifactSize demo_spec) (Inr 0) result f (w_cache w) = (programs, d)"
    by (cases "completeFlight (fl_key fl) (mo_ArtifactSize demo_spec) (Inr 0) result f (w_cache w)")
  have "\<exists>res a. awaitFlight_done f False d = Some (Inr a, res)"
    using d c by (auto simp: completeFlight_def selectVictimsLocked_def finish_flight_def awaitFlight_done_def
        insert_entry_def bump_stats_def demo_spec_def Let_def)
  then obtain res a where served: "awaitFlight_done f False d = Some (Inr a, res)" by blast
  let ?w = "record_load (Inr 0) None (move w d (add_mset (ThEvicted programs ReservedActive) {#ThAwait f False#}))"
  have r1: "cache_reachable demo_platform ?w"
    by (rule reachable_step [OF w(1) by_flight [OF step_loaded [OF w(4) c(1) _ load d]]]) (simp add: w(2))
  have "cache_reachable demo_platform (?w\<lparr>w_threads := {#ThLease a 0, ThEvicted programs ReservedActive#}\<rparr>)"
    by (rule reachable_step [OF r1 by_acquire [OF step_served [where f = f and coalesced = False and result = res]]])
      (use served in \<open>simp_all add: record_load_def add_mset_commute\<close>)
  then show ?thesis by (intro exI conjI) (assumption, simp_all add: record_load_def w(2,3))
qed

theorem leased_program_open_witness:
  "\<exists>w a e. cache_reachable demo_platform w \<and> ThLease a 0 \<in># w_threads w
     \<and> fmlookup (c_entryStore (w_cache w)) a = Some e \<and> ce_program e \<notin> set (w_closed w)"
proof -
  obtain w a where "cache_reachable demo_platform w" "ThLease a 0 \<in># w_threads w" using demo_leased by force
  with leased_program_open [OF this] show ?thesis by blast
qed

theorem cache_bounded_witness:
  "\<exists>w. cache_reachable demo_platform w \<and> w_compiled w = 1
     \<and> st_CurrentWeight (Snapshot_of_cache (w_cache w)) \<le> c_maxWeightBytes (w_cache w)"
proof -
  obtain w where "cache_reachable demo_platform w" "w_compiled w = 1" using demo_leased by blast
  with cache_bounded [OF this(1)] show ?thesis by (auto simp: Let_def)
qed

lemma reachable_steps: "(cache_step platform)\<^sup>*\<^sup>* w w' \<Longrightarrow> cache_reachable platform w \<Longrightarrow> cache_reachable platform w'"
  by (induction rule: rtranclp_induct) (auto intro: reachable_step)

lemma demo_idle: "\<forall>th. th \<in># w_threads demo_new \<longrightarrow> \<not> counted th"
  by (simp add: demo_new_def)

theorem close_completes_witness:
  "\<exists>w'. (cache_step demo_platform)\<^sup>*\<^sup>* demo_new w' \<and> c_released (w_cache w')"
  by (rule close_completes [OF demo_new_reachable demo_idle])

text \<open>The lease is released, the goroutine of the flight ends, and the cache is closed.\<close>

lemma demo_idle_again:
  "\<exists>w. cache_reachable demo_platform w \<and> w_compiled w = 1 \<and> w_faulted w = [] \<and> w_threads w = {#}"
proof -
  obtain w a programs where w: "cache_reachable demo_platform w" "w_compiled w = 1" "w_faulted w = []"
      "w_threads w = {#ThLease a 0, ThEvicted programs ReservedActive#}"
    using demo_leased by blast
  have r1: "cache_reachable demo_platform (move w (Lease_Release a (w_cache w)) {#ThEvicted programs ReservedActive#})"
    by (rule reachable_step [OF w(1) by_lease [OF step_release]]) (rule w(4))
  note r2 = reachable_step [OF r1 by_flight [OF step_evicted [where bad = "\<lambda>_. False" and ths = "{#}" and programs = programs]]]
  note r3 = reachable_step [OF r2 by_flight [OF step_unload [where ths = "{#}"]]]
  note r4 = reachable_step [OF r3 by_acquire [OF step_end [where ths = "{#}"]]]
  show ?thesis by (intro exI conjI, rule r4) (simp_all add: w)
qed

lemma demo_closed:
  "\<exists>w. cache_reachable demo_platform w \<and> c_released (w_cache w) \<and> w_compiled w = 1 \<and> w_faulted w = []"
proof -
  obtain w where w: "cache_reachable demo_platform w" "w_compiled w = 1" "w_faulted w = []" "w_threads w = {#}"
    using demo_idle_again by blast
  have "\<forall>th. th \<in># w_threads w \<longrightarrow> \<not> counted th" by (simp add: w(4))
  from close_run [OF world_inv_reachable [OF w(1)] this] show ?thesis
    using reachable_steps [OF _ w(1)] w(2,3) unfolding same_programs_def by metis
qed

text \<open>
  A program that comes with an error, and whose only close fails, stays open when \<open>Close\<close> has
  succeeded.
\<close>

lemma lost_program_reachable:
  "\<exists>w. cache_reachable demo_platform w \<and> c_released (w_cache w) \<and> w_lost w = [0]"
proof -
  obtain w f fl where w: "cache_reachable demo_platform w" "w_compiled w = 0" "w_lost w = []"
      "w_threads w = {#ThFlight f demo_spec ReservedActive, ThAwait f False#}"
    and fl: "fmlookup (c_flightStore (w_cache w)) f = Some fl"
    using demo_flying by blast
  let ?e = "Opaque ''broken''"
  let ?compile = "\<lambda>_ :: string. (Some 0, 0, Some ?e) :: nat option \<times> duration \<times> error option"
  obtain e result where load: "loadAndCompile demo_source ?compile (\<lambda>_. Some ?e) 0 (fl_key fl) demo_spec
      = (Inl e, result, Some (0, Some ?e))"
    by (simp add: loadAndCompile_def demo_read Let_def)
  obtain programs d where d: "completeFlight (fl_key fl) (mo_ArtifactSize demo_spec) (Inl e) result f (w_cache w) = (programs, d)"
    by (cases "completeFlight (fl_key fl) (mo_ArtifactSize demo_spec) (Inl e) result f (w_cache w)")
  have r1: "cache_reachable demo_platform (record_load (Inl e) (Some (0, Some ?e))
      (move w d (add_mset (ThEvicted programs ReservedActive) {#ThAwait f False#})))"
    by (rule reachable_step [OF w(1) by_flight [OF step_loaded [OF w(4) fl _ load d]]]) (simp add: w(2))
  note r2 = reachable_step [OF r1 by_flight [OF step_evicted [where bad = "\<lambda>_. False" and programs = programs and r = ReservedActive
      and ths = "{#ThAwait f False#}"]]]
  note r3 = reachable_step [OF r2 by_flight [OF step_unload [where r = ReservedActive and ths = "{#ThAwait f False#}"]]]
  note r4 = reachable_step [OF r3 by_acquire [OF step_end [where ths = "{#ThAwait f False#}"]]]
  note r5 = reachable_step [OF r4 by_acquire [OF step_abandon [where f = f and coalesced = False and ths = "{#}"]]]
  note r6 = reachable_step [OF r5 by_acquire [OF step_end [where ths = "{#}"]]]
  have "\<exists>v. cache_reachable demo_platform v \<and> w_threads v = {#} \<and> w_lost v = [0]"
    by (intro exI conjI, rule r6) (simp_all add: record_load_def w(3))
  then obtain v where v: "cache_reachable demo_platform v" "w_threads v = {#}" "w_lost v = [0]" by blast
  have "\<forall>th. th \<in># w_threads v \<longrightarrow> \<not> counted th" by (simp add: v(2))
  from close_run [OF world_inv_reachable [OF v(1)] this] show ?thesis
    using reachable_steps [OF _ v(1)] v(3) unfolding same_programs_def by metis
qed

theorem close_releases_all_witness:
  "\<exists>w. cache_reachable demo_platform w \<and> c_released (w_cache w) \<and> w_compiled w = 1 \<and> count (mset (w_closed w)) 0 = 1"
proof -
  obtain w where w: "cache_reachable demo_platform w" "c_released (w_cache w)" "w_compiled w = 1" "w_faulted w = []"
    using demo_closed by blast
  have "count (mset (w_closed w)) 0 = 1" using close_releases_all [OF w(1,2)] w(3,4) by simp
  with w show ?thesis by blast
qed

end
