(* ===== verification/Spec2Isabelle.thy ===== *)
theory Spec2Isabelle
  imports Routing WorkerRegistry ControlPlane StrictJsonMarshal ControlOperation LocalServing GatewayRoute WorkerCache
begin

text \<open>
  Verification of \<^emph>\<open>minicloud\<close>, a platform that runs WebAssembly functions behind HTTP.

  \<^bold>\<open>The program.\<close> A control plane (\<^verbatim>\<open>internal/controlplane\<close>) holds the desired state: Functions
  with their HTTP triggers, Versions and Deployments, Routes, and Assignments of Versions to workers.
  A planner (\<^verbatim>\<open>internal/scheduler\<close>) places Versions on the workers that the registry
  (\<^verbatim>\<open>internal/workerregistry\<close>) knows. Discovery (\<^verbatim>\<open>internal/discovery\<close>) turns the desired state and
  the endpoints into serving snapshots, the gateway store (\<^verbatim>\<open>internal/gatewaydiscovery\<close>) receives
  them, the routing selector (\<^verbatim>\<open>internal/routing\<close>) picks a Version by hashing, and the balancer
  (\<^verbatim>\<open>internal/gatewayroute\<close>) picks an endpoint. A worker admits an invocation through its
  authorization gate (\<^verbatim>\<open>internal/servingauth\<close>) and keeps the compiled modules in a cache
  (\<^verbatim>\<open>internal/workercache\<close>).

  \<^bold>\<open>How the code is modelled.\<close> A struct is a \<^verbatim>\<open>record\<close> with one field per field of the source, an
  enumeration a \<^verbatim>\<open>datatype\<close> whose last constructor takes any other string, a string or byte slice a
  HOL \<open>string\<close>, a map an \<open>fmap\<close>, an unsigned integer a word of its width; \<open>int\<close> and \<open>int64\<close> are
  integers. An operation is a function from its arguments and the state to an error or a result and
  the new state; clock readings and the outcome of a context check are arguments. Validation is a
  list of checks of which the first that fails is returned (\<open>first_error\<close>). A loop over a map
  visits the keys in ascending order where the language leaves the order open. Defensive copies are
  the identity and nil receivers are left out. The canonicalizer of RFC 8785, a package of its own, is
  the argument \<open>jcs\<close>.

  \<^bold>\<open>Theories.\<close>
  \<^item> \<open>Prelude\<close>, \<open>Machine\<close>: checks, maps, counting; the locales \<open>component\<close>, \<open>evolving\<close> and
    \<open>revisioned\<close> that say what a component proves of each operation and what then holds of every
    sequence of operations. Each stateful component interprets them.
  \<^item> \<open>GoText\<close>, \<open>GoSort\<close>, \<open>GoHash\<close>, \<open>GoJson\<close>, \<open>GoTime\<close>, \<open>GoNet\<close>: the parts of the standard library that
    the program uses: UTF-8, stable sorting by a comparison (locales \<open>go_compare\<close>, \<open>key_compare\<close>), SHA-256,
    \<^verbatim>\<open>json.Marshal\<close>, times, addresses.
  \<^item> \<open>Problem\<close>, \<open>Digest\<close>, \<open>WasmProfile\<close>, \<open>Model\<close>: the error catalog, protocol digests, the runtime profile and
    the resource types of \<^verbatim>\<open>internal/model\<close> with their \<open>Validate\<close> functions.
  \<^item> \<open>Routing\<close>: hash framing, buckets and weighted selection. Every bucket selects a target, the shares
    are the weights exactly, and the order of the targets does not matter.
  \<^item> \<open>StrictJson\<close>, \<open>StrictJsonMarshal\<close>: the bounded reader and \<^verbatim>\<open>strictjson.Validate\<close> over the token machine
    of \<^verbatim>\<open>json.Decoder\<close>. The recursion has fuel: twice the length of the input plus one is enough for
    every input (\<open>strict_validate_terminates\<close>), and the result does not depend on it. On the text of a
    marshalled value it accepts exactly unique keys within the depth limit.
  \<^item> \<open>ServingAuth\<close>: the gate. An invocation is admitted exactly while the present session has installed a
    permission for its whole fence that has not expired; stale fences and bad clocks are refused.
  \<^item> \<open>Scheduler\<close>, \<open>Planner\<close>: placement. The chosen worker is eligible and best in the documented order, in
    whatever order the workers are given, and a repeated command gets the same answer.
  \<^item> \<open>WorkerRegistry\<close>: sessions, heartbeats, intents and drain. A worker is removed only after it has
    drained; stale sessions are refused.
  \<^item> \<open>ControlCatalog\<close>, \<open>ControlRelease\<close>, \<open>ControlRoute\<close>, \<open>ControlAssignment\<close>, \<open>ValidatorProtocol\<close>, \<open>ControlPlane\<close>: the
    desired state and the aggregate over it. Serving states always exist, a Version becomes ready only
    through its own validation (also where creating one overlaps other operations), a revision identifies content, the counts of Assignments are exact,
    and the two-index catalog refines a single map.
  \<^item> \<open>ControlOperation\<close>: the ledger that makes a management operation take effect at most once.
  \<^item> \<open>Discovery\<close>, \<open>GatewayDiscovery\<close>, \<open>GatewayRoute\<close>: snapshots, the gateway store and the balancer. A
    snapshot publishes exactly the endpoints that carry the whole fence of a target, a lookup returns
    only fresh validated views, positions do not go back, and occupancy counts are exact.
  \<^item> \<open>LocalServing\<close>: the control plane, discovery and the gateway store composed
    (\<^verbatim>\<open>internal/localserving\<close>). What the control plane hands over is always well formed, and a full
    synchronization brings the gateway to the position and the state of the control plane, as long
    as its monotonic clock has not run backwards.
  \<^item> \<open>WorkerCache\<close>: the cache of compiled modules. Its critical sections are functions, its goroutines a
    multiset of program points, and \<open>cache_step\<close> interleaves their steps (\<open>acquire_step\<close>, \<open>flight_step\<close>,
    \<open>lease_step\<close>, \<open>close_step\<close>). In every interleaving no program in use is closed, the bounds hold, and a
    completed shutdown has closed every program exactly once, but for those that the compiler
    returned together with an error and that could not be closed then.

  \<^bold>\<open>Bounds.\<close> Counters of 64 bits wrap in the model as in the code; where a statement needs that they
  do not, it says so (\<open>inflight_exact\<close> up to \<open>2^64\<close> leases). Lists and maps have the limits the code
  enforces and no others.

  \<^bold>\<open>Not modelled.\<close> The HTTP boundaries (\<^verbatim>\<open>internal/gatewayhttp\<close>, \<^verbatim>\<open>internal/managementhttp\<close>), the RPC transport
  (\<^verbatim>\<open>internal/rpc\<close>), the artifact store and the command line programs are input and output over the
  types of \<^verbatim>\<open>net/http\<close>, connections, files and processes. The validator engine, \<^verbatim>\<open>internal/wasmexec\<close> and
  the inspection of modules in \<^verbatim>\<open>internal/wasmprofile\<close> are calls into the third-party runtime wazero.
  The guest ABI in \<^verbatim>\<open>sdk/go/minicloudabi\<close> decodes structs by the reflection of \<^verbatim>\<open>encoding/json\<close>. The
  loops of \<^verbatim>\<open>internal/localcore\<close>, \<^verbatim>\<open>internal/localworker\<close>, \<^verbatim>\<open>internal/workeragent\<close> and the rest of
  \<^verbatim>\<open>internal/localcontroller\<close> drive the components above and are not modelled themselves.
\<close>

end
